(* ===== verification/Prelude.thy ===== *)
theory Prelude
  imports
    Main
    "HOL-Library.Word"
    "HOL-Library.AList"
    "HOL-Library.Char_ord"
    "HOL-Library.List_Lexorder"
    "HOL-Library.Code_Target_Nat"
begin

text \<open>
  Shared vocabulary of the development: the machine types of the Go source, byte strings,
  big-endian integers (\<open>encoding/binary\<close>), Go maps as association lists with distinct keys,
  signed 64-bit arithmetic, instants of \<open>time.Time\<close>, and the lemma collections the components
  share. Nothing in this theory models a file of the repository; it models the parts of the Go
  language and its standard library that the modelled files use.
\<close>

section \<open>Machine types\<close>

type_synonym u8 = "8 word"
type_synonym u16 = "16 word"
type_synonym u32 = "32 word"
type_synonym u64 = "64 word"

text \<open>An \<open>int64\<close> is the same 64 bits read in two's complement by \<open>sint\<close>.\<close>

type_synonym i64 = "64 word"
type_synonym bytes = "u8 list"

named_theorems codec_simps \<open>evaluation of encoders and decoders\<close>
named_theorems gomap_simps \<open>rules for Go maps as association lists\<close>

section \<open>Error branches\<close>

text \<open>
  A Go function that returns \<open>(T, error)\<close> is a sum, one that returns \<open>error\<close> an option. These
  rules read a success back as the failure of every guard in front of it.
\<close>

named_theorems branch_simps \<open>success of a guarded computation\<close>

lemma guard_Inr [branch_simps]:
  "(if g then Inl e else r) = Inr v \<longleftrightarrow> \<not> g \<and> r = Inr v"
  "(if g then r else Inl e) = Inr v \<longleftrightarrow> g \<and> r = Inr v"
  by auto

lemma guard_None [branch_simps]:
  "(if g then Some e else r) = None \<longleftrightarrow> \<not> g \<and> r = None"
  "(if g then r else Some e) = None \<longleftrightarrow> g \<and> r = None"
  by auto

lemma guard_Some [branch_simps]:
  "(if g then None else s) = Some v \<longleftrightarrow> \<not> g \<and> s = Some v"
  "(if g then s else None) = Some v \<longleftrightarrow> g \<and> s = Some v"
  by auto

lemma case_Inr [branch_simps]:
  "(case x of Inl e \<Rightarrow> Inl (f e) | Inr a \<Rightarrow> k a) = Inr v \<longleftrightarrow> (\<exists>a. x = Inr a \<and> k a = Inr v)"
  by (cases x) auto

lemma case_None_Inr [branch_simps]:
  "(case y of None \<Rightarrow> Inl e' | Some a \<Rightarrow> k a) = Inr v \<longleftrightarrow> (\<exists>a. y = Some a \<and> k a = Inr v)"
  "(case z of Some e \<Rightarrow> Inl (g e) | None \<Rightarrow> r) = Inr v \<longleftrightarrow> z = None \<and> r = Inr v"
  by (cases y; auto) (cases z; auto)

lemma case_ok_None [branch_simps]:
  "(case x of Inl e \<Rightarrow> Some (f e) | Inr a \<Rightarrow> k a) = None \<longleftrightarrow> (\<exists>a. x = Inr a \<and> k a = None)"
  "(case z of Some e \<Rightarrow> Some (g e) | None \<Rightarrow> r) = None \<longleftrightarrow> z = None \<and> r = None"
  by (cases x; auto) (cases z; auto)

lemma case_opt_Some [branch_simps]:
  "(case y of None \<Rightarrow> None | Some a \<Rightarrow> k' a) = Some v \<longleftrightarrow> (\<exists>a. y = Some a \<and> k' a = Some v)"
  by (cases y) auto

text \<open>
  The three ways a Go function goes on after a fallible call: \<open>or_fail\<close> replaces the callee's
  error by one of its own, \<open>bind_r\<close> passes it on, \<open>check_r\<close> is a call that returns only an error.
\<close>

definition or_fail :: "'e \<Rightarrow> 'a option \<Rightarrow> ('a \<Rightarrow> 'e + 'b) \<Rightarrow> 'e + 'b" where
  "or_fail e x k = (case x of None \<Rightarrow> Inl e | Some a \<Rightarrow> k a)"

definition bind_r :: "'e + 'a \<Rightarrow> ('a \<Rightarrow> 'e + 'b) \<Rightarrow> 'e + 'b" where
  "bind_r x k = (case x of Inl e \<Rightarrow> Inl e | Inr a \<Rightarrow> k a)"

definition check_r :: "'e option \<Rightarrow> 'e + 'b \<Rightarrow> 'e + 'b" where
  "check_r x k = (case x of Some e \<Rightarrow> Inl e | None \<Rightarrow> k)"

definition wrap_r :: "('e \<Rightarrow> 'f) \<Rightarrow> 'e + 'a \<Rightarrow> 'f + 'a" where
  "wrap_r f x = (case x of Inl e \<Rightarrow> Inl (f e) | Inr a \<Rightarrow> Inr a)"

lemma or_fail_Inr [branch_simps]: "or_fail e x k = Inr v \<longleftrightarrow> (\<exists>a. x = Some a \<and> k a = Inr v)"
  by (cases x) (auto simp: or_fail_def)

lemma bind_r_Inr [branch_simps]: "bind_r x k = Inr v \<longleftrightarrow> (\<exists>a. x = Inr a \<and> k a = Inr v)"
  by (cases x) (auto simp: bind_r_def)

lemma check_r_Inr [branch_simps]: "check_r y r = Inr v \<longleftrightarrow> y = None \<and> r = Inr v"
  by (cases y) (auto simp: check_r_def)

lemma wrap_r_Inr [branch_simps]: "wrap_r f x = Inr v \<longleftrightarrow> x = Inr v"
  by (cases x) (auto simp: wrap_r_def)

lemma branch_eval [simp]:
  "or_fail e None k = Inl e" "or_fail e (Some a) k = k a"
  "bind_r (Inl e) k' = Inl e" "bind_r (Inr a) k' = k' a"
  "check_r None r = r" "check_r (Some e) r = Inl e"
  "wrap_r f (Inl e) = Inl (f e)" "wrap_r f (Inr a) = Inr a"
  by (simp_all add: or_fail_def bind_r_def check_r_def wrap_r_def)

lemma or_fail_cong [fundef_cong]: "x = x' \<Longrightarrow> (\<And>a. x' = Some a \<Longrightarrow> k a = k' a) \<Longrightarrow> or_fail e x k = or_fail e x' k'"
  by (cases x) auto

lemma bind_r_cong [fundef_cong]: "x = x' \<Longrightarrow> (\<And>a. x' = Inr a \<Longrightarrow> k a = k' a) \<Longrightarrow> bind_r x k = bind_r x' k'"
  by (cases x) auto

section \<open>Bytes and characters\<close>

text \<open>A Go string is a byte sequence; the model writes it as a \<open>string\<close>, one \<open>char\<close> per byte.\<close>

definition byte_of_char :: "char \<Rightarrow> u8" where
  "byte_of_char c = word_of_nat (of_char c)"

definition char_of_byte :: "u8 \<Rightarrow> char" where
  "char_of_byte w = char_of (unat w)"

abbreviation str_bytes :: "string \<Rightarrow> bytes" where
  "str_bytes s \<equiv> map byte_of_char s"

abbreviation bytes_str :: "bytes \<Rightarrow> string" where
  "bytes_str b \<equiv> map char_of_byte b"

lemma unat_zero_iff [simp]: "unat w = 0 \<longleftrightarrow> w = 0"
  by (metis gr0I less_irrefl unat_gt_0)

lemma unat_u8_less: "unat (w :: u8) < 256"
  using unsigned_less[of w] by simp

lemma unat_u16_less: "unat (w :: u16) < 65536"
  using unsigned_less[of w] by simp

lemma unat_u32_less: "unat (w :: u32) < 4294967296"
  using unsigned_less[of w] by simp

lemma unat_u64_less: "unat (w :: u64) < 18446744073709551616"
  using unsigned_less[of w] by simp

lemma unat_ucast_u32 [simp]: "unat (ucast (w :: u32) :: u64) = unat w"
  using unat_u32_less[of w] by (simp add: unsigned_ucast_eq take_bit_nat_eq_self)

lemma unat_ucast_u16 [simp]: "unat (ucast (w :: u16) :: u64) = unat w"
  "unat (ucast (w :: u16) :: u32) = unat w"
  using unat_u16_less[of w] by (simp_all add: unsigned_ucast_eq take_bit_nat_eq_self)

lemma of_char_nat_less: "(of_char c :: nat) < 256"
  by (cases c) (simp add: of_char_def)

lemma char_of_byte_of_char [simp]: "char_of_byte (byte_of_char c) = c"
proof -
  have "unat (word_of_nat (of_char c) :: u8) = of_char c"
    using of_char_nat_less[of c] by (simp add: unat_of_nat)
  then show ?thesis by (simp add: char_of_byte_def byte_of_char_def)
qed

lemma byte_of_char_of_byte [simp]: "byte_of_char (char_of_byte w) = w"
proof -
  have "unat w < 256" by (rule unat_u8_less)
  then show ?thesis by (simp add: char_of_byte_def byte_of_char_def)
qed

lemma char_byte_id [simp]: "char_of_byte \<circ> byte_of_char = id" "byte_of_char \<circ> char_of_byte = id"
  by (simp_all add: fun_eq_iff)

lemma bytes_str_str_bytes [simp]: "bytes_str (str_bytes s) = s"
  by simp

lemma str_bytes_bytes_str [simp]: "str_bytes (bytes_str b) = b"
  by simp

lemma str_bytes_inject [simp]: "str_bytes s = str_bytes t \<longleftrightarrow> s = t"
  by (metis bytes_str_str_bytes)

section \<open>Big-endian integers\<close>

fun be_enc :: "nat \<Rightarrow> nat \<Rightarrow> bytes" where
  "be_enc 0 x = []"
| "be_enc (Suc n) x = be_enc n (x div 256) @ [word_of_nat (x mod 256)]"

definition be_dec :: "bytes \<Rightarrow> nat" where
  "be_dec b = foldl (\<lambda>a w. a * 256 + unat w) 0 b"

lemma be_enc_numeral [codec_simps]:
  "be_enc (numeral k) x = be_enc (pred_numeral k) (x div 256) @ [word_of_nat (x mod 256)]"
  by (subst numeral_eq_Suc) (rule be_enc.simps(2))

lemma length_be_enc [simp]: "length (be_enc n x) = n"
  by (induction n arbitrary: x) auto

lemma be_dec_Nil [simp]: "be_dec [] = 0"
  by (simp add: be_dec_def)

lemma be_dec_snoc [simp]: "be_dec (b @ [w]) = be_dec b * 256 + unat w"
  by (simp add: be_dec_def)

lemma unat_byte_of_nat [simp]: "unat (word_of_nat (x mod 256) :: u8) = x mod 256"
  by (simp add: unat_of_nat)

lemma be_dec_enc: "be_dec (be_enc n x) = x mod 256 ^ n"
proof (induction n arbitrary: x)
  case 0
  then show ?case by simp
next
  case (Suc n)
  have "be_dec (be_enc (Suc n) x) = (x div 256 mod 256 ^ n) * 256 + x mod 256"
    by (simp add: Suc.IH)
  also have "\<dots> = x mod (256 * 256 ^ n)"
    by (subst mod_mult2_eq) simp
  finally show ?case by simp
qed

lemma be_dec_less: "be_dec b < 256 ^ length b"
proof (induction b rule: rev_induct)
  case (snoc w b)
  have "unat w < 256" by (rule unat_u8_less)
  with snoc show ?case by simp
qed simp

lemma be_enc_dec: "be_enc (length b) (be_dec b) = b"
proof (induction b rule: rev_induct)
  case (snoc w b)
  have w: "unat w < 256" by (rule unat_u8_less)
  then have "(be_dec b * 256 + unat w) div 256 = be_dec b"
    and "(be_dec b * 256 + unat w) mod 256 = unat w" by simp_all
  with snoc show ?case by simp
qed simp

lemma be_dec_enc_unat [simp]:
  "be_dec (be_enc 2 (unat (w16 :: u16))) = unat w16"
  "be_dec (be_enc 4 (unat (w32 :: u32))) = unat w32"
  "be_dec (be_enc 8 (unat (w64 :: u64))) = unat w64"
  using unat_u16_less[of w16] unat_u32_less[of w32] unat_u64_less[of w64]
  by (simp_all add: be_dec_enc)

lemma be_enc_inject: "be_enc n x = be_enc n y \<Longrightarrow> x < 256 ^ n \<Longrightarrow> y < 256 ^ n \<Longrightarrow> x = y"
  by (metis be_dec_enc mod_less)

text \<open>\<open>binary.BigEndian.AppendUint16/32/64\<close> and the corresponding readers.\<close>

definition appendU16 :: "bytes \<Rightarrow> u16 \<Rightarrow> bytes" where
  "appendU16 dst n = dst @ be_enc 2 (unat n)"

definition appendU32 :: "bytes \<Rightarrow> u32 \<Rightarrow> bytes" where
  "appendU32 dst n = dst @ be_enc 4 (unat n)"

definition appendU64 :: "bytes \<Rightarrow> u64 \<Rightarrow> bytes" where
  "appendU64 dst n = dst @ be_enc 8 (unat n)"

definition be16 :: "bytes \<Rightarrow> u16" where "be16 b = word_of_nat (be_dec b)"
definition be32 :: "bytes \<Rightarrow> u32" where "be32 b = word_of_nat (be_dec b)"
definition be64 :: "bytes \<Rightarrow> u64" where "be64 b = word_of_nat (be_dec b)"

lemma be_read_enc [simp]:
  "be16 (be_enc 2 (unat a)) = a"
  "be32 (be_enc 4 (unat b)) = b"
  "be64 (be_enc 8 (unat c)) = c"
  by (simp_all add: be16_def be32_def be64_def)

lemma be_enc_unat_inject [simp]:
  fixes a a' :: u16 and b b' :: u32 and c c' :: u64
  shows "be_enc 2 (unat a) = be_enc 2 (unat a') \<longleftrightarrow> a = a'"
    and "be_enc 4 (unat b) = be_enc 4 (unat b') \<longleftrightarrow> b = b'"
    and "be_enc 8 (unat c) = be_enc 8 (unat c') \<longleftrightarrow> c = c'"
proof -
  show "be_enc 2 (unat a) = be_enc 2 (unat a') \<longleftrightarrow> a = a'"
    by (metis be_read_enc(1))
  show "be_enc 4 (unat b) = be_enc 4 (unat b') \<longleftrightarrow> b = b'"
    by (metis be_read_enc(2))
  show "be_enc 8 (unat c) = be_enc 8 (unat c') \<longleftrightarrow> c = c'"
    by (metis be_read_enc(3))
qed

section \<open>Fixed-size byte arrays\<close>

text \<open>
  A Go array \<open>[n]byte\<close> is a byte list of length \<open>n\<close>. \<open>copy(dst[:], src)\<close> overwrites a prefix
  of the array and keeps its length.
\<close>

definition zeros :: "nat \<Rightarrow> bytes" where
  "zeros n = replicate n 0"

definition copy_into :: "bytes \<Rightarrow> bytes \<Rightarrow> bytes" where
  "copy_into dst src = take (length dst) src @ drop (length src) dst"

lemma length_copy_into [simp]: "length (copy_into dst src) = length dst"
  by (simp add: copy_into_def)

lemma copy_into_full [simp]: "length src = length dst \<Longrightarrow> copy_into dst src = src"
  by (simp add: copy_into_def)

lemma length_zeros [simp]: "length (zeros n) = n"
  by (simp add: zeros_def)

section \<open>Go maps\<close>

text \<open>
  A Go map is an association list whose keys are distinct: lookup is \<open>map_of\<close>, assignment is
  \<open>AList.update\<close>, \<open>delete\<close> is \<open>AList.delete\<close>. Iteration order is the order of the list; statements
  quantify over all lists, so they hold for every iteration order Go may choose. A missing key
  reads as the zero value, written \<open>map_get z m k\<close>.
\<close>

type_synonym ('k, 'v) gomap = "('k \<times> 'v) list"

definition map_get :: "'v \<Rightarrow> ('k, 'v) gomap \<Rightarrow> 'k \<Rightarrow> 'v" where
  "map_get z m k = (case map_of m k of None \<Rightarrow> z | Some v \<Rightarrow> v)"

definition map_has :: "('k, 'v) gomap \<Rightarrow> 'k \<Rightarrow> bool" where
  "map_has m k \<longleftrightarrow> map_of m k \<noteq> None"

definition wf_map :: "('k, 'v) gomap \<Rightarrow> bool" where
  "wf_map m \<longleftrightarrow> distinct (map fst m)"

lemma wf_map_Nil [simp]: "wf_map []"
  by (simp add: wf_map_def)

lemma wf_map_update [simp]: "wf_map m \<Longrightarrow> wf_map (AList.update k v m)"
  by (simp add: wf_map_def distinct_update)

lemma wf_map_delete [simp]: "wf_map m \<Longrightarrow> wf_map (AList.delete k m)"
  by (simp add: wf_map_def distinct_delete)

lemma map_of_update [gomap_simps, simp]:
  "map_of (AList.update k v m) k' = (if k' = k then Some v else map_of m k')"
  by (simp add: update_conv')

lemma map_of_delete [gomap_simps, simp]:
  "map_of (AList.delete k m) k' = (if k' = k then None else map_of m k')"
  by (simp add: delete_conv')

lemma map_get_update [gomap_simps, simp]:
  "map_get z (AList.update k v m) k' = (if k' = k then v else map_get z m k')"
  by (simp add: map_get_def)

lemma map_get_delete [gomap_simps, simp]:
  "map_get z (AList.delete k m) k' = (if k' = k then z else map_get z m k')"
  by (simp add: map_get_def)

lemma map_has_update [simp]: "map_has (AList.update k v m) k' \<longleftrightarrow> k' = k \<or> map_has m k'"
  by (auto simp: map_has_def)

lemma map_has_delete [simp]: "map_has (AList.delete k m) k' \<longleftrightarrow> k' \<noteq> k \<and> map_has m k'"
  by (auto simp: map_has_def)

lemma map_has_Nil [simp]: "\<not> map_has [] k"
  by (simp add: map_has_def)

lemma map_get_Nil [simp]: "map_get z [] k = z"
  by (simp add: map_get_def)

subsection \<open>Sums over a map\<close>

definition gomap_sum :: "('k \<Rightarrow> 'v \<Rightarrow> int) \<Rightarrow> ('k, 'v) gomap \<Rightarrow> int" where
  "gomap_sum f m = sum_list (map (\<lambda>(k, v). f k v) m)"

lemma gomap_sum_Nil [simp]: "gomap_sum f [] = 0"
  by (simp add: gomap_sum_def)

lemma gomap_sum_Cons [simp]: "gomap_sum f ((k, v) # m) = f k v + gomap_sum f m"
  by (simp add: gomap_sum_def)

lemma gomap_sum_update_new:
  "map_of m k = None \<Longrightarrow> gomap_sum f (AList.update k v m) = gomap_sum f m + f k v"
  by (induction m) (auto split: if_splits)

lemma delete_absent: "map_of m k = None \<Longrightarrow> AList.delete k m = m"
  by (induction m) (auto split: if_splits)

lemma map_of_None_notin: "map_of m k = None \<longleftrightarrow> k \<notin> fst ` set m"
  by (simp add: map_of_eq_None_iff)

lemma gomap_sum_update_old:
  "wf_map m \<Longrightarrow> map_of m k = Some v0 \<Longrightarrow>
   gomap_sum f (AList.update k v m) = gomap_sum f m - f k v0 + f k v"
  by (induction m) (auto simp: wf_map_def split: if_splits)

lemma gomap_sum_delete:
  "wf_map m \<Longrightarrow> map_of m k = Some v \<Longrightarrow> gomap_sum f (AList.delete k m) = gomap_sum f m - f k v"
proof (induction m)
  case (Cons p m)
  then show ?case
    by (cases p) (auto simp: wf_map_def map_of_None_notin split: if_splits)
qed simp

lemma gomap_sum_nonneg:
  "(\<And>k v. (k, v) \<in> set m \<Longrightarrow> 0 \<le> f k v) \<Longrightarrow> 0 \<le> gomap_sum f m"
proof (induction m)
  case (Cons p m)
  obtain k v where p: "p = (k, v)" by (cases p)
  have "0 \<le> f k v" using Cons.prems p by simp
  moreover have "0 \<le> gomap_sum f m" using Cons.IH Cons.prems by (meson list.set_intros(2))
  ultimately show ?case by (simp add: p)
qed simp

lemma gomap_sum_mono:
  "(\<And>k v. (k, v) \<in> set m \<Longrightarrow> f k v \<le> g k v) \<Longrightarrow> gomap_sum f m \<le> gomap_sum g m"
proof (induction m)
  case (Cons p m)
  obtain k v where p: "p = (k, v)" by (cases p)
  have "f k v \<le> g k v" using Cons.prems p by simp
  moreover have "gomap_sum f m \<le> gomap_sum g m" using Cons.IH Cons.prems by (meson list.set_intros(2))
  ultimately show ?case by (simp add: p)
qed simp

lemma gomap_sum_member:
  "(\<And>k v. (k, v) \<in> set m \<Longrightarrow> 0 \<le> f k v) \<Longrightarrow> map_of m k = Some v \<Longrightarrow> f k v \<le> gomap_sum f m"
proof (induction m)
  case (Cons p m)
  obtain k' v' where p: "p = (k', v')" by (cases p)
  have nn: "0 \<le> gomap_sum f m" and h: "0 \<le> f k' v'"
    using Cons.prems(1) p by (auto intro!: gomap_sum_nonneg)
  show ?case
  proof (cases "k' = k")
    case True
    then show ?thesis using Cons.prems(2) p nn by simp
  next
    case False
    then have "f k v \<le> gomap_sum f m" using Cons p by simp
    then show ?thesis using h p by simp
  qed
qed simp

lemma map_of_set_wf: "wf_map m \<Longrightarrow> (k, v) \<in> set m \<longleftrightarrow> map_of m k = Some v"
  unfolding wf_map_def by (rule map_of_eq_Some_iff[symmetric])

section \<open>Signed 64-bit values\<close>

definition max_int64 :: int where "max_int64 = 2 ^ 63 - 1"

lemma sint_range64: "- (2 ^ 63) \<le> sint (w :: i64) \<and> sint w < 2 ^ 63"
  using sint_ge[of w] sint_lt[of w] by simp

lemma unat_less_int64: "0 \<le> sint (w :: i64) \<Longrightarrow> unat w < 9223372036854775808"
proof -
  assume nn: "0 \<le> sint w"
  have "uint w = take_bit 64 (sint w)" by (simp add: uint_sint)
  also have "\<dots> = sint w" using nn sint_range64[of w] by (simp add: take_bit_int_eq_self)
  finally have "int (unat w) < int 9223372036854775808" using sint_range64[of w] by simp
  then show ?thesis by (simp only: of_nat_less_iff)
qed

lemma sint_add64:
  assumes "- (2 ^ 63) \<le> sint (a :: i64) + sint b" and "sint a + sint b < 2 ^ 63"
  shows "sint (a + b) = sint a + sint b"
  using assms by (simp add: sint_word_ariths signed_take_bit_int_eq_self)

lemma sint_sub64:
  assumes "- (2 ^ 63) \<le> sint (a :: i64) - sint b" and "sint a - sint b < 2 ^ 63"
  shows "sint (a - b) = sint a - sint b"
  using assms by (simp add: sint_word_ariths signed_take_bit_int_eq_self)

lemma sint_eq_unat64: "0 \<le> sint (w :: i64) \<Longrightarrow> int (unat w) = sint w"
proof -
  assume nn: "0 \<le> sint w"
  have "uint w = take_bit 64 (sint w)" by (simp add: uint_sint)
  also have "\<dots> = sint w" using nn sint_range64[of w] by (simp add: take_bit_int_eq_self)
  finally show ?thesis by simp
qed

lemma sint_le_unat64:
  fixes a b :: i64
  assumes "0 \<le> sint a" "sint a \<le> sint b"
  shows "unat a \<le> unat b"
proof -
  have "int (unat a) \<le> int (unat b)"
    using assms sint_eq_unat64[of a] sint_eq_unat64[of b] by (simp del: of_nat_unat)
  then show ?thesis by (simp only: of_nat_le_iff)
qed

lemma int63_iff: "(w :: i64) \<le> 0x7FFFFFFFFFFFFFFF \<longleftrightarrow> 0 \<le> sint w"
proof
  assume "0 \<le> sint w"
  then show "w \<le> 0x7FFFFFFFFFFFFFFF" using unat_less_int64[of w] by (simp add: word_le_nat_alt)
next
  assume w: "w \<le> 0x7FFFFFFFFFFFFFFF"
  show "0 \<le> sint w"
  proof (rule ccontr)
    assume n: "\<not> 0 \<le> sint w"
    have "uint w = take_bit 64 (sint w)" by (simp add: uint_sint)
    also have "\<dots> = take_bit 64 (sint w + 2 ^ 64)" by (simp add: take_bit_eq_mod)
    also have "\<dots> = sint w + 2 ^ 64" using n sint_range64[of w] by (simp add: take_bit_int_eq_self)
    finally have "2 ^ 63 \<le> uint w" using sint_range64[of w] by simp
    moreover have "uint w \<le> 0x7FFFFFFFFFFFFFFF" using w by (simp add: word_le_def)
    ultimately show False by simp
  qed
qed

subsection \<open>Counting\<close>

definition tally :: "('a \<Rightarrow> bool) \<Rightarrow> 'a list \<Rightarrow> nat" where
  "tally P xs = length (filter P xs)"

lemma tally_simps [simp]: "tally P [] = 0" "tally P (x # xs) = (if P x then Suc (tally P xs) else tally P xs)"
  "tally P (xs @ ys) = tally P xs + tally P ys"
  by (simp_all add: tally_def)

lemma tally_update:
  "i < length xs \<Longrightarrow> tally P (xs[i := x]) + (if P (xs ! i) then 1 else 0) = tally P xs + (if P x then 1 else 0)"
proof (induction xs arbitrary: i)
  case (Cons y ys)
  show ?case
  proof (cases i)
    case (Suc k)
    then show ?thesis using Cons.IH[of k] Cons.prems by simp
  qed simp
qed simp

lemma tally_same: "i < length xs \<Longrightarrow> P x = P (xs ! i) \<Longrightarrow> tally P (xs[i := x]) = tally P xs"
  using tally_update[of i xs P x] by simp

lemma tally_pos: "i < length xs \<Longrightarrow> P (xs ! i) \<Longrightarrow> 0 < tally P xs"
  by (auto simp: tally_def filter_empty_conv intro!: bexI[of _ "xs ! i"])

lemma tally_two: "i < j \<Longrightarrow> j < length xs \<Longrightarrow> P (xs ! i) \<Longrightarrow> P (xs ! j) \<Longrightarrow> 2 \<le> tally P xs"
proof (induction xs arbitrary: i j)
  case (Cons x xs)
  then obtain j' where j: "j = Suc j'" by (cases j) auto
  show ?case
  proof (cases i)
    case 0
    then show ?thesis using Cons.prems j tally_pos[of j' xs P] by simp
  next
    case (Suc i')
    then show ?thesis using Cons.IH[of i' j'] Cons.prems j by auto
  qed
qed simp

subsection \<open>Lengths of maps\<close>

lemma length_update: "length (AList.update k v m) = (if map_of m k = None then Suc (length m) else length m)"
  by (induction m) auto

lemma update_existing_length: "map_of m k = Some v \<Longrightarrow> length (AList.update k w m) = length m"
  by (simp add: length_update)

lemma update_new_length: "map_of m k = None \<Longrightarrow> length (AList.update k w m) = Suc (length m)"
  by (simp add: length_update)

end
