(* ===== verification/GoStrings.thy ===== *)
theory GoStrings
  imports Prelude
begin

text \<open>
  The parts of Go's \<open>strings\<close>, \<open>unicode/utf8\<close>, \<open>strconv\<close>, \<open>encoding/hex\<close>, \<open>path/filepath\<close>
  and \<open>time\<close> packages the modelled files call. A Go string is a byte sequence, so a
  \<open>string\<close> here has one \<open>char\<close> per byte and a range loop decodes runes from it.
  Case mapping is exact on ASCII; the case mapping of other code points is the identity.
\<close>

section \<open>Runes\<close>

abbreviation code :: "char \<Rightarrow> nat" where "code c \<equiv> of_char c"

definition rune_error :: nat where "rune_error = 65533"

definition cont_in :: "nat \<Rightarrow> nat \<Rightarrow> char \<Rightarrow> bool" where
  "cont_in lo hi c \<longleftrightarrow> lo \<le> code c \<and> code c \<le> hi"

text \<open>\<open>utf8.DecodeRuneInString\<close>: the rune and the number of bytes it takes.\<close>

fun decode2 :: "nat \<Rightarrow> string \<Rightarrow> nat \<times> nat" where
  "decode2 b0 (c1 # cs) =
     (if cont_in 128 191 c1 then ((b0 - 192) * 64 + (code c1 - 128), 2) else (rune_error, 1))"
| "decode2 b0 [] = (rune_error, 1)"

fun decode3 :: "nat \<Rightarrow> string \<Rightarrow> nat \<times> nat" where
  "decode3 b0 (c1 # c2 # cs) =
     (let lo = (if b0 = 224 then 160 else 128); hi = (if b0 = 237 then 159 else 191) in
      if cont_in lo hi c1 \<and> cont_in 128 191 c2
      then ((b0 - 224) * 4096 + (code c1 - 128) * 64 + (code c2 - 128), 3) else (rune_error, 1))"
| "decode3 b0 cs = (rune_error, 1)"

fun decode4 :: "nat \<Rightarrow> string \<Rightarrow> nat \<times> nat" where
  "decode4 b0 (c1 # c2 # c3 # cs) =
     (let lo = (if b0 = 240 then 144 else 128); hi = (if b0 = 244 then 143 else 191) in
      if cont_in lo hi c1 \<and> cont_in 128 191 c2 \<and> cont_in 128 191 c3
      then ((b0 - 240) * 262144 + (code c1 - 128) * 4096 + (code c2 - 128) * 64 + (code c3 - 128), 4)
      else (rune_error, 1))"
| "decode4 b0 cs = (rune_error, 1)"

fun decode_rune :: "string \<Rightarrow> nat \<times> nat" where
  "decode_rune [] = (rune_error, 0)"
| "decode_rune (c # cs) =
     (let b0 = code c in
      if b0 < 128 then (b0, 1)
      else if 194 \<le> b0 \<and> b0 \<le> 223 then decode2 b0 cs
      else if 224 \<le> b0 \<and> b0 \<le> 239 then decode3 b0 cs
      else if 240 \<le> b0 \<and> b0 \<le> 244 then decode4 b0 cs
      else (rune_error, 1))"

lemma decode2_width: "0 < snd (decode2 b cs)"
  by (cases "(b, cs)" rule: decode2.cases) auto

lemma decode3_width: "0 < snd (decode3 b cs)"
  by (cases "(b, cs)" rule: decode3.cases) (auto simp: Let_def)

lemma decode4_width: "0 < snd (decode4 b cs)"
  by (cases "(b, cs)" rule: decode4.cases) (auto simp: Let_def)

lemma decode_rune_width: "s \<noteq> [] \<Longrightarrow> 0 < snd (decode_rune s)"
  by (cases s) (auto simp: Let_def decode2_width decode3_width decode4_width)

text \<open>The runes of a range loop, each with the bytes it was decoded from.\<close>

function segs :: "string \<Rightarrow> (nat \<times> string) list" where
  "segs s = (if s = [] then [] else
     (let (r, w) = decode_rune s in (r, take w s) # segs (drop w s)))"
  by pat_completeness auto
termination
proof (relation "measure length")
  fix s :: string and x r w
  assume "s \<noteq> []" "x = decode_rune s" "(r, w) = x"
  then have "0 < w" using decode_rune_width[of s] by (metis snd_conv)
  then show "(drop w s, s) \<in> measure length" using \<open>s \<noteq> []\<close> by simp
qed simp

declare segs.simps [simp del]

lemma segs_Nil [simp, code]: "segs [] = []"
  by (simp add: segs.simps)

lemma segs_Cons [code]:
  "segs (c # cs) = (let (r, w) = decode_rune (c # cs) in (r, take w (c # cs)) # segs (drop w (c # cs)))"
  by (subst segs.simps) simp

lemma segs_ascii:
  "code c < 128 \<Longrightarrow> segs (c # cs) = (code c, [c]) # segs cs"
  by (simp add: segs_Cons Let_def)

lemma concat_segs: "concat (map snd (segs s)) = s"
proof (induction s rule: segs.induct)
  case (1 s)
  show ?case
  proof (cases "s = []")
    case False
    obtain r w where d: "decode_rune s = (r, w)" by fastforce
    then show ?thesis using 1[OF False d[symmetric] refl] False by (subst segs.simps) simp
  qed simp
qed

definition runes :: "string \<Rightarrow> nat list" where
  "runes s = map fst (segs s)"

text \<open>\<open>utf8.ValidString\<close>: no byte had to be replaced by \<open>RuneError\<close>.\<close>

definition valid_utf8 :: "string \<Rightarrow> bool" where
  "valid_utf8 s \<longleftrightarrow> list_all (\<lambda>(r, b). \<not> (r = rune_error \<and> length b = 1)) (segs s)"

definition is_control :: "nat \<Rightarrow> bool" where
  "is_control r \<longleftrightarrow> r < 32 \<or> 127 \<le> r \<and> r < 160"

definition is_space :: "nat \<Rightarrow> bool" where
  "is_space r \<longleftrightarrow> 9 \<le> r \<and> r \<le> 13 \<or> r = 32 \<or> r = 133 \<or> r = 160 \<or> r = 5760 \<or>
     8192 \<le> r \<and> r \<le> 8202 \<or> r = 8232 \<or> r = 8233 \<or> r = 8239 \<or> r = 8287 \<or> r = 12288"

definition trim_space :: "string \<Rightarrow> string" where
  "trim_space s =
     (let sp = (\<lambda>p. is_space (fst p)) in
      concat (map snd (rev (dropWhile sp (rev (dropWhile sp (segs s)))))))"

section \<open>Package strings\<close>

definition lower_char :: "char \<Rightarrow> char" where
  "lower_char c = (if 65 \<le> code c \<and> code c \<le> 90 then char_of (code c + 32) else c)"

definition upper_char :: "char \<Rightarrow> char" where
  "upper_char c = (if 97 \<le> code c \<and> code c \<le> 122 then char_of (code c - 32) else c)"

definition to_lower :: "string \<Rightarrow> string" where "to_lower = map lower_char"
definition to_upper :: "string \<Rightarrow> string" where "to_upper = map upper_char"

lemma of_char_of_nat [simp]: "n < 256 \<Longrightarrow> code (char_of n) = n"
  by simp

lemma lower_char_idem [simp]: "lower_char (lower_char c) = lower_char c"
  by (auto simp: lower_char_def)

lemma to_lower_idem [simp]: "to_lower (to_lower s) = to_lower s"
  by (simp add: to_lower_def comp_def)

definition has_prefix :: "string \<Rightarrow> string \<Rightarrow> bool" where
  "has_prefix s p \<longleftrightarrow> take (length p) s = p"

definition has_suffix :: "string \<Rightarrow> string \<Rightarrow> bool" where
  "has_suffix s q \<longleftrightarrow> length q \<le> length s \<and> drop (length s - length q) s = q"

lemma has_prefix_append [simp]: "has_prefix (p @ s) p"
  by (simp add: has_prefix_def)

lemma has_prefix_iff: "has_prefix s p \<longleftrightarrow> (\<exists>r. s = p @ r)"
  by (metis append_eq_conv_conj append_take_drop_id has_prefix_def)

lemma has_suffix_append [simp]: "has_suffix (s @ q) q"
  by (simp add: has_suffix_def)

lemma has_suffix_iff: "has_suffix s q \<longleftrightarrow> (\<exists>r. s = r @ q)"
proof
  assume "has_suffix s q"
  then have "s = take (length s - length q) s @ q"
    by (metis append_take_drop_id has_suffix_def)
  then show "\<exists>r. s = r @ q" by blast
qed auto

definition trim_suffix :: "string \<Rightarrow> string \<Rightarrow> string" where
  "trim_suffix s q = (if has_suffix s q then take (length s - length q) s else s)"

text \<open>\<open>strings.TrimRight\<close>/\<open>Trim\<close> with an ASCII cutset, on strings whose cs bytes are ASCII.\<close>

definition trim_right :: "string \<Rightarrow> string \<Rightarrow> string" where
  "trim_right s cs = rev (dropWhile (\<lambda>c. c \<in> set cs) (rev s))"

definition trim_both :: "string \<Rightarrow> string \<Rightarrow> string" where
  "trim_both s cs = trim_right (dropWhile (\<lambda>c. c \<in> set cs) s) cs"

definition contains_any :: "string \<Rightarrow> string \<Rightarrow> bool" where
  "contains_any s cs \<longleftrightarrow> list_ex (\<lambda>c. c \<in> set cs) s"

text \<open>\<open>strings.Split(s, sep)[0]\<close> for a one-byte separator.\<close>

definition split_head :: "char \<Rightarrow> string \<Rightarrow> string" where
  "split_head sep s = takeWhile (\<lambda>c. c \<noteq> sep) s"

fun index_of :: "char \<Rightarrow> string \<Rightarrow> nat option" where
  "index_of c [] = None"
| "index_of c (x # xs) = (if x = c then Some 0 else map_option Suc (index_of c xs))"

definition last_index_of :: "char \<Rightarrow> string \<Rightarrow> nat option" where
  "last_index_of c s = map_option (\<lambda>i. length s - 1 - i) (index_of c (rev s))"

definition count_char :: "char \<Rightarrow> string \<Rightarrow> nat" where
  "count_char c s = length (filter (\<lambda>x. x = c) s)"

lemma trim_right_eq_iff:
  "trim_right s cs = s \<longleftrightarrow> s = [] \<or> last s \<notin> set cs"
proof (cases s rule: rev_cases)
  case (snoc t c)
  show ?thesis
  proof (cases "c \<in> set cs")
    case True
    then have "length (trim_right s cs) \<le> length t"
      using length_dropWhile_le[of "\<lambda>c. c \<in> set cs" "rev t"] by (simp add: snoc trim_right_def)
    then have "trim_right s cs \<noteq> s" using snoc by auto
    then show ?thesis using True snoc by simp
  qed (simp add: snoc trim_right_def)
qed (simp add: trim_right_def)

section \<open>Numbers and hexadecimal\<close>

fun itoa :: "nat \<Rightarrow> string" where
  "itoa n = (if n < 10 then [char_of (48 + n)] else itoa (n div 10) @ [char_of (48 + n mod 10)])"

declare itoa.simps [simp del]

lemma itoa_read: "foldl (\<lambda>a c. 10 * a + (code c - 48)) 0 (itoa n) = n"
proof (induction n rule: itoa.induct)
  case (1 n)
  show ?case
  proof (cases "n < 10")
    case True
    then show ?thesis by (subst itoa.simps) simp
  next
    case False
    have "code (char_of (48 + n mod 10)) - 48 = n mod 10" by simp
    then show ?thesis using False 1 by (subst itoa.simps) simp
  qed
qed

lemma itoa_inject: "itoa m = itoa n \<longleftrightarrow> m = n"
  using itoa_read by metis

definition is_digit :: "char \<Rightarrow> bool" where
  "is_digit c \<longleftrightarrow> 48 \<le> code c \<and> code c \<le> 57"

definition hex_char :: "nat \<Rightarrow> char" where
  "hex_char n = (if n < 10 then char_of (48 + n) else char_of (87 + n))"

definition hex_val :: "char \<Rightarrow> nat option" where
  "hex_val c =
     (if 48 \<le> code c \<and> code c \<le> 57 then Some (code c - 48)
      else if 97 \<le> code c \<and> code c \<le> 102 then Some (code c - 87)
      else if 65 \<le> code c \<and> code c \<le> 70 then Some (code c - 55)
      else None)"

definition hex_encode :: "bytes \<Rightarrow> string" where
  "hex_encode b = concat (map (\<lambda>w. [hex_char (unat w div 16), hex_char (unat w mod 16)]) b)"

fun hex_decode :: "string \<Rightarrow> bytes option" where
  "hex_decode [] = Some []"
| "hex_decode [c] = None"
| "hex_decode (c # d # s) =
     (case (hex_val c, hex_val d, hex_decode s) of
        (Some h, Some l, Some b) \<Rightarrow> Some (word_of_nat (16 * h + l) # b)
      | _ \<Rightarrow> None)"

definition is_lower_hex_char :: "char \<Rightarrow> bool" where
  "is_lower_hex_char c \<longleftrightarrow> 48 \<le> code c \<and> code c \<le> 57 \<or> 97 \<le> code c \<and> code c \<le> 102"

lemma hex_val_char [simp]: "n < 16 \<Longrightarrow> hex_val (hex_char n) = Some n"
  by (simp add: hex_val_def hex_char_def)

lemma hex_char_lower: "n < 16 \<Longrightarrow> is_lower_hex_char (hex_char n)"
  by (auto simp: is_lower_hex_char_def hex_char_def)

lemma length_hex_encode [simp]: "length (hex_encode b) = 2 * length b"
  by (induction b) (auto simp: hex_encode_def)

lemma hex_encode_lower: "list_all is_lower_hex_char (hex_encode b)"
proof (induction b)
  case (Cons w b)
  have "unat w div 16 < 16" using unat_u8_less[of w] by simp
  then show ?case using Cons by (simp add: hex_encode_def hex_char_lower)
qed (simp add: hex_encode_def)

lemma hex_decode_encode [simp]: "hex_decode (hex_encode b) = Some b"
proof (induction b)
  case (Cons w b)
  have "unat w div 16 < 16" using unat_u8_less[of w] by simp
  moreover have "16 * (unat w div 16) + unat w mod 16 = unat w" by simp
  ultimately show ?case using Cons by (simp add: hex_encode_def)
qed (simp add: hex_encode_def)

lemma hex_encode_inject [simp]: "hex_encode a = hex_encode b \<longleftrightarrow> a = b"
  by (metis hex_decode_encode option.inject)

section \<open>Paths (Unix)\<close>

text \<open>\<open>filepath.IsAbs\<close> and \<open>filepath.Base\<close> with the separator \<open>/\<close>.\<close>

definition is_abs :: "string \<Rightarrow> bool" where
  "is_abs p \<longleftrightarrow> has_prefix p ''/''"

definition path_base :: "string \<Rightarrow> string" where
  "path_base p =
     (if p = [] then ''.''
      else let q = trim_right p ''/''; b = rev (takeWhile (\<lambda>c. c \<noteq> CHR ''/'') (rev q))
           in if b = [] then ''/'' else b)"

lemma path_base_plain:
  assumes "p \<noteq> []" "CHR ''/'' \<notin> set p"
  shows "path_base p = p"
proof -
  have "last p \<noteq> CHR ''/''" using assms last_in_set by metis
  then have "trim_right p ''/'' = p" by (simp add: trim_right_eq_iff)
  moreover have "takeWhile (\<lambda>c. c \<noteq> CHR ''/'') (rev p) = rev p"
    using assms(2) by (auto simp: takeWhile_eq_all_conv)
  ultimately show ?thesis using assms(1)
    by (simp only: path_base_def Let_def rev_rev_ident if_False)
qed

section \<open>Instants\<close>

text \<open>
  An instant of \<open>time.Time\<close> is its distance from the Unix epoch in nanoseconds, an unbounded
  integer; a \<open>time.Duration\<close> is a number of nanoseconds. The zero \<open>Time\<close> is 1 January of year 1.
  \<open>Unix()\<close> rounds down to whole seconds.
\<close>

type_synonym time = int
type_synonym duration = int

definition second :: duration where "second = 1000000000"
definition minute :: duration where "minute = 60000000000"
definition hour :: duration where "hour = 3600000000000"

definition zero_time :: time where "zero_time = - 62135596800000000000"

definition is_zero_time :: "time \<Rightarrow> bool" where
  "is_zero_time t \<longleftrightarrow> t = zero_time"

definition unix :: "time \<Rightarrow> int" where
  "unix t = t div 1000000000"

definition from_unix :: "int \<Rightarrow> time" where
  "from_unix s = s * 1000000000"

text \<open>\<open>Time.Sub\<close> saturates at the limits of \<open>Duration\<close>.\<close>

definition time_sub :: "time \<Rightarrow> time \<Rightarrow> duration" where
  "time_sub t u = max (- (2 ^ 63)) (min (2 ^ 63 - 1) (t - u))"

lemma unix_from_unix [simp]: "unix (from_unix s) = s"
  by (simp add: unix_def from_unix_def)

lemma unix_mono: "t \<le> u \<Longrightarrow> unix t \<le> unix u"
  by (simp add: unix_def zdiv_mono1)

end
