(* ===== verification/FT_Types.thy ===== *)
theory FT_Types
  imports GoStrings
begin

text \<open>
  File transfer, \<open>internal/filetransfer/types.go\<close>: the error values, the resource limits, the
  filename policy, the manifest and its validation, together with the chunk geometry
  \<open>expectedPlaintextSize\<close> of \<open>sender.go\<close>. The main result is that a validated manifest cuts
  the file into chunks that cover it exactly, with no overflow in the 64-bit arithmetic.
\<close>

section \<open>Errors\<close>

text \<open>
  One constructor per sentinel of \<open>types.go\<close>; the argument is the detail text that
  \<open>fmt.Errorf("%w: ...")\<close> adds, empty where the sentinel is returned as it is. The remaining
  constructors are the errors of the operating system, the context and the decoder that the
  package passes on.
\<close>

datatype ft_error =
    ErrInvalidInput string
  | ErrAuthentication string
  | ErrIntegrity string
  | ErrConflictingChunk
  | ErrIncomplete
  | ErrAlreadyFinalized
  | ErrAlreadyCompleted
  | ErrLimitExceeded string
  | ErrTransferBusy
  | ErrDurability
  | ErrUnexpectedEOF
  | ErrEOF
  | ErrNotExist
  | ErrExist
  | ErrClosed
  | ErrContext
  | ErrIO string

section \<open>Limits\<close>

record limits =
  MaxFileSize :: i64
  MaxChunkSize :: u32
  MaxChunks :: u32
  MaxManifestBytes :: u32
  MaxOfferBytes :: u32
  MaxResumeBytes :: u32
  MaxFilenameBytes :: u16

definition ProtocolVersion :: u16 where "ProtocolVersion = 2"

definition DefaultChunkSize :: u32 where "DefaultChunkSize = 1048576"

definition DefaultLimits :: limits where
  "DefaultLimits = \<lparr> MaxFileSize = 2147483648, MaxChunkSize = 8388608, MaxChunks = 262144,
     MaxManifestBytes = 9437184, MaxOfferBytes = 10485760, MaxResumeBytes = 1048576,
     MaxFilenameBytes = 255 \<rparr>"

definition normalized :: "limits \<Rightarrow> limits" where
  "normalized l =
     (let d = DefaultLimits;
          l = (if sint (MaxFileSize l) \<le> 0 then l\<lparr>MaxFileSize := MaxFileSize d\<rparr> else l);
          l = (if MaxChunkSize l = 0 then l\<lparr>MaxChunkSize := MaxChunkSize d\<rparr> else l);
          l = (if MaxChunks l = 0 then l\<lparr>MaxChunks := MaxChunks d\<rparr> else l);
          l = (if MaxManifestBytes l = 0 then l\<lparr>MaxManifestBytes := MaxManifestBytes d\<rparr> else l);
          l = (if MaxOfferBytes l = 0 then l\<lparr>MaxOfferBytes := MaxOfferBytes d\<rparr> else l);
          l = (if MaxResumeBytes l = 0 then l\<lparr>MaxResumeBytes := MaxResumeBytes d\<rparr> else l)
      in if MaxFilenameBytes l = 0 then l\<lparr>MaxFilenameBytes := MaxFilenameBytes d\<rparr> else l)"

lemma normalized_sel:
  "MaxFileSize (normalized l) =
     (if sint (MaxFileSize l) \<le> 0 then MaxFileSize DefaultLimits else MaxFileSize l)"
  "MaxChunkSize (normalized l) =
     (if MaxChunkSize l = 0 then MaxChunkSize DefaultLimits else MaxChunkSize l)"
  "MaxChunks (normalized l) = (if MaxChunks l = 0 then MaxChunks DefaultLimits else MaxChunks l)"
  "MaxManifestBytes (normalized l) =
     (if MaxManifestBytes l = 0 then MaxManifestBytes DefaultLimits else MaxManifestBytes l)"
  "MaxOfferBytes (normalized l) =
     (if MaxOfferBytes l = 0 then MaxOfferBytes DefaultLimits else MaxOfferBytes l)"
  "MaxResumeBytes (normalized l) =
     (if MaxResumeBytes l = 0 then MaxResumeBytes DefaultLimits else MaxResumeBytes l)"
  "MaxFilenameBytes (normalized l) =
     (if MaxFilenameBytes l = 0 then MaxFilenameBytes DefaultLimits else MaxFilenameBytes l)"
  by (simp_all add: normalized_def Let_def)

lemma DefaultLimits_sel [simp]:
  "MaxFileSize DefaultLimits = 2147483648" "MaxChunkSize DefaultLimits = 8388608"
  "MaxChunks DefaultLimits = 262144" "MaxManifestBytes DefaultLimits = 9437184"
  "MaxOfferBytes DefaultLimits = 10485760" "MaxResumeBytes DefaultLimits = 1048576"
  "MaxFilenameBytes DefaultLimits = 255"
  by (simp_all add: DefaultLimits_def)

lemma normalized_idem [simp]: "normalized (normalized l) = normalized l"
  by (rule limits.equality) (simp_all add: normalized_sel)

lemma normalized_positive:
  "0 < sint (MaxFileSize (normalized l))" "MaxChunkSize (normalized l) \<noteq> 0"
  "MaxChunks (normalized l) \<noteq> 0" "MaxManifestBytes (normalized l) \<noteq> 0"
  "MaxOfferBytes (normalized l) \<noteq> 0" "MaxResumeBytes (normalized l) \<noteq> 0"
  "MaxFilenameBytes (normalized l) \<noteq> 0"
  by (auto simp: normalized_sel)

section \<open>Filenames\<close>

definition reserved_names :: "string list" where
  "reserved_names =
     [''CON'', ''PRN'', ''AUX'', ''NUL'',
      ''COM1'', ''COM2'', ''COM3'', ''COM4'', ''COM5'', ''COM6'', ''COM7'', ''COM8'', ''COM9'',
      ''LPT1'', ''LPT2'', ''LPT3'', ''LPT4'', ''LPT5'', ''LPT6'', ''LPT7'', ''LPT8'', ''LPT9'']"

definition sanitizeFilename :: "string \<Rightarrow> u16 \<Rightarrow> ft_error + string" where
  "sanitizeFilename name mx =
     (if \<not> valid_utf8 name \<or> name = [] \<or> unat mx < length name \<or> contains_any name [char_of (0::nat)]
      then Inl (ErrInvalidInput ''unsafe filename'')
      else if is_abs name \<or> path_base name \<noteq> name \<or> name = ''.'' \<or> name = ''..'' \<or>
              contains_any name (CHR ''/'' # [CHR 0x5C]) \<or> contains_any name '':''
      then Inl (ErrInvalidInput ''unsafe filename'')
      else let trimmed = trim_right name '' .'' in
        if trimmed = [] \<or> trimmed \<noteq> name then Inl (ErrInvalidInput ''unsafe filename'')
        else let upper = to_upper (split_head CHR ''.'' name) in
          if List.member reserved_names upper then Inl (ErrInvalidInput ''reserved filename'')
          else Inr name)"

text \<open>What an accepted name is, independently of the order of the checks.\<close>

definition safe_filename :: "string \<Rightarrow> nat \<Rightarrow> bool" where
  "safe_filename name mx \<longleftrightarrow>
     valid_utf8 name \<and> name \<noteq> [] \<and> length name \<le> mx \<and>
     (\<forall>c \<in> set name. c \<noteq> char_of (0::nat) \<and> c \<noteq> CHR ''/'' \<and> c \<noteq> CHR 0x5C \<and> c \<noteq> CHR '':'') \<and>
     last name \<noteq> CHR '' '' \<and> last name \<noteq> CHR ''.'' \<and>
     to_upper (split_head CHR ''.'' name) \<notin> set reserved_names"

lemma sanitizeFilename_same: "sanitizeFilename name mx = Inr n \<Longrightarrow> n = name"
  by (auto simp: sanitizeFilename_def Let_def split: if_splits)

lemma sanitizeFilename_ok_iff: "sanitizeFilename name mx = Inr name \<longleftrightarrow> safe_filename name (unat mx)"
proof -
  have base: "path_base name = name" "\<not> is_abs name" if "name \<noteq> []" "CHR ''/'' \<notin> set name"
    using that by (auto simp: path_base_plain is_abs_def has_prefix_def take_Suc neq_Nil_conv)
  show ?thesis
  proof (cases "name = []")
    case False
    show ?thesis
    proof (cases "CHR ''/'' \<in> set name")
      case True
      then show ?thesis
        by (auto simp: sanitizeFilename_def safe_filename_def contains_any_def list_ex_iff Let_def)
    next
      case nosep: False
      let ?nul = "char_of (0 :: nat) \<in> set name" and ?bs = "CHR 0x5C \<in> set name"
        and ?col = "CHR '':'' \<in> set name"
        and ?res = "to_upper (split_head CHR ''.'' name) \<in> set reserved_names"
      have any: "contains_any name [char_of (0 :: nat)] \<longleftrightarrow> ?nul"
        "contains_any name (CHR ''/'' # [CHR 0x5C]) \<longleftrightarrow> ?bs" "contains_any name '':'' \<longleftrightarrow> ?col"
        using nosep by (auto simp: contains_any_def list_ex_iff)
      have dots: "last name \<noteq> CHR ''.'' \<Longrightarrow> name \<noteq> ''.'' \<and> name \<noteq> ''..''" by auto
      have trim: "trim_right name '' .'' = name \<longleftrightarrow> last name \<noteq> CHR '' '' \<and> last name \<noteq> CHR ''.''"
        using False by (simp add: trim_right_eq_iff)
      have "sanitizeFilename name mx = Inr name \<longleftrightarrow>
          valid_utf8 name \<and> length name \<le> unat mx \<and> \<not> ?nul \<and> name \<noteq> ''.'' \<and> name \<noteq> ''..'' \<and>
          \<not> ?bs \<and> \<not> ?col \<and> trim_right name '' .'' = name \<and> \<not> ?res"
        using False nosep by (auto simp: sanitizeFilename_def Let_def base[OF False nosep] any
            branch_simps)
      moreover have "safe_filename name (unat mx) \<longleftrightarrow>
          valid_utf8 name \<and> length name \<le> unat mx \<and> \<not> ?nul \<and> \<not> ?bs \<and> \<not> ?col \<and>
          last name \<noteq> CHR '' '' \<and> last name \<noteq> CHR ''.'' \<and> \<not> ?res"
        unfolding safe_filename_def using False nosep by blast
      ultimately show ?thesis using dots trim by blast
    qed
  qed (simp add: sanitizeFilename_def safe_filename_def)
qed

section \<open>Manifests\<close>

record Manifest =
  mf_Filename :: string
  mf_Size :: i64
  mf_ChunkSize :: u32
  mf_ChunkHashes :: "bytes list"
  mf_ContentHash :: bytes

text \<open>The array types of the Go struct: SHA-256 digests are 32 bytes.\<close>

definition wf_Manifest :: "Manifest \<Rightarrow> bool" where
  "wf_Manifest m \<longleftrightarrow> length (mf_ContentHash m) = 32 \<and> list_all (\<lambda>h. length h = 32) (mf_ChunkHashes m)"

definition ChunkCount :: "Manifest \<Rightarrow> u32" where
  "ChunkCount m = word_of_nat (length (mf_ChunkHashes m))"

text \<open>\<open>ceil(size / chunkSize)\<close> as the code computes it, on \<open>uint64\<close>.\<close>

definition wantChunks :: "i64 \<Rightarrow> u32 \<Rightarrow> u64" where
  "wantChunks sz cs = (if 0 < sint sz then (sz + ucast cs - 1) div ucast cs else 0)"

definition validateManifest :: "Manifest \<Rightarrow> limits \<Rightarrow> ft_error option" where
  "validateManifest m lim =
     (let lim = normalized lim in
      case sanitizeFilename (mf_Filename m) (MaxFilenameBytes lim) of
        Inl e \<Rightarrow> Some e
      | Inr _ \<Rightarrow>
          if sint (mf_Size m) < 0 \<or> sint (MaxFileSize lim) < sint (mf_Size m)
          then Some (ErrLimitExceeded ''file size'')
          else if mf_ChunkSize m = 0 \<or> MaxChunkSize lim < mf_ChunkSize m
          then Some (ErrLimitExceeded ''chunk size'')
          else let want = wantChunks (mf_Size m) (mf_ChunkSize m) in
            if (ucast (MaxChunks lim) :: u64) < want \<or>
               word_of_nat (length (mf_ChunkHashes m)) \<noteq> want
            then Some (ErrLimitExceeded ''chunk count'')
            else None)"

lemma validateManifest_iff:
  "validateManifest m lim = None \<longleftrightarrow>
     safe_filename (mf_Filename m) (unat (MaxFilenameBytes (normalized lim))) \<and>
     0 \<le> sint (mf_Size m) \<and> sint (mf_Size m) \<le> sint (MaxFileSize (normalized lim)) \<and>
     mf_ChunkSize m \<noteq> 0 \<and> mf_ChunkSize m \<le> MaxChunkSize (normalized lim) \<and>
     wantChunks (mf_Size m) (mf_ChunkSize m) \<le> ucast (MaxChunks (normalized lim)) \<and>
     word_of_nat (length (mf_ChunkHashes m)) = wantChunks (mf_Size m) (mf_ChunkSize m)"
proof -
  have "(\<exists>n. sanitizeFilename (mf_Filename m) k = Inr n) \<longleftrightarrow> safe_filename (mf_Filename m) (unat k)" for k
    using sanitizeFilename_ok_iff[of "mf_Filename m" k] sanitizeFilename_same by blast
  then show ?thesis unfolding validateManifest_def Let_def
    by (simp only: branch_simps not_less de_Morgan_disj) auto
qed

section \<open>Chunk geometry\<close>

definition expectedPlaintextSize :: "i64 \<Rightarrow> u32 \<Rightarrow> u32 \<Rightarrow> u32 \<Rightarrow> u32" where
  "expectedPlaintextSize sz cs index count =
     (if count = 0 then 0
      else if index + 1 < count then cs
      else ucast (sz - ucast index * ucast cs :: u64))"

lemma expectedPlaintextSize_last:
  assumes "0 < n" "n < 2 ^ 32" "i < n"
  shows "expectedPlaintextSize sz cs (word_of_nat i) (word_of_nat n) =
     (if Suc i < n then cs else ucast (sz - ucast (word_of_nat i :: u32) * ucast cs :: u64))"
proof -
  have n: "unat (word_of_nat n :: u32) = n" using assms by (simp add: unat_of_nat)
  then have n0: "(word_of_nat n :: u32) \<noteq> 0" using assms(1) by (metis less_irrefl unsigned_0)
  have "(word_of_nat i :: u32) + 1 = word_of_nat (Suc i)" by simp
  moreover have "unat (word_of_nat (Suc i) :: u32) = Suc i" using assms by (simp add: unat_of_nat del: of_nat_Suc)
  ultimately have "(word_of_nat i :: u32) + 1 < word_of_nat n \<longleftrightarrow> Suc i < n"
    using n by (metis word_less_nat_alt)
  then show ?thesis using n0 by (simp add: expectedPlaintextSize_def)
qed

text \<open>Ceiling division on naturals, the shape the word arithmetic is reduced to.\<close>

lemma ceil_div_bounds:
  fixes s c :: nat
  assumes "0 < s" "0 < c"
  defines "n \<equiv> (s + c - 1) div c"
  shows "0 < n" "(n - 1) * c < s" "s \<le> n * c"
proof -
  have d: "(s + c - 1) = n * c + (s + c - 1) mod c" unfolding n_def by simp
  have m: "(s + c - 1) mod c < c" using assms(2) by simp
  show pos: "0 < n" unfolding n_def using assms by (simp add: div_greater_zero_iff)
  show "s \<le> n * c" using d m assms by linarith
  have "n * c < s + c" using d assms by linarith
  then show "(n - 1) * c < s" using pos by (cases n) auto
qed

lemma unat_wantChunks:
  assumes "0 < sint sz" "cs \<noteq> 0"
  shows "unat (wantChunks sz cs) = (unat sz + unat cs - 1) div unat cs"
proof -
  have c: "unat (ucast cs :: u64) = unat cs" by simp
  have s: "unat sz < 9223372036854775808" using assms(1) by (intro unat_less_int64) simp
  have sc: "unat (sz + ucast cs) = unat sz + unat cs"
    using s c unat_u32_less[of cs] by (subst unat_add_lem[THEN iffD1]) auto
  have c1: "1 \<le> unat cs" using assms(2) by (simp add: Suc_leI word_greater_zero_iff unat_gt_0)
  then have "(1 :: u64) \<le> sz + ucast cs" using sc by (simp add: word_le_nat_alt)
  then have "unat (sz + ucast cs - 1) = unat sz + unat cs - 1"
    using sc by (simp add: unat_sub)
  then show ?thesis using assms(1) c by (simp add: wantChunks_def unat_div)
qed

lemma validateManifest_chunks:
  assumes "validateManifest m lim = None"
  shows "0 \<le> sint (mf_Size m)" "mf_ChunkSize m \<noteq> 0" "length (mf_ChunkHashes m) < 2 ^ 64 \<Longrightarrow>
     length (mf_ChunkHashes m) = unat (wantChunks (mf_Size m) (mf_ChunkSize m)) \<and>
     length (mf_ChunkHashes m) < 2 ^ 32"
proof -
  note v = assms[unfolded validateManifest_def Let_def]
  show "0 \<le> sint (mf_Size m)" "mf_ChunkSize m \<noteq> 0"
    using v by (auto split: sum.splits if_splits)
  assume l: "length (mf_ChunkHashes m) < 2 ^ 64"
  let ?w = "wantChunks (mf_Size m) (mf_ChunkSize m)"
  have eq: "word_of_nat (length (mf_ChunkHashes m)) = ?w"
    and le: "\<not> (ucast (MaxChunks (normalized lim)) :: u64) < ?w"
    using v by (auto split: sum.splits if_splits)
  have "length (mf_ChunkHashes m) = unat ?w"
    using l by (subst eq[symmetric]) (simp add: unat_of_nat)
  moreover have "unat ?w \<le> unat (ucast (MaxChunks (normalized lim)) :: u64)"
    using le by (simp add: word_less_nat_alt)
  moreover have "unat (ucast (MaxChunks (normalized lim)) :: u64) < 2 ^ 32"
    using unat_u32_less[of "MaxChunks (normalized lim)"] by simp
  ultimately show "length (mf_ChunkHashes m) = unat ?w \<and> length (mf_ChunkHashes m) < 2 ^ 32"
    by linarith
qed

text \<open>The plaintext length of chunk \<open>i\<close> of a manifest, as \<open>ReceiveChunk\<close> and \<open>EncryptChunk\<close> ask for it.\<close>

definition chunk_len :: "Manifest \<Rightarrow> nat \<Rightarrow> nat" where
  "chunk_len m i = unat (expectedPlaintextSize (mf_Size m) (mf_ChunkSize m) (word_of_nat i) (ChunkCount m))"

lemma mult_u64:
  assumes "unat (a :: u64) * unat (b :: u64) < 18446744073709551616"
  shows "unat (a * b) = unat a * unat b"
  using assms by (subst unat_mult_lem[THEN iffD1]) auto

lemma validateManifest_chunk_len:
  assumes v: "validateManifest m lim = None" and len: "length (mf_ChunkHashes m) < 2 ^ 63"
    and i: "i < length (mf_ChunkHashes m)"
  defines "n \<equiv> length (mf_ChunkHashes m)" and "c \<equiv> unat (mf_ChunkSize m)" and "s \<equiv> unat (mf_Size m)"
  shows "chunk_len m i = (if Suc i < n then c else s - i * c)" "0 < c" "(n - 1) * c < s" "s \<le> n * c"
    "s < 9223372036854775808" "0 < s" "n < 2 ^ 32"
proof -
  have sz: "0 \<le> sint (mf_Size m)" and cs: "mf_ChunkSize m \<noteq> 0"
    and nw: "n = unat (wantChunks (mf_Size m) (mf_ChunkSize m))" and n32: "n < 2 ^ 32"
    using validateManifest_chunks[OF v] len by (auto simp: n_def)
  have pos: "0 < sint (mf_Size m)" using nw i by (cases "0 < sint (mf_Size m)") (auto simp: wantChunks_def n_def)
  show c: "0 < c" using cs by (simp add: c_def unat_gt_0)
  show s63: "s < 9223372036854775808" unfolding s_def using sz by (rule unat_less_int64)
  have "mf_Size m \<noteq> 0" using pos by auto
  then show s: "0 < s" by (simp add: s_def unat_gt_0)
  show "n < 2 ^ 32" by (rule n32)
  have n: "n = (s + c - 1) div c" using nw unat_wantChunks[OF pos cs] by (simp add: s_def c_def)
  show lo: "(n - 1) * c < s" and hi: "s \<le> n * c" using ceil_div_bounds[OF s c] by (simp_all add: n)
  show "chunk_len m i = (if Suc i < n then c else s - i * c)"
  proof (cases "Suc i < n")
    case True
    then show ?thesis using i n32 c expectedPlaintextSize_last[of n i "mf_Size m" "mf_ChunkSize m"]
      by (cases "mf_ChunkHashes m = []") (auto simp: chunk_len_def ChunkCount_def n_def c_def)
  next
    case False
    then have il: "i = n - 1" using i by (simp add: n_def)
    have iu: "unat (ucast (word_of_nat i :: u32) :: u64) = i" using il n32 by (simp add: unat_of_nat)
    let ?p = "ucast (word_of_nat i :: u32) * ucast (mf_ChunkSize m) :: u64"
    have p: "unat ?p = i * c" using lo s63 iu il by (subst mult_u64) (auto simp: c_def)
    then have "?p \<le> mf_Size m" using lo il by (simp add: word_le_nat_alt s_def)
    then have d: "unat (mf_Size m - ?p) = s - i * c" by (simp add: unat_sub p s_def)
    have "s - i * c \<le> c" using hi il i by (cases n) (auto simp: n_def)
    then have "s - i * c < 4294967296" using unat_u32_less[of "mf_ChunkSize m"] by (simp add: c_def)
    then have "unat (ucast (mf_Size m - ?p) :: u32) = s - i * c"
      by (simp add: unsigned_ucast_eq d take_bit_nat_eq_self)
    then show ?thesis using False i n32 expectedPlaintextSize_last[of n i "mf_Size m" "mf_ChunkSize m"]
      by (cases "mf_ChunkHashes m = []") (auto simp: chunk_len_def ChunkCount_def n_def)
  qed
qed

lemma sum_all_but_last:
  fixes f :: "nat \<Rightarrow> nat"
  assumes "\<And>i. i < n \<Longrightarrow> f i = (if Suc i < n then c else s - i * c)" "(n - 1) * c \<le> s" "0 < n"
  shows "(\<Sum>i<n. f i) = s"
proof -
  obtain k where n: "n = Suc k" using assms(3) by (cases n) auto
  have "(\<Sum>i<k. f i) = k * c" using assms(1) n by simp
  then show ?thesis using assms(1,2) n by simp
qed

lemma validateManifest_covers:
  assumes "validateManifest m lim = None" and "length (mf_ChunkHashes m) < 2 ^ 63"
  shows "(\<Sum>i < length (mf_ChunkHashes m). chunk_len m i) = unat (mf_Size m) \<and>
    (\<forall>i < length (mf_ChunkHashes m). 0 < chunk_len m i \<and> chunk_len m i \<le> unat (mf_ChunkSize m) \<and>
       unat (ucast (word_of_nat i :: u32) * ucast (mf_ChunkSize m) :: u64) = i * unat (mf_ChunkSize m) \<and>
       i * unat (mf_ChunkSize m) + chunk_len m i \<le> unat (mf_Size m))"
proof (cases "mf_ChunkHashes m = []")
  case True
  have "\<not> 0 < sint (mf_Size m)"
  proof
    assume p: "0 < sint (mf_Size m)"
    have "unat (wantChunks (mf_Size m) (mf_ChunkSize m)) = 0" "mf_ChunkSize m \<noteq> 0"
      using validateManifest_chunks[OF assms(1)] True by auto
    note cs = this
    have "0 < unat (mf_Size m)" "0 < unat (mf_ChunkSize m)" using p cs by (auto simp: unat_gt_0)
    from ceil_div_bounds(1)[OF this] show False using p cs unat_wantChunks[OF p cs(2)] by simp
  qed
  then have "sint (mf_Size m) = sint (0 :: i64)" using validateManifest_chunks(1)[OF assms(1)] by simp
  then have "mf_Size m = 0" by (simp only: signed_word_eqI)
  then show ?thesis using True by simp
next
  case False
  let ?n = "length (mf_ChunkHashes m)"
  note L = validateManifest_chunk_len[OF assms]
  have n: "0 < ?n" using False by simp
  have sum: "(\<Sum>i < ?n. chunk_len m i) = unat (mf_Size m)"
    by (rule sum_all_but_last) (use L(1) L(3)[OF n] n in \<open>auto\<close>)
  moreover have "0 < chunk_len m i \<and> chunk_len m i \<le> unat (mf_ChunkSize m) \<and>
     unat (ucast (word_of_nat i :: u32) * ucast (mf_ChunkSize m) :: u64) = i * unat (mf_ChunkSize m) \<and>
     i * unat (mf_ChunkSize m) + chunk_len m i \<le> unat (mf_Size m)" if i: "i < ?n" for i
  proof -
    have mono: "i * unat (mf_ChunkSize m) \<le> (?n - 1) * unat (mf_ChunkSize m)"
      using i by (intro mult_right_mono) auto
    have step: "Suc i < ?n \<Longrightarrow> Suc i * unat (mf_ChunkSize m) \<le> (?n - 1) * unat (mf_ChunkSize m)"
      by (intro mult_right_mono) auto
    have last: "\<not> Suc i < ?n \<Longrightarrow> unat (mf_Size m) \<le> Suc i * unat (mf_ChunkSize m)"
      using L(4)[OF i] i by (metis Suc_lessI)
    have "unat (ucast (word_of_nat i :: u32) :: u64) = i" using i L(7)[OF i] by (simp add: unat_of_nat)
    then have "unat (ucast (word_of_nat i :: u32) * ucast (mf_ChunkSize m) :: u64) = i * unat (mf_ChunkSize m)"
      using le_less_trans[OF mono L(3)[OF i]] L(5)[OF i] by (subst mult_u64) auto
    then show ?thesis using le_less_trans[OF mono L(3)[OF i]] step last L(1-3)[OF i] by auto
  qed
  ultimately show ?thesis by blast
qed

text \<open>
  C6: a validated manifest cuts the file exactly. The declared chunk sizes are positive, at most
  the chunk size, and add up to the declared file size, and the byte offset of every chunk, which
  the receiver computes in 64 bits, does not overflow. The length bound is that of a Go slice.
\<close>

theorem validated_chunks_cover_file:
  assumes "validateManifest m lim = None" and "length (mf_ChunkHashes m) < 2 ^ 63"
  shows "(\<Sum>i < length (mf_ChunkHashes m). chunk_len m i) = unat (mf_Size m) \<and>
    (\<forall>i < length (mf_ChunkHashes m). 0 < chunk_len m i \<and> chunk_len m i \<le> unat (mf_ChunkSize m) \<and>
       unat (ucast (word_of_nat i :: u32) * ucast (mf_ChunkSize m) :: u64) = i * unat (mf_ChunkSize m) \<and>
       i * unat (mf_ChunkSize m) + chunk_len m i \<le> unat (mf_Size m))"
  by (rule validateManifest_covers[OF assms])

definition sample_manifest :: Manifest where
  "sample_manifest = \<lparr> mf_Filename = ''a.txt'', mf_Size = 5, mf_ChunkSize = 2,
     mf_ChunkHashes = [zeros 32, zeros 32, zeros 32], mf_ContentHash = zeros 32 \<rparr>"

lemma sample_manifest_valid: "validateManifest sample_manifest DefaultLimits = None"
  by code_simp

lemma validated_chunks_cover_file_witness:
  "(\<Sum>i < length (mf_ChunkHashes sample_manifest). chunk_len sample_manifest i) = 5"
  using validated_chunks_cover_file[OF sample_manifest_valid] by (simp add: sample_manifest_def)

text \<open>
  The filename policy, independently of the order in which \<open>sanitizeFilename\<close> tests it: a name
  is accepted exactly when it is well-formed UTF-8, not empty, within the limit, free of NUL,
  slash, backslash and colon, does not end in a space or a dot, and its part before the first dot
  is not a reserved device name in any letter case. An accepted name is returned unchanged.
\<close>

theorem sanitizeFilename_policy:
  "(\<exists>n. sanitizeFilename name mx = Inr n) = safe_filename name (unat mx) \<and>
   sanitizeFilename name mx \<in> {Inr name, Inl (ErrInvalidInput ''unsafe filename''),
     Inl (ErrInvalidInput ''reserved filename'')}"
proof -
  have "(\<exists>n. sanitizeFilename name mx = Inr n) = safe_filename name (unat mx)"
    using sanitizeFilename_ok_iff[of name mx] sanitizeFilename_same by blast
  moreover have "sanitizeFilename name mx \<in> {Inr name, Inl (ErrInvalidInput ''unsafe filename''),
     Inl (ErrInvalidInput ''reserved filename'')}"
    unfolding sanitizeFilename_def Let_def by (simp split: if_split)
  ultimately show ?thesis ..
qed

end
