(* ===== verification/FT_Encoding.thy ===== *)
theory FT_Encoding
  imports FT_Types
begin

text \<open>
  File transfer, \<open>internal/filetransfer/encoding.go\<close>: the bounds-checked \<open>decoder\<close> and the
  manifest format, and the \<open>codec\<close> interface every wire format of the package provides: the
  decoder accepts exactly the encodings of the valid values. The interface is interpreted on
  the manifest here and on the other formats in their own theories.
\<close>

section \<open>The decoder\<close>

record decoder =
  dec_b :: bytes
  dec_i :: nat

definition take_d :: "int \<Rightarrow> decoder \<Rightarrow> (bytes \<times> decoder) option" where
  "take_d n d =
     (if n < 0 \<or> int (length (dec_b d)) - n < int (dec_i d) then None
      else Some (take (nat n) (drop (dec_i d) (dec_b d)), d\<lparr>dec_i := dec_i d + nat n\<rparr>))"

definition u16_d :: "decoder \<Rightarrow> (u16 \<times> decoder) option" where
  "u16_d d = (case take_d 2 d of None \<Rightarrow> None | Some (b, d) \<Rightarrow> Some (be16 b, d))"

definition u32_d :: "decoder \<Rightarrow> (u32 \<times> decoder) option" where
  "u32_d d = (case take_d 4 d of None \<Rightarrow> None | Some (b, d) \<Rightarrow> Some (be32 b, d))"

definition u64_d :: "decoder \<Rightarrow> (u64 \<times> decoder) option" where
  "u64_d d = (case take_d 8 d of None \<Rightarrow> None | Some (b, d) \<Rightarrow> Some (be64 b, d))"

definition done_d :: "decoder \<Rightarrow> ft_error option" where
  "done_d d = (if dec_i d \<noteq> length (dec_b d) then Some (ErrInvalidInput ''trailing bytes'') else None)"

definition new_decoder :: "bytes \<Rightarrow> decoder" where
  "new_decoder b = \<lparr> dec_b = b, dec_i = 0 \<rparr>"

text \<open>
  Reasoning about a decoder: \<open>at_rest d r\<close> says that the cursor is inside the buffer and that
  \<open>r\<close> is what is left. Each reader is characterised by how it splits what is left.
\<close>

definition at_rest :: "decoder \<Rightarrow> bytes \<Rightarrow> bool" where
  "at_rest d r \<longleftrightarrow> dec_i d \<le> length (dec_b d) \<and> r = drop (dec_i d) (dec_b d)"

lemma at_rest_new [simp]: "at_rest (new_decoder b) b"
  by (simp add: at_rest_def new_decoder_def)

lemma take_d_ok:
  assumes "at_rest d (x @ r)" "n = int (length x)"
  shows "\<exists>d'. take_d n d = Some (x, d') \<and> at_rest d' r"
proof -
  have i: "dec_i d \<le> length (dec_b d)" and d: "drop (dec_i d) (dec_b d) = x @ r"
    using assms(1) by (simp_all add: at_rest_def)
  have l: "length (dec_b d) = dec_i d + length x + length r"
    using arg_cong[OF d, of length] i by simp
  have "drop (dec_i d + length x) (dec_b d) = r"
    using d by (metis add.commute append_eq_conv_conj drop_drop)
  then show ?thesis using assms(2) d l by (simp add: take_d_def at_rest_def)
qed

lemma take_d_inv:
  assumes "at_rest d r" "take_d n d = Some (x, d')"
  shows "0 \<le> n \<and> length x = nat n \<and> (\<exists>r'. r = x @ r' \<and> at_rest d' r')"
proof -
  have g: "0 \<le> n" "int (dec_i d) + n \<le> int (length (dec_b d))"
    and x: "x = take (nat n) (drop (dec_i d) (dec_b d))" "d' = d\<lparr>dec_i := dec_i d + nat n\<rparr>"
    using assms(2) by (auto simp: take_d_def split: if_splits)
  have r: "r = drop (dec_i d) (dec_b d)" using assms(1) by (simp add: at_rest_def)
  have "r = x @ drop (dec_i d + nat n) (dec_b d)"
    unfolding r x(1) by (metis add.commute append_take_drop_id drop_drop)
  moreover have "at_rest d' (drop (dec_i d + nat n) (dec_b d))" using g x(2) by (simp add: at_rest_def)
  moreover have "length x = nat n" using g x(1) by simp
  ultimately show ?thesis using g(1) by blast
qed

lemma u16_d_ok: "at_rest d (be_enc 2 (unat v) @ r) \<Longrightarrow> \<exists>d'. u16_d d = Some (v, d') \<and> at_rest d' r"
  using take_d_ok[of d "be_enc 2 (unat v)" r 2] by (auto simp: u16_d_def)

lemma u32_d_ok: "at_rest d (be_enc 4 (unat v) @ r) \<Longrightarrow> \<exists>d'. u32_d d = Some (v, d') \<and> at_rest d' r"
  using take_d_ok[of d "be_enc 4 (unat v)" r 4] by (auto simp: u32_d_def)

lemma u64_d_ok: "at_rest d (be_enc 8 (unat v) @ r) \<Longrightarrow> \<exists>d'. u64_d d = Some (v, d') \<and> at_rest d' r"
  using take_d_ok[of d "be_enc 8 (unat v)" r 8] by (auto simp: u64_d_def)

lemma be_enc_read:
  "length b = 2 \<Longrightarrow> be_enc 2 (unat (be16 b)) = b"
  "length b = 4 \<Longrightarrow> be_enc 4 (unat (be32 b)) = b"
  "length b = 8 \<Longrightarrow> be_enc 8 (unat (be64 b)) = b"
  using be_dec_less[of b] be_enc_dec[of b] by (auto simp: be16_def be32_def be64_def unat_of_nat)

lemma u16_d_inv:
  assumes "at_rest d r" "u16_d d = Some (v, d')"
  shows "\<exists>r'. r = be_enc 2 (unat v) @ r' \<and> at_rest d' r'"
proof -
  obtain b where b: "take_d 2 d = Some (b, d')" "v = be16 b"
    using assms(2) by (auto simp: u16_d_def split: option.splits)
  then show ?thesis using take_d_inv[OF assms(1) b(1)] be_enc_read(1)[of b] by auto
qed

lemma u32_d_inv:
  assumes "at_rest d r" "u32_d d = Some (v, d')"
  shows "\<exists>r'. r = be_enc 4 (unat v) @ r' \<and> at_rest d' r'"
proof -
  obtain b where b: "take_d 4 d = Some (b, d')" "v = be32 b"
    using assms(2) by (auto simp: u32_d_def split: option.splits)
  then show ?thesis using take_d_inv[OF assms(1) b(1)] be_enc_read(2)[of b] by auto
qed

lemma u64_d_inv:
  assumes "at_rest d r" "u64_d d = Some (v, d')"
  shows "\<exists>r'. r = be_enc 8 (unat v) @ r' \<and> at_rest d' r'"
proof -
  obtain b where b: "take_d 8 d = Some (b, d')" "v = be64 b"
    using assms(2) by (auto simp: u64_d_def split: option.splits)
  then show ?thesis using take_d_inv[OF assms(1) b(1)] be_enc_read(3)[of b] by auto
qed

lemma done_d_iff: "at_rest d r \<Longrightarrow> done_d d = None \<longleftrightarrow> r = []"
  by (auto simp: at_rest_def done_d_def)

lemmas reader_inv = take_d_inv u16_d_inv u32_d_inv u64_d_inv

text \<open>A run of fixed-size fields, the loops over \<open>d.take(len(dst))\<close> of the parsers.\<close>

fun takes_d :: "nat list \<Rightarrow> decoder \<Rightarrow> (bytes list \<times> decoder) option" where
  "takes_d [] d = Some ([], d)"
| "takes_d (n # ns) d =
     (case take_d (int n) d of None \<Rightarrow> None
      | Some (x, d) \<Rightarrow> (case takes_d ns d of None \<Rightarrow> None | Some (xs, d) \<Rightarrow> Some (x # xs, d)))"

lemma takes_d_ok:
  "at_rest d (concat xs @ r) \<Longrightarrow> map length xs = ns \<Longrightarrow> \<exists>d'. takes_d ns d = Some (xs, d') \<and> at_rest d' r"
proof (induction ns arbitrary: xs d)
  case (Cons n ns)
  obtain x ys where xs: "xs = x # ys" using Cons.prems(2) by (cases xs) auto
  have 1: "at_rest d (x @ (concat ys @ r))" "int n = int (length x)" "map length ys = ns"
    using Cons.prems xs by auto
  obtain d1 where d1: "take_d (int n) d = Some (x, d1)" "at_rest d1 (concat ys @ r)"
    using take_d_ok[OF 1(1,2)] by auto
  obtain d2 where "takes_d ns d1 = Some (ys, d2)" "at_rest d2 r"
    using Cons.IH[OF d1(2) 1(3)] by auto
  then show ?case using d1 xs by simp
qed simp

lemma takes_d_inv:
  "at_rest d r \<Longrightarrow> takes_d ns d = Some (xs, d') \<Longrightarrow>
   map length xs = ns \<and> (\<exists>r'. r = concat xs @ r' \<and> at_rest d' r')"
proof (induction ns arbitrary: xs d r)
  case (Cons n ns)
  obtain x d1 ys where 1: "take_d (int n) d = Some (x, d1)" "takes_d ns d1 = Some (ys, d')" "xs = x # ys"
    using Cons.prems(2) by (auto split: option.splits)
  obtain r1 where 2: "length x = n" "r = x @ r1" "at_rest d1 r1"
    using take_d_inv[OF Cons.prems(1) 1(1)] by auto
  show ?case using Cons.IH[OF 2(3) 1(2)] 1(3) 2 by auto
qed simp

lemma takes_d_end:
  "at_rest d (concat xs) \<Longrightarrow> map length xs = ns \<Longrightarrow> \<exists>d'. takes_d ns d = Some (xs, d') \<and> at_rest d' []"
  using takes_d_ok[of d xs "[]"] by simp

lemma done_d_end: "at_rest d [] \<Longrightarrow> done_d d = None"
  by (simp add: done_d_iff)

section \<open>The codec interface\<close>

text \<open>
  \<open>enc\<close> writes a value, \<open>dec\<close> reads one or fails, \<open>ok\<close> says which values the decoder lets
  through. The law: decoding succeeds exactly on the encodings of the accepted values. It gives
  the round trip, the injectivity of the encoding and that no accepted value has two encodings.
\<close>

locale codec =
  fixes enc :: "'a \<Rightarrow> bytes" and dec :: "bytes \<Rightarrow> 'e + 'a" and ok :: "'a \<Rightarrow> bool"
  assumes dec_iff: "dec b = Inr a \<longleftrightarrow> ok a \<and> b = enc a"
begin

lemma roundtrip: "ok a \<Longrightarrow> dec (enc a) = Inr a"
  by (simp add: dec_iff)

lemma enc_inject: "ok a \<Longrightarrow> ok a' \<Longrightarrow> enc a = enc a' \<longleftrightarrow> a = a'"
  by (metis roundtrip sum.inject(2))

lemma canonical: "dec b = Inr a \<Longrightarrow> dec b' = Inr a \<Longrightarrow> b = b'"
  by (simp add: dec_iff)

lemma rejects: "(\<exists>e. dec b = Inl e) \<longleftrightarrow> (\<nexists>a. ok a \<and> b = enc a)"
proof (cases "dec b")
  case (Inl e)
  then have "\<nexists>a. dec b = Inr a" by simp
  then have "\<nexists>a. ok a \<and> b = enc a" unfolding dec_iff .
  then show ?thesis using Inl by simp
next
  case (Inr a)
  then have "\<exists>a. ok a \<and> b = enc a" using dec_iff[of b a] by auto
  then show ?thesis using Inr by simp
qed

end

section \<open>Manifests\<close>

definition manifestMagic :: bytes where "manifestMagic = str_bytes ''RMFM''"

definition encodeManifest :: "Manifest \<Rightarrow> bytes" where
  "encodeManifest m =
     (let b = manifestMagic;
          b = appendU16 b ProtocolVersion;
          b = appendU16 b (word_of_nat (length (mf_Filename m)));
          b = b @ str_bytes (mf_Filename m);
          b = appendU64 b (mf_Size m);
          b = appendU32 b (mf_ChunkSize m);
          b = appendU32 b (word_of_nat (length (mf_ChunkHashes m)));
          b = b @ mf_ContentHash m
      in foldl (@) b (mf_ChunkHashes m))"

definition decodeManifest :: "bytes \<Rightarrow> limits \<Rightarrow> ft_error + Manifest" where
  "decodeManifest b lim =
    (let lim = normalized lim in
     if unat (MaxManifestBytes lim) < length b then Inl (ErrLimitExceeded ''manifest bytes'') else
     or_fail (ErrInvalidInput ''manifest magic'') (take_d (int (length manifestMagic)) (new_decoder b))
       (\<lambda>(magic, d).
     if magic \<noteq> manifestMagic then Inl (ErrInvalidInput ''manifest magic'') else
     or_fail (ErrInvalidInput ''manifest version'') (u16_d d) (\<lambda>(v, d).
     if v \<noteq> ProtocolVersion then Inl (ErrInvalidInput ''manifest version'') else
     or_fail (ErrLimitExceeded ''filename length'') (u16_d d) (\<lambda>(nameLen, d).
     if nameLen = 0 \<or> MaxFilenameBytes lim < nameLen then Inl (ErrLimitExceeded ''filename length'') else
     or_fail (ErrInvalidInput ''filename'') (take_d (int (unat nameLen)) d) (\<lambda>(name, d).
     or_fail (ErrLimitExceeded ''file size'') (u64_d d) (\<lambda>(size, d).
     if MaxFileSize lim < size then Inl (ErrLimitExceeded ''file size'') else
     or_fail (ErrLimitExceeded ''chunk size'') (u32_d d) (\<lambda>(chunkSize, d).
     if chunkSize = 0 \<or> MaxChunkSize lim < chunkSize then Inl (ErrLimitExceeded ''chunk size'') else
     or_fail (ErrLimitExceeded ''chunk count'') (u32_d d) (\<lambda>(count, d).
     if MaxChunks lim < count then Inl (ErrLimitExceeded ''chunk count'') else
     let expected = (4 + 2 + 2) + ucast nameLen + 8 + 4 + 4 + 32 + ucast count * 32 :: u64 in
     if expected \<noteq> word_of_nat (length b) then Inl (ErrInvalidInput ''malformed manifest length'') else
     or_fail ErrUnexpectedEOF (take_d 32 d) (\<lambda>(content, d).
     or_fail ErrUnexpectedEOF (takes_d (replicate (unat count) 32) d) (\<lambda>(hashes, d).
     let m = \<lparr> mf_Filename = bytes_str name, mf_Size = size, mf_ChunkSize = chunkSize,
                mf_ChunkHashes = map (copy_into (zeros 32)) hashes,
                mf_ContentHash = copy_into (zeros 32) content \<rparr> in
     check_r (done_d d) (check_r (validateManifest m lim) (Inr m))))))))))))"

lemma foldl_append: "foldl (@) b xs = b @ concat xs"
  by (induction xs arbitrary: b) auto

lemma encodeManifest_eq:
  "encodeManifest m = manifestMagic @ be_enc 2 (unat ProtocolVersion) @
     be_enc 2 (unat (word_of_nat (length (mf_Filename m)) :: u16)) @ str_bytes (mf_Filename m) @
     be_enc 8 (unat (mf_Size m)) @ be_enc 4 (unat (mf_ChunkSize m)) @
     be_enc 4 (unat (word_of_nat (length (mf_ChunkHashes m)) :: u32)) @
     mf_ContentHash m @ concat (mf_ChunkHashes m)"
  by (simp add: encodeManifest_def Let_def foldl_append appendU16_def appendU32_def appendU64_def)

lemma length_concat_const: "list_all (\<lambda>x. length x = n) xs \<Longrightarrow> length (concat xs) = n * length xs"
  by (induction xs) auto

lemma length_encodeManifest:
  "wf_Manifest m \<Longrightarrow> length (encodeManifest m) = 56 + length (mf_Filename m) + 32 * length (mf_ChunkHashes m)"
  by (simp add: encodeManifest_eq wf_Manifest_def length_concat_const manifestMagic_def)

lemma map_copy_full: "list_all (\<lambda>x. length x = n) xs \<Longrightarrow> map (copy_into (zeros n)) xs = xs"
  by (induction xs) auto

text \<open>What a manifest has to be for the decoder to return it.\<close>

definition manifest_ok :: "limits \<Rightarrow> Manifest \<Rightarrow> bool" where
  "manifest_ok lim m \<longleftrightarrow> wf_Manifest m \<and> validateManifest m lim = None \<and>
     length (encodeManifest m) \<le> unat (MaxManifestBytes (normalized lim))"

lemma validateManifest_normalized [simp]: "validateManifest m (normalized lim) = validateManifest m lim"
  by (simp add: validateManifest_def)

lemma map_length_replicate:
  "map length xs = replicate k n \<Longrightarrow> list_all (\<lambda>x. length x = n) xs \<and> length xs = k"
  by (induction xs arbitrary: k) (auto simp: Cons_replicate_eq)

lemma map_length_const: "list_all (\<lambda>x. length x = n) xs \<Longrightarrow> map length xs = replicate (length xs) n"
  by (induction xs) auto

lemma decodeManifest_sound:
  assumes "decodeManifest b lim = Inr m"
  shows "manifest_ok lim m \<and> b = encodeManifest m"
  using assms unfolding decodeManifest_def Let_def
  apply (simp only: branch_simps split_paired_Ex prod.case not_less)
  apply (elim exE conjE)
  apply (drule take_d_inv[OF at_rest_new])
  apply (elim exE conjE)
  apply ((drule (1) u16_d_inv u32_d_inv u64_d_inv take_d_inv takes_d_inv, elim exE conjE)+)
  apply (drule map_length_replicate)
  apply (simp only: done_d_iff append_Nil2 sum.inject)
  by (auto simp: manifest_ok_def wf_Manifest_def encodeManifest_eq map_copy_full)

lemma decodeManifest_complete:
  assumes "manifest_ok lim m"
  shows "decodeManifest (encodeManifest m) lim = Inr m"
proof -
  have wf: "wf_Manifest m" and v: "validateManifest m lim = None"
    and len: "length (encodeManifest m) \<le> unat (MaxManifestBytes (normalized lim))"
    using assms by (auto simp: manifest_ok_def)
  let ?lim = "normalized lim" and ?f = "length (mf_Filename m)" and ?n = "length (mf_ChunkHashes m)"
  have l32: "?n < 2 ^ 32"
    using len length_encodeManifest[OF wf] unat_u32_less[of "MaxManifestBytes ?lim"] by simp
  have f: "0 < ?f" "?f \<le> unat (MaxFilenameBytes ?lim)"
    using v by (auto simp: validateManifest_iff safe_filename_def)
  have fn: "unat (word_of_nat ?f :: u16) = ?f"
    using f(2) unat_u16_less[of "MaxFilenameBytes ?lim"] by (simp add: unat_of_nat)
  have nn: "unat (word_of_nat ?n :: u32) = ?n" using l32 by (simp add: unat_of_nat)
  have g1: "(word_of_nat ?f :: u16) \<noteq> 0" "\<not> MaxFilenameBytes ?lim < word_of_nat ?f"
    using f fn by (auto simp: word_less_nat_alt)
  have g2: "\<not> MaxFileSize ?lim < mf_Size m"
    using v sint_le_unat64[of "mf_Size m" "MaxFileSize ?lim"] by (simp add: validateManifest_iff word_less_nat_alt)
  have g3: "\<not> MaxChunks ?lim < word_of_nat ?n"
  proof -
    have "unat (word_of_nat ?n :: u64) = ?n" using l32 by (simp add: unat_of_nat)
    then show ?thesis using v nn by (auto simp: validateManifest_iff word_less_nat_alt word_le_nat_alt)
  qed
  have g4: "(4 + 2 + 2) + ucast (word_of_nat ?f :: u16) + 8 + 4 + 4 + 32 + ucast (word_of_nat ?n :: u32) * 32 =
      (word_of_nat (length (encodeManifest m)) :: u64)"
  proof -
    have "ucast (word_of_nat ?f :: u16) = (word_of_nat ?f :: u64)"
      using f(2) fn by (intro unsigned_word_eqI[where ?'a = nat]) (simp add: unat_of_nat)
    moreover have "ucast (word_of_nat ?n :: u32) = (word_of_nat ?n :: u64)"
      using l32 nn by (intro unsigned_word_eqI[where ?'a = nat]) (simp add: unat_of_nat)
    ultimately show ?thesis by (simp add: length_encodeManifest[OF wf])
  qed
  have g5: "mf_ChunkSize m \<noteq> 0" "\<not> MaxChunkSize ?lim < mf_ChunkSize m"
    using v by (auto simp: validateManifest_iff)
  have eqm: "\<lparr>mf_Filename = mf_Filename m, mf_Size = mf_Size m, mf_ChunkSize = mf_ChunkSize m,
      mf_ChunkHashes = mf_ChunkHashes m, mf_ContentHash = mf_ContentHash m\<rparr> = m"
    by (rule Manifest.equality) simp_all
  have lens: "length (mf_ContentHash m) = 32" "map length (mf_ChunkHashes m) = replicate ?n 32"
    using wf map_length_const by (auto simp: wf_Manifest_def)
  show ?thesis
    apply (insert take_d_ok[OF at_rest_new[of "encodeManifest m", unfolded encodeManifest_eq] refl])
    apply (elim exE conjE)
    apply (drule u16_d_ok, elim exE conjE)
    apply (drule u16_d_ok, elim exE conjE)
    apply (drule take_d_ok[OF _ refl], elim exE conjE)
    apply (drule u64_d_ok, elim exE conjE)
    apply (drule u32_d_ok, elim exE conjE)
    apply (drule u32_d_ok, elim exE conjE)
    apply (drule take_d_ok[OF _ refl], elim exE conjE)
    apply (drule takes_d_end[OF _ refl], elim exE conjE)
    unfolding encodeManifest_eq[symmetric] decodeManifest_def Let_def
    using v wf len g1 g2 g3 g4 g5 lens fn nn
    by (simp add: done_d_end wf_Manifest_def map_copy_full not_less eqm)
qed

interpretation manifest_codec: codec encodeManifest "\<lambda>b. decodeManifest b lim" "manifest_ok lim" for lim
  by unfold_locales (use decodeManifest_sound decodeManifest_complete in blast)

text \<open>
  C7: the manifest format is canonical. \<open>decodeManifest\<close> returns \<open>m\<close> exactly on the byte string
  \<open>encodeManifest m\<close>, and only for manifests that pass \<open>validateManifest\<close> and whose encoding is
  within \<open>MaxManifestBytes\<close>; so the format round-trips, and no two byte strings decode alike.
\<close>

theorem decodeManifest_canonical:
  "decodeManifest b lim = Inr m \<longleftrightarrow> manifest_ok lim m \<and> b = encodeManifest m"
  by (rule manifest_codec.dec_iff)

end
