(* ===== verification/FT_Admission.thy ===== *)
theory FT_Admission
  imports FT_Encoding
begin

text \<open>
  File transfer, \<open>internal/filetransfer/admission.go\<close>: the manager that admits transfers under
  aggregate, per-tenant and per-device quotas, together with the reservation records of \<open>state.go\<close>
  it reads back from disk. Counters keep their Go width. The manager and the admission handles it
  gave out form a transition system; its invariant says that every counter is the exact sum over
  the open handles or the reservations, and is within its quota.
\<close>

section \<open>Reservation records\<close>

record reservationRecord =
  rr_tenant :: string
  rr_device :: string
  rr_bytes :: i64

definition reservationMagic :: bytes where "reservationMagic = str_bytes ''RMQR''"

definition encodeReservation :: "string \<Rightarrow> string \<Rightarrow> i64 \<Rightarrow> ft_error + bytes" where
  "encodeReservation tenant device reserved =
     (if length tenant = 0 \<or> 128 < length tenant \<or> length device = 0 \<or> 128 < length device \<or> sint reserved < 0
      then Inl (ErrInvalidInput ''reservation metadata'')
      else
       (let b = reservationMagic;
            b = appendU16 b ProtocolVersion;
            b = appendU16 b (word_of_nat (length tenant));
            b = b @ str_bytes tenant;
            b = appendU16 b (word_of_nat (length device));
            b = b @ str_bytes device
        in Inr (appendU64 b reserved)))"

definition decodeReservation :: "bytes \<Rightarrow> ft_error + reservationRecord" where
  "decodeReservation b =
    (if 4 + 2 + 2 + 128 + 2 + 128 + 8 < length b then Inl (ErrLimitExceeded ''reservation metadata'') else
     or_fail (ErrInvalidInput ''reservation magic'') (take_d 4 (new_decoder b)) (\<lambda>(magic, d).
     if magic \<noteq> reservationMagic then Inl (ErrInvalidInput ''reservation magic'') else
     or_fail (ErrInvalidInput ''reservation version'') (u16_d d) (\<lambda>(version, d).
     if version \<noteq> ProtocolVersion then Inl (ErrInvalidInput ''reservation version'') else
     or_fail (ErrInvalidInput ''reservation tenant'') (u16_d d) (\<lambda>(tenantLen, d).
     if tenantLen = 0 \<or> 128 < tenantLen then Inl (ErrInvalidInput ''reservation tenant'') else
     or_fail ErrUnexpectedEOF (take_d (int (unat tenantLen)) d) (\<lambda>(tenant, d).
     or_fail (ErrInvalidInput ''reservation device'') (u16_d d) (\<lambda>(deviceLen, d).
     if deviceLen = 0 \<or> 128 < deviceLen then Inl (ErrInvalidInput ''reservation device'') else
     or_fail ErrUnexpectedEOF (take_d (int (unat deviceLen)) d) (\<lambda>(device, d).
     or_fail (ErrLimitExceeded ''reservation bytes'') (u64_d d) (\<lambda>(reserved, d).
     if 0x7FFFFFFFFFFFFFFF < reserved then Inl (ErrLimitExceeded ''reservation bytes'') else
     check_r (done_d d)
       (Inr \<lparr> rr_tenant = bytes_str tenant, rr_device = bytes_str device, rr_bytes = reserved \<rparr>)))))))))"

definition reservation_ok :: "reservationRecord \<Rightarrow> bool" where
  "reservation_ok r \<longleftrightarrow> rr_tenant r \<noteq> [] \<and> length (rr_tenant r) \<le> 128 \<and> rr_device r \<noteq> [] \<and>
     length (rr_device r) \<le> 128 \<and> 0 \<le> sint (rr_bytes r)"

definition reservation_bytes :: "reservationRecord \<Rightarrow> bytes" where
  "reservation_bytes r =
     (case encodeReservation (rr_tenant r) (rr_device r) (rr_bytes r) of Inl _ \<Rightarrow> [] | Inr b \<Rightarrow> b)"

lemma encodeReservation_ok:
  "reservation_ok r \<Longrightarrow> encodeReservation (rr_tenant r) (rr_device r) (rr_bytes r) = Inr (reservation_bytes r)"
  "reservation_ok r \<Longrightarrow> reservation_bytes r = reservationMagic @ be_enc 2 (unat ProtocolVersion) @
     be_enc 2 (unat (word_of_nat (length (rr_tenant r)) :: u16)) @ str_bytes (rr_tenant r) @
     be_enc 2 (unat (word_of_nat (length (rr_device r)) :: u16)) @ str_bytes (rr_device r) @
     be_enc 8 (unat (rr_bytes r))"
  by (auto simp: reservation_bytes_def encodeReservation_def Let_def appendU16_def appendU64_def
      reservation_ok_def)

lemma length_reservationMagic [simp]: "length reservationMagic = 4"
  by (simp add: reservationMagic_def)

lemma u16_len_bounds: "w \<noteq> 0 \<Longrightarrow> (w :: u16) \<le> 128 \<Longrightarrow> 0 < unat w \<and> unat w \<le> 128"
  by (auto simp: word_le_nat_alt unat_gt_0)

lemma decodeReservation_sound:
  assumes "decodeReservation b = Inr r"
  shows "reservation_ok r \<and> b = reservation_bytes r"
proof -
  have "reservation_ok r \<and> b = reservationMagic @ be_enc 2 (unat ProtocolVersion) @
     be_enc 2 (unat (word_of_nat (length (rr_tenant r)) :: u16)) @ str_bytes (rr_tenant r) @
     be_enc 2 (unat (word_of_nat (length (rr_device r)) :: u16)) @ str_bytes (rr_device r) @
     be_enc 8 (unat (rr_bytes r))"
    using assms unfolding decodeReservation_def
    apply (simp only: branch_simps split_paired_Ex prod.case not_less de_Morgan_disj not_not)
    apply (elim exE conjE)
    apply (drule take_d_inv[OF at_rest_new])
    apply (elim exE conjE)
    apply ((drule (1) u16_d_inv u64_d_inv take_d_inv, elim exE conjE)+)
    apply (drule (1) u16_len_bounds, elim conjE)+
    by (auto simp: reservation_ok_def done_d_iff int63_iff)
  then show ?thesis using encodeReservation_ok(2) by simp
qed

lemma decodeReservation_complete:
  assumes "reservation_ok r"
  shows "decodeReservation (reservation_bytes r) = Inr r"
proof -
  note R = assms[unfolded reservation_ok_def]
  note B = encodeReservation_ok(2)[OF assms]
  have w: "unat (word_of_nat (length (rr_tenant r)) :: u16) = length (rr_tenant r)"
    "unat (word_of_nat (length (rr_device r)) :: u16) = length (rr_device r)"
    using R by (simp_all add: unat_of_nat)
  then have g: "(word_of_nat (length (rr_tenant r)) :: u16) \<noteq> 0" "(word_of_nat (length (rr_device r)) :: u16) \<noteq> 0"
    "\<not> 128 < (word_of_nat (length (rr_tenant r)) :: u16)" "\<not> 128 < (word_of_nat (length (rr_device r)) :: u16)"
    using R by (auto simp: word_less_nat_alt)
  have g2: "\<not> 0x7FFFFFFFFFFFFFFF < rr_bytes r" using R by (simp only: not_less int63_iff)
  have L: "\<not> 4 + 2 + 2 + 128 + 2 + 128 + 8 < length (reservation_bytes r)" using R by (simp add: B)
  have eqr: "\<lparr>rr_tenant = rr_tenant r, rr_device = rr_device r, rr_bytes = rr_bytes r\<rparr> = r"
    by (rule reservationRecord.equality) simp_all
  show ?thesis
    apply (insert take_d_ok[OF at_rest_new[of "reservation_bytes r", unfolded B] refl])
    apply (elim exE conjE)
    apply (drule u16_d_ok, elim exE conjE)
    apply (drule u16_d_ok, elim exE conjE)
    apply (drule take_d_ok[OF _ refl], elim exE conjE)
    apply (drule u16_d_ok, elim exE conjE)
    apply (drule take_d_ok[OF _ refl], elim exE conjE)
    apply (drule u64_d_ok[where r = "[]", simplified], elim exE conjE)
    unfolding B[symmetric] decodeReservation_def
    using g g2 w L eqr by (simp add: done_d_end)
qed

interpretation reservation_codec: codec reservation_bytes decodeReservation reservation_ok
  by unfold_locales (use decodeReservation_sound decodeReservation_complete in blast)

section \<open>Quotas and the manager\<close>

record Quota =
  q_MaxActiveTransfers :: u32
  q_MaxReservedBytes :: i64
  q_MaxRetainedTransfers :: u32
  q_MaxRetainedPerTenant :: u32
  q_MaxRetainedPerDevice :: u32
  q_MaxActivePerTenant :: u32
  q_MaxReservedBytesPerTenant :: i64
  q_MaxActivePerDevice :: u32
  q_MaxReservedBytesPerDevice :: i64

definition zero_quota :: Quota where
  "zero_quota = \<lparr> q_MaxActiveTransfers = 0, q_MaxReservedBytes = 0, q_MaxRetainedTransfers = 0,
     q_MaxRetainedPerTenant = 0, q_MaxRetainedPerDevice = 0, q_MaxActivePerTenant = 0,
     q_MaxReservedBytesPerTenant = 0, q_MaxActivePerDevice = 0, q_MaxReservedBytesPerDevice = 0 \<rparr>"

definition DefaultQuota :: Quota where
  "DefaultQuota = \<lparr> q_MaxActiveTransfers = 16, q_MaxReservedBytes = 17179869184, q_MaxRetainedTransfers = 64,
     q_MaxRetainedPerTenant = 32, q_MaxRetainedPerDevice = 8, q_MaxActivePerTenant = 8,
     q_MaxReservedBytesPerTenant = 8589934592, q_MaxActivePerDevice = 4,
     q_MaxReservedBytesPerDevice = 4294967296 \<rparr>"

record quotaUsage =
  qu_active :: u32
  qu_bytes :: i64

definition no_usage :: quotaUsage where "no_usage = \<lparr> qu_active = 0, qu_bytes = 0 \<rparr>"

record retainedPrincipal =
  rp_tenant :: string
  rp_device :: string

definition no_principal :: retainedPrincipal where "no_principal = \<lparr> rp_tenant = [], rp_device = [] \<rparr>"

text \<open>\<open>loadedRoots\<close> keeps an \<open>os.FileInfo\<close> to compare with \<open>os.SameFile\<close>: the identity of the directory.\<close>

type_synonym inode = nat

record AdmissionManager =
  am_quota :: Quota
  am_total :: quotaUsage
  am_tenants :: "(string, quotaUsage) gomap"
  am_devices :: "(string, quotaUsage) gomap"
  am_reservations :: "(string, reservationRecord) gomap"
  am_loadedRoots :: "(string, inode) gomap"
  am_completed :: "(string, retainedPrincipal) gomap"
  am_refs :: "(string, u32) gomap"
  am_owners :: "(string, u64) gomap"
  am_nextOwner :: u64

record admission =
  ad_tenant :: string
  ad_device :: string
  ad_reservationKey :: string
  ad_completed :: bool
  ad_abortOwner :: u64
  ad_closed :: bool

definition normalizeQuota :: "Quota \<Rightarrow> Quota" where
  "normalizeQuota q =
     (let q = (if q = zero_quota then DefaultQuota else q) in
      if 0 < q_MaxRetainedTransfers q then
        let fairTenant = q_MaxRetainedTransfers q div 2;
            fairTenant = (if fairTenant = 0 then 1 else fairTenant);
            q = (if q_MaxRetainedPerTenant q = 0 \<or> q_MaxRetainedTransfers q < q_MaxRetainedPerTenant q
                 then q\<lparr>q_MaxRetainedPerTenant := fairTenant\<rparr> else q);
            fairDevice = q_MaxRetainedPerTenant q div 4;
            fairDevice = (if fairDevice = 0 then 1 else fairDevice)
        in if q_MaxRetainedPerDevice q = 0 \<or> q_MaxRetainedPerTenant q < q_MaxRetainedPerDevice q
           then q\<lparr>q_MaxRetainedPerDevice := fairDevice\<rparr> else q
      else q)"

definition NewAdmissionManager :: "Quota \<Rightarrow> ft_error + AdmissionManager" where
  "NewAdmissionManager quota =
     (let q = normalizeQuota quota in
      if q_MaxActiveTransfers q = 0 \<or> sint (q_MaxReservedBytes q) \<le> 0 \<or> q_MaxRetainedTransfers q = 0 \<or>
         q_MaxRetainedPerTenant q = 0 \<or> q_MaxRetainedPerDevice q = 0 \<or>
         q_MaxActivePerTenant q = 0 \<or> sint (q_MaxReservedBytesPerTenant q) \<le> 0 \<or>
         q_MaxActivePerDevice q = 0 \<or> sint (q_MaxReservedBytesPerDevice q) \<le> 0
      then Inl (ErrInvalidInput ''invalid aggregate quota'')
      else Inr \<lparr> am_quota = q, am_total = no_usage, am_tenants = [], am_devices = [], am_reservations = [],
                 am_loadedRoots = [], am_completed = [], am_refs = [], am_owners = [], am_nextOwner = 0 \<rparr>)"

definition device_key :: "string \<Rightarrow> string \<Rightarrow> string" where
  "device_key tenant device = tenant @ [char_of (0 :: nat)] @ device"

abbreviation tenant_usage :: "AdmissionManager \<Rightarrow> string \<Rightarrow> quotaUsage" where
  "tenant_usage m t \<equiv> map_get no_usage (am_tenants m) t"

abbreviation device_usage :: "AdmissionManager \<Rightarrow> string \<Rightarrow> quotaUsage" where
  "device_usage m k \<equiv> map_get no_usage (am_devices m) k"

definition adm_begin :: "AdmissionManager \<Rightarrow> string \<Rightarrow> string \<Rightarrow> ft_error + (admission \<times> AdmissionManager)" where
  "adm_begin m tenant device =
     (let tu = tenant_usage m tenant; du = device_usage m (device_key tenant device) in
      if q_MaxActiveTransfers (am_quota m) \<le> qu_active (am_total m) \<or>
         q_MaxActivePerTenant (am_quota m) \<le> qu_active tu \<or> q_MaxActivePerDevice (am_quota m) \<le> qu_active du
      then Inl (ErrLimitExceeded ''active transfers'')
      else Inr (\<lparr> ad_tenant = tenant, ad_device = device, ad_reservationKey = [], ad_completed = False,
                  ad_abortOwner = 0, ad_closed = False \<rparr>,
                m\<lparr>am_total := (am_total m)\<lparr>qu_active := qu_active (am_total m) + 1\<rparr>,
                  am_tenants := AList.update tenant (tu\<lparr>qu_active := qu_active tu + 1\<rparr>) (am_tenants m),
                  am_devices := AList.update (device_key tenant device) (du\<lparr>qu_active := qu_active du + 1\<rparr>)
                    (am_devices m)\<rparr>))"

definition retained_count :: "AdmissionManager \<Rightarrow> u32" where
  "retained_count m = word_of_nat (length (am_reservations m) + length (am_completed m))"

definition canRetainLocked :: "AdmissionManager \<Rightarrow> string \<Rightarrow> string \<Rightarrow> bool" where
  "canRetainLocked m tenant device =
     (if q_MaxRetainedTransfers (am_quota m) \<le> retained_count m then False
      else
        let tenantCount = foldl (\<lambda>n (_, rec). if rr_tenant rec = tenant then n + 1 else n) 0 (am_reservations m);
            deviceCount = foldl (\<lambda>n (_, rec). if rr_tenant rec = tenant \<and> rr_device rec = device then n + 1 else n)
              0 (am_reservations m);
            tenantCount = foldl (\<lambda>n (_, p). if rp_tenant p = tenant then n + 1 else n) tenantCount (am_completed m);
            deviceCount = foldl (\<lambda>n (_, p). if rp_tenant p = tenant \<and> rp_device p = device then n + 1 else n)
              deviceCount (am_completed m)
        in (tenantCount :: u32) < q_MaxRetainedPerTenant (am_quota m) \<and>
           (deviceCount :: u32) < q_MaxRetainedPerDevice (am_quota m))"

definition exceeds :: "i64 \<Rightarrow> i64 \<Rightarrow> i64 \<Rightarrow> bool" where
  "exceeds current add maximum \<longleftrightarrow> sint current < 0 \<or> sint add < 0 \<or> sint maximum < 0 \<or>
     sint maximum < sint current \<or> sint (maximum - current) < sint add"

definition addReservedLocked :: "AdmissionManager \<Rightarrow> string \<Rightarrow> string \<Rightarrow> i64 \<Rightarrow> ft_error + AdmissionManager" where
  "addReservedLocked m tenant device bs =
     (let tu = tenant_usage m tenant; du = device_usage m (device_key tenant device) in
      if exceeds (qu_bytes (am_total m)) bs (q_MaxReservedBytes (am_quota m)) \<or>
         exceeds (qu_bytes tu) bs (q_MaxReservedBytesPerTenant (am_quota m)) \<or>
         exceeds (qu_bytes du) bs (q_MaxReservedBytesPerDevice (am_quota m))
      then Inl (ErrLimitExceeded ''reserved bytes'')
      else Inr (m\<lparr>am_total := (am_total m)\<lparr>qu_bytes := qu_bytes (am_total m) + bs\<rparr>,
                  am_tenants := AList.update tenant (tu\<lparr>qu_bytes := qu_bytes tu + bs\<rparr>) (am_tenants m),
                  am_devices := AList.update (device_key tenant device) (du\<lparr>qu_bytes := qu_bytes du + bs\<rparr>)
                    (am_devices m)\<rparr>))"

definition ref_inc :: "AdmissionManager \<Rightarrow> string \<Rightarrow> AdmissionManager" where
  "ref_inc m key = m\<lparr>am_refs := AList.update key (map_get 0 (am_refs m) key + 1) (am_refs m)\<rparr>"

definition claimReservation ::
  "AdmissionManager \<Rightarrow> admission \<Rightarrow> string \<Rightarrow> i64 \<Rightarrow> ft_error option \<times> admission \<times> AdmissionManager" where
  "claimReservation m a key bs =
     (if key = [] \<or> sint bs < 0 then (Some (ErrInvalidInput ''reserved bytes''), a, m)
      else if map_has (am_completed m) key
      then (None, a\<lparr>ad_reservationKey := key, ad_completed := True\<rparr>, ref_inc m key)
      else case map_of (am_reservations m) key of
        Some existing \<Rightarrow>
          if rr_tenant existing \<noteq> ad_tenant a \<or> rr_device existing \<noteq> ad_device a \<or> rr_bytes existing \<noteq> bs
          then (Some (ErrAuthentication ''conflicting persisted reservation''), a, m)
          else (None, a\<lparr>ad_reservationKey := key, ad_abortOwner := map_get 0 (am_owners m) key\<rparr>, ref_inc m key)
      | None \<Rightarrow>
          if \<not> canRetainLocked m (ad_tenant a) (ad_device a)
          then (Some (ErrLimitExceeded ''retained transfers''), a, m)
          else case addReservedLocked m (ad_tenant a) (ad_device a) bs of
            Inl e \<Rightarrow> (Some e, a, m)
          | Inr m \<Rightarrow>
              let rec = \<lparr> rr_tenant = ad_tenant a, rr_device = ad_device a, rr_bytes = bs \<rparr>;
                  next = am_nextOwner m + 1;
                  next = (if next = 0 then next + 1 else next);
                  m = m\<lparr>am_reservations := AList.update key rec (am_reservations m), am_nextOwner := next,
                        am_owners := AList.update key next (am_owners m)\<rparr>
              in (None, a\<lparr>ad_reservationKey := key, ad_abortOwner := next\<rparr>, ref_inc m key))"

definition storeUsageLocked :: "AdmissionManager \<Rightarrow> string \<Rightarrow> string \<Rightarrow> quotaUsage \<Rightarrow> quotaUsage \<Rightarrow> AdmissionManager" where
  "storeUsageLocked m tenant deviceKey tu du =
     m\<lparr>am_tenants := (if tu = no_usage then AList.delete tenant (am_tenants m)
                     else AList.update tenant tu (am_tenants m)),
       am_devices := (if du = no_usage then AList.delete deviceKey (am_devices m)
                     else AList.update deviceKey du (am_devices m))\<rparr>"

definition closeActive :: "AdmissionManager \<Rightarrow> admission \<Rightarrow> admission \<times> AdmissionManager" where
  "closeActive m a =
     (if ad_closed a then (a, m)
      else
        let key = device_key (ad_tenant a) (ad_device a);
            tu = tenant_usage m (ad_tenant a); du = device_usage m key;
            m = m\<lparr>am_total := (am_total m)\<lparr>qu_active := qu_active (am_total m) - 1\<rparr>\<rparr>;
            m = storeUsageLocked m (ad_tenant a) key (tu\<lparr>qu_active := qu_active tu - 1\<rparr>)
                  (du\<lparr>qu_active := qu_active du - 1\<rparr>);
            rk = ad_reservationKey a;
            n = map_get 0 (am_refs m) rk;
            m = (if rk \<noteq> [] \<and> 0 < n
                 then m\<lparr>am_refs := (if n - 1 = 0 then AList.delete rk (am_refs m)
                                  else AList.update rk (n - 1) (am_refs m))\<rparr>
                 else m)
        in (a\<lparr>ad_closed := True\<rparr>, m))"

definition dropReservationLocked :: "AdmissionManager \<Rightarrow> string \<Rightarrow> reservationRecord \<Rightarrow> AdmissionManager" where
  "dropReservationLocked m key rec =
     (let m = m\<lparr>am_reservations := AList.delete key (am_reservations m),
                am_owners := AList.delete key (am_owners m)\<rparr>;
          deviceKey = device_key (rr_tenant rec) (rr_device rec);
          tu = tenant_usage m (rr_tenant rec); du = device_usage m deviceKey;
          m = m\<lparr>am_total := (am_total m)\<lparr>qu_bytes := qu_bytes (am_total m) - rr_bytes rec\<rparr>\<rparr>
      in storeUsageLocked m (rr_tenant rec) deviceKey (tu\<lparr>qu_bytes := qu_bytes tu - rr_bytes rec\<rparr>)
           (du\<lparr>qu_bytes := qu_bytes du - rr_bytes rec\<rparr>))"

definition drop_if_reserved :: "AdmissionManager \<Rightarrow> string \<Rightarrow> AdmissionManager" where
  "drop_if_reserved m key =
     (case map_of (am_reservations m) key of None \<Rightarrow> m | Some rec \<Rightarrow> dropReservationLocked m key rec)"

definition abortNewReservation :: "AdmissionManager \<Rightarrow> admission \<Rightarrow> AdmissionManager" where
  "abortNewReservation m a =
     (if ad_reservationKey a = [] \<or> ad_abortOwner a = 0 then m
      else if map_get 0 (am_refs m) (ad_reservationKey a) \<noteq> 0 \<or>
              map_get 0 (am_owners m) (ad_reservationKey a) \<noteq> ad_abortOwner a then m
      else drop_if_reserved m (ad_reservationKey a))"

definition markReservationPersistent :: "AdmissionManager \<Rightarrow> admission \<Rightarrow> admission \<times> AdmissionManager" where
  "markReservationPersistent m a =
     (if ad_reservationKey a = [] then (a, m)
      else (a\<lparr>ad_abortOwner := 0\<rparr>,
            if map_get 0 (am_owners m) (ad_reservationKey a) = ad_abortOwner a
            then m\<lparr>am_owners := AList.delete (ad_reservationKey a) (am_owners m)\<rparr> else m))"

definition releaseReservation :: "AdmissionManager \<Rightarrow> admission \<Rightarrow> AdmissionManager" where
  "releaseReservation m a =
     (if ad_reservationKey a = [] then m else drop_if_reserved m (ad_reservationKey a))"

definition markCompleted :: "AdmissionManager \<Rightarrow> admission \<Rightarrow> AdmissionManager" where
  "markCompleted m a =
     (if ad_reservationKey a = [] then m
      else
        let m = drop_if_reserved m (ad_reservationKey a)
        in m\<lparr>am_completed := AList.update (ad_reservationKey a)
               \<lparr> rp_tenant = ad_tenant a, rp_device = ad_device a \<rparr> (am_completed m)\<rparr>)"

definition dropReservation :: "AdmissionManager \<Rightarrow> string \<Rightarrow> AdmissionManager" where
  "dropReservation m key =
     (if 0 < map_get 0 (am_refs m) key then m
      else drop_if_reserved (m\<lparr>am_completed := AList.delete key (am_completed m)\<rparr>) key)"

section \<open>Reading the reservations of a state root\<close>

text \<open>
  What \<open>loadPersistent\<close> sees of a state root: its identity, and per directory entry whether it
  opens as a verified child, and in it the regular file \<open>consumed.state\<close>, the bytes of
  \<open>reservation.state\<close> when it can be read, and the size of a regular \<open>content.part\<close>. A listing that
  fails is \<open>None\<close>. \<open>lstat\<close> is the identity of another real directory by its path.
\<close>

record child_view =
  cv_consumed :: bool
  cv_reservation :: "bytes option"
  cv_content :: "i64 option"

record root_view =
  rv_inode :: inode
  rv_entries :: "(string \<times> child_view option) list option"

definition maxGCScannedEntries :: nat where "maxGCScannedEntries = 4096"

definition root_prefix :: "string \<Rightarrow> string" where
  "root_prefix path = path @ [char_of (0 :: nat)]"

definition is_transfer_dir :: "string \<Rightarrow> bool" where
  "is_transfer_dir name \<longleftrightarrow> length name = 32 \<and> hex_decode name \<noteq> None"

definition parsed_reservation :: "child_view \<Rightarrow> reservationRecord option" where
  "parsed_reservation c =
     (case cv_reservation c of None \<Rightarrow> None
      | Some data \<Rightarrow> (case decodeReservation data of Inl _ \<Rightarrow> None | Inr r \<Rightarrow> Some r))"

definition observed_record :: "child_view \<Rightarrow> reservationRecord" where
  "observed_record c =
     (case parsed_reservation c of Some r \<Rightarrow> r
      | None \<Rightarrow>
          let rec = \<lparr> rr_tenant = [], rr_device = [], rr_bytes = MaxFileSize DefaultLimits \<rparr>
          in case cv_content c of None \<Rightarrow> rec
             | Some sz \<Rightarrow> if sint (rr_bytes rec) < sint sz then rec\<lparr>rr_bytes := sz\<rparr> else rec)"

definition observed_principal :: "child_view \<Rightarrow> retainedPrincipal" where
  "observed_principal c =
     (case parsed_reservation c of None \<Rightarrow> no_principal
      | Some r \<Rightarrow> \<lparr> rp_tenant = rr_tenant r, rp_device = rr_device r \<rparr>)"

definition observe_entry ::
  "string \<Rightarrow> (string, reservationRecord) gomap \<times> (string, retainedPrincipal) gomap \<Rightarrow> string \<times> child_view option \<Rightarrow>
   (string, reservationRecord) gomap \<times> (string, retainedPrincipal) gomap" where
  "observe_entry absolute acc e =
     (case acc of (observed, completed) \<Rightarrow> (case e of (id', child) \<Rightarrow>
        if \<not> is_transfer_dir id' then acc
        else case child of None \<Rightarrow> acc
        | Some c \<Rightarrow>
            let key = root_prefix absolute @ id' in
            if cv_consumed c then (observed, AList.update key (observed_principal c) completed)
            else (AList.update key (observed_record c) observed, completed)))"

definition dropRootLocked :: "AdmissionManager \<Rightarrow> string \<Rightarrow> (string \<Rightarrow> bool) \<Rightarrow> AdmissionManager" where
  "dropRootLocked m rootPath keep =
     (let prefix = root_prefix rootPath;
          m = foldl (\<lambda>m (key, rec).
                if \<not> has_prefix key prefix \<or> 0 < map_get 0 (am_refs m) key \<or> keep key then m
                else dropReservationLocked m key rec) m (am_reservations m)
      in foldl (\<lambda>m (key, _).
           if has_prefix key prefix \<and> map_get 0 (am_refs m) key = 0 \<and> \<not> keep key
           then m\<lparr>am_completed := AList.delete key (am_completed m)\<rparr> else m) m (am_completed m))"

definition rootHasStateLocked :: "AdmissionManager \<Rightarrow> string \<Rightarrow> bool" where
  "rootHasStateLocked m rootPath \<longleftrightarrow>
     list_ex (\<lambda>(key, _). has_prefix key (root_prefix rootPath)) (am_reservations m) \<or>
     list_ex (\<lambda>(key, _). has_prefix key (root_prefix rootPath)) (am_completed m)"

definition forget_roots :: "AdmissionManager \<Rightarrow> (string \<Rightarrow> inode option) \<Rightarrow> AdmissionManager" where
  "forget_roots m lstat =
     (let m = foldl (\<lambda>m (path, known).
                if lstat path \<noteq> Some known
                then (let m = dropRootLocked m path (\<lambda>_. False)
                      in m\<lparr>am_loadedRoots := AList.delete path (am_loadedRoots m)\<rparr>)
                else m) m (am_loadedRoots m)
      in foldl (\<lambda>m (path, _).
           if \<not> rootHasStateLocked m path then m\<lparr>am_loadedRoots := AList.delete path (am_loadedRoots m)\<rparr>
           else m) m (am_loadedRoots m))"

text \<open>The two merge loops; an error returns with the changes made so far.\<close>

fun merge_completed ::
  "AdmissionManager \<Rightarrow> (string \<times> retainedPrincipal) list \<Rightarrow> ft_error option \<times> AdmissionManager" where
  "merge_completed m [] = (None, m)"
| "merge_completed m ((key, princ) # rest) =
     (case map_of (am_completed m) key of
        Some existing \<Rightarrow>
          merge_completed (if existing = no_principal \<and> princ \<noteq> no_principal
            then m\<lparr>am_completed := AList.update key princ (am_completed m)\<rparr> else m) rest
      | None \<Rightarrow>
          if princ \<noteq> no_principal \<and> \<not> canRetainLocked m (rp_tenant princ) (rp_device princ)
          then (Some (ErrLimitExceeded ''retained transfers''), m)
          else if princ = no_principal \<and> q_MaxRetainedTransfers (am_quota m) \<le> retained_count m
          then (Some (ErrLimitExceeded ''retained transfers''), m)
          else
            let m = (if map_get 0 (am_refs m) key = 0 then drop_if_reserved m key else m)
            in merge_completed (m\<lparr>am_completed := AList.update key princ (am_completed m)\<rparr>) rest)"

definition merge_new :: "AdmissionManager \<Rightarrow> string \<Rightarrow> reservationRecord \<Rightarrow> ft_error + AdmissionManager" where
  "merge_new m key rec =
     (if \<not> canRetainLocked m (rr_tenant rec) (rr_device rec) then Inl (ErrLimitExceeded ''retained transfers'')
      else bind_r (addReservedLocked m (rr_tenant rec) (rr_device rec) (rr_bytes rec))
        (\<lambda>m. Inr (m\<lparr>am_reservations := AList.update key rec (am_reservations m)\<rparr>)))"

fun merge_observed ::
  "AdmissionManager \<Rightarrow> (string \<times> reservationRecord) list \<Rightarrow> ft_error option \<times> AdmissionManager" where
  "merge_observed m [] = (None, m)"
| "merge_observed m ((key, rec) # rest) =
     (let existing = map_of (am_reservations m) key in
      if existing = Some rec then merge_observed (m\<lparr>am_owners := AList.delete key (am_owners m)\<rparr>) rest
      else if existing \<noteq> None \<and> 0 < map_get 0 (am_refs m) key then merge_observed m rest
      else
        let m = drop_if_reserved m key in
        if map_has (am_completed m) key \<and> 0 < map_get 0 (am_refs m) key then merge_observed m rest
        else
          let m = m\<lparr>am_completed := AList.delete key (am_completed m)\<rparr> in
          (case merge_new m key rec of Inl e \<Rightarrow> (Some e, m) | Inr m \<Rightarrow> merge_observed m rest))"

definition loadPersistent ::
  "AdmissionManager \<Rightarrow> string \<Rightarrow> (string \<Rightarrow> inode option) \<Rightarrow> root_view \<Rightarrow> ft_error option \<times> AdmissionManager" where
  "loadPersistent m absolute lstat v =
     (let m = forget_roots m lstat in
      case rv_entries v of
        None \<Rightarrow> (Some (ErrIO ''read state root''), m)
      | Some entries \<Rightarrow>
          if maxGCScannedEntries < length entries
          then (Some (ErrLimitExceeded ''too many state-root entries''), m)
          else
            let (observed, completed) = foldl (observe_entry absolute) ([], []) entries;
                m = dropRootLocked m absolute (\<lambda>key. map_has observed key \<or> map_has completed key)
            in case merge_completed m completed of
                 (Some e, m) \<Rightarrow> (Some e, m)
               | (None, m) \<Rightarrow>
                   (case merge_observed m observed of
                      (Some e, m) \<Rightarrow> (Some e, m)
                    | (None, m) \<Rightarrow> (None, m\<lparr>am_loadedRoots := AList.update absolute (rv_inode v) (am_loadedRoots m)\<rparr>)))"

section \<open>The byte accounts\<close>

definition res_sum :: "(reservationRecord \<Rightarrow> bool) \<Rightarrow> (string, reservationRecord) gomap \<Rightarrow> int" where
  "res_sum f rs = gomap_sum (\<lambda>_ r. if f r then sint (rr_bytes r) else 0) rs"

abbreviation of_tenant :: "string \<Rightarrow> reservationRecord \<Rightarrow> bool" where
  "of_tenant t r \<equiv> rr_tenant r = t"

abbreviation of_device :: "string \<Rightarrow> reservationRecord \<Rightarrow> bool" where
  "of_device k r \<equiv> device_key (rr_tenant r) (rr_device r) = k"

definition quota_valid :: "Quota \<Rightarrow> bool" where
  "quota_valid q \<longleftrightarrow> q_MaxActiveTransfers q \<noteq> 0 \<and> 0 < sint (q_MaxReservedBytes q) \<and>
     q_MaxActivePerTenant q \<noteq> 0 \<and> 0 < sint (q_MaxReservedBytesPerTenant q) \<and>
     q_MaxActivePerDevice q \<noteq> 0 \<and> 0 < sint (q_MaxReservedBytesPerDevice q)"

definition bytes_inv :: "AdmissionManager \<Rightarrow> bool" where
  "bytes_inv m \<longleftrightarrow> wf_map (am_reservations m) \<and> quota_valid (am_quota m) \<and>
     (\<forall>k r. map_of (am_reservations m) k = Some r \<longrightarrow> 0 \<le> sint (rr_bytes r)) \<and>
     sint (qu_bytes (am_total m)) = res_sum (\<lambda>_. True) (am_reservations m) \<and>
     res_sum (\<lambda>_. True) (am_reservations m) \<le> sint (q_MaxReservedBytes (am_quota m)) \<and>
     (\<forall>t. sint (qu_bytes (tenant_usage m t)) = res_sum (of_tenant t) (am_reservations m) \<and>
        res_sum (of_tenant t) (am_reservations m) \<le> sint (q_MaxReservedBytesPerTenant (am_quota m))) \<and>
     (\<forall>k. sint (qu_bytes (device_usage m k)) = res_sum (of_device k) (am_reservations m) \<and>
        res_sum (of_device k) (am_reservations m) \<le> sint (q_MaxReservedBytesPerDevice (am_quota m)))"

lemma no_usage_sel [simp]: "qu_active no_usage = 0" "qu_bytes no_usage = 0"
  by (simp_all add: no_usage_def)

lemma store_usage [simp]:
  "tenant_usage (storeUsageLocked m t k tu du) t' = (if t' = t then tu else tenant_usage m t')"
  "device_usage (storeUsageLocked m t k tu du) k' = (if k' = k then du else device_usage m k')"
  by (auto simp: storeUsageLocked_def)

lemma store_other [simp]:
  "am_quota (storeUsageLocked m t k tu du) = am_quota m" "am_total (storeUsageLocked m t k tu du) = am_total m"
  "am_reservations (storeUsageLocked m t k tu du) = am_reservations m"
  "am_completed (storeUsageLocked m t k tu du) = am_completed m" "am_refs (storeUsageLocked m t k tu du) = am_refs m"
  "am_owners (storeUsageLocked m t k tu du) = am_owners m"
  by (simp_all add: storeUsageLocked_def)

lemma not_exceeds:
  assumes "\<not> exceeds c a mx"
  shows "0 \<le> sint a" "sint (c + a) = sint c + sint a" "sint c + sint a \<le> sint mx"
proof -
  have h: "0 \<le> sint c" "0 \<le> sint a" "0 \<le> sint mx" "sint c \<le> sint mx" "sint a \<le> sint (mx - c)"
    using assms by (auto simp: exceeds_def)
  have "sint (mx - c) = sint mx - sint c"
    using h sint_range64[of mx] by (intro sint_sub64) auto
  then show s: "sint c + sint a \<le> sint mx" using h by simp
  show "sint (c + a) = sint c + sint a" using h s sint_range64[of mx] by (intro sint_add64) auto
  show "0 \<le> sint a" by (rule h(2))
qed

lemma res_sum_insert:
  "map_of rs key = None \<Longrightarrow> res_sum f (AList.update key r rs) = res_sum f rs + (if f r then sint (rr_bytes r) else 0)"
  unfolding res_sum_def by (simp add: gomap_sum_update_new)

lemma res_sum_delete:
  "wf_map rs \<Longrightarrow> map_of rs key = Some r \<Longrightarrow>
   res_sum f (AList.delete key rs) = res_sum f rs - (if f r then sint (rr_bytes r) else 0)"
  unfolding res_sum_def by (simp add: gomap_sum_delete)

lemma res_sum_member:
  assumes nn: "wf_map rs" "\<forall>k r. map_of rs k = Some r \<longrightarrow> 0 \<le> sint (rr_bytes r)" and "map_of rs key = Some r" "f r"
  shows "sint (rr_bytes r) \<le> res_sum f rs"
proof -
  have "0 \<le> (if f v then sint (rr_bytes v) else 0)" if "(k, v) \<in> set rs" for k v
    using nn(2) that by (auto simp: map_of_set_wf[OF nn(1)])
  from gomap_sum_member[of rs "\<lambda>_ r. if f r then sint (rr_bytes r) else 0", OF this assms(3)]
  show ?thesis using assms(4) by (simp add: res_sum_def)
qed

lemma addReserved_inv:
  assumes inv: "bytes_inv m" and new: "map_of (am_reservations m) key = None"
    and add: "addReservedLocked m (rr_tenant r) (rr_device r) (rr_bytes r) = Inr m'"
  shows "bytes_inv (m'\<lparr>am_reservations := AList.update key r (am_reservations m')\<rparr>)"
proof -
  let ?k = "device_key (rr_tenant r) (rr_device r)"
  have nx: "\<not> exceeds (qu_bytes (am_total m)) (rr_bytes r) (q_MaxReservedBytes (am_quota m))"
    "\<not> exceeds (qu_bytes (tenant_usage m (rr_tenant r))) (rr_bytes r) (q_MaxReservedBytesPerTenant (am_quota m))"
    "\<not> exceeds (qu_bytes (device_usage m ?k)) (rr_bytes r) (q_MaxReservedBytesPerDevice (am_quota m))"
    and m': "m' = m\<lparr>am_total := (am_total m)\<lparr>qu_bytes := qu_bytes (am_total m) + rr_bytes r\<rparr>,
       am_tenants := AList.update (rr_tenant r) ((tenant_usage m (rr_tenant r))\<lparr>qu_bytes :=
         qu_bytes (tenant_usage m (rr_tenant r)) + rr_bytes r\<rparr>) (am_tenants m),
       am_devices := AList.update ?k ((device_usage m ?k)\<lparr>qu_bytes := qu_bytes (device_usage m ?k) + rr_bytes r\<rparr>)
         (am_devices m)\<rparr>"
    using add by (auto simp: addReservedLocked_def Let_def split: if_splits)
  note I = inv[unfolded bytes_inv_def]
  note N = not_exceeds[OF nx(1)] not_exceeds[OF nx(2)] not_exceeds[OF nx(3)]
  show ?thesis
    unfolding bytes_inv_def using I N new
    by (simp add: m' res_sum_insert)
qed

lemma dropReservation_inv:
  assumes inv: "bytes_inv m" and old: "map_of (am_reservations m) key = Some r"
  shows "bytes_inv (dropReservationLocked m key r)"
proof -
  let ?k = "device_key (rr_tenant r) (rr_device r)"
  note I = inv[unfolded bytes_inv_def]
  have nn: "\<forall>k r. map_of (am_reservations m) k = Some r \<longrightarrow> 0 \<le> sint (rr_bytes r)" and wf: "wf_map (am_reservations m)"
    using I by auto
  have r: "0 \<le> sint (rr_bytes r)" using nn old by blast
  have sub: "sint (c - rr_bytes r) = sint c - sint (rr_bytes r)" if "sint (rr_bytes r) \<le> sint c" for c
    using that r sint_range64[of c] by (intro sint_sub64) auto
  note M = res_sum_member[OF wf nn old]
  have S: "sint (qu_bytes (am_total m) - rr_bytes r) = sint (qu_bytes (am_total m)) - sint (rr_bytes r)"
    "sint (qu_bytes (tenant_usage m (rr_tenant r)) - rr_bytes r) =
       sint (qu_bytes (tenant_usage m (rr_tenant r))) - sint (rr_bytes r)"
    "sint (qu_bytes (device_usage m ?k) - rr_bytes r) = sint (qu_bytes (device_usage m ?k)) - sint (rr_bytes r)"
    subgoal using M[of "\<lambda>_. True"] I by (intro sub) simp
    subgoal using M[of "of_tenant (rr_tenant r)"] I by (intro sub) simp
    subgoal using M[of "of_device ?k"] I by (intro sub) simp
    done
  have "res_sum (\<lambda>_. True) (am_reservations m) \<le> sint (q_MaxReservedBytes (am_quota m))"
    "res_sum (of_tenant (rr_tenant r)) (am_reservations m) \<le> sint (q_MaxReservedBytesPerTenant (am_quota m))"
    "res_sum (of_device ?k) (am_reservations m) \<le> sint (q_MaxReservedBytesPerDevice (am_quota m))"
    using I by blast+
  then have B: "res_sum (\<lambda>_. True) (am_reservations m) - sint (rr_bytes r) \<le> sint (q_MaxReservedBytes (am_quota m))"
    "res_sum (of_tenant (rr_tenant r)) (am_reservations m) - sint (rr_bytes r) \<le>
       sint (q_MaxReservedBytesPerTenant (am_quota m))"
    "res_sum (of_device ?k) (am_reservations m) - sint (rr_bytes r) \<le>
       sint (q_MaxReservedBytesPerDevice (am_quota m))"
    using r by linarith+
  show ?thesis
    unfolding bytes_inv_def dropReservationLocked_def Let_def using I S B old
    by (simp add: res_sum_delete)
qed

lemma drop_other [simp]:
  "am_quota (dropReservationLocked m k r) = am_quota m"
  "am_reservations (dropReservationLocked m k r) = AList.delete k (am_reservations m)"
  "am_completed (dropReservationLocked m k r) = am_completed m" "am_refs (dropReservationLocked m k r) = am_refs m"
  "qu_active (am_total (dropReservationLocked m k r)) = qu_active (am_total m)"
  "qu_active (tenant_usage (dropReservationLocked m k r) t) = qu_active (tenant_usage m t)"
  "qu_active (device_usage (dropReservationLocked m k r) d) = qu_active (device_usage m d)"
  by (simp_all add: dropReservationLocked_def Let_def)

text \<open>
  Steps that touch neither the usage counters nor the reservations keep the byte accounts, and a
  step that keeps the byte counters and the reservations keeps them too.
\<close>

lemma bytes_inv_cong:
  assumes "bytes_inv m" "am_reservations m' = am_reservations m" "am_quota m' = am_quota m"
    "qu_bytes (am_total m') = qu_bytes (am_total m)"
    "\<And>t. qu_bytes (tenant_usage m' t) = qu_bytes (tenant_usage m t)"
    "\<And>k. qu_bytes (device_usage m' k) = qu_bytes (device_usage m k)"
  shows "bytes_inv m'"
  using assms unfolding bytes_inv_def by simp

section \<open>The active-transfer counters\<close>

definition open_count :: "(admission \<Rightarrow> bool) \<Rightarrow> admission list \<Rightarrow> nat" where
  "open_count f hs = length (filter (\<lambda>a. \<not> ad_closed a \<and> f a) hs)"

definition active_inv :: "AdmissionManager \<Rightarrow> admission list \<Rightarrow> bool" where
  "active_inv m hs \<longleftrightarrow>
     unat (qu_active (am_total m)) = open_count (\<lambda>_. True) hs \<and>
     open_count (\<lambda>_. True) hs \<le> unat (q_MaxActiveTransfers (am_quota m)) \<and>
     (\<forall>t. unat (qu_active (tenant_usage m t)) = open_count (\<lambda>a. ad_tenant a = t) hs \<and>
        open_count (\<lambda>a. ad_tenant a = t) hs \<le> unat (q_MaxActivePerTenant (am_quota m))) \<and>
     (\<forall>k. unat (qu_active (device_usage m k)) = open_count (\<lambda>a. device_key (ad_tenant a) (ad_device a) = k) hs \<and>
        open_count (\<lambda>a. device_key (ad_tenant a) (ad_device a) = k) hs \<le> unat (q_MaxActivePerDevice (am_quota m)))"

lemma active_inv_cong:
  assumes "active_inv m hs" "am_quota m' = am_quota m"
    "qu_active (am_total m') = qu_active (am_total m)"
    "\<And>t. qu_active (tenant_usage m' t) = qu_active (tenant_usage m t)"
    "\<And>k. qu_active (device_usage m' k) = qu_active (device_usage m k)"
  shows "active_inv m' hs"
  using assms unfolding active_inv_def by simp

lemma open_count_append: "open_count f (hs @ [a]) = open_count f hs + (if \<not> ad_closed a \<and> f a then 1 else 0)"
  by (simp add: open_count_def)

lemma open_count_update:
  "i < length hs \<Longrightarrow> open_count f (hs[i := a]) + (if \<not> ad_closed (hs ! i) \<and> f (hs ! i) then 1 else 0) =
     open_count f hs + (if \<not> ad_closed a \<and> f a then 1 else 0)"
proof (induction hs arbitrary: i)
  case (Cons h hs)
  show ?case
  proof (cases i)
    case (Suc j)
    then show ?thesis using Cons.IH[of j] Cons.prems by (auto simp: open_count_def)
  qed (simp add: open_count_def)
qed simp

lemma open_count_same:
  assumes "i < length hs" "ad_closed a = ad_closed (hs ! i)" "f a = f (hs ! i)"
  shows "open_count f (hs[i := a]) = open_count f hs"
  using open_count_update[OF assms(1), of f a] assms(2,3) by simp

lemma open_count_pos: "i < length hs \<Longrightarrow> \<not> ad_closed (hs ! i) \<Longrightarrow> f (hs ! i) \<Longrightarrow> 0 < open_count f hs"
  by (auto simp: open_count_def filter_empty_conv intro!: bexI[of _ "hs ! i"])

lemma unat_inc: "(w :: u32) < b \<Longrightarrow> unat (w + 1) = unat w + 1"
  using unat_u32_less[of b] by (subst unat_add_lem[THEN iffD1]) (auto simp: word_less_nat_alt)

lemma unat_dec: "0 < unat (w :: u32) \<Longrightarrow> unat (w - 1) = unat w - 1"
  by (metis unat_gt_0 unat_minus_one)

lemma begin_active:
  assumes inv: "active_inv m hs" and b: "adm_begin m t d = Inr (a, m')"
  shows "active_inv m' (hs @ [a])"
proof -
  let ?k = "device_key t d"
  have lt: "qu_active (am_total m) < q_MaxActiveTransfers (am_quota m)"
    "qu_active (tenant_usage m t) < q_MaxActivePerTenant (am_quota m)"
    "qu_active (device_usage m ?k) < q_MaxActivePerDevice (am_quota m)"
    using b by (auto simp: adm_begin_def Let_def not_le split: if_splits)
  have a: "ad_tenant a = t" "ad_device a = d" "\<not> ad_closed a"
    using b by (auto simp: adm_begin_def Let_def split: if_splits)
  have U: "unat (qu_active (am_total m) + 1) = unat (qu_active (am_total m)) + 1"
    "unat (qu_active (tenant_usage m t) + 1) = unat (qu_active (tenant_usage m t)) + 1"
    "unat (qu_active (device_usage m ?k) + 1) = unat (qu_active (device_usage m ?k)) + 1"
    using lt by (blast intro: unat_inc)+
  show ?thesis using inv b a U lt[unfolded word_less_nat_alt]
    unfolding active_inv_def open_count_append
    by (auto simp: adm_begin_def Let_def split: if_splits)
qed

lemma closeActive_projections:
  assumes "closeActive m a = (a', m')" "\<not> ad_closed a"
  shows "am_quota m' = am_quota m" "am_reservations m' = am_reservations m" "am_completed m' = am_completed m"
    "qu_active (am_total m') = qu_active (am_total m) - 1"
    "qu_bytes (am_total m') = qu_bytes (am_total m)"
    "tenant_usage m' t = (let u = tenant_usage m t in
       if t = ad_tenant a then u\<lparr>qu_active := qu_active u - 1\<rparr> else u)"
    "device_usage m' k = (let u = device_usage m k in
       if k = device_key (ad_tenant a) (ad_device a) then u\<lparr>qu_active := qu_active u - 1\<rparr> else u)"
    "a' = a\<lparr>ad_closed := True\<rparr>"
  using assms by (auto simp: closeActive_def Let_def)

lemma close_active:
  assumes inv: "active_inv m hs" and i: "i < length hs" and c: "closeActive m (hs ! i) = (a', m')"
  shows "active_inv m' (hs[i := a'])"
proof (cases "ad_closed (hs ! i)")
  case True
  then have "a' = hs ! i" "m' = m" using c by (simp_all add: closeActive_def)
  then show ?thesis using inv by simp
next
  case False
  note P = closeActive_projections[OF c False]
  let ?t = "ad_tenant (hs ! i)" and ?k = "device_key (ad_tenant (hs ! i)) (ad_device (hs ! i))"
  note I = inv[unfolded active_inv_def]
  have pos: "0 < unat (qu_active (am_total m))" "0 < unat (qu_active (tenant_usage m ?t))"
    "0 < unat (qu_active (device_usage m ?k))"
    using I open_count_pos[OF i False, of "\<lambda>_. True"] open_count_pos[OF i False, of "\<lambda>a. ad_tenant a = ?t"]
      open_count_pos[OF i False, of "\<lambda>a. device_key (ad_tenant a) (ad_device a) = ?k"] by auto
  have U: "open_count f (hs[i := a']) + (if f (hs ! i) then 1 else 0) = open_count f hs" for f
    using open_count_update[OF i, of f a'] False P(8) by simp
  have U': "open_count f (hs[i := a']) = open_count f hs - (if f (hs ! i) then 1 else 0)" for f
    using U[of f] by linarith
  show ?thesis
    unfolding active_inv_def P(1,4,6,7) U' Let_def using I unat_dec[OF pos(1)] unat_dec[OF pos(2)] unat_dec[OF pos(3)]
    by (auto intro: le_trans[OF diff_le_self])
qed

section \<open>Operations that leave the open transfers alone\<close>

text \<open>
  \<open>adm_pres m m'\<close>: the byte accounts stay exact, the quota, the reference counts and the active
  counters do not change, and no reservation that an open transfer refers to is dropped or altered.
\<close>

definition held :: "AdmissionManager \<Rightarrow> string \<Rightarrow> bool" where
  "held m key \<longleftrightarrow> 0 < map_get 0 (am_refs m) key"

definition adm_pres :: "AdmissionManager \<Rightarrow> AdmissionManager \<Rightarrow> bool" where
  "adm_pres m m' \<longleftrightarrow> (bytes_inv m \<longrightarrow> bytes_inv m' \<and> am_quota m' = am_quota m \<and> am_refs m' = am_refs m \<and>
     qu_active (am_total m') = qu_active (am_total m) \<and>
     (\<forall>t. qu_active (tenant_usage m' t) = qu_active (tenant_usage m t)) \<and>
     (\<forall>k. qu_active (device_usage m' k) = qu_active (device_usage m k)) \<and>
     (\<forall>k r. held m k \<longrightarrow> map_of (am_reservations m) k = Some r \<longrightarrow> map_of (am_reservations m') k = Some r))"

lemma adm_pres_refl [simp]: "adm_pres m m"
  by (simp add: adm_pres_def)

lemma adm_pres_trans: "adm_pres m m1 \<Longrightarrow> adm_pres m1 m2 \<Longrightarrow> adm_pres m m2"
  unfolding adm_pres_def held_def by simp

lemma adm_pres_active: "adm_pres m m' \<Longrightarrow> bytes_inv m \<Longrightarrow> active_inv m hs \<Longrightarrow> active_inv m' hs"
  unfolding adm_pres_def by (blast intro: active_inv_cong)

lemma adm_pres_frame:
  assumes "am_quota m' = am_quota m" "am_refs m' = am_refs m" "am_total m' = am_total m"
    "am_tenants m' = am_tenants m" "am_devices m' = am_devices m" "am_reservations m' = am_reservations m"
  shows "adm_pres m m'"
  unfolding adm_pres_def using assms bytes_inv_cong[of m m'] by simp

lemma adm_pres_frames [simp]:
  "adm_pres m (m\<lparr>am_completed := c\<rparr>)" "adm_pres m (m\<lparr>am_owners := ow\<rparr>)"
  "adm_pres m (m\<lparr>am_loadedRoots := lr\<rparr>)"
  by (simp_all add: adm_pres_frame)

lemma adm_pres_drop:
  "map_of (am_reservations m) key = Some r \<Longrightarrow> \<not> held m key \<Longrightarrow> adm_pres m (dropReservationLocked m key r)"
  unfolding adm_pres_def by (auto simp: dropReservation_inv held_def)

lemma adm_pres_drop_if: "\<not> held m key \<Longrightarrow> adm_pres m (drop_if_reserved m key)"
  by (auto simp: drop_if_reserved_def adm_pres_drop split: option.splits)

lemma drop_if_reserved_none [simp]: "map_of (am_reservations (drop_if_reserved m key)) key = None"
  by (auto simp: drop_if_reserved_def split: option.splits)

lemma adm_pres_foldl:
  "(\<And>m x. x \<in> set xs \<Longrightarrow> adm_pres m (f m x)) \<Longrightarrow> adm_pres m (foldl f m xs)"
proof (induction xs arbitrary: m)
  case (Cons x xs)
  then show ?case using adm_pres_trans[of m "f m x"] by simp
qed simp

lemma adm_pres_drop_fold:
  assumes "distinct (map fst xs)" "\<forall>(k, r) \<in> set xs. map_of (am_reservations m) k = Some r"
    and "\<And>m k. held m k \<Longrightarrow> skip m k"
  shows "adm_pres m (foldl (\<lambda>m (k, r). if skip m k then m else dropReservationLocked m k r) m xs)"
  using assms(1,2)
proof (induction xs arbitrary: m)
  case (Cons x xs)
  obtain k r where x: "x = (k, r)" by (cases x)
  let ?m = "if skip m k then m else dropReservationLocked m k r"
  have "adm_pres m ?m" using Cons.prems x assms(3) adm_pres_drop[of m k r] by auto
  moreover have "\<forall>(k', r') \<in> set xs. map_of (am_reservations ?m) k' = Some r'"
    using Cons.prems x by (auto simp: rev_image_eqI)
  then have "adm_pres ?m (foldl (\<lambda>m (k, r). if skip m k then m else dropReservationLocked m k r) ?m xs)"
    using Cons.IH[of ?m] Cons.prems(1) by simp
  ultimately have "adm_pres m (foldl (\<lambda>m (k, r). if skip m k then m else dropReservationLocked m k r) ?m xs)"
    by (rule adm_pres_trans)
  then show ?case by (simp add: x)
qed simp

lemma dropRoot_pres: "adm_pres m (dropRootLocked m rootPath keep)"
proof (cases "bytes_inv m")
  case True
  then have wf: "wf_map (am_reservations m)" by (simp add: bytes_inv_def)
  show ?thesis
    unfolding dropRootLocked_def Let_def
  proof (rule adm_pres_trans[OF adm_pres_drop_fold adm_pres_foldl])
    show "distinct (map fst (am_reservations m))" using wf by (simp add: wf_map_def)
    show "\<forall>(k, r) \<in> set (am_reservations m). map_of (am_reservations m) k = Some r"
      using map_of_set_wf[OF wf] by auto
  qed (auto simp: held_def)
qed (simp add: adm_pres_def)

lemma forget_roots_pres: "adm_pres m (forget_roots m lstat)"
  unfolding forget_roots_def Let_def
  by (rule adm_pres_trans[OF adm_pres_foldl adm_pres_foldl])
     (auto split: prod.splits intro: adm_pres_trans[OF dropRoot_pres adm_pres_frames(3)])

lemma merge_completed_pres: "merge_completed m xs = (e, m') \<Longrightarrow> adm_pres m m'"
proof (induction m xs arbitrary: e m' rule: merge_completed.induct)
  case (2 m key p rest)
  show ?case
  proof (cases "map_of (am_completed m) key")
    case (Some existing)
    let ?m = "if existing = no_principal \<and> p \<noteq> no_principal
      then m\<lparr>am_completed := AList.update key p (am_completed m)\<rparr> else m"
    have "adm_pres ?m m'" using 2(2)[OF Some] 2(3) Some by simp
    then show ?thesis by (rule adm_pres_trans[rotated]) simp
  next
    case None
    let ?m = "if map_get 0 (am_refs m) key = 0 then drop_if_reserved m key else m"
    let ?m2 = "?m\<lparr>am_completed := AList.update key p (am_completed ?m)\<rparr>"
    show ?thesis
    proof (cases "(p \<noteq> no_principal \<and> \<not> canRetainLocked m (rp_tenant p) (rp_device p)) \<or>
        (p = no_principal \<and> q_MaxRetainedTransfers (am_quota m) \<le> retained_count m)")
      case True
      then show ?thesis using 2(3) None by (auto split: if_splits)
    next
      case False
      then have g1: "\<not> (p \<noteq> no_principal \<and> \<not> canRetainLocked m (rp_tenant p) (rp_device p))"
        and g2: "\<not> (p = no_principal \<and> q_MaxRetainedTransfers (am_quota m) \<le> retained_count m)" by blast+
      have "merge_completed ?m2 rest = (e, m')"
        using 2(3) by (simp only: merge_completed.simps None option.case if_not_P[OF g1] if_not_P[OF g2] Let_def)
      then have "adm_pres ?m2 m'" by (rule 2(1)[OF None g1 g2 refl])
      moreover have "adm_pres m ?m" using adm_pres_drop_if[of m key] by (simp add: held_def)
      ultimately show ?thesis using adm_pres_trans[of m ?m m'] adm_pres_trans[of ?m ?m2 m'] by simp
    qed
  qed
qed simp

lemma merge_new_pres:
  assumes "merge_new m key r = Inr m'" "map_of (am_reservations m) key = None"
  shows "adm_pres m m'"
proof -
  obtain m1 where m1: "addReservedLocked m (rr_tenant r) (rr_device r) (rr_bytes r) = Inr m1"
    and m': "m' = m1\<lparr>am_reservations := AList.update key r (am_reservations m1)\<rparr>"
    using assms(1) by (auto simp: merge_new_def branch_simps)
  have P: "am_quota m1 = am_quota m" "am_refs m1 = am_refs m" "am_reservations m1 = am_reservations m"
    "qu_active (am_total m1) = qu_active (am_total m)"
    "\<And>t. qu_active (tenant_usage m1 t) = qu_active (tenant_usage m t)"
    "\<And>k. qu_active (device_usage m1 k) = qu_active (device_usage m k)"
    using m1 by (auto simp: addReservedLocked_def Let_def split: if_splits)
  show ?thesis unfolding adm_pres_def using addReserved_inv[OF _ assms(2) m1] P assms(2) by (auto simp: m')
qed

lemma merge_observed_pres: "merge_observed m xs = (e, m') \<Longrightarrow> adm_pres m m'"
proof (induction m xs arbitrary: e m' rule: merge_observed.induct)
  case (2 m key r rest)
  let ?ex = "map_of (am_reservations m) key"
  let ?m1 = "drop_if_reserved m key"
  let ?m2 = "?m1\<lparr>am_completed := AList.delete key (am_completed ?m1)\<rparr>"
  consider (same) "?ex = Some r" | (kept) "?ex \<noteq> Some r" "?ex \<noteq> None" "held m key"
    | (go) "?ex \<noteq> Some r" "?ex = None \<or> \<not> held m key" by metis
  then show ?case
  proof cases
    case same
    then have "adm_pres (m\<lparr>am_owners := AList.delete key (am_owners m)\<rparr>) m'"
      using 2(1)[OF refl same] 2(5) by (simp add: Let_def)
    then show ?thesis by (rule adm_pres_trans[rotated]) simp
  next
    case kept
    then show ?thesis using 2(2)[OF refl kept(1)] 2(5) by (auto simp: Let_def held_def)
  next
    case go
    then have g: "\<not> (?ex \<noteq> None \<and> 0 < map_get 0 (am_refs m) key)" by (auto simp: held_def)
    have E: "merge_observed m ((key, r) # rest) =
        (if map_has (am_completed ?m1) key \<and> 0 < map_get 0 (am_refs ?m1) key then merge_observed ?m1 rest
         else (case merge_new ?m2 key r of Inl e \<Rightarrow> (Some e, ?m2) | Inr m \<Rightarrow> merge_observed m rest))"
      by (simp only: merge_observed.simps Let_def if_not_P[OF go(1)] if_not_P[OF g])
    have p1: "adm_pres m ?m1"
    proof (cases "?ex = None")
      case True
      then show ?thesis by (simp add: drop_if_reserved_def)
    next
      case False
      then have "\<not> held m key" using go(2) by metis
      then show ?thesis by (rule adm_pres_drop_if)
    qed
    have p2: "adm_pres m ?m2" by (rule adm_pres_trans[OF p1]) simp
    show ?thesis
    proof (cases "map_has (am_completed ?m1) key \<and> 0 < map_get 0 (am_refs ?m1) key")
      case True
      have "merge_observed ?m1 rest = (e, m')" using 2(5) unfolding E if_P[OF True] .
      then show ?thesis using adm_pres_trans[OF p1 2(3)[OF refl go(1) g refl True]] by simp
    next
      case False
      show ?thesis
      proof (cases "merge_new ?m2 key r")
        case (Inl err)
        then have "m' = ?m2" using 2(5) unfolding E if_not_P[OF False] Inl sum.case by simp
        then show ?thesis using p2 by simp
      next
        case (Inr m3)
        have "merge_observed m3 rest = (e, m')" using 2(5) unfolding E if_not_P[OF False] Inr sum.case .
        then have "adm_pres m3 m'" using 2(4)[OF refl go(1) g refl False refl Inr] by simp
        moreover have "adm_pres ?m2 m3" by (rule merge_new_pres[OF Inr]) simp
        ultimately show ?thesis using adm_pres_trans[OF p2] adm_pres_trans by blast
      qed
    qed
  qed
qed simp

lemma loadPersistent_pres:
  assumes "loadPersistent m absolute lstat v = (e, m')"
  shows "adm_pres m m'"
proof -
  let ?m1 = "forget_roots m lstat"
  have p1: "adm_pres m ?m1" by (rule forget_roots_pres)
  show ?thesis
  proof (cases "rv_entries v")
    case (Some entries)
    show ?thesis
    proof (cases "maxGCScannedEntries < length entries")
      case False
      obtain ob co where oc: "foldl (observe_entry absolute) ([], []) entries = (ob, co)" by fastforce
      let ?m2 = "dropRootLocked ?m1 absolute (\<lambda>key. map_has ob key \<or> map_has co key)"
      obtain e3 m3 where m3: "merge_completed ?m2 co = (e3, m3)" by fastforce
      have p3: "adm_pres m m3"
        using adm_pres_trans[OF p1 adm_pres_trans[OF dropRoot_pres merge_completed_pres[OF m3]]] .
      obtain e4 m4 where m4: "merge_observed m3 ob = (e4, m4)" by fastforce
      have p4: "adm_pres m m4" using adm_pres_trans[OF p3 merge_observed_pres[OF m4]] .
      have "m' = m3 \<or> m' = m4 \<or> m' = m4\<lparr>am_loadedRoots := AList.update absolute (rv_inode v) (am_loadedRoots m4)\<rparr>"
        using assms Some False oc m3 m4 by (auto simp: loadPersistent_def Let_def split: option.splits)
      then show ?thesis using p3 p4 adm_pres_trans[OF p4 adm_pres_frames(3)] by blast
    qed (use assms p1 Some in \<open>simp add: loadPersistent_def Let_def\<close>)
  qed (use assms p1 in \<open>simp add: loadPersistent_def Let_def\<close>)
qed

section \<open>The transition system\<close>

text \<open>
  A state is the manager and the handles it gave out, in the order \<open>begin\<close> returned them. Every
  method is one atomic step, since each takes the manager's mutex for its whole body. A receiver
  claims a reservation once for a handle, right after \<open>begin\<close>.
\<close>

inductive adm_step :: "AdmissionManager \<times> admission list \<Rightarrow> AdmissionManager \<times> admission list \<Rightarrow> bool" where
  step_begin: "adm_begin m t d = Inr (a, m') \<Longrightarrow> adm_step (m, hs) (m', hs @ [a])"
| step_claim: "i < length hs \<Longrightarrow> \<not> ad_closed (hs ! i) \<Longrightarrow> ad_reservationKey (hs ! i) = [] \<Longrightarrow>
    claimReservation m (hs ! i) key bs = (e, a, m') \<Longrightarrow> adm_step (m, hs) (m', hs[i := a])"
| step_close: "i < length hs \<Longrightarrow> closeActive m (hs ! i) = (a, m') \<Longrightarrow> adm_step (m, hs) (m', hs[i := a])"
| step_abort: "i < length hs \<Longrightarrow> ad_closed (hs ! i) \<Longrightarrow> adm_step (m, hs) (abortNewReservation m (hs ! i), hs)"
| step_persistent: "i < length hs \<Longrightarrow> markReservationPersistent m (hs ! i) = (a, m') \<Longrightarrow> adm_step (m, hs) (m', hs[i := a])"
| step_release: "i < length hs \<Longrightarrow> adm_step (m, hs) (releaseReservation m (hs ! i), hs)"
| step_completed: "i < length hs \<Longrightarrow> adm_step (m, hs) (markCompleted m (hs ! i), hs)"
| step_drop: "adm_step (m, hs) (dropReservation m key, hs)"
| step_load: "loadPersistent m absolute lstat v = (e, m') \<Longrightarrow> adm_step (m, hs) (m', hs)"

inductive_cases adm_stepE: "adm_step (m, hs) (m', hs')"

text \<open>Every reference count is the number of open handles on the reservation.\<close>

definition refs_inv :: "AdmissionManager \<Rightarrow> admission list \<Rightarrow> bool" where
  "refs_inv m hs \<longleftrightarrow>
     (\<forall>k. k \<noteq> [] \<longrightarrow> unat (map_get 0 (am_refs m) k) = open_count (\<lambda>a. ad_reservationKey a = k) hs)"

definition adm_inv :: "AdmissionManager \<Rightarrow> admission list \<Rightarrow> bool" where
  "adm_inv m hs \<longleftrightarrow> bytes_inv m \<and> active_inv m hs \<and> refs_inv m hs"

lemma open_count_le: "open_count f hs \<le> open_count (\<lambda>_. True) hs"
  unfolding open_count_def by (induction hs) auto

text \<open>Dropping a reservation whatever its reference count, as a finished transfer does.\<close>

definition adm_frame :: "AdmissionManager \<Rightarrow> AdmissionManager \<Rightarrow> bool" where
  "adm_frame m m' \<longleftrightarrow> (bytes_inv m \<longrightarrow> bytes_inv m') \<and> am_quota m' = am_quota m \<and> am_refs m' = am_refs m \<and>
     qu_active (am_total m') = qu_active (am_total m) \<and>
     (\<forall>t. qu_active (tenant_usage m' t) = qu_active (tenant_usage m t)) \<and>
     (\<forall>k. qu_active (device_usage m' k) = qu_active (device_usage m k))"

lemma adm_frame_inv: "adm_frame m m' \<Longrightarrow> adm_inv m hs \<Longrightarrow> adm_inv m' hs"
  unfolding adm_frame_def adm_inv_def refs_inv_def using active_inv_cong[of m hs m'] by auto

lemma adm_frame_drop: "adm_frame m (drop_if_reserved m key)"
  unfolding adm_frame_def drop_if_reserved_def by (auto simp: dropReservation_inv split: option.splits)

lemma adm_frame_trivial:
  "am_quota m' = am_quota m \<Longrightarrow> am_refs m' = am_refs m \<Longrightarrow> am_total m' = am_total m \<Longrightarrow>
   am_tenants m' = am_tenants m \<Longrightarrow> am_devices m' = am_devices m \<Longrightarrow> am_reservations m' = am_reservations m \<Longrightarrow>
   adm_frame m m'"
  unfolding adm_frame_def using bytes_inv_cong[of m m'] by simp

lemma adm_frame_trans: "adm_frame m m1 \<Longrightarrow> adm_frame m1 m2 \<Longrightarrow> adm_frame m m2"
  unfolding adm_frame_def by simp

lemma adm_pres_frame_inv: "adm_pres m m' \<Longrightarrow> adm_inv m hs \<Longrightarrow> adm_inv m' hs"
  unfolding adm_inv_def using adm_pres_active[of m m' hs] by (auto simp: adm_pres_def refs_inv_def)

lemma begin_inv:
  assumes inv: "adm_inv m hs" and b: "adm_begin m t d = Inr (a, m')"
  shows "adm_inv m' (hs @ [a])"
proof -
  have "bytes_inv m'" using inv b
    by (auto simp: adm_inv_def adm_begin_def Let_def split: if_splits intro: bytes_inv_cong)
  moreover have "refs_inv m' (hs @ [a])" using inv b
    by (auto simp: adm_inv_def adm_begin_def Let_def refs_inv_def open_count_append split: if_splits)
  ultimately show ?thesis using begin_active inv b by (auto simp: adm_inv_def)
qed

lemma ref_inc_sel [simp]:
  "am_quota (ref_inc m k) = am_quota m" "am_total (ref_inc m k) = am_total m" "am_tenants (ref_inc m k) = am_tenants m"
  "am_devices (ref_inc m k) = am_devices m" "am_reservations (ref_inc m k) = am_reservations m"
  "am_completed (ref_inc m k) = am_completed m"
  "map_get 0 (am_refs (ref_inc m k)) k' = (if k' = k then map_get 0 (am_refs m) k + 1 else map_get 0 (am_refs m) k')"
  by (simp_all add: ref_inc_def)

text \<open>What a successful claim does: it keeps the accounts and adds one reference.\<close>

lemma claim_cases:
  assumes "claimReservation m a key bs = (e, a', m')"
  shows "(e \<noteq> None \<and> a' = a \<and> m' = m) \<or>
    (e = None \<and> key \<noteq> [] \<and> ad_reservationKey a' = key \<and> ad_closed a' = ad_closed a \<and> ad_tenant a' = ad_tenant a \<and>
     ad_device a' = ad_device a \<and> (\<exists>m1. adm_pres m m1 \<and> m' = ref_inc m1 key))"
proof -
  let ?r = "\<lparr> rr_tenant = ad_tenant a, rr_device = ad_device a, rr_bytes = bs \<rparr>"
  consider (bad) "key = [] \<or> sint bs < 0" | (comp) "key \<noteq> []" "\<not> sint bs < 0" "map_has (am_completed m) key"
    | (res) existing where "key \<noteq> []" "\<not> sint bs < 0" "\<not> map_has (am_completed m) key" "map_of (am_reservations m) key = Some existing"
    | (new) "key \<noteq> []" "\<not> sint bs < 0" "\<not> map_has (am_completed m) key" "map_of (am_reservations m) key = None"
    by (cases "map_of (am_reservations m) key") blast+
  then show ?thesis
  proof cases
    case new
    show ?thesis
    proof (cases "addReservedLocked m (ad_tenant a) (ad_device a) bs")
      case (Inr m1)
      have add: "addReservedLocked m (rr_tenant ?r) (rr_device ?r) (rr_bytes ?r) = Inr m1" using Inr by simp
      show ?thesis
      proof (cases "canRetainLocked m (ad_tenant a) (ad_device a)")
        case True
        let ?nx = "if am_nextOwner m1 + 1 = 0 then am_nextOwner m1 + 1 + 1 else am_nextOwner m1 + 1"
        let ?m1 = "m1\<lparr>am_reservations := AList.update key ?r (am_reservations m1)\<rparr>"
        let ?m2 = "m1\<lparr>am_reservations := AList.update key ?r (am_reservations m1), am_nextOwner := ?nx,
          am_owners := AList.update key ?nx (am_owners m1)\<rparr>"
        have "adm_pres m ?m1" using merge_new_pres[of m key ?r ?m1] True add new(4) by (simp add: merge_new_def)
        moreover have "adm_pres ?m1 ?m2" by (rule adm_pres_frame) simp_all
        ultimately have "adm_pres m ?m2" by (rule adm_pres_trans)
        moreover have "e = None" "m' = ref_inc ?m2 key" "a' = a\<lparr>ad_reservationKey := key, ad_abortOwner := ?nx\<rparr>"
          using assms new Inr True by (simp_all add: claimReservation_def Let_def)
        ultimately show ?thesis using new by auto
      qed (use assms new Inr in \<open>auto simp: claimReservation_def\<close>)
    qed (use assms new in \<open>auto simp: claimReservation_def split: if_splits\<close>)
  next
    case res
    show ?thesis
    proof (cases "rr_tenant existing \<noteq> ad_tenant a \<or> rr_device existing \<noteq> ad_device a \<or> rr_bytes existing \<noteq> bs")
      case True
      then show ?thesis using assms res by (auto simp: claimReservation_def)
    next
      case False
      then show ?thesis using assms res by (auto simp: claimReservation_def intro!: exI[of _ m])
    qed
  qed (use assms in \<open>auto simp: claimReservation_def intro!: exI[of _ m]\<close>)
qed

lemma claim_inv:
  assumes inv: "adm_inv m hs" and i: "i < length hs" "\<not> ad_closed (hs ! i)" "ad_reservationKey (hs ! i) = []"
    and c: "claimReservation m (hs ! i) key bs = (e, a', m')"
  shows "adm_inv m' (hs[i := a'])"
  using claim_cases[OF c]
proof
  assume "e \<noteq> None \<and> a' = hs ! i \<and> m' = m"
  then show ?thesis using inv i by simp
next
  assume A: "e = None \<and> key \<noteq> [] \<and> ad_reservationKey a' = key \<and> ad_closed a' = ad_closed (hs ! i) \<and>
     ad_tenant a' = ad_tenant (hs ! i) \<and> ad_device a' = ad_device (hs ! i) \<and> (\<exists>m1. adm_pres m m1 \<and> m' = ref_inc m1 key)"
  then obtain m1 where m1: "adm_pres m m1" "m' = ref_inc m1 key" by blast
  have inv1: "adm_inv m1 hs" using adm_pres_frame_inv[OF m1(1) inv] .
  have same: "open_count f (hs[i := a']) = open_count f hs" if "f a' = f (hs ! i)" for f
    using that A i by (intro open_count_same) auto
  have act: "active_inv m' (hs[i := a'])"
    unfolding active_inv_def using inv1 A same
    by (auto simp: m1 adm_inv_def active_inv_def)
  have by': "bytes_inv m'" using inv1 by (auto simp: m1 adm_inv_def intro: bytes_inv_cong)
  have cnt: "open_count (\<lambda>a. ad_reservationKey a = k) (hs[i := a']) =
      open_count (\<lambda>a. ad_reservationKey a = k) hs + (if k = key then 1 else 0)" if "k \<noteq> []" for k
    using open_count_update[OF i(1), of "\<lambda>a. ad_reservationKey a = k" a'] that i A by auto
  have "open_count (\<lambda>a. ad_reservationKey a = key) (hs[i := a']) \<le> open_count (\<lambda>_. True) (hs[i := a'])"
    by (rule open_count_le)
  also have "\<dots> \<le> unat (q_MaxActiveTransfers (am_quota m'))" using act by (simp add: active_inv_def)
  finally have small: "open_count (\<lambda>a. ad_reservationKey a = key) hs + 1 < 2 ^ 32"
    using cnt[of key] A unat_u32_less[of "q_MaxActiveTransfers (am_quota m')"] by simp
  have "unat (map_get 0 (am_refs m1) key) = open_count (\<lambda>a. ad_reservationKey a = key) hs"
    using inv1 A by (simp add: adm_inv_def refs_inv_def)
  then have "unat (map_get 0 (am_refs m1) key + 1) = open_count (\<lambda>a. ad_reservationKey a = key) hs + 1"
    using small by (subst unat_add_lem[THEN iffD1]) auto
  then have "refs_inv m' (hs[i := a'])"
    unfolding refs_inv_def using cnt inv1 by (simp add: m1 adm_inv_def refs_inv_def)
  then show ?thesis using act by' by (simp add: adm_inv_def)
qed

lemma close_inv:
  assumes inv: "adm_inv m hs" and i: "i < length hs" and c: "closeActive m (hs ! i) = (a', m')"
  shows "adm_inv m' (hs[i := a'])"
proof (cases "ad_closed (hs ! i)")
  case True
  then have "a' = hs ! i" "m' = m" using c by (simp_all add: closeActive_def)
  then show ?thesis using inv by simp
next
  case False
  note P = closeActive_projections[OF c False]
  let ?rk = "ad_reservationKey (hs ! i)"
  have by': "bytes_inv m'"
    using inv by (auto simp: adm_inv_def P Let_def intro!: bytes_inv_cong[of m m'])
  have R: "map_get 0 (am_refs m') k = (if k = ?rk \<and> ?rk \<noteq> [] \<and> 0 < map_get 0 (am_refs m) ?rk
      then map_get 0 (am_refs m) ?rk - 1 else map_get 0 (am_refs m) k)" for k
    using c False by (auto simp: closeActive_def Let_def storeUsageLocked_def)
  have U: "open_count (\<lambda>a. ad_reservationKey a = k) (hs[i := a']) + (if ?rk = k then 1 else 0) =
      open_count (\<lambda>a. ad_reservationKey a = k) hs" for k
    using open_count_update[OF i, of "\<lambda>a. ad_reservationKey a = k" a'] False P(8) by simp
  have "unat (map_get 0 (am_refs m') k) = open_count (\<lambda>a. ad_reservationKey a = k) (hs[i := a'])" if k: "k \<noteq> []" for k
  proof (cases "k = ?rk")
    case True
    have n: "unat (map_get 0 (am_refs m) ?rk) = open_count (\<lambda>a. ad_reservationKey a = ?rk) hs"
      using inv k True by (simp add: adm_inv_def refs_inv_def)
    have p: "0 < open_count (\<lambda>a. ad_reservationKey a = ?rk) hs" by (rule open_count_pos[OF i False]) simp
    then have "0 < unat (map_get 0 (am_refs m) ?rk)" using n by simp
    from unat_dec[OF this] show ?thesis using R[of k] U[of k] True k n p by (auto simp: unat_gt_0 word_greater_zero_iff)
  next
    case False
    then show ?thesis using R[of k] U[of k] inv k by (simp add: adm_inv_def refs_inv_def)
  qed
  then have "refs_inv m' (hs[i := a'])" by (simp add: refs_inv_def)
  then show ?thesis using by' close_active[OF _ i c] inv by (simp add: adm_inv_def)
qed

lemma adm_frame_refl [simp]: "adm_frame m m"
  by (simp add: adm_frame_def)

lemma adm_frame_completed: "adm_frame m (m\<lparr>am_completed := c\<rparr>)"
  by (rule adm_frame_trivial) simp_all

lemma markCompleted_frame: "adm_frame m (markCompleted m a)"
  by (simp add: markCompleted_def Let_def adm_frame_trans[OF adm_frame_drop adm_frame_completed])

lemma drop_op_frames:
  "adm_frame m (abortNewReservation m a)" "adm_frame m (releaseReservation m a)" "adm_frame m (dropReservation m key)"
  by (simp_all add: abortNewReservation_def releaseReservation_def dropReservation_def adm_frame_drop
      adm_frame_trans[OF adm_frame_completed adm_frame_drop])

lemma persistent_inv:
  assumes inv: "adm_inv m hs" and i: "i < length hs" and c: "markReservationPersistent m (hs ! i) = (a', m')"
  shows "adm_inv m' (hs[i := a'])"
proof -
  have "adm_frame m m'" using c by (auto simp: markReservationPersistent_def intro: adm_frame_trivial split: if_splits)
  then have "adm_inv m' hs" using inv by (rule adm_frame_inv)
  moreover have "ad_closed a' = ad_closed (hs ! i)" "ad_tenant a' = ad_tenant (hs ! i)" "ad_device a' = ad_device (hs ! i)"
    "ad_reservationKey a' = ad_reservationKey (hs ! i)"
    using c by (auto simp: markReservationPersistent_def split: if_splits)
  then have "open_count f (hs[i := a']) = open_count f hs" if "f a' = f (hs ! i)" for f
    using that i by (intro open_count_same) auto
  ultimately show ?thesis using \<open>ad_reservationKey a' = _\<close> \<open>ad_tenant a' = _\<close> \<open>ad_device a' = _\<close>
    by (simp add: adm_inv_def active_inv_def refs_inv_def)
qed

lemma adm_step_inv:
  assumes "adm_step s s'" and "adm_inv (fst s) (snd s)"
  shows "adm_inv (fst s') (snd s')"
  using assms
proof (induction rule: adm_step.induct)
  case (step_load m absolute lstat v e m' hs)
  then show ?case using adm_pres_frame_inv[OF loadPersistent_pres] by simp
qed (simp_all add: begin_inv claim_inv close_inv persistent_inv adm_frame_inv[OF drop_op_frames(1)]
    adm_frame_inv[OF drop_op_frames(2)] adm_frame_inv[OF drop_op_frames(3)] adm_frame_inv[OF markCompleted_frame])

lemma adm_steps_inv:
  assumes "adm_step\<^sup>*\<^sup>* s s'" "adm_inv (fst s) (snd s)"
  shows "adm_inv (fst s') (snd s')"
  using assms by (induction rule: rtranclp_induct) (auto intro: adm_step_inv)

lemma NewAdmissionManager_inv:
  assumes "NewAdmissionManager q = Inr m"
  shows "adm_inv m []"
proof -
  have "quota_valid (am_quota m)" "am_reservations m = []" "am_tenants m = []" "am_devices m = []" "am_refs m = []"
    "am_total m = no_usage"
    using assms by (auto simp: NewAdmissionManager_def Let_def quota_valid_def not_le split: if_splits)
  then show ?thesis
    by (simp add: adm_inv_def bytes_inv_def active_inv_def refs_inv_def res_sum_def open_count_def quota_valid_def less_imp_le)
qed

text \<open>
  C1: the quotas hold in every reachable state. However transfers are begun, claimed, closed,
  aborted, completed, collected and reloaded from disk, the counters of the manager are exact and
  bounded: the active counters equal the numbers of open transfers (in total, per tenant and per
  device key) and the byte counters the sums of the reserved bytes, no 32-bit or 64-bit counter has
  wrapped, and each is at most its quota.
\<close>

theorem admission_quotas_hold:
  assumes "NewAdmissionManager q = Inr m0" and "adm_step\<^sup>*\<^sup>* (m0, []) (m, hs)"
  shows "unat (qu_active (am_total m)) = open_count (\<lambda>_. True) hs \<and>
    open_count (\<lambda>_. True) hs \<le> unat (q_MaxActiveTransfers (am_quota m)) \<and>
    sint (qu_bytes (am_total m)) = res_sum (\<lambda>_. True) (am_reservations m) \<and>
    res_sum (\<lambda>_. True) (am_reservations m) \<le> sint (q_MaxReservedBytes (am_quota m)) \<and>
    (\<forall>t. unat (qu_active (tenant_usage m t)) = open_count (\<lambda>a. ad_tenant a = t) hs \<and>
      open_count (\<lambda>a. ad_tenant a = t) hs \<le> unat (q_MaxActivePerTenant (am_quota m)) \<and>
      sint (qu_bytes (tenant_usage m t)) = res_sum (of_tenant t) (am_reservations m) \<and>
      res_sum (of_tenant t) (am_reservations m) \<le> sint (q_MaxReservedBytesPerTenant (am_quota m))) \<and>
    (\<forall>k. unat (qu_active (device_usage m k)) = open_count (\<lambda>a. device_key (ad_tenant a) (ad_device a) = k) hs \<and>
      open_count (\<lambda>a. device_key (ad_tenant a) (ad_device a) = k) hs \<le> unat (q_MaxActivePerDevice (am_quota m)) \<and>
      sint (qu_bytes (device_usage m k)) = res_sum (of_device k) (am_reservations m) \<and>
      res_sum (of_device k) (am_reservations m) \<le> sint (q_MaxReservedBytesPerDevice (am_quota m)))"
proof -
  have "adm_inv m hs" using adm_steps_inv[OF assms(2)] NewAdmissionManager_inv[OF assms(1)] by simp
  then show ?thesis unfolding adm_inv_def bytes_inv_def active_inv_def by blast
qed

text \<open>
  C5: a reservation in use is safe from collection. While some open transfer holds a reservation,
  neither the collector's \<open>dropReservation\<close> nor a reload of any state root from disk removes or
  changes that reservation, whatever the directories contain.
\<close>

theorem held_reservation_kept:
  assumes "NewAdmissionManager q = Inr m0" and "adm_step\<^sup>*\<^sup>* (m0, []) (m, hs)"
    and "i < length hs" and "\<not> ad_closed (hs ! i)" and "ad_reservationKey (hs ! i) = k" and "k \<noteq> []"
    and "map_of (am_reservations m) k = Some r"
  shows "map_of (am_reservations (dropReservation m key)) k = Some r \<and>
    map_of (am_reservations (snd (loadPersistent m absolute lstat v))) k = Some r"
proof -
  have inv: "adm_inv m hs" using adm_steps_inv[OF assms(2)] NewAdmissionManager_inv[OF assms(1)] by simp
  have "0 < open_count (\<lambda>a. ad_reservationKey a = k) hs" using assms(3-5) by (intro open_count_pos) auto
  then have "0 < unat (map_get 0 (am_refs m) k)" using inv assms(6) by (simp add: adm_inv_def refs_inv_def)
  then have held: "held m k" by (simp add: held_def unat_gt_0 word_greater_zero_iff)
  obtain e m' where l: "loadPersistent m absolute lstat v = (e, m')" by fastforce
  have "map_of (am_reservations m') k = Some r"
    using loadPersistent_pres[OF l] inv held assms(7) by (auto simp: adm_pres_def adm_inv_def)
  moreover have "map_of (am_reservations (dropReservation m key)) k = Some r"
    using held assms(7) by (auto simp: dropReservation_def drop_if_reserved_def held_def split: option.splits)
  ultimately show ?thesis using l by simp
qed

section \<open>A concrete run\<close>

definition sample_manager :: AdmissionManager where
  "sample_manager = projr (NewAdmissionManager DefaultQuota)"

definition sample_begun :: "admission \<times> AdmissionManager" where
  "sample_begun = projr (adm_begin sample_manager ''t'' ''d'')"

definition sample_claimed :: "ft_error option \<times> admission \<times> AdmissionManager" where
  "sample_claimed = claimReservation (snd sample_begun) (fst sample_begun) ''k'' 100"

lemma sample_manager_new: "NewAdmissionManager DefaultQuota = Inr sample_manager"
proof -
  have "\<not> isl (NewAdmissionManager DefaultQuota)" by code_simp
  then show ?thesis by (cases "NewAdmissionManager DefaultQuota") (simp_all add: sample_manager_def)
qed

lemma sample_begun_new: "adm_begin sample_manager ''t'' ''d'' = Inr sample_begun"
proof -
  have "\<not> isl (adm_begin sample_manager ''t'' ''d'')" by code_simp
  then show ?thesis by (cases "adm_begin sample_manager ''t'' ''d''") (simp_all add: sample_begun_def)
qed

lemma sample_claimed_facts:
  "\<not> ad_closed (fst sample_begun)" "ad_reservationKey (fst sample_begun) = []"
  "\<not> ad_closed (fst (snd sample_claimed))" "ad_reservationKey (fst (snd sample_claimed)) = ''k''"
  "map_of (am_reservations (snd (snd sample_claimed))) ''k'' =
     Some \<lparr> rr_tenant = ''t'', rr_device = ''d'', rr_bytes = 100 \<rparr>"
  by code_simp+

lemma sample_run:
  "adm_step\<^sup>*\<^sup>* (sample_manager, []) (snd (snd sample_claimed), [fst (snd sample_claimed)])"
proof -
  obtain a1 m1 where b: "sample_begun = (a1, m1)" by fastforce
  obtain e a2 m2 where c: "sample_claimed = (e, a2, m2)" by (cases sample_claimed) auto
  have "adm_step (sample_manager, []) (m1, [] @ [a1])"
    by (rule step_begin[where t = "''t''" and d = "''d''"]) (simp add: sample_begun_new b)
  moreover have "adm_step (m1, [a1]) (m2, [a1][0 := a2])"
    by (rule step_claim[where key = "''k''" and bs = 100 and e = e])
       (use sample_claimed_facts c in \<open>simp_all add: b sample_claimed_def\<close>)
  ultimately show ?thesis by (simp add: c)
qed

lemma admission_quotas_hold_witness:
  "sint (qu_bytes (am_total (snd (snd sample_claimed)))) \<le> sint (q_MaxReservedBytes (am_quota (snd (snd sample_claimed))))"
  using admission_quotas_hold[OF sample_manager_new sample_run] by simp

lemma held_reservation_kept_witness:
  "map_of (am_reservations (dropReservation (snd (snd sample_claimed)) ''k'')) ''k'' =
     Some \<lparr> rr_tenant = ''t'', rr_device = ''d'', rr_bytes = 100 \<rparr>"
  using held_reservation_kept[OF sample_manager_new sample_run, of 0 "''k''"] sample_claimed_facts by simp

end
