(* ===== verification/FT_Files.thy ===== *)
theory FT_Files
  imports FT_Admission
begin

text \<open>
  The file operations of the transfer package: a directory handle of \<open>os.Root\<close> as a map from names
  to entries, and every call on it as a step that may fail. Which calls fail, and how many bytes a
  failing write still wrote, is a list of outcomes in the state; theorems quantify over it, so they
  hold for every pattern of failures. Cancellation of the context is an outcome too. The random
  bytes the code draws are a list in the state. A directory that changes behind the program's back
  (the \<open>os.SameFile\<close> tests) and loss of data in a crash are not modelled.
\<close>

section \<open>Directories and effects\<close>

text \<open>A regular file with its content, or anything else: a directory (the flag), a symbolic link, a device.\<close>

datatype entry = Regular bytes | is_irregular: Irregular (is_dir: bool)
  where "is_dir (Regular _) = False"

type_synonym files = "(string, entry) gomap"

text \<open>
  The state directory, the directory of one transfer in it, and the directory a finished file is
  published in. A handle of a transfer directory is its present name: a rename of the directory
  takes the handle along.
\<close>

datatype dir = StateDir | DestDir | Child string

record fsw =
  fw_state :: files
  fw_dest :: files
  fw_children :: "(string, files) gomap"
  fw_leases :: "string list"
  fw_faults :: "nat option list"
  fw_random :: "bytes list"
  fw_manager :: AdmissionManager

type_synonym 'a io = "fsw \<Rightarrow> (ft_error + 'a) \<times> fsw"

fun fdir :: "dir \<Rightarrow> fsw \<Rightarrow> files" where
  "fdir StateDir w = fw_state w"
| "fdir DestDir w = fw_dest w"
| "fdir (Child n) w = (case map_of (fw_children w) n of Some fs \<Rightarrow> fs | None \<Rightarrow> [])"

fun set_dir :: "dir \<Rightarrow> files \<Rightarrow> fsw \<Rightarrow> fsw" where
  "set_dir StateDir fs w = w\<lparr>fw_state := fs\<rparr>"
| "set_dir DestDir fs w = w\<lparr>fw_dest := fs\<rparr>"
| "set_dir (Child n) fs w = w\<lparr>fw_children := AList.update n fs (fw_children w)\<rparr>"

lemma fdir_set [simp]: "fdir d (set_dir d' fs w) = (if d = d' then fs else fdir d w)"
  by (cases d; cases d') auto

definition io_ret :: "'a \<Rightarrow> 'a io" where "io_ret a = (\<lambda>w. (Inr a, w))"

definition io_err :: "ft_error \<Rightarrow> 'a io" where "io_err e = (\<lambda>w. (Inl e, w))"

definition io_bind :: "'a io \<Rightarrow> ('a \<Rightarrow> 'b io) \<Rightarrow> 'b io" where
  "io_bind m k = (\<lambda>w. case m w of (Inl e, w') \<Rightarrow> (Inl e, w') | (Inr a, w') \<Rightarrow> k a w')"

text \<open>\<open>io_try\<close> runs a call and hands over its error value instead of returning it.\<close>

definition io_try :: "'a io \<Rightarrow> (ft_error + 'a \<Rightarrow> 'b io) \<Rightarrow> 'b io" where
  "io_try m k = (\<lambda>w. case m w of (r, w') \<Rightarrow> k r w')"

definition io_wrap :: "(ft_error \<Rightarrow> ft_error) \<Rightarrow> 'a io \<Rightarrow> 'a io" where
  "io_wrap f m = (\<lambda>w. case m w of (r, w') \<Rightarrow> (wrap_r f r, w'))"

abbreviation io_seq :: "'a io \<Rightarrow> 'b io \<Rightarrow> 'b io" where
  "io_seq m k \<equiv> io_bind m (\<lambda>_. k)"

definition io_pure :: "ft_error + 'a \<Rightarrow> 'a io" where "io_pure r = (\<lambda>w. (r, w))"

definition pop_fault :: "fsw \<Rightarrow> nat option \<times> fsw" where
  "pop_fault w = (case fw_faults w of [] \<Rightarrow> (None, w) | f # fs \<Rightarrow> (f, w\<lparr>fw_faults := fs\<rparr>))"

definition io_step :: "ft_error \<Rightarrow> unit io" where
  "io_step e = (\<lambda>w. case pop_fault w of (None, w) \<Rightarrow> (Inr (), w) | (Some _, w) \<Rightarrow> (Inl e, w))"

definition ctx_err :: "unit io" where "ctx_err = io_step ErrContext"

definition fs_op :: "dir \<Rightarrow> (files \<Rightarrow> ft_error + ('a \<times> files)) \<Rightarrow> 'a io" where
  "fs_op d f = io_seq (io_step (ErrIO ''io'')) (\<lambda>w. case f (fdir d w) of
     Inl e \<Rightarrow> (Inl e, w) | Inr (a, fs) \<Rightarrow> (Inr a, set_dir d fs w))"

definition fs_lstat :: "dir \<Rightarrow> string \<Rightarrow> entry io" where
  "fs_lstat d name = fs_op d (\<lambda>fs. case map_of fs name of None \<Rightarrow> Inl ErrNotExist | Some n \<Rightarrow> Inr (n, fs))"

definition fs_remove :: "dir \<Rightarrow> string \<Rightarrow> unit io" where
  "fs_remove d name = fs_op d (\<lambda>fs. case map_of fs name of None \<Rightarrow> Inl ErrNotExist | Some n \<Rightarrow> Inr ((), AList.delete name fs))"

definition fs_rename :: "dir \<Rightarrow> string \<Rightarrow> string \<Rightarrow> unit io" where
  "fs_rename d a b = fs_op d (\<lambda>fs. case map_of fs a of None \<Rightarrow> Inl ErrNotExist
     | Some n \<Rightarrow> Inr ((), AList.update b n (AList.delete a fs)))"

definition fs_link :: "dir \<Rightarrow> string \<Rightarrow> string \<Rightarrow> unit io" where
  "fs_link d a b = fs_op d (\<lambda>fs. case map_of fs a of None \<Rightarrow> Inl ErrNotExist
     | Some n \<Rightarrow> if map_has fs b then Inl ErrExist else Inr ((), AList.update b n fs))"

text \<open>\<open>O_CREATE|O_EXCL\<close>.\<close>

definition fs_create :: "dir \<Rightarrow> string \<Rightarrow> unit io" where
  "fs_create d name = fs_op d (\<lambda>fs. if map_has fs name then Inl ErrExist else Inr ((), AList.update name (Regular []) fs))"

text \<open>A write of a whole new file; a failing one leaves a prefix.\<close>

definition fs_write :: "dir \<Rightarrow> string \<Rightarrow> bytes \<Rightarrow> unit io" where
  "fs_write d name data = (\<lambda>w. case pop_fault w of
     (None, w) \<Rightarrow> (Inr (), set_dir d (AList.update name (Regular data) (fdir d w)) w)
   | (Some k, w) \<Rightarrow> (Inl (ErrIO ''write''), set_dir d (AList.update name (Regular (take k data)) (fdir d w)) w))"

definition fs_sync :: "unit io" where "fs_sync = io_step (ErrIO ''sync'')"

definition fs_close :: "unit io" where "fs_close = io_step (ErrIO ''close'')"

definition syncRootDir :: "unit io" where "syncRootDir = io_step ErrDurability"

definition io_random :: "nat \<Rightarrow> bytes io" where
  "io_random n = io_seq (io_step (ErrIO ''random'')) (\<lambda>w. case fw_random w of
     [] \<Rightarrow> (Inl (ErrIO ''random''), w) | b # bs \<Rightarrow> (Inr (copy_into (zeros n) b), w\<lparr>fw_random := bs\<rparr>))"

text \<open>The names in the order the directory lists them; at most \<open>n\<close>.\<close>

definition fs_readdir :: "dir \<Rightarrow> nat \<Rightarrow> string list io" where
  "fs_readdir d n = fs_op d (\<lambda>fs. Inr (take n (map fst fs), fs))"

text \<open>\<open>readBoundedRootFile\<close> of \<open>state.go\<close>.\<close>

definition readBoundedRootFile :: "dir \<Rightarrow> string \<Rightarrow> nat \<Rightarrow> bytes io" where
  "readBoundedRootFile d name maximum =
     io_bind (fs_lstat d name) (\<lambda>before.
     case before of
       (Irregular _) \<Rightarrow> io_err (ErrInvalidInput ''state file'')
     | Regular data \<Rightarrow>
         if maximum < length data then io_err (ErrInvalidInput ''state file'') else
         io_seq (io_step (ErrIO ''open'')) (
         io_seq (io_step (ErrInvalidInput ''state file changed'')) (
         io_seq (io_step (ErrIO ''read'')) (
         if maximum < length data then io_err (ErrLimitExceeded ''state file'') else io_ret data))))"

definition temp_name :: "string \<Rightarrow> string \<Rightarrow> bytes \<Rightarrow> string" where
  "temp_name prefix suffix rnd = prefix @ hex_encode rnd @ suffix"

text \<open>\<open>atomicWriteState\<close>: the deferred clean-up closes the file and removes the temporary name.\<close>

definition atomic_cleanup :: "dir \<Rightarrow> string \<Rightarrow> ft_error \<Rightarrow> unit io" where
  "atomic_cleanup d tmp e = io_try fs_close (\<lambda>_. io_try (fs_remove d tmp) (\<lambda>_. io_err e))"

definition atomicWriteState :: "dir \<Rightarrow> string \<Rightarrow> bytes \<Rightarrow> unit io" where
  "atomicWriteState d name data =
     io_bind (io_random 12) (\<lambda>rnd.
     let tmp = temp_name (''.'' @ name @ ''-'') ''.new'' rnd in
     io_seq (fs_create d tmp) (
     io_try (io_seq (fs_write d tmp data) (io_seq fs_sync (io_seq fs_close
         (io_seq (fs_rename d tmp name) syncRootDir)))) (\<lambda>r.
       case r of Inl e \<Rightarrow> atomic_cleanup d tmp e
       | Inr _ \<Rightarrow> io_try fs_close (\<lambda>_. io_ret ()))))"

text \<open>A call on the admission manager, which takes no part in failures.\<close>

definition with_manager :: "(AdmissionManager \<Rightarrow> 'a \<times> AdmissionManager) \<Rightarrow> 'a io" where
  "with_manager f = (\<lambda>w. case f (fw_manager w) of (a, m) \<Rightarrow> (Inr a, w\<lparr>fw_manager := m\<rparr>))"

section \<open>What a step can change\<close>

text \<open>
  \<open>io_touches d P m\<close>: the step \<open>m\<close> changes no entry of any directory but those of \<open>d\<close> whose name
  satisfies \<open>P\<close>.
\<close>

definition io_touches :: "dir \<Rightarrow> (string \<Rightarrow> bool) \<Rightarrow> 'a io \<Rightarrow> bool" where
  "io_touches d P m \<longleftrightarrow> (\<forall>w. (\<forall>n. \<not> P n \<longrightarrow> map_of (fdir d (snd (m w))) n = map_of (fdir d w) n) \<and>
     (\<forall>d'. d' \<noteq> d \<longrightarrow> fdir d' (snd (m w)) = fdir d' w))"

named_theorems io_frame \<open>steps that touch only some entries\<close>

lemma pop_fault_dirs [simp]: "pop_fault w = (f, w') \<Longrightarrow> fdir d w' = fdir d w"
  by (cases d) (auto simp: pop_fault_def split: list.splits)

lemma io_step_cases: "io_step e w = (r, w') \<Longrightarrow> (r = Inl e \<or> r = Inr ()) \<and> (\<forall>d. fdir d w' = fdir d w)"
  by (auto simp: io_step_def split: prod.splits option.splits dest: pop_fault_dirs)

lemma touches_step [io_frame]: "io_touches d P (io_step e)"
  unfolding io_touches_def using io_step_cases[of e] by (metis prod.collapse)

lemma touches_simple [io_frame]:
  "io_touches d P (io_ret a)" "io_touches d P (io_err e)" "io_touches d P (io_pure r)"
  by (simp_all add: io_touches_def io_ret_def io_err_def io_pure_def)

lemma touches_bind:
  assumes "io_touches d P m" "\<And>a. io_touches d P (k a)"
  shows "io_touches d P (io_bind m k)"
  unfolding io_touches_def
proof (intro allI)
  fix w
  obtain r w1 where m: "m w = (r, w1)" by fastforce
  have 1: "(\<forall>n. \<not> P n \<longrightarrow> map_of (fdir d w1) n = map_of (fdir d w) n) \<and> (\<forall>d'. d' \<noteq> d \<longrightarrow> fdir d' w1 = fdir d' w)"
    using assms(1) m by (metis io_touches_def snd_conv)
  have 2: "(\<forall>n. \<not> P n \<longrightarrow> map_of (fdir d (snd (k a w1))) n = map_of (fdir d w1) n) \<and>
      (\<forall>d'. d' \<noteq> d \<longrightarrow> fdir d' (snd (k a w1)) = fdir d' w1)" for a
    using assms(2)[of a] by (simp add: io_touches_def)
  show "(\<forall>n. \<not> P n \<longrightarrow> map_of (fdir d (snd (io_bind m k w))) n = map_of (fdir d w) n) \<and>
      (\<forall>d'. d' \<noteq> d \<longrightarrow> fdir d' (snd (io_bind m k w)) = fdir d' w)"
    using 1 2 m by (cases r) (simp_all add: io_bind_def)
qed

lemma touches_try:
  assumes "io_touches d P m" "\<And>a. io_touches d P (k a)"
  shows "io_touches d P (io_try m k)"
  unfolding io_touches_def
proof (intro allI)
  fix w
  obtain r w1 where m: "m w = (r, w1)" by fastforce
  have 1: "(\<forall>n. \<not> P n \<longrightarrow> map_of (fdir d w1) n = map_of (fdir d w) n) \<and> (\<forall>d'. d' \<noteq> d \<longrightarrow> fdir d' w1 = fdir d' w)"
    using assms(1) m by (metis io_touches_def snd_conv)
  have 2: "(\<forall>n. \<not> P n \<longrightarrow> map_of (fdir d (snd (k a w1))) n = map_of (fdir d w1) n) \<and>
      (\<forall>d'. d' \<noteq> d \<longrightarrow> fdir d' (snd (k a w1)) = fdir d' w1)" for a
    using assms(2)[of a] by (simp add: io_touches_def)
  show "(\<forall>n. \<not> P n \<longrightarrow> map_of (fdir d (snd (io_try m k w))) n = map_of (fdir d w) n) \<and>
      (\<forall>d'. d' \<noteq> d \<longrightarrow> fdir d' (snd (io_try m k w)) = fdir d' w)"
    using 1 2 m by (simp add: io_try_def)
qed

lemma touches_op:
  assumes "\<And>fs a fs' n. f fs = Inr (a, fs') \<Longrightarrow> \<not> P n \<Longrightarrow> map_of fs' n = map_of fs n"
  shows "io_touches d P (fs_op d f)"
  unfolding fs_op_def
  by (rule touches_bind[OF touches_step])
     (auto simp: io_touches_def split: sum.splits prod.splits dest: assms)

lemma touches_ops [io_frame]:
  "io_touches d P (fs_lstat d a)"
  "P a \<Longrightarrow> io_touches d P (fs_remove d a)"
  "P a \<Longrightarrow> P b \<Longrightarrow> io_touches d P (fs_rename d a b)"
  "P b \<Longrightarrow> io_touches d P (fs_link d a b)"
  "P a \<Longrightarrow> io_touches d P (fs_create d a)"
  "io_touches d P (fs_readdir d n)"
  unfolding fs_lstat_def fs_remove_def fs_rename_def fs_link_def fs_create_def fs_readdir_def
  by (auto intro!: touches_op split: option.splits if_splits)

lemma touches_write [io_frame]: "P a \<Longrightarrow> io_touches d P (fs_write d a data)"
  unfolding io_touches_def fs_write_def by (auto split: prod.splits option.splits dest: pop_fault_dirs)

lemma touches_random [io_frame]: "io_touches d P (io_random n)"
proof -
  have "io_touches d P (\<lambda>w. case fw_random w of [] \<Rightarrow> (Inl (ErrIO ''random''), w)
      | b # bs \<Rightarrow> (Inr (copy_into (zeros n) b), w\<lparr>fw_random := bs\<rparr>))"
  proof -
    have "fdir d' (w\<lparr>fw_random := bs\<rparr>) = fdir d' w" for d' w bs by (cases d') auto
    then show ?thesis by (auto simp: io_touches_def split: list.splits)
  qed
  then show ?thesis unfolding io_random_def by (rule touches_bind[OF touches_step])
qed

lemma touches_other [io_frame]: "io_touches d P fs_sync" "io_touches d P fs_close" "io_touches d P syncRootDir"
  "io_touches d P ctx_err"
  by (simp_all add: fs_sync_def fs_close_def syncRootDir_def ctx_err_def touches_step)

lemma touches_read [io_frame]: "io_touches d P (readBoundedRootFile d name mx)"
  unfolding readBoundedRootFile_def
  by (auto intro!: touches_bind io_frame split: entry.splits)

lemma fdir_manager [simp]: "fdir d (w\<lparr>fw_manager := m\<rparr>) = fdir d w"
  by (cases d) simp_all

lemma touches_manager [io_frame]: "io_touches d P (with_manager f)"
  unfolding io_touches_def with_manager_def by (simp split: prod.split)

definition is_temp_of :: "string \<Rightarrow> string \<Rightarrow> bool" where
  "is_temp_of name n \<longleftrightarrow> (\<exists>rnd. n = temp_name (''.'' @ name @ ''-'') ''.new'' rnd)"

lemma touches_atomic [io_frame]:
  assumes "P name" "\<And>n. is_temp_of name n \<Longrightarrow> P n"
  shows "io_touches d P (atomicWriteState d name data)"
  unfolding atomicWriteState_def atomic_cleanup_def Let_def
  by (intro touches_bind touches_try io_frame allI)
     (auto intro!: touches_bind touches_try io_frame assms split: sum.splits simp: is_temp_of_def)

lemma io_touchesD:
  "io_touches d P m \<Longrightarrow> m w = (r, w') \<Longrightarrow> \<not> P n \<Longrightarrow> map_of (fdir d w') n = map_of (fdir d w) n"
  "io_touches d P m \<Longrightarrow> m w = (r, w') \<Longrightarrow> d' \<noteq> d \<Longrightarrow> fdir d' w' = fdir d' w"
  unfolding io_touches_def by (metis snd_conv)+

end
