(* ===== verification/FT_State.thy ===== *)
theory FT_State
  imports FT_Files
begin

text \<open>
  File transfer, the durable state: the trusted-time floor and expiry records of
  \<open>internal/filetransfer/state.go\<close> and \<open>receiver.go\<close>, which directory entries belong to a transfer,
  how its content is removed, and the name and content tests of the collector in \<open>gc.go\<close>.
\<close>

section \<open>Reading and writing a small file\<close>

lemma io_bind_Inr:
  "io_bind m k w = (Inr v, w') \<longleftrightarrow> (\<exists>a w1. m w = (Inr a, w1) \<and> k a w1 = (Inr v, w'))"
  by (auto simp: io_bind_def split: prod.splits sum.splits)

lemma io_seq_Inr: "io_seq m k w = (Inr v, w') \<Longrightarrow> \<exists>w1. k w1 = (Inr v, w')"
  by (auto simp: io_bind_Inr)

lemma io_ret_iff [simp]: "io_ret a w = (r, w') \<longleftrightarrow> r = Inr a \<and> w' = w"
  by (auto simp: io_ret_def)

lemma io_err_iff [simp]: "io_err e w = (r, w') \<longleftrightarrow> r = Inl e \<and> w' = w"
  by (auto simp: io_err_def)

lemma io_pure_iff [simp]: "io_pure x w = (r, w') \<longleftrightarrow> x = r \<and> w' = w"
  by (auto simp: io_pure_def)

lemma io_try_iff: "io_try m k w = (r, w') \<longleftrightarrow> (\<exists>x w1. m w = (x, w1) \<and> k x w1 = (r, w'))"
  by (auto simp: io_try_def split: prod.splits)

lemma fs_op_Inr:
  assumes "fs_op d f w = (Inr v, w')"
  shows "\<exists>w1 fs. f (fdir d w) = Inr (v, fs) \<and> w' = set_dir d fs w1 \<and> (\<forall>d. fdir d w1 = fdir d w)"
proof -
  obtain u w1 where w1: "io_step (ErrIO ''io'') w = (Inr u, w1)"
    and k: "(case f (fdir d w1) of Inl e \<Rightarrow> (Inl e, w1) | Inr (a, fs) \<Rightarrow> (Inr a, set_dir d fs w1)) = (Inr v, w')"
    using assms by (auto simp: fs_op_def io_bind_Inr)
  have "\<forall>d. fdir d w1 = fdir d w" using io_step_cases[OF w1] by blast
  then show ?thesis using k by (auto split: sum.splits prod.splits)
qed

lemma lstat_Inr: "fs_lstat d name w = (Inr n, w') \<Longrightarrow> map_of (fdir d w) name = Some n \<and> (\<forall>d. fdir d w' = fdir d w)"
  unfolding fs_lstat_def by (drule fs_op_Inr) (auto split: option.splits)

lemma lstat_dirs: "fs_lstat d name w = (r, w') \<Longrightarrow> fdir d' w' = fdir d' w"
  unfolding fs_lstat_def fs_op_def io_bind_def
  by (auto split: prod.splits sum.splits option.splits dest!: io_step_cases)

lemma step_dirs: "io_step e w = (r, w') \<Longrightarrow> fdir d w' = fdir d w"
  by (drule io_step_cases) simp

lemma read_Inr:
  assumes "readBoundedRootFile d name mx w = (Inr data, w')"
  shows "map_of (fdir d w) name = Some (Regular data)" "length data \<le> mx" "fdir d' w' = fdir d' w"
proof -
  obtain before w1 where l: "fs_lstat d name w = (Inr before, w1)"
    and k: "(case before of (Irregular _) \<Rightarrow> io_err (ErrInvalidInput ''state file'')
     | Regular data \<Rightarrow>
         if mx < length data then io_err (ErrInvalidInput ''state file'') else
         io_seq (io_step (ErrIO ''open'')) (
         io_seq (io_step (ErrInvalidInput ''state file changed'')) (
         io_seq (io_step (ErrIO ''read'')) (
         if mx < length data then io_err (ErrLimitExceeded ''state file'') else io_ret data)))) w1 = (Inr data, w')"
    using assms unfolding readBoundedRootFile_def io_bind_Inr by blast
  obtain x where x: "before = Regular x" using k by (cases before) auto
  have le: "\<not> mx < length x" using k x by (auto split: if_splits)
  obtain u1 u2 u3 w2 w3 where st: "io_step (ErrIO ''open'') w1 = (Inr u1, w2)"
    "io_step (ErrInvalidInput ''state file changed'') w2 = (Inr u2, w3)" "io_step (ErrIO ''read'') w3 = (Inr u3, w')"
    and d: "data = x"
    using k unfolding x entry.case if_not_P[OF le] io_bind_Inr io_ret_iff by blast
  show "map_of (fdir d w) name = Some (Regular data)" "length data \<le> mx"
    using lstat_Inr[OF l] x d le by auto
  show "fdir d' w' = fdir d' w"
    using step_dirs[OF st(1), of d'] step_dirs[OF st(2), of d'] step_dirs[OF st(3), of d'] lstat_Inr[OF l] by simp
qed

lemma fs_op_Inl: "fs_op d f w = (Inl e, w') \<Longrightarrow> e = ErrIO ''io'' \<or> f (fdir d w) = Inl e"
  unfolding fs_op_def io_bind_def
  by (auto split: prod.splits sum.splits dest!: io_step_cases)

lemma step_Inl: "io_step e w = (Inl e', w') \<Longrightarrow> e' = e"
  by (auto dest: io_step_cases)

lemma read_NotExist:
  assumes "readBoundedRootFile d name mx w = (Inl ErrNotExist, w')"
  shows "map_of (fdir d w) name = None"
proof -
  obtain r w1 where l: "fs_lstat d name w = (r, w1)" by fastforce
  show ?thesis
  proof (cases r)
    case (Inl e)
    then have "e = ErrNotExist" using assms l by (simp add: readBoundedRootFile_def io_bind_def)
    then show ?thesis using l Inl unfolding fs_lstat_def
      by (auto dest!: fs_op_Inl split: option.splits)
  next
    case (Inr en)
    then show ?thesis using assms l unfolding readBoundedRootFile_def
      by (cases en) (auto simp: io_bind_def split: prod.splits sum.splits if_splits dest!: step_Inl)
  qed
qed

lemma temp_name_neq: "temp_name (''.'' @ name @ ''-'') ''.new'' rnd \<noteq> name"
proof
  assume "temp_name (''.'' @ name @ ''-'') ''.new'' rnd = name"
  then have "length (temp_name (''.'' @ name @ ''-'') ''.new'' rnd) = length name" by simp
  then show False by (simp add: temp_name_def)
qed

lemma write_Inr: "fs_write d a data w = (Inr u, w') \<Longrightarrow> map_of (fdir d w') a = Some (Regular data)"
  by (auto simp: fs_write_def split: prod.splits option.splits)

lemma sync_dirs:
  "fs_sync w = (r, w') \<Longrightarrow> fdir d w' = fdir d w" "fs_close w = (r, w') \<Longrightarrow> fdir d w' = fdir d w"
  "syncRootDir w = (r, w') \<Longrightarrow> fdir d w' = fdir d w" "ctx_err w = (r, w') \<Longrightarrow> fdir d w' = fdir d w"
  by (auto simp: fs_sync_def fs_close_def syncRootDir_def ctx_err_def dest: step_dirs)

lemma rename_Inr: "fs_rename d a b w = (Inr u, w') \<Longrightarrow> a \<noteq> b \<Longrightarrow> map_of (fdir d w') b = map_of (fdir d w) a"
  unfolding fs_rename_def by (drule fs_op_Inr) (auto split: option.splits)

text \<open>Write a temporary file, sync, close, rename: on success the data is under the new name.\<close>

lemma write_rename_Inr:
  assumes "io_seq (fs_write d tmp data) (io_seq fs_sync (io_seq fs_close (io_seq (fs_rename d tmp name) syncRootDir))) w = (Inr u, w')"
    and "tmp \<noteq> name"
  shows "map_of (fdir d w') name = Some (Regular data)"
proof -
  obtain u1 u2 u3 u4 w1 w2 w3 w4 where wr: "fs_write d tmp data w = (Inr u1, w1)" and
    s: "fs_sync w1 = (Inr u2, w2)" "fs_close w2 = (Inr u3, w3)" and
    rn: "fs_rename d tmp name w3 = (Inr u4, w4)" and sy: "syncRootDir w4 = (Inr u, w')"
    using assms(1) unfolding io_bind_Inr by blast
  have "map_of (fdir d w3) tmp = Some (Regular data)"
    using write_Inr[OF wr] sync_dirs(1)[OF s(1), of d] sync_dirs(2)[OF s(2), of d] by simp
  then show ?thesis using rename_Inr[OF rn assms(2)] sync_dirs(3)[OF sy, of d] by simp
qed

lemma cleanup_or_close_Inr:
  assumes "(case x of Inl e \<Rightarrow> atomic_cleanup d tmp e | Inr _ \<Rightarrow> io_try fs_close (\<lambda>_. io_ret ())) w = (Inr (), w')"
  shows "x = Inr () \<and> (\<forall>d. fdir d w' = fdir d w)"
proof (cases x)
  case (Inr u)
  then obtain y where "fs_close w = (y, w')" using assms by (auto simp: io_try_iff)
  then show ?thesis using Inr sync_dirs(2) by simp
qed (use assms in \<open>auto simp: atomic_cleanup_def io_try_iff\<close>)

text \<open>A successful atomic write leaves exactly the data under the name.\<close>

lemma atomicWrite_Inr:
  assumes "atomicWriteState d name data w = (Inr u, w')"
  shows "map_of (fdir d w') name = Some (Regular data)"
proof -
  let ?tmp = "temp_name (''.'' @ name @ ''-'') ''.new''"
  obtain rnd w2 x w3 where
    b: "io_seq (fs_write d (?tmp rnd) data) (io_seq fs_sync (io_seq fs_close (io_seq (fs_rename d (?tmp rnd) name) syncRootDir))) w2
      = (x, w3)" and
    k: "(case x of Inl e \<Rightarrow> atomic_cleanup d (?tmp rnd) e | Inr _ \<Rightarrow> io_try fs_close (\<lambda>_. io_ret ())) w3 = (Inr (), w')"
    using assms unfolding atomicWriteState_def Let_def io_bind_Inr io_try_iff by (cases u) blast
  show ?thesis using write_rename_Inr b temp_name_neq cleanup_or_close_Inr[OF k] by metis
qed

section \<open>Trusted time\<close>

definition trustedTimeState :: string where "trustedTimeState = ''.trusted-time.state''"
definition trustedTimeLock :: string where "trustedTimeLock = ''.trusted-time.lock''"
definition trustedTimeBytes :: nat where "trustedTimeBytes = 16"

definition openTrustedTimeLock :: "dir \<Rightarrow> unit io" where
  "openTrustedTimeLock d =
     io_try (fs_lstat d trustedTimeLock) (\<lambda>r. case r of
       Inr (Irregular k) \<Rightarrow> io_err (ErrInvalidInput ''trusted time lock'')
     | Inr (Regular _) \<Rightarrow> io_step (ErrIO ''lock trusted transfer time'')
     | Inl e \<Rightarrow> if e \<noteq> ErrNotExist then io_err e
                else io_seq (fs_create d trustedTimeLock) (io_step (ErrIO ''lock trusted transfer time'')))"

text \<open>The stored floor, the stored key version, and whether it is the old format of eight bytes.\<close>

definition decode_trusted_time :: "bytes \<Rightarrow> u64 \<Rightarrow> ft_error + (i64 \<times> u64 \<times> bool)" where
  "decode_trusted_time data keyVersion =
     (if length data \<noteq> 8 \<and> length data \<noteq> trustedTimeBytes then Inl (ErrInvalidInput ''trusted transfer time'')
      else let encoded = be64 (take 8 data) in
        if 0x7FFFFFFFFFFFFFFF < encoded then Inl (ErrInvalidInput ''trusted transfer time'')
        else if length data = 8 then Inr (encoded, keyVersion, True)
        else let storedVersion = be64 (drop 8 data) in
          if storedVersion = 0 then Inl (ErrInvalidInput ''trusted transfer time'')
          else Inr (encoded, storedVersion, False))"

definition encode_trusted_time :: "i64 \<Rightarrow> u64 \<Rightarrow> bytes" where
  "encode_trusted_time floor' version = be_enc 8 (unat floor') @ be_enc 8 (unat version)"

text \<open>The new floor and version, and whether they have to be written.\<close>

definition advance_time :: "i64 \<times> u64 \<times> bool \<Rightarrow> time \<Rightarrow> u64 \<Rightarrow> ft_error + (i64 \<times> u64 \<times> bool)" where
  "advance_time stored now keyVersion =
     (case stored of (floor', storedVersion, legacy) \<Rightarrow>
      if keyVersion < storedVersion then Inl (ErrAuthentication ''device key version rollback'')
      else
        let changed = (legacy \<or> storedVersion = 0);
            (floor', storedVersion, changed) =
              (if storedVersion < keyVersion \<and> storedVersion \<noteq> 0 then (word_of_int (unix now), keyVersion, True)
               else if sint floor' < unix now then (word_of_int (unix now), storedVersion, True)
               else (floor', storedVersion, changed))
        in Inr (floor', if storedVersion = 0 then keyVersion else storedVersion, changed))"

definition load_trusted_time :: "dir \<Rightarrow> u64 \<Rightarrow> (i64 \<times> u64 \<times> bool) io" where
  "load_trusted_time d keyVersion =
     io_try (readBoundedRootFile d trustedTimeState trustedTimeBytes) (\<lambda>r. case r of
       Inr data \<Rightarrow> io_pure (decode_trusted_time data keyVersion)
     | Inl e \<Rightarrow> if e = ErrNotExist then io_ret (0, 0, False) else io_err e)"

definition trustedTransferTime :: "dir \<Rightarrow> time \<Rightarrow> u64 \<Rightarrow> time io" where
  "trustedTransferTime d now keyVersion =
    (if is_zero_time now \<or> unix now < 0 \<or> keyVersion = 0 then io_err (ErrInvalidInput ''transfer time'') else
     io_seq (io_step (ErrIO ''open transfer state root'')) (
     io_seq (io_step (ErrIO ''secure transfer state root'')) (
     io_seq (openTrustedTimeLock d) (
     io_bind (load_trusted_time d keyVersion) (\<lambda>stored.
     io_bind (io_pure (advance_time stored now keyVersion)) (\<lambda>(floor', version, changed).
     io_seq (if changed then atomicWriteState d trustedTimeState (encode_trusted_time floor' version)
             else io_ret ())
       (io_ret (from_unix (sint floor')))))))))"

lemma decode_encode_trusted_time:
  "0 \<le> sint f \<Longrightarrow> v \<noteq> 0 \<Longrightarrow> decode_trusted_time (encode_trusted_time f v) kv = Inr (f, v, False)"
  using int63_iff[of f] by (simp add: decode_trusted_time_def encode_trusted_time_def trustedTimeBytes_def Let_def not_less)

lemma decode_trusted_time_version:
  "decode_trusted_time data kv = Inr (f, v, False) \<Longrightarrow> decode_trusted_time data kv' = Inr (f, v, False)"
  by (auto simp: decode_trusted_time_def Let_def split: if_splits)

lemma decode_trusted_time_facts:
  assumes "decode_trusted_time data kv = Inr (f, v, legacy)"
  shows "0 \<le> sint f" "kv \<noteq> 0 \<Longrightarrow> v \<noteq> 0" "legacy \<Longrightarrow> v = kv"
  using assms int63_iff[of "be64 (take 8 data)"]
  by (auto simp: decode_trusted_time_def Let_def not_less split: if_splits)

lemma touches_lock [io_frame]: "io_touches d (\<lambda>n. n = trustedTimeLock) (openTrustedTimeLock d)"
proof -
  have "io_touches d (\<lambda>n. n = trustedTimeLock) (case r of Inr (Irregular k) \<Rightarrow> io_err (ErrInvalidInput ''trusted time lock'')
     | Inr (Regular _) \<Rightarrow> io_step (ErrIO ''lock trusted transfer time'')
     | Inl e \<Rightarrow> if e \<noteq> ErrNotExist then io_err e
                else io_seq (fs_create d trustedTimeLock) (io_step (ErrIO ''lock trusted transfer time'')))" for r
    by (auto split: sum.splits entry.splits intro!: io_frame touches_bind)
  then show ?thesis unfolding openTrustedTimeLock_def by (rule touches_try[OF touches_ops(1)])
qed

text \<open>What the state file says, for a device of a given key version.\<close>

definition stored_time :: "files \<Rightarrow> u64 \<Rightarrow> (i64 \<times> u64) option" where
  "stored_time fs kv = (case map_of fs trustedTimeState of
     Some (Regular data) \<Rightarrow> (case decode_trusted_time data kv of Inr (f, v, _) \<Rightarrow> Some (f, v) | Inl _ \<Rightarrow> None)
   | _ \<Rightarrow> None)"

lemma load_trusted_time_Inr:
  assumes "load_trusted_time d kv w = (Inr (f, v, lg), w')" "kv \<noteq> 0"
  shows "map_of (fdir d w') trustedTimeState = map_of (fdir d w) trustedTimeState"
    "0 \<le> sint f" "stored_time (fdir d w) kv = (if v = 0 then None else Some (f, v))"
    "lg \<Longrightarrow> v = kv" "v = 0 \<Longrightarrow> f = 0"
    "\<not> lg \<Longrightarrow> v \<noteq> 0 \<Longrightarrow> stored_time (fdir d w) kv' = Some (f, v)"
proof -
  obtain r w1 where rd: "readBoundedRootFile d trustedTimeState trustedTimeBytes w = (r, w1)"
    and k: "(case r of Inr data \<Rightarrow> io_pure (decode_trusted_time data kv)
     | Inl e \<Rightarrow> if e = ErrNotExist then io_ret (0, 0, False) else io_err e) w1 = (Inr (f, v, lg), w')"
    using assms(1) unfolding load_trusted_time_def io_try_iff by blast
  have ww: "w' = w1" using k by (cases r) (auto split: if_splits)
  show "map_of (fdir d w') trustedTimeState = map_of (fdir d w) trustedTimeState"
    using io_touchesD(1)[OF touches_read[of d "\<lambda>_. False"] rd] ww by simp
  have "0 \<le> sint f \<and> stored_time (fdir d w) kv = (if v = 0 then None else Some (f, v)) \<and> (lg \<longrightarrow> v = kv) \<and> (v = 0 \<longrightarrow> f = 0) \<and>
      (\<not> lg \<longrightarrow> v \<noteq> 0 \<longrightarrow> stored_time (fdir d w) kv' = Some (f, v))"
  proof (cases r)
    case (Inl e)
    then have e: "e = ErrNotExist" "f = 0" "v = 0" "\<not> lg" using k by (auto split: if_splits)
    then have "map_of (fdir d w) trustedTimeState = None" using read_NotExist rd Inl by simp
    then show ?thesis using e by (simp add: stored_time_def)
  next
    case (Inr data)
    then have d: "decode_trusted_time data kv = Inr (f, v, lg)" using k by auto
    have "map_of (fdir d w) trustedTimeState = Some (Regular data)" using read_Inr(1) rd Inr by simp
    then show ?thesis using decode_trusted_time_facts[OF d] d assms(2) decode_trusted_time_version[of data kv f v kv']
      by (auto simp: stored_time_def)
  qed
  then show "0 \<le> sint f" "stored_time (fdir d w) kv = (if v = 0 then None else Some (f, v))" "lg \<Longrightarrow> v = kv" "v = 0 \<Longrightarrow> f = 0"
    "\<not> lg \<Longrightarrow> v \<noteq> 0 \<Longrightarrow> stored_time (fdir d w) kv' = Some (f, v)"
    by blast+
qed

lemma advance_time_Inr:
  assumes a: "advance_time (f0, v0, lg) now kv = Inr (f, v, changed)"
    and f0: "0 \<le> sint f0" and now: "0 \<le> unix now" "unix now < 2 ^ 63" and kv: "kv \<noteq> 0"
  shows "unix now \<le> sint f" "v = kv" "v0 \<le> kv" "v0 = kv \<Longrightarrow> sint f0 \<le> sint f"
    "\<not> changed \<Longrightarrow> f = f0 \<and> v0 = kv \<and> \<not> lg"
proof -
  have nw: "sint (word_of_int (unix now) :: i64) = unix now"
    using now by (simp add: signed_of_int signed_take_bit_int_eq_self)
  show "unix now \<le> sint f" "v = kv" "v0 \<le> kv" "v0 = kv \<Longrightarrow> sint f0 \<le> sint f" "\<not> changed \<Longrightarrow> f = f0 \<and> v0 = kv \<and> \<not> lg"
    using a nw kv by (auto simp: advance_time_def Let_def not_less split: if_splits)
qed

lemma trusted_time_step:
  assumes t: "trustedTransferTime d now kv w = (Inr t, w')" and n63: "unix now < 2 ^ 63"
  shows "\<exists>f. t = from_unix (sint f) \<and> unix now \<le> sint f \<and> (\<forall>kv'. stored_time (fdir d w') kv' = Some (f, kv)) \<and>
    (\<forall>f0 v0. stored_time (fdir d w) kv = Some (f0, v0) \<longrightarrow> v0 \<le> kv \<and> (v0 = kv \<longrightarrow> sint f0 \<le> sint f))"
proof -
  have g: "\<not> (is_zero_time now \<or> unix now < 0 \<or> kv = 0)" using t by (auto simp: trustedTransferTime_def split: if_splits)
  then have now: "0 \<le> unix now" "kv \<noteq> 0" by auto
  obtain u1 w1 u2 w2 u3 w3 f0 v0 lg w4 f v ch w5 u5 where
    st: "io_step (ErrIO ''open transfer state root'') w = (Inr u1, w1)"
    "io_step (ErrIO ''secure transfer state root'') w1 = (Inr u2, w2)" "openTrustedTimeLock d w2 = (Inr u3, w3)"
    and ld: "load_trusted_time d kv w3 = (Inr (f0, v0, lg), w4)"
    and ad: "advance_time (f0, v0, lg) now kv = Inr (f, v, ch)"
    and wr: "(if ch then atomicWriteState d trustedTimeState (encode_trusted_time f v) else io_ret ()) w4 = (Inr u5, w')"
    and tt: "t = from_unix (sint f)"
    using t unfolding trustedTransferTime_def if_not_P[OF g] io_bind_Inr io_pure_iff io_ret_iff
    by (auto simp: io_bind_Inr)
  have same: "map_of (fdir d w3) trustedTimeState = map_of (fdir d w) trustedTimeState"
    using io_touchesD(1)[OF touches_lock st(3), of trustedTimeState] step_dirs[OF st(1), of d] step_dirs[OF st(2), of d]
    by (simp add: trustedTimeState_def trustedTimeLock_def)
  note L = load_trusted_time_Inr[OF ld now(2)]
  note A = advance_time_Inr[OF ad L(2) now(1) n63 now(2)]
  have old: "stored_time (fdir d w) kv = (if v0 = 0 then None else Some (f0, v0))"
    using L(3) same by (simp add: stored_time_def)
  have "stored_time (fdir d w') kv' = Some (f, kv)" for kv'
  proof (cases ch)
    case True
    then have "map_of (fdir d w') trustedTimeState = Some (Regular (encode_trusted_time f v))"
      using wr atomicWrite_Inr by simp
    then show ?thesis using A(1,2) now decode_encode_trusted_time[of f v kv'] by (simp add: stored_time_def)
  next
    case False
    then have "w' = w4" "f = f0" "v0 = kv" "\<not> lg" using wr A(5) by auto
    then show ?thesis using L(1) L(6)[of kv'] now(2) by (simp add: stored_time_def)
  qed
  then show ?thesis using tt A old by (auto split: if_splits)
qed


definition sample_world :: fsw where
  "sample_world = \<lparr> fw_state = [], fw_dest = [], fw_children = [], fw_leases = [], fw_faults = [], fw_random = [zeros 12, be_enc 12 1],
     fw_manager = sample_manager \<rparr>"

definition sample_time1 :: "(ft_error + time) \<times> fsw" where
  "sample_time1 = trustedTransferTime StateDir (from_unix 1000) 3 sample_world"

definition sample_time2 :: "(ft_error + time) \<times> fsw" where
  "sample_time2 = trustedTransferTime StateDir (from_unix 400) 3 (snd sample_time1)"

lemma sample_times: "fst sample_time1 = Inr (from_unix 1000)" "fst sample_time2 = Inr (from_unix 1000)"
  by code_simp+


section \<open>The expiry record\<close>

definition encodeExpiry :: "i64 \<Rightarrow> bytes" where "encodeExpiry expires = be_enc 8 (unat expires)"

definition readExpiry :: "dir \<Rightarrow> bytes io" where
  "readExpiry d =
     io_bind (fs_lstat d ''expires.at'') (\<lambda>before. case before of
       (Irregular _) \<Rightarrow> io_err (ErrInvalidInput ''transfer expiry'')
     | Regular data \<Rightarrow>
         if length data \<noteq> 8 then io_err (ErrInvalidInput ''transfer expiry'') else
         io_seq (io_step (ErrIO ''open'')) (
         io_seq (io_step (ErrInvalidInput ''transfer expiry changed while opening'')) (
         io_seq (io_step (ErrIO ''read'')) (io_ret data))))"

definition persistExpiry :: "dir \<Rightarrow> i64 \<Rightarrow> unit io" where
  "persistExpiry d expires =
     (let encoded = encodeExpiry expires in
      io_try (fs_lstat d ''expires.at'') (\<lambda>r. case r of
        Inr _ \<Rightarrow> io_try (readExpiry d) (\<lambda>g.
          if g \<noteq> Inr encoded then io_err (ErrAuthentication ''conflicting transfer expiry'') else io_ret ())
      | Inl e \<Rightarrow> if e \<noteq> ErrNotExist then io_err e else atomicWriteState d ''expires.at'' encoded))"

definition transferExpired :: "dir \<Rightarrow> time \<Rightarrow> bool io" where
  "transferExpired d now =
     io_bind (readExpiry d) (\<lambda>encoded.
       let expiry = be64 encoded in
       if unix now < 0 then io_ret False else io_ret (expiry \<le> word_of_int (unix now)))"

section \<open>The entries of a transfer directory\<close>

definition isLowerHex :: "string \<Rightarrow> bool" where
  "isLowerHex value' \<longleftrightarrow> value' \<noteq> [] \<and> list_all is_lower_hex_char value'"

definition exactStateTemporary :: "string \<Rightarrow> string \<Rightarrow> string \<Rightarrow> bool" where
  "exactStateTemporary name prefix suffix =
     (if length name \<noteq> length prefix + 24 + length suffix \<or> take (length prefix) name \<noteq> prefix \<or>
         drop (length name - length suffix) name \<noteq> suffix then False
      else isLowerHex (take 24 (drop (length prefix) name)))"

text \<open>Whether the entry may be removed, and whether it is known at all.\<close>

definition transferStateEntry :: "string \<Rightarrow> bool \<times> bool" where
  "transferStateEntry name =
     (if name = ''transfer.lock'' then (False, True)
      else if List.member [''content.part'', ''resume.state'', ''expires.at'', ''reservation.state'',
        ''consumed.pending'', ''consumed.state''] name then (True, True)
      else if exactStateTemporary name ''resume-'' ''.new'' \<or> exactStateTemporary name ''.expires.at-'' ''.new'' \<or>
        exactStateTemporary name ''.reservation.state-'' ''.new'' \<or>
        exactStateTemporary name ''.consumed.pending-'' ''.new'' then (True, True)
      else (False, False))"

definition validTransferID :: "string \<Rightarrow> bool" where
  "validTransferID name \<longleftrightarrow> length name = 32 \<and> isLowerHex name"

datatype crashResidualKind = residualUnknown | residualStaging | residualGC | residualCancel

definition quarantine_name :: "string \<Rightarrow> string \<Rightarrow> bool" where
  "quarantine_name prefix name \<longleftrightarrow> length name = length prefix + 32 + 1 + 16 \<and> take (length prefix) name = prefix \<and>
     name ! (length prefix + 32) = CHR ''-'' \<and> isLowerHex (take 32 (drop (length prefix) name)) \<and>
     isLowerHex (drop (length name - 16) name)"

definition residualKind :: "string \<Rightarrow> crashResidualKind" where
  "residualKind name =
     (if length name = length ''.transfer-'' + 24 + length ''.new'' \<and>
         take (length ''.transfer-'') name = ''.transfer-'' \<and> drop (length name - length ''.new'') name = ''.new'' \<and>
         isLowerHex (take (length name - length ''.new'' - length ''.transfer-'') (drop (length ''.transfer-'') name))
      then residualStaging
      else if quarantine_name ''.gc-'' name then residualGC
      else if quarantine_name ''.cancel-'' name then residualCancel
      else residualUnknown)"

section \<open>Removing the content\<close>

text \<open>The first pass over the entries: the names to remove, or an error.\<close>

fun removable :: "dir \<Rightarrow> string list \<Rightarrow> string list io" where
  "removable d [] = io_ret []"
| "removable d (name # rest) =
     io_try (fs_lstat d name) (\<lambda>r. case r of
       Inl e \<Rightarrow> if e = ErrNotExist then removable d rest else io_err e
     | Inr (Irregular k) \<Rightarrow> io_err (ErrInvalidInput ''transfer state cleanup entry is not a regular file'')
     | Inr (Regular _) \<Rightarrow>
         (case transferStateEntry name of (remove, known) \<Rightarrow>
            if \<not> known then io_err (ErrInvalidInput ''unknown transfer state entry'') else
            io_bind (removable d rest) (\<lambda>ns. io_ret (if remove then name # ns else ns))))"

fun remove_all :: "dir \<Rightarrow> string list \<Rightarrow> unit io" where
  "remove_all d [] = io_ret ()"
| "remove_all d (name # rest) =
     io_try (fs_remove d name) (\<lambda>r. case r of
       Inl e \<Rightarrow> if e \<noteq> ErrNotExist then io_err e else remove_all d rest
     | Inr _ \<Rightarrow> remove_all d rest)"

definition removeStateContent :: "dir \<Rightarrow> unit io" where
  "removeStateContent d =
     io_bind (fs_readdir d 33) (\<lambda>entries.
       if 32 < length entries then io_err (ErrLimitExceeded ''too many transfer state entries'') else
       io_bind (removable d entries) (\<lambda>ns. remove_all d ns))"

fun residual_entries :: "dir \<Rightarrow> crashResidualKind \<Rightarrow> string list \<Rightarrow> unit io" where
  "residual_entries d kind [] = io_ret ()"
| "residual_entries d kind (name # rest) =
     io_bind (fs_lstat d name) (\<lambda>en.
       if is_irregular en then io_err (ErrInvalidInput ''residual contains non-regular entry'')
       else case transferStateEntry name of (remove, known) \<Rightarrow>
         if kind = residualStaging then
           if \<not> known \<or> (\<not> remove \<and> name \<noteq> ''transfer.lock'') \<or>
              List.member [''content.part'', ''resume.state'', ''consumed.pending'', ''consumed.state''] name
           then io_err (ErrInvalidInput ''unknown staging content'') else residual_entries d kind rest
         else if \<not> known then io_err (ErrInvalidInput ''unknown quarantine content'')
         else residual_entries d kind rest)"

definition validateResidualContent :: "dir \<Rightarrow> crashResidualKind \<Rightarrow> unit io" where
  "validateResidualContent d kind =
     io_bind (fs_readdir d 33) (\<lambda>entries.
       if 32 < length entries then io_err (ErrLimitExceeded ''too many residual entries'')
       else residual_entries d kind entries)"

lemma lstat_Inl: "fs_lstat d name w = (Inl e, w') \<Longrightarrow> e = ErrIO ''io'' \<or> e = ErrNotExist \<and> map_of (fdir d w) name = None"
  unfolding fs_lstat_def by (drule fs_op_Inl) (auto split: option.splits)

lemma removable_dirs: "removable d names w = (r, w') \<Longrightarrow> fdir d' w' = fdir d' w"
proof (induction names arbitrary: w r w')
  case (Cons name rest)
  obtain x w1 where l: "fs_lstat d name w = (x, w1)" by fastforce
  have 1: "fdir d' w1 = fdir d' w" using lstat_dirs[OF l] .
  obtain r2 w2 where rc: "removable d rest w1 = (r2, w2)" by fastforce
  have 2: "fdir d' w2 = fdir d' w" using Cons.IH[OF rc] 1 by simp
  show ?case using Cons.prems l rc 1 2
    by (auto simp: io_try_def io_bind_def split: sum.splits entry.splits prod.splits if_splits)
qed simp

lemma removable_ok:
  assumes "removable d names w = (Inr ns, w')"
  shows "\<forall>n \<in> set names. map_of (fdir d w) n = None \<or>
      (\<exists>c. map_of (fdir d w) n = Some (Regular c) \<and> snd (transferStateEntry n) \<and> (fst (transferStateEntry n) \<longrightarrow> n \<in> set ns))"
    "\<forall>n \<in> set ns. fst (transferStateEntry n) \<and> n \<in> set names"
proof -
  have "(\<forall>n \<in> set names. map_of (fdir d w) n = None \<or>
      (\<exists>c. map_of (fdir d w) n = Some (Regular c) \<and> snd (transferStateEntry n) \<and> (fst (transferStateEntry n) \<longrightarrow> n \<in> set ns))) \<and>
      (\<forall>n \<in> set ns. fst (transferStateEntry n) \<and> n \<in> set names)"
    using assms
  proof (induction names arbitrary: w ns w')
    case (Cons name rest)
    obtain x w1 where l: "fs_lstat d name w = (x, w1)" by fastforce
    have 1: "fdir d w1 = fdir d w" using lstat_dirs[OF l] .
    show ?case
    proof (cases x)
      case (Inl e)
      then have "e = ErrNotExist" "removable d rest w1 = (Inr ns, w')"
        using Cons.prems l by (auto simp: io_try_def split: if_splits)
      then show ?thesis using Cons.IH[of w1 ns w'] lstat_Inl[of d name w e w1] l Inl 1 by auto
    next
      case (Inr en)
      then obtain c ms where "en = Regular c" "snd (transferStateEntry name)" "removable d rest w1 = (Inr ms, w')"
        "ns = (if fst (transferStateEntry name) then name # ms else ms)"
        using Cons.prems l by (auto simp: io_try_def io_bind_Inr split: entry.splits prod.splits if_splits)
      then show ?thesis using Cons.IH[of w1 ms w'] lstat_Inr[of d name w en w1] l Inr 1 by (auto split: if_splits)
    qed
  qed simp
  then show "\<forall>n \<in> set names. map_of (fdir d w) n = None \<or>
      (\<exists>c. map_of (fdir d w) n = Some (Regular c) \<and> snd (transferStateEntry n) \<and> (fst (transferStateEntry n) \<longrightarrow> n \<in> set ns))"
    "\<forall>n \<in> set ns. fst (transferStateEntry n) \<and> n \<in> set names" by blast+
qed

lemma remove_Inl: "fs_remove d name w = (Inl e, w') \<Longrightarrow> (e = ErrNotExist \<longrightarrow> map_of (fdir d w) name = None) \<and> fdir d' w' = fdir d' w"
proof -
  assume r: "fs_remove d name w = (Inl e, w')"
  have "e = ErrIO ''io'' \<or> map_of (fdir d w) name = None"
    using r unfolding fs_remove_def by (drule_tac fs_op_Inl) (auto split: option.splits)
  moreover have "fdir d' w' = fdir d' w"
    using r unfolding fs_remove_def fs_op_def io_bind_def
    by (auto split: prod.splits sum.splits option.splits dest!: io_step_cases)
  ultimately show ?thesis by auto
qed

lemma remove_Inr: "fs_remove d name w = (Inr u, w') \<Longrightarrow> fdir d w' = AList.delete name (fdir d w)"
  unfolding fs_remove_def by (drule fs_op_Inr) (auto split: option.splits)

lemma remove_all_ok:
  "remove_all d names w = (Inr u, w') \<Longrightarrow>
   map_of (fdir d w') n = (if n \<in> set names then None else map_of (fdir d w) n)"
proof (induction names arbitrary: w)
  case (Cons name rest)
  obtain x w1 where r: "fs_remove d name w = (x, w1)" by fastforce
  show ?case
  proof (cases x)
    case (Inl e)
    then have "e = ErrNotExist" "remove_all d rest w1 = (Inr u, w')" using Cons.prems r by (auto simp: io_try_def split: if_splits)
    then show ?thesis using Cons.IH[of w1] remove_Inl[of d name w e w1 d] r Inl by auto
  next
    case (Inr v)
    then show ?thesis using Cons.IH[of w1] remove_Inr[of d name w v w1] r Cons.prems by (auto simp: io_try_def)
  qed
qed simp

lemma readdir_Inr: "fs_readdir d n w = (Inr xs, w') \<Longrightarrow> xs = take n (map fst (fdir d w)) \<and> fdir d' w' = fdir d' w"
  unfolding fs_readdir_def by (drule fs_op_Inr) (auto split: if_splits)

lemma readdir_Inl: "fs_readdir d n w = (Inl e, w') \<Longrightarrow> fdir d' w' = fdir d' w"
  unfolding fs_readdir_def fs_op_def io_bind_def
  by (auto split: prod.splits sum.splits dest!: io_step_cases)

lemma removable_entry_names: "transferStateEntry n = (False, True) \<Longrightarrow> n = ''transfer.lock''"
  by (auto simp: transferStateEntry_def split: if_splits)

text \<open>
  Cleaning up never destroys what it does not understand. Whatever I/O fails, \<open>removeStateContent\<close>
  on a directory that holds a non-regular entry, an entry of an unknown name, or more than 32
  entries, returns an error and leaves every entry in place; and when it succeeds, nothing but the
  lease file is left.
\<close>

theorem removeStateContent_all_or_nothing:
  assumes "removeStateContent d w = (r, w')"
  shows "((\<exists>(n, e) \<in> set (fdir d w). (\<exists>k. map_of (fdir d w) n = Some (Irregular k)) \<or> \<not> snd (transferStateEntry n)) \<or>
      32 < length (fdir d w) \<longrightarrow> (\<exists>e. r = Inl e) \<and> fdir d w' = fdir d w) \<and>
    (r = Inr () \<longrightarrow> (\<forall>n. map_of (fdir d w') n \<noteq> None \<longrightarrow> n = ''transfer.lock''))"
proof -
  obtain x w1 where rd: "fs_readdir d 33 w = (x, w1)" by fastforce
  show ?thesis
  proof (cases x)
    case (Inl e)
    then show ?thesis using assms rd readdir_Inl[of d 33 w e w1 d] by (auto simp: removeStateContent_def io_bind_def)
  next
    case (Inr entries)
    note R = readdir_Inr[OF rd[unfolded Inr], of d]
    show ?thesis
    proof (cases "32 < length entries")
      case True
      then show ?thesis using assms rd Inr R by (auto simp: removeStateContent_def io_bind_def)
    next
      case False
      then have small: "length (fdir d w) \<le> 32" and names: "entries = map fst (fdir d w)" using R by auto
      obtain y w2 where rm: "removable d entries w1 = (y, w2)" by fastforce
      have d2: "fdir d w2 = fdir d w" using removable_dirs[OF rm, of d] R by simp
      show ?thesis
      proof (cases y)
        case (Inl e)
        then show ?thesis using assms rd Inr False rm d2 small by (auto simp: removeStateContent_def io_bind_def)
      next
        case y: (Inr ns)
        have ra: "remove_all d ns w2 = (r, w')"
          using assms rd Inr False rm y by (simp add: removeStateContent_def io_bind_def)
        note P = removable_ok[OF rm[unfolded y]]
        have good: "\<not> ((\<exists>k. map_of (fdir d w) n = Some (Irregular k)) \<or> \<not> snd (transferStateEntry n))"
          if "(n, e) \<in> set (fdir d w)" for n e
        proof -
          have n: "n \<in> set entries" using that names by force
          then have "map_of (fdir d w) n \<noteq> None" using names by (simp add: map_of_eq_None_iff)
          then show ?thesis using P(1) n R by auto
        qed
        have "n = ''transfer.lock''" if "r = Inr ()" "map_of (fdir d w') n \<noteq> None" for n
        proof -
          have "n \<notin> set ns" "map_of (fdir d w) n \<noteq> None"
            using remove_all_ok[OF ra[unfolded that(1)], of n] that(2) d2 by (auto split: if_splits)
          moreover from this have "n \<in> set entries" using names by (auto simp: map_of_eq_None_iff)
          ultimately have "snd (transferStateEntry n)" "\<not> fst (transferStateEntry n)" using P(1) R by auto
          then show ?thesis by (intro removable_entry_names) (simp add: prod_eq_iff)
        qed
        moreover have "\<not> ((\<exists>(n, e) \<in> set (fdir d w). (\<exists>k. map_of (fdir d w) n = Some (Irregular k)) \<or> \<not> snd (transferStateEntry n)) \<or>
            32 < length (fdir d w))"
          using good small by (simp add: not_less Ball_def split_paired_all)
        ultimately show ?thesis by blast
      qed
    qed
  qed
qed

lemma removeStateContent_all_or_nothing_witness:
  "fw_state (snd (removeStateContent StateDir (sample_world\<lparr>fw_state :=
     [(''content.part'', Regular []), (''notes.txt'', Regular [])]\<rparr>))) =
   [(''content.part'', Regular []), (''notes.txt'', Regular [])]"
proof -
  have "\<not> snd (transferStateEntry ''notes.txt'')" by code_simp
  then show ?thesis
    using removeStateContent_all_or_nothing[of StateDir "sample_world\<lparr>fw_state :=
     [(''content.part'', Regular []), (''notes.txt'', Regular [])]\<rparr>", OF prod.collapse[symmetric]] by auto
qed

end
