(* ===== verification/Crypto.thy ===== *)
theory Crypto
  imports Prelude
begin

text \<open>
  The cryptographic primitives of the Go standard library the repository calls, as parameters:
  the modelled definitions take a \<open>crypto\<close> record and use its functions where the source calls
  \<open>crypto/sha256\<close>, \<open>crypto/hmac\<close>, \<open>crypto/hkdf\<close>, \<open>crypto/ed25519\<close>, \<open>crypto/ecdh\<close> and
  \<open>crypto/cipher\<close>. What theorems rely on is stated as named predicates: output sizes, that a
  signature made with a private key verifies, that both ends of a key agreement compute the
  same secret, that opening a sealed message gives it back. Nothing is assumed about what an
  attacker cannot compute. \<open>sample_crypto\<close> shows that the predicates can hold together.
\<close>

record crypto =
  sha256 :: "bytes \<Rightarrow> bytes"
  hmac_sha256 :: "bytes \<Rightarrow> bytes \<Rightarrow> bytes"
  hkdf_sha256 :: "bytes \<Rightarrow> bytes \<Rightarrow> bytes \<Rightarrow> nat \<Rightarrow> bytes option"
  ed_public :: "bytes \<Rightarrow> bytes"
  ed_sign :: "bytes \<Rightarrow> bytes \<Rightarrow> bytes"
  ed_verify :: "bytes \<Rightarrow> bytes \<Rightarrow> bytes \<Rightarrow> bool"
  x_public :: "bytes \<Rightarrow> bytes option"
  x_valid_public :: "bytes \<Rightarrow> bool"
  x_ecdh :: "bytes \<Rightarrow> bytes \<Rightarrow> bytes option"
  gcm_seal :: "bytes \<Rightarrow> bytes \<Rightarrow> bytes \<Rightarrow> bytes \<Rightarrow> bytes"
  gcm_open :: "bytes \<Rightarrow> bytes \<Rightarrow> bytes \<Rightarrow> bytes \<Rightarrow> bytes option"

text \<open>\<open>aes.NewCipher\<close> accepts these key lengths.\<close>

definition aes_key_ok :: "bytes \<Rightarrow> bool" where
  "aes_key_ok k \<longleftrightarrow> length k = 16 \<or> length k = 24 \<or> length k = 32"

definition hash_sizes :: "crypto \<Rightarrow> bool" where
  "hash_sizes C \<longleftrightarrow> (\<forall>b. length (sha256 C b) = 32) \<and> (\<forall>k b. length (hmac_sha256 C k b) = 32)"

definition hkdf_works :: "crypto \<Rightarrow> bool" where
  "hkdf_works C \<longleftrightarrow>
     (\<forall>k salt info n. n \<le> 8160 \<longrightarrow> (\<exists>out. hkdf_sha256 C k salt info n = Some out \<and> length out = n))"

definition signing_works :: "crypto \<Rightarrow> bool" where
  "signing_works C \<longleftrightarrow>
     (\<forall>k m. length k = 64 \<longrightarrow>
        length (ed_sign C k m) = 64 \<and> length (ed_public C k) = 32 \<and>
        ed_verify C (ed_public C k) m (ed_sign C k m))"

definition agreement_works :: "crypto \<Rightarrow> bool" where
  "agreement_works C \<longleftrightarrow>
     (\<forall>a b A B. x_public C a = Some A \<longrightarrow> x_public C b = Some B \<longrightarrow>
        length A = 32 \<and> x_valid_public C A \<and> x_ecdh C a B = x_ecdh C b A)"

definition aead_works :: "crypto \<Rightarrow> bool" where
  "aead_works C \<longleftrightarrow>
     (\<forall>k n p a. length (gcm_seal C k n p a) = length p + 16 \<and>
        gcm_open C k n (gcm_seal C k n p a) a = Some p)"

text \<open>A ciphertext that opens is 16 bytes longer than its plaintext.\<close>

definition aead_sizes :: "crypto \<Rightarrow> bool" where
  "aead_sizes C \<longleftrightarrow> (\<forall>k n c a p. gcm_open C k n c a = Some p \<longrightarrow> length c = length p + 16)"

definition crypto_works :: "crypto \<Rightarrow> bool" where
  "crypto_works C \<longleftrightarrow> hash_sizes C \<and> hkdf_works C \<and> signing_works C \<and> agreement_works C \<and> aead_works C"

lemma hash_sizesD:
  "hash_sizes C \<Longrightarrow> length (sha256 C b) = 32" "hash_sizes C \<Longrightarrow> length (hmac_sha256 C k b) = 32"
  by (simp_all add: hash_sizes_def)

lemma crypto_worksD:
  "crypto_works C \<Longrightarrow> hash_sizes C" "crypto_works C \<Longrightarrow> hkdf_works C"
  "crypto_works C \<Longrightarrow> signing_works C" "crypto_works C \<Longrightarrow> agreement_works C" "crypto_works C \<Longrightarrow> aead_works C"
  by (simp_all add: crypto_works_def)

section \<open>An instance for the witnesses\<close>

text \<open>A fixed-size digest that pads and cuts; it has the sizes of the real one and nothing else.\<close>

definition pad_to :: "nat \<Rightarrow> bytes \<Rightarrow> bytes" where
  "pad_to n b = take n (b @ zeros n)"

lemma length_pad_to [simp]: "length (pad_to n b) = n"
  by (simp add: pad_to_def)

definition sample_crypto :: crypto where
  "sample_crypto =
    \<lparr> sha256 = pad_to 32,
      hmac_sha256 = (\<lambda>k m. pad_to 32 (k @ m)),
      hkdf_sha256 = (\<lambda>k salt info n. if n \<le> 8160 then Some (pad_to n (k @ salt)) else None),
      ed_public = (\<lambda>k. drop 32 k),
      ed_sign = (\<lambda>k m. pad_to 64 (drop 32 k @ m)),
      ed_verify = (\<lambda>p m s. s = pad_to 64 (p @ m)),
      x_public = (\<lambda>k. if length k = 32 then Some k else None),
      x_valid_public = (\<lambda>p. length p = 32),
      x_ecdh = (\<lambda>k p. Some (map2 (+) k p)),
      gcm_seal = (\<lambda>k n p a. p @ pad_to 16 (n @ a)),
      gcm_open = (\<lambda>k n c a. if 16 \<le> length c \<and> drop (length c - 16) c = pad_to 16 (n @ a)
         then Some (take (length c - 16) c) else None) \<rparr>"

lemma sample_crypto_sel:
  "sha256 sample_crypto = pad_to 32" "hmac_sha256 sample_crypto k m = pad_to 32 (k @ m)"
  "ed_public sample_crypto k = drop 32 k" "ed_sign sample_crypto k m = pad_to 64 (drop 32 k @ m)"
  "ed_verify sample_crypto p m s \<longleftrightarrow> s = pad_to 64 (p @ m)"
  "x_public sample_crypto k = (if length k = 32 then Some k else None)"
  "x_valid_public sample_crypto p \<longleftrightarrow> length p = 32"
  by (simp_all add: sample_crypto_def)

lemma map2_plus_commute: "map2 (+) (a :: bytes) b = map2 (+) b a"
  by (induction a b rule: list_induct2') (auto simp: add.commute)

lemma sample_crypto_works: "crypto_works sample_crypto"
  unfolding crypto_works_def
  by (auto simp: sample_crypto_def hash_sizes_def hkdf_works_def signing_works_def
      agreement_works_def aead_works_def map2_plus_commute split: if_splits)

lemma sample_aead_sizes: "aead_sizes sample_crypto"
  by (auto simp: aead_sizes_def sample_crypto_def split: if_splits)

end
