(* ===== verification/FT_Resume.thy ===== *)
theory FT_Resume
  imports FT_Encoding Crypto
begin

text \<open>
  File transfer, \<open>internal/filetransfer/resume.go\<close>: the resume token, its two byte formats, its
  authentication code, and the bitmap of completed chunks.
\<close>

section \<open>Bitmaps\<close>

definition bitmapLen :: "u32 \<Rightarrow> nat" where
  "bitmapLen count = unat ((ucast count + 7 :: u64) div 8)"

text \<open>
  Go indexes the slice with \<open>i/8\<close> and panics beyond its end; every caller holds a bitmap of
  \<open>bitmapLen count\<close> bytes and an index below \<open>count\<close>, for which \<open>bitmap_index\<close> shows the access in range.
\<close>

definition bitSet :: "bytes \<Rightarrow> u32 \<Rightarrow> bool" where
  "bitSet bits i \<longleftrightarrow> and (bits ! unat (i div 8)) (push_bit (unat (i mod 8)) 1) \<noteq> 0"

definition setBit :: "bytes \<Rightarrow> u32 \<Rightarrow> bytes" where
  "setBit bits i =
     bits[unat (i div 8) := or (bits ! unat (i div 8)) (push_bit (unat (i mod 8)) 1)]"

definition clearBit :: "bytes \<Rightarrow> u32 \<Rightarrow> bytes" where
  "clearBit bits i =
     bits[unat (i div 8) := and (bits ! unat (i div 8)) (not (push_bit (unat (i mod 8)) 1))]"

lemma bitmapLen_eq: "bitmapLen count = (unat count + 7) div 8"
proof -
  have "unat (ucast count + 7 :: u64) = unat count + 7"
    using unat_u32_less[of count] by (subst unat_add_lem[THEN iffD1]) auto
  then show ?thesis by (simp add: bitmapLen_def unat_div)
qed

lemma bitmap_index: "i < count \<Longrightarrow> unat (i div 8) < bitmapLen count"
  by (simp add: bitmapLen_eq unat_div word_less_nat_alt)

lemma bit_mask8: "bit (2 ^ n :: u8) k \<longleftrightarrow> k = n \<and> n < 8"
  by (auto simp: bit_exp_iff)

lemma bitSet_iff: "bitSet bits i \<longleftrightarrow> bit (bits ! (unat i div 8)) (unat i mod 8)"
proof -
  have "and w (push_bit n 1) \<noteq> 0 \<longleftrightarrow> bit w n" if "n < 8" for w :: u8 and n
    using that by (subst bit_eq_iff) (auto simp: bit_and_iff bit_mask8)
  then show ?thesis by (simp add: bitSet_def unat_div unat_mod)
qed

lemma length_setBit [simp]: "length (setBit bits i) = length bits" "length (clearBit bits i) = length bits"
  by (simp_all add: setBit_def clearBit_def)

lemma byte_index_eq:
  "unat i div 8 = unat j div 8 \<Longrightarrow> unat i mod 8 = unat j mod 8 \<Longrightarrow> (i :: u32) = j"
  by (metis div_mult_mod_eq unsigned_word_eqI[where ?'a = nat])

lemma bitSet_setBit:
  assumes "unat (i div 8) < length bits"
  shows "bitSet (setBit bits i) j \<longleftrightarrow> j = i \<or> bitSet bits j"
proof -
  have "bit (or w (push_bit n 1)) k \<longleftrightarrow> k = n \<or> bit w k" if "n < 8" for w :: u8 and n k
    using that by (auto simp: bit_or_iff bit_mask8)
  then show ?thesis using assms byte_index_eq[of j i]
    by (auto simp: bitSet_iff setBit_def unat_div unat_mod nth_list_update)
qed

lemma bitSet_clearBit:
  assumes "unat (i div 8) < length bits"
  shows "bitSet (clearBit bits i) j \<longleftrightarrow> j \<noteq> i \<and> bitSet bits j"
proof -
  have "bit (and w (not (push_bit n 1))) k \<longleftrightarrow> k \<noteq> n \<and> bit w k" if "k < 8" for w :: u8 and n k
    using that by (auto simp: bit_and_iff bit_not_iff bit_mask8)
  then show ?thesis using assms byte_index_eq[of j i]
    by (auto simp: bitSet_iff clearBit_def unat_div unat_mod nth_list_update)
qed

lemma bitSet_zeros: "i < count \<Longrightarrow> \<not> bitSet (zeros (bitmapLen count)) i"
  using bitmap_index[of i count] by (simp add: bitSet_iff zeros_def unat_div)

section \<open>Resume tokens\<close>

definition resumeContext :: bytes where
  "resumeContext = str_bytes ''RatelMesh-File-Transfer-Resume-v2'' @ [0]"

definition resumeMagic :: bytes where "resumeMagic = str_bytes ''RMFR''"

definition resumeTokenFixedSize :: nat where
  "resumeTokenFixedSize = 4 + 2 + 16 + 32 * 5 + 4 + 32"

record ResumeToken =
  rt_Version :: u16
  rt_TransferID :: bytes
  rt_ManifestCommitment :: bytes
  rt_SenderSigning :: bytes
  rt_RecipientSigning :: bytes
  rt_SenderBinding :: bytes
  rt_RecipientBinding :: bytes
  rt_Completed :: bytes
  rt_MAC :: bytes

definition rt_fields :: "ResumeToken \<Rightarrow> bytes list" where
  "rt_fields t = [rt_TransferID t, rt_ManifestCommitment t, rt_SenderSigning t, rt_RecipientSigning t,
     rt_SenderBinding t, rt_RecipientBinding t]"

text \<open>The array types of the struct.\<close>

definition wf_ResumeToken :: "ResumeToken \<Rightarrow> bool" where
  "wf_ResumeToken t \<longleftrightarrow> map length (rt_fields t) = [16, 32, 32, 32, 32, 32] \<and> length (rt_MAC t) = 32"

definition resume_authenticatedBytes :: "ResumeToken \<Rightarrow> bytes" where
  "resume_authenticatedBytes t =
     (let b = resumeContext;
          b = appendU16 b (rt_Version t);
          b = b @ rt_TransferID t;
          b = b @ rt_ManifestCommitment t;
          b = b @ rt_SenderSigning t;
          b = b @ rt_RecipientSigning t;
          b = b @ rt_SenderBinding t;
          b = b @ rt_RecipientBinding t;
          b = appendU32 b (word_of_nat (length (rt_Completed t)))
      in b @ rt_Completed t)"

definition resume_MarshalBinary :: "ResumeToken \<Rightarrow> bytes" where
  "resume_MarshalBinary t =
     (let b = resumeMagic;
          b = appendU16 b (rt_Version t);
          b = b @ rt_TransferID t;
          b = b @ rt_ManifestCommitment t;
          b = b @ rt_SenderSigning t;
          b = b @ rt_RecipientSigning t;
          b = b @ rt_SenderBinding t;
          b = b @ rt_RecipientBinding t;
          b = appendU32 b (word_of_nat (length (rt_Completed t)));
          b = b @ rt_Completed t
      in b @ rt_MAC t)"

definition ParseResumeToken :: "bytes \<Rightarrow> limits \<Rightarrow> ft_error + ResumeToken" where
  "ParseResumeToken b lim =
    (let lim = normalized lim in
     if unat (MaxResumeBytes lim) < length b then Inl (ErrLimitExceeded ''resume bytes'')
     else if length b < resumeTokenFixedSize then Inl (ErrInvalidInput ''truncated resume token'') else
     or_fail (ErrInvalidInput ''resume magic'') (take_d 4 (new_decoder b)) (\<lambda>(magic, d).
     if magic \<noteq> resumeMagic then Inl (ErrInvalidInput ''resume magic'') else
     or_fail (ErrInvalidInput ''resume version'') (u16_d d) (\<lambda>(version, d).
     if version \<noteq> ProtocolVersion then Inl (ErrInvalidInput ''resume version'') else
     or_fail (ErrInvalidInput ''truncated resume token'') (takes_d [16, 32, 32, 32, 32, 32] d) (\<lambda>(fs, d).
     or_fail (ErrInvalidInput ''resume bitmap size'') (u32_d d) (\<lambda>(n, d).
     if MaxResumeBytes lim < n \<or> unat n + resumeTokenFixedSize \<noteq> length b
     then Inl (ErrInvalidInput ''resume bitmap size'') else
     or_fail (ErrInvalidInput ''truncated resume bitmap'') (take_d (int (unat n)) d) (\<lambda>(bits, d).
     or_fail (ErrInvalidInput ''truncated resume MAC'') (take_d 32 d) (\<lambda>(mac, d).
     Inr \<lparr> rt_Version = version,
           rt_TransferID = copy_into (zeros 16) (fs ! 0),
           rt_ManifestCommitment = copy_into (zeros 32) (fs ! 1),
           rt_SenderSigning = copy_into (zeros 32) (fs ! 2),
           rt_RecipientSigning = copy_into (zeros 32) (fs ! 3),
           rt_SenderBinding = copy_into (zeros 32) (fs ! 4),
           rt_RecipientBinding = copy_into (zeros 32) (fs ! 5),
           rt_Completed = bits,
           rt_MAC = copy_into (zeros 32) mac \<rparr>)))))))"

lemma resume_bytes_eq:
  "resume_authenticatedBytes t = resumeContext @ be_enc 2 (unat (rt_Version t)) @ concat (rt_fields t) @
     be_enc 4 (unat (word_of_nat (length (rt_Completed t)) :: u32)) @ rt_Completed t"
  "resume_MarshalBinary t = resumeMagic @ be_enc 2 (unat (rt_Version t)) @ concat (rt_fields t) @
     be_enc 4 (unat (word_of_nat (length (rt_Completed t)) :: u32)) @ rt_Completed t @ rt_MAC t"
  by (simp_all add: resume_authenticatedBytes_def resume_MarshalBinary_def Let_def appendU16_def
      appendU32_def rt_fields_def)

lemma length_resumeMagic [simp]: "length resumeMagic = 4"
  by (simp add: resumeMagic_def)

lemma length_concat_map: "length (concat xs) = sum_list (map length xs)"
  by (rule length_concat)

lemma length_resume_MarshalBinary:
  "wf_ResumeToken t \<Longrightarrow> length (resume_MarshalBinary t) = resumeTokenFixedSize + length (rt_Completed t)"
  by (simp add: resume_bytes_eq wf_ResumeToken_def length_concat resumeTokenFixedSize_def)

definition resume_ok :: "limits \<Rightarrow> ResumeToken \<Rightarrow> bool" where
  "resume_ok lim t \<longleftrightarrow> wf_ResumeToken t \<and> rt_Version t = ProtocolVersion \<and>
     resumeTokenFixedSize + length (rt_Completed t) \<le> unat (MaxResumeBytes (normalized lim))"

lemma map_length_6: "map length xs = [a, b, c, d, e, f] \<Longrightarrow>
   \<exists>x0 x1 x2 x3 x4 x5. xs = [x0, x1, x2, x3, x4, x5] \<and> length x0 = a \<and> length x1 = b \<and> length x2 = c \<and>
     length x3 = d \<and> length x4 = e \<and> length x5 = f"
  by (auto simp: map_eq_Cons_conv)

lemma ParseResumeToken_sound:
  assumes "ParseResumeToken b lim = Inr t"
  shows "resume_ok lim t \<and> b = resume_MarshalBinary t"
  using assms unfolding ParseResumeToken_def Let_def
  apply (simp only: branch_simps split_paired_Ex prod.case not_less de_Morgan_disj not_not)
  apply (elim exE conjE)
  apply (drule take_d_inv[OF at_rest_new])
  apply (elim exE conjE)
  apply ((drule (1) u16_d_inv u32_d_inv takes_d_inv take_d_inv, elim exE conjE)+)
  apply (drule map_length_6)
  apply (elim exE conjE)
  by (auto simp: resume_ok_def wf_ResumeToken_def rt_fields_def resume_bytes_eq resumeTokenFixedSize_def)

lemma ParseResumeToken_complete:
  assumes "resume_ok lim t"
  shows "ParseResumeToken (resume_MarshalBinary t) lim = Inr t"
proof -
  have wf: "wf_ResumeToken t" and v: "rt_Version t = ProtocolVersion"
    and len: "resumeTokenFixedSize + length (rt_Completed t) \<le> unat (MaxResumeBytes (normalized lim))"
    using assms by (auto simp: resume_ok_def)
  note L = length_resume_MarshalBinary[OF wf]
  have fs: "map length (rt_fields t) = [16, 32, 32, 32, 32, 32]" and mac: "length (rt_MAC t) = 32"
    using wf by (auto simp: wf_ResumeToken_def)
  have nn: "unat (word_of_nat (length (rt_Completed t)) :: u32) = length (rt_Completed t)"
    using len unat_u32_less[of "MaxResumeBytes (normalized lim)"] by (simp add: unat_of_nat)
  then have g: "\<not> MaxResumeBytes (normalized lim) < word_of_nat (length (rt_Completed t))"
    using len by (simp add: word_less_nat_alt)
  have eqt: "\<lparr> rt_Version = ProtocolVersion, rt_TransferID = copy_into (zeros 16) (rt_fields t ! 0),
      rt_ManifestCommitment = copy_into (zeros 32) (rt_fields t ! 1),
      rt_SenderSigning = copy_into (zeros 32) (rt_fields t ! 2),
      rt_RecipientSigning = copy_into (zeros 32) (rt_fields t ! 3),
      rt_SenderBinding = copy_into (zeros 32) (rt_fields t ! 4),
      rt_RecipientBinding = copy_into (zeros 32) (rt_fields t ! 5),
      rt_Completed = rt_Completed t, rt_MAC = copy_into (zeros 32) (rt_MAC t) \<rparr> = t"
    using fs mac v by (intro ResumeToken.equality) (simp_all add: rt_fields_def)
  show ?thesis
    apply (insert take_d_ok[OF at_rest_new[of "resume_MarshalBinary t", unfolded resume_bytes_eq(2)] refl])
    apply (elim exE conjE)
    apply (drule u16_d_ok, elim exE conjE)
    apply (drule takes_d_ok[OF _ refl], elim exE conjE)
    apply (drule u32_d_ok, elim exE conjE)
    apply (drule take_d_ok[OF _ refl], elim exE conjE)
    apply (drule take_d_ok[where r = "[]", simplified], rule refl, elim exE conjE)
    unfolding resume_bytes_eq(2)[symmetric] ParseResumeToken_def Let_def
    using v len L g fs mac nn eqt
    by simp
qed

interpretation resume_codec: codec resume_MarshalBinary "\<lambda>b. ParseResumeToken b lim" "resume_ok lim" for lim
  by unfold_locales (use ParseResumeToken_sound ParseResumeToken_complete in blast)

section \<open>Authentication\<close>

definition deriveResumeKey :: "crypto \<Rightarrow> bytes \<Rightarrow> bytes \<Rightarrow> bytes \<Rightarrow> bytes \<Rightarrow> bytes \<Rightarrow> bytes \<Rightarrow> bytes \<Rightarrow> bytes option" where
  "deriveResumeKey C contentKey tid commitment sender recipient senderBinding recipientBinding =
     (let saltInput = tid @ commitment @ sender @ recipient @ senderBinding @ recipientBinding
      in hkdf_sha256 C contentKey (sha256 C saltInput) resumeContext 32)"

definition signResume :: "crypto \<Rightarrow> ResumeToken \<Rightarrow> bytes \<Rightarrow> ResumeToken" where
  "signResume C t key = t\<lparr>rt_MAC := copy_into (rt_MAC t) (hmac_sha256 C key (resume_authenticatedBytes t))\<rparr>"

definition verifyResume :: "crypto \<Rightarrow> ResumeToken \<Rightarrow> bytes \<Rightarrow> bool" where
  "verifyResume C t key \<longleftrightarrow> rt_MAC t = hmac_sha256 C key (resume_authenticatedBytes t)"

lemma authenticatedBytes_MAC [simp]:
  "resume_authenticatedBytes (t\<lparr>rt_MAC := m\<rparr>) = resume_authenticatedBytes t"
  by (simp add: resume_authenticatedBytes_def)

lemma verify_signResume:
  "hash_sizes C \<Longrightarrow> length (rt_MAC t) = 32 \<Longrightarrow> verifyResume C (signResume C t key) key"
  by (simp add: verifyResume_def signResume_def hash_sizesD)

end
