(* ===== verification/FT_Offer.thy ===== *)
theory FT_Offer
  imports FT_Resume
begin

text \<open>
  File transfer, \<open>internal/filetransfer/binding.go\<close> and \<open>offer.go\<close>: the authority-signed device
  key bindings, the local device and peer they give, and the offer: its transcripts, its wire
  format, how a sender makes one and what a recipient checks before it opens one.
\<close>

definition ofb_allZero :: "bytes \<Rightarrow> bool" where
  "ofb_allZero b \<longleftrightarrow> foldl (\<lambda>v x. or v x) 0 b = 0"

lemma foldl_or_zero: "foldl (\<lambda>v x. or v x) (a :: u8) b = 0 \<longleftrightarrow> a = 0 \<and> (\<forall>x \<in> set b. x = 0)"
  by (induction b arbitrary: a) (auto simp: or_eq_0_iff)

lemma allZero_iff: "ofb_allZero b \<longleftrightarrow> (\<forall>x \<in> set b. x = 0)"
  by (simp add: ofb_allZero_def foldl_or_zero)

section \<open>Device key bindings\<close>

record identityMaterial =
  im_SigningPrivate :: bytes
  im_SigningPublic :: bytes

record Peer =
  pr_signingPublic :: bytes
  pr_exchangePublic :: bytes
  pr_bindingDigest :: bytes
  pr_tenantID :: string
  pr_deviceID :: string
  pr_keyVersion :: u64
  pr_notBefore :: time
  pr_notAfter :: time

record LocalDevice =
  ld_closed :: bool
  ld_identity :: identityMaterial
  ld_exchangePrivate :: bytes
  ld_peer :: Peer

text \<open>A nil pointer is \<open>None\<close>.\<close>

definition ld_snapshot :: "LocalDevice option \<Rightarrow> ft_error + (identityMaterial \<times> bytes \<times> Peer)" where
  "ld_snapshot d =
     (case d of None \<Rightarrow> Inl (ErrInvalidInput ''nil local device'')
      | Some d \<Rightarrow> if ld_closed d then Inl (ErrInvalidInput ''local device closed'')
                  else Inr (ld_identity d, ld_exchangePrivate d, ld_peer d))"

record DeviceKeyBinding =
  db_Version :: u16
  db_TenantID :: string
  db_DeviceID :: string
  db_SigningPublic :: bytes
  db_ExchangePublic :: bytes
  db_KeyVersion :: u64
  db_NotBeforeUnix :: i64
  db_NotAfterUnix :: i64
  db_AuthorityKeyID :: bytes
  db_Signature :: bytes

definition bindingContext :: bytes where
  "bindingContext = str_bytes ''RatelMesh-File-Transfer-Device-Key-Binding-v2'' @ [0]"

definition maxTenantIDBytes :: nat where "maxTenantIDBytes = 128"
definition maxDeviceIDBytes :: nat where "maxDeviceIDBytes = 128"

definition binding_signedBytes :: "DeviceKeyBinding \<Rightarrow> ft_error + bytes" where
  "binding_signedBytes b =
     (if db_Version b \<noteq> ProtocolVersion \<or> length (db_TenantID b) = 0 \<or> maxTenantIDBytes < length (db_TenantID b) \<or>
         length (db_DeviceID b) = 0 \<or> maxDeviceIDBytes < length (db_DeviceID b) \<or>
         db_KeyVersion b = 0 \<or> sint (db_NotBeforeUnix b) < 0 \<or> sint (db_NotAfterUnix b) \<le> sint (db_NotBeforeUnix b) \<or>
         ofb_allZero (db_SigningPublic b) \<or> ofb_allZero (db_ExchangePublic b)
      then Inl (ErrInvalidInput ''device key binding'')
      else
        (let out = bindingContext;
             out = appendU16 out (db_Version b);
             out = appendU16 out (word_of_nat (length (db_TenantID b)));
             out = out @ str_bytes (db_TenantID b);
             out = appendU16 out (word_of_nat (length (db_DeviceID b)));
             out = out @ str_bytes (db_DeviceID b);
             out = out @ db_SigningPublic b;
             out = out @ db_ExchangePublic b;
             out = appendU64 out (db_KeyVersion b);
             out = appendU64 out (db_NotBeforeUnix b);
             out = appendU64 out (db_NotAfterUnix b)
         in Inr (out @ db_AuthorityKeyID b)))"

definition SignDeviceKeyBinding :: "crypto \<Rightarrow> DeviceKeyBinding \<Rightarrow> bytes \<Rightarrow> ft_error + DeviceKeyBinding" where
  "SignDeviceKeyBinding C binding authorityPrivate =
     (if length authorityPrivate \<noteq> 64 then Inl (ErrInvalidInput ''Tenant authority private key'')
      else bind_r (binding_signedBytes binding) (\<lambda>msg.
        Inr (binding\<lparr>db_Signature := copy_into (db_Signature binding) (ed_sign C authorityPrivate msg)\<rparr>)))"

definition VerifyDeviceBinding ::
  "crypto \<Rightarrow> DeviceKeyBinding \<Rightarrow> bytes \<Rightarrow> string \<Rightarrow> string \<Rightarrow> time \<Rightarrow> u64 \<Rightarrow> ft_error + Peer" where
  "VerifyDeviceBinding C binding authorityPublic expectedTenant expectedDevice now minimumKeyVersion =
     (if length authorityPublic \<noteq> 32 \<or> expectedTenant = [] \<or> expectedDevice = []
      then Inl (ErrInvalidInput ''binding verifier'')
      else bind_r (binding_signedBytes binding) (\<lambda>msg.
        if \<not> ed_verify C authorityPublic msg (db_Signature binding) then Inl (ErrAuthentication [])
        else if db_TenantID binding \<noteq> expectedTenant \<or> db_DeviceID binding \<noteq> expectedDevice
        then Inl (ErrAuthentication [])
        else if db_KeyVersion binding < minimumKeyVersion then Inl (ErrAuthentication ''device key downgrade'')
        else if unix now < sint (db_NotBeforeUnix binding) \<or> sint (db_NotAfterUnix binding) \<le> unix now
        then Inl (ErrAuthentication ''device key outside validity window'')
        else if \<not> x_valid_public C (db_ExchangePublic binding)
        then Inl (ErrInvalidInput ''invalid X25519 public key'')
        else Inr \<lparr> pr_signingPublic = db_SigningPublic binding,
                   pr_exchangePublic = db_ExchangePublic binding,
                   pr_bindingDigest = sha256 C msg,
                   pr_tenantID = db_TenantID binding,
                   pr_deviceID = db_DeviceID binding,
                   pr_keyVersion = db_KeyVersion binding,
                   pr_notBefore = from_unix (sint (db_NotBeforeUnix binding)),
                   pr_notAfter = from_unix (sint (db_NotAfterUnix binding)) \<rparr>))"

definition OpenLocalDevice ::
  "crypto \<Rightarrow> DeviceKeyBinding \<Rightarrow> bytes \<Rightarrow> bytes \<Rightarrow> bytes \<Rightarrow> string \<Rightarrow> string \<Rightarrow> time \<Rightarrow> u64 \<Rightarrow>
   ft_error + LocalDevice" where
  "OpenLocalDevice C binding signingPrivate exchangePrivate authorityPublic expectedTenant expectedDevice
     now minimumKeyVersion =
     bind_r (VerifyDeviceBinding C binding authorityPublic expectedTenant expectedDevice now minimumKeyVersion)
       (\<lambda>peer.
     if length signingPrivate \<noteq> 64 \<or> length exchangePrivate \<noteq> 32
     then Inl (ErrInvalidInput ''local device private keys'')
     else if ed_public C signingPrivate \<noteq> pr_signingPublic peer then Inl (ErrAuthentication [])
     else or_fail (ErrAuthentication []) (x_public C exchangePrivate) (\<lambda>xpub.
     if xpub \<noteq> pr_exchangePublic peer then Inl (ErrAuthentication [])
     else Inr \<lparr> ld_closed = False,
                ld_identity = \<lparr> im_SigningPrivate = signingPrivate, im_SigningPublic = ed_public C signingPrivate \<rparr>,
                ld_exchangePrivate = copy_into (zeros 32) exchangePrivate,
                ld_peer = peer \<rparr>))"

definition LocalDevice_Close :: "LocalDevice \<Rightarrow> LocalDevice" where
  "LocalDevice_Close d =
     (if ld_closed d then d
      else d\<lparr>ld_closed := True,
             ld_identity := (ld_identity d)\<lparr>im_SigningPrivate := zeros (length (im_SigningPrivate (ld_identity d)))\<rparr>,
             ld_exchangePrivate := zeros (length (ld_exchangePrivate d))\<rparr>)"

text \<open>The array types of the struct.\<close>

definition wf_binding :: "DeviceKeyBinding \<Rightarrow> bool" where
  "wf_binding b \<longleftrightarrow> length (db_SigningPublic b) = 32 \<and> length (db_ExchangePublic b) = 32 \<and>
     length (db_AuthorityKeyID b) = 16 \<and> length (db_Signature b) = 64"

lemma be_enc_append_inject:
  fixes v v' :: u16 and w w' :: u32 and z z' :: u64
  shows "be_enc 2 (unat v) @ r = be_enc 2 (unat v') @ r' \<longleftrightarrow> v = v' \<and> r = r'"
    "be_enc 4 (unat w) @ r = be_enc 4 (unat w') @ r' \<longleftrightarrow> w = w' \<and> r = r'"
    "be_enc 8 (unat z) @ r = be_enc 8 (unat z') @ r' \<longleftrightarrow> z = z' \<and> r = r'"
  by (simp_all add: append_eq_append_conv)

lemma word_of_nat_small16:
  assumes "n < 65536" "n' < 65536" "(word_of_nat n :: u16) = word_of_nat n'"
  shows "n = n'"
proof -
  have "unat (word_of_nat n :: u16) = unat (word_of_nat n' :: u16)" using assms(3) by simp
  then show ?thesis using assms(1,2) by (simp add: unat_of_nat)
qed

lemma binding_signedBytes_eq:
  assumes "binding_signedBytes b = Inr m"
  shows "m = bindingContext @ be_enc 2 (unat (db_Version b)) @
     be_enc 2 (unat (word_of_nat (length (db_TenantID b)) :: u16)) @ str_bytes (db_TenantID b) @
     be_enc 2 (unat (word_of_nat (length (db_DeviceID b)) :: u16)) @ str_bytes (db_DeviceID b) @
     db_SigningPublic b @ db_ExchangePublic b @ be_enc 8 (unat (db_KeyVersion b)) @
     be_enc 8 (unat (db_NotBeforeUnix b)) @ be_enc 8 (unat (db_NotAfterUnix b)) @ db_AuthorityKeyID b"
    "length (db_TenantID b) \<le> 128" "length (db_DeviceID b) \<le> 128"
  using assms unfolding binding_signedBytes_def Let_def
  by (simp_all only: branch_simps appendU16_def appendU64_def append_assoc maxTenantIDBytes_def
      maxDeviceIDBytes_def not_less de_Morgan_disj sum.inject)

lemma binding_signedBytes_inject:
  assumes "wf_binding b" "wf_binding b'" "binding_signedBytes b = Inr m" "binding_signedBytes b' = Inr m"
  shows "b\<lparr>db_Signature := db_Signature b'\<rparr> = b'"
proof -
  note E = binding_signedBytes_eq[OF assms(3)] binding_signedBytes_eq[OF assms(4)]
  have w: "length (db_SigningPublic b) = length (db_SigningPublic b')"
    "length (db_ExchangePublic b) = length (db_ExchangePublic b')"
    using assms(1,2) by (simp_all add: wf_binding_def)
  note eq = trans[OF E(1)[symmetric] E(4), unfolded same_append_eq be_enc_append_inject]
  have "db_Version b = db_Version b' \<and>
      (word_of_nat (length (db_TenantID b)) :: u16) = word_of_nat (length (db_TenantID b'))"
    using eq by (simp only: simp_thms)
  then have t: "length (db_TenantID b) = length (db_TenantID b')"
    using E(2,3,5,6) by (intro word_of_nat_small16) simp_all
  then have "(word_of_nat (length (db_DeviceID b)) :: u16) = word_of_nat (length (db_DeviceID b'))"
    using eq by (simp add: append_eq_append_conv be_enc_append_inject)
  then have d: "length (db_DeviceID b) = length (db_DeviceID b')"
    using E(2,3,5,6) by (intro word_of_nat_small16) simp_all
  show ?thesis
    using eq t d w by (intro DeviceKeyBinding.equality) (simp_all add: append_eq_append_conv be_enc_append_inject)
qed

section \<open>Offers\<close>

definition offerContext :: bytes where
  "offerContext = str_bytes ''RatelMesh-File-Transfer-Offer-v2'' @ [0]"

definition kekContext :: bytes where
  "kekContext = str_bytes ''RatelMesh-File-Transfer-Envelope-KEK-v2'' @ [0]"

definition offerMagic :: bytes where "offerMagic = str_bytes ''RMFO''"

definition contentKeySize :: nat where "contentKeySize = 32"

definition offerFixedSize :: nat where
  "offerFixedSize = 4 + 2 + 16 + 32 * 7 + 8 + 12 + 4 + 64"

record Offer =
  of_Version :: u16
  of_TransferID :: bytes
  of_SenderSigning :: bytes
  of_RecipientSigning :: bytes
  of_RecipientExchange :: bytes
  of_EphemeralExchange :: bytes
  of_ManifestCommitment :: bytes
  of_SenderBinding :: bytes
  of_RecipientBinding :: bytes
  of_ExpiresAtUnix :: i64
  of_Nonce :: bytes
  of_Ciphertext :: bytes
  of_Signature :: bytes

definition of_fields :: "Offer \<Rightarrow> bytes list" where
  "of_fields f = [of_TransferID f, of_SenderSigning f, of_RecipientSigning f, of_RecipientExchange f,
     of_EphemeralExchange f, of_ManifestCommitment f, of_SenderBinding f, of_RecipientBinding f]"

definition wf_Offer :: "Offer \<Rightarrow> bool" where
  "wf_Offer f \<longleftrightarrow> map length (of_fields f) = [16, 32, 32, 32, 32, 32, 32, 32] \<and>
     length (of_Nonce f) = 12 \<and> length (of_Signature f) = 64"

definition publicTranscript :: "Offer \<Rightarrow> bytes" where
  "publicTranscript f =
     (let b = offerContext;
          b = appendU16 b (of_Version f);
          b = b @ of_TransferID f;
          b = b @ of_SenderSigning f;
          b = b @ of_RecipientSigning f;
          b = b @ of_RecipientExchange f;
          b = b @ of_EphemeralExchange f;
          b = b @ of_ManifestCommitment f;
          b = b @ of_SenderBinding f;
          b = b @ of_RecipientBinding f;
          b = appendU64 b (of_ExpiresAtUnix f)
      in b @ of_Nonce f)"

definition signedTranscript :: "Offer \<Rightarrow> bytes" where
  "signedTranscript f =
     appendU32 (publicTranscript f) (word_of_nat (length (of_Ciphertext f))) @ of_Ciphertext f"

definition offer_MarshalBinary :: "Offer \<Rightarrow> ft_error + bytes" where
  "offer_MarshalBinary f =
     (if of_Version f \<noteq> ProtocolVersion \<or> length (of_Ciphertext f) = 0 then Inl (ErrInvalidInput ''offer'')
      else
       (let b = offerMagic;
            b = appendU16 b (of_Version f);
            b = b @ of_TransferID f;
            b = b @ of_SenderSigning f;
            b = b @ of_RecipientSigning f;
            b = b @ of_RecipientExchange f;
            b = b @ of_EphemeralExchange f;
            b = b @ of_ManifestCommitment f;
            b = b @ of_SenderBinding f;
            b = b @ of_RecipientBinding f;
            b = appendU64 b (of_ExpiresAtUnix f);
            b = b @ of_Nonce f;
            b = appendU32 b (word_of_nat (length (of_Ciphertext f)));
            b = b @ of_Ciphertext f
        in Inr (b @ of_Signature f)))"

definition ParseOffer :: "bytes \<Rightarrow> limits \<Rightarrow> ft_error + Offer" where
  "ParseOffer b lim =
    (let lim = normalized lim in
     if unat (MaxOfferBytes lim) < length b then Inl (ErrLimitExceeded ''offer bytes'')
     else if length b < offerFixedSize then Inl (ErrInvalidInput ''truncated offer'') else
     or_fail (ErrInvalidInput ''offer magic'') (take_d 4 (new_decoder b)) (\<lambda>(magic, d).
     if magic \<noteq> offerMagic then Inl (ErrInvalidInput ''offer magic'') else
     or_fail (ErrInvalidInput ''offer version'') (u16_d d) (\<lambda>(version, d).
     if version \<noteq> ProtocolVersion then Inl (ErrInvalidInput ''offer version'') else
     or_fail (ErrInvalidInput ''truncated offer'') (takes_d [16, 32, 32, 32, 32, 32, 32, 32] d) (\<lambda>(fs, d).
     or_fail (ErrInvalidInput ''offer expiry'') (u64_d d) (\<lambda>(expiry, d).
     if 0x7FFFFFFFFFFFFFFF < expiry then Inl (ErrInvalidInput ''offer expiry'') else
     or_fail (ErrInvalidInput ''truncated offer'') (take_d 12 d) (\<lambda>(nonce, d).
     or_fail (ErrInvalidInput ''ciphertext length'') (u32_d d) (\<lambda>(n, d).
     let maxCiphertext = unat (MaxManifestBytes lim) + contentKeySize + 4 + 16 in
     if n = 0 \<or> maxCiphertext < unat n \<or> unat n + offerFixedSize \<noteq> length b
     then Inl (ErrInvalidInput ''ciphertext length'') else
     or_fail (ErrInvalidInput ''truncated ciphertext'') (take_d (int (unat n)) d) (\<lambda>(c, d).
     or_fail (ErrInvalidInput ''truncated signature'') (take_d 64 d) (\<lambda>(sig, d).
     check_r (done_d d)
       (Inr \<lparr> of_Version = version,
              of_TransferID = copy_into (zeros 16) (fs ! 0),
              of_SenderSigning = copy_into (zeros 32) (fs ! 1),
              of_RecipientSigning = copy_into (zeros 32) (fs ! 2),
              of_RecipientExchange = copy_into (zeros 32) (fs ! 3),
              of_EphemeralExchange = copy_into (zeros 32) (fs ! 4),
              of_ManifestCommitment = copy_into (zeros 32) (fs ! 5),
              of_SenderBinding = copy_into (zeros 32) (fs ! 6),
              of_RecipientBinding = copy_into (zeros 32) (fs ! 7),
              of_ExpiresAtUnix = expiry,
              of_Nonce = copy_into (zeros 12) nonce,
              of_Ciphertext = c,
              of_Signature = copy_into (zeros 64) sig \<rparr>))))))))))"

definition offer_ok :: "limits \<Rightarrow> Offer \<Rightarrow> bool" where
  "offer_ok lim f \<longleftrightarrow> wf_Offer f \<and> of_Version f = ProtocolVersion \<and> 0 \<le> sint (of_ExpiresAtUnix f) \<and>
     0 < length (of_Ciphertext f) \<and>
     length (of_Ciphertext f) \<le> unat (MaxManifestBytes (normalized lim)) + contentKeySize + 4 + 16 \<and>
     length (of_Ciphertext f) + offerFixedSize \<le> unat (MaxOfferBytes (normalized lim))"

text \<open>The bytes \<open>MarshalBinary\<close> returns when it does not fail.\<close>

definition offer_bytes :: "Offer \<Rightarrow> bytes" where
  "offer_bytes f = (case offer_MarshalBinary f of Inl _ \<Rightarrow> [] | Inr b \<Rightarrow> b)"

lemma publicTranscript_eq:
  "publicTranscript f = offerContext @ be_enc 2 (unat (of_Version f)) @ concat (of_fields f) @
     be_enc 8 (unat (of_ExpiresAtUnix f)) @ of_Nonce f"
  by (simp add: publicTranscript_def Let_def appendU16_def appendU64_def of_fields_def)

lemma offer_MarshalBinary_eq:
  "of_Version f = ProtocolVersion \<Longrightarrow> of_Ciphertext f \<noteq> [] \<Longrightarrow> offer_MarshalBinary f = Inr (offer_bytes f)"
  "of_Version f = ProtocolVersion \<Longrightarrow> of_Ciphertext f \<noteq> [] \<Longrightarrow>
   offer_bytes f = offerMagic @ be_enc 2 (unat (of_Version f)) @ concat (of_fields f) @
     be_enc 8 (unat (of_ExpiresAtUnix f)) @ of_Nonce f @
     be_enc 4 (unat (word_of_nat (length (of_Ciphertext f)) :: u32)) @ of_Ciphertext f @ of_Signature f"
  by (simp_all add: offer_bytes_def offer_MarshalBinary_def Let_def appendU16_def appendU32_def
      appendU64_def of_fields_def)

lemma offer_bytes_if:
  "offer_bytes f = (if of_Version f = ProtocolVersion \<and> of_Ciphertext f \<noteq> [] then
     offerMagic @ be_enc 2 (unat (of_Version f)) @ concat (of_fields f) @
     be_enc 8 (unat (of_ExpiresAtUnix f)) @ of_Nonce f @
     be_enc 4 (unat (word_of_nat (length (of_Ciphertext f)) :: u32)) @ of_Ciphertext f @ of_Signature f
   else [])"
  using offer_MarshalBinary_eq(2)[of f] by (auto simp: offer_bytes_def offer_MarshalBinary_def)

lemma length_offerMagic [simp]: "length offerMagic = 4"
  by (simp add: offerMagic_def)

lemma map_length_8: "map length xs = [a, b, c, d, e, f, g, h] \<Longrightarrow>
   \<exists>x0 x1 x2 x3 x4 x5 x6 x7. xs = [x0, x1, x2, x3, x4, x5, x6, x7] \<and> length x0 = a \<and> length x1 = b \<and>
     length x2 = c \<and> length x3 = d \<and> length x4 = e \<and> length x5 = f \<and> length x6 = g \<and> length x7 = h"
  by (auto simp: map_eq_Cons_conv)

lemma ParseOffer_sound:
  assumes "ParseOffer b lim = Inr f"
  shows "offer_ok lim f \<and> b = offer_bytes f"
  using assms unfolding ParseOffer_def Let_def
  apply (simp only: branch_simps split_paired_Ex prod.case not_less de_Morgan_disj not_not)
  apply (elim exE conjE)
  apply (drule take_d_inv[OF at_rest_new])
  apply (elim exE conjE)
  apply ((drule (1) u16_d_inv u32_d_inv u64_d_inv takes_d_inv take_d_inv, elim exE conjE)+)
  apply (drule map_length_8)
  apply (elim exE conjE)
  apply (simp only: done_d_iff append_Nil2 sum.inject)
  by (auto simp: offer_ok_def wf_Offer_def of_fields_def offer_MarshalBinary_eq offerFixedSize_def
      int63_iff offer_bytes_if unat_gt_0)

lemma ParseOffer_complete:
  assumes "offer_ok lim f"
  shows "ParseOffer (offer_bytes f) lim = Inr f"
proof -
  have wf: "wf_Offer f" and v: "of_Version f = ProtocolVersion" and e: "0 \<le> sint (of_ExpiresAtUnix f)"
    and ne: "of_Ciphertext f \<noteq> []" and len: "length (of_Ciphertext f) + offerFixedSize \<le> unat (MaxOfferBytes (normalized lim))"
    and mc: "length (of_Ciphertext f) \<le> unat (MaxManifestBytes (normalized lim)) + contentKeySize + 4 + 16"
    using assms by (auto simp: offer_ok_def)
  have fs: "map length (of_fields f) = [16, 32, 32, 32, 32, 32, 32, 32]"
    and ns: "length (of_Nonce f) = 12" "length (of_Signature f) = 64"
    using wf by (auto simp: wf_Offer_def)
  note B = offer_MarshalBinary_eq(2)[OF v ne]
  have L: "length (offer_bytes f) = length (of_Ciphertext f) + offerFixedSize"
    using fs ns by (simp add: B length_concat offerFixedSize_def)
  have nn: "unat (word_of_nat (length (of_Ciphertext f)) :: u32) = length (of_Ciphertext f)"
    using len unat_u32_less[of "MaxOfferBytes (normalized lim)"] by (simp add: unat_of_nat)
  have g: "(word_of_nat (length (of_Ciphertext f)) :: u32) \<noteq> 0" "\<not> 0x7FFFFFFFFFFFFFFF < of_ExpiresAtUnix f"
    using nn ne e int63_iff[of "of_ExpiresAtUnix f"] by (auto simp: not_less)
  have eqt: "\<lparr> of_Version = ProtocolVersion, of_TransferID = copy_into (zeros 16) (of_fields f ! 0),
      of_SenderSigning = copy_into (zeros 32) (of_fields f ! 1),
      of_RecipientSigning = copy_into (zeros 32) (of_fields f ! 2),
      of_RecipientExchange = copy_into (zeros 32) (of_fields f ! 3),
      of_EphemeralExchange = copy_into (zeros 32) (of_fields f ! 4),
      of_ManifestCommitment = copy_into (zeros 32) (of_fields f ! 5),
      of_SenderBinding = copy_into (zeros 32) (of_fields f ! 6),
      of_RecipientBinding = copy_into (zeros 32) (of_fields f ! 7),
      of_ExpiresAtUnix = of_ExpiresAtUnix f, of_Nonce = copy_into (zeros 12) (of_Nonce f),
      of_Ciphertext = of_Ciphertext f, of_Signature = copy_into (zeros 64) (of_Signature f) \<rparr> = f"
    using fs ns v by (intro Offer.equality) (simp_all add: of_fields_def)
  show ?thesis
    apply (insert take_d_ok[OF at_rest_new[of "offer_bytes f", unfolded B] refl])
    apply (elim exE conjE)
    apply (drule u16_d_ok, elim exE conjE)
    apply (drule takes_d_ok[OF _ refl], elim exE conjE)
    apply (drule u64_d_ok, elim exE conjE)
    apply (drule take_d_ok[OF _ refl], elim exE conjE)
    apply (drule u32_d_ok, elim exE conjE)
    apply (drule take_d_ok[OF _ refl], elim exE conjE)
    apply (drule take_d_ok[where r = "[]", simplified], rule refl, elim exE conjE)
    unfolding B[symmetric] ParseOffer_def Let_def
    using v len mc L g fs ns nn ne eqt
    by (simp add: done_d_end)
qed

interpretation offer_codec: codec offer_bytes "\<lambda>b. ParseOffer b lim" "offer_ok lim" for lim
  by unfold_locales (use ParseOffer_sound ParseOffer_complete in blast)

section \<open>Making and opening an offer\<close>

definition manifestCommitmentContext :: bytes where
  "manifestCommitmentContext = str_bytes ''RatelMesh-File-Transfer-Manifest-Commitment-v2'' @ [0]"

definition manifestCommitment :: "crypto \<Rightarrow> bytes \<Rightarrow> bytes \<Rightarrow> bytes \<Rightarrow> bytes" where
  "manifestCommitment C key tid manifest =
     copy_into (zeros 32) (hmac_sha256 C key (manifestCommitmentContext @ tid @ manifest))"

definition deriveKEK :: "crypto \<Rightarrow> bytes \<Rightarrow> bytes \<Rightarrow> bytes option" where
  "deriveKEK C shared transcript = hkdf_sha256 C shared (sha256 C transcript) kekContext contentKeySize"

text \<open>\<open>envelopeAEAD\<close> and \<open>chunkAEAD\<close>: AES-GCM under a key of an accepted length.\<close>

definition envelopeAEAD :: "bytes \<Rightarrow> ft_error + bytes" where
  "envelopeAEAD key = (if aes_key_ok key then Inr key else Inl (ErrIO ''create envelope cipher''))"

text \<open>What the random reader hands to \<open>makeOffer\<close>; \<open>None\<close> is a failed read.\<close>

record offer_random =
  or_eph :: "bytes option"
  or_id :: "bytes option"
  or_nonce :: "bytes option"

definition makeOffer ::
  "crypto \<Rightarrow> bool \<Rightarrow> Manifest \<Rightarrow> bytes \<Rightarrow> LocalDevice option \<Rightarrow> Peer \<Rightarrow> time \<Rightarrow> offer_random \<Rightarrow>
   ft_error + Offer" where
  "makeOffer C cancelled manifest contentKey sender recipient expiresAt r =
    (if cancelled then Inl ErrContext else
     bind_r (ld_snapshot sender) (\<lambda>(senderIdentity, _, senderPeer).
     if length (im_SigningPrivate senderIdentity) \<noteq> 64 \<or> length contentKey \<noteq> contentKeySize
     then Inl (ErrInvalidInput ''identity or key length'')
     else if pr_tenantID senderPeer \<noteq> pr_tenantID recipient
     then Inl (ErrAuthentication ''cross-tenant transfer requires an explicit guest capability'')
     else if unix expiresAt \<le> 0 \<or> pr_notAfter senderPeer < expiresAt \<or> pr_notAfter recipient < expiresAt
     then Inl (ErrInvalidInput ''offer expiry outside device binding'')
     else if \<not> x_valid_public C (pr_exchangePublic recipient)
     then Inl (ErrInvalidInput ''recipient X25519 key'') else
     or_fail (ErrIO ''generate ephemeral key'') (or_eph r) (\<lambda>eph.
     or_fail (ErrIO ''generate ephemeral key'') (x_public C eph) (\<lambda>ephPublic.
     or_fail (ErrAuthentication ''X25519 agreement'') (x_ecdh C eph (pr_exchangePublic recipient)) (\<lambda>shared.
     or_fail (ErrIO ''generate transfer ID'') (or_id r) (\<lambda>tid.
     if ofb_allZero tid then Inl (ErrInvalidInput ''zero transfer ID'') else
     or_fail (ErrIO ''generate envelope nonce'') (or_nonce r) (\<lambda>nonce.
     let manifestBytes = encodeManifest manifest;
         f = \<lparr> of_Version = ProtocolVersion, of_TransferID = tid,
               of_SenderSigning = pr_signingPublic senderPeer,
               of_RecipientSigning = pr_signingPublic recipient,
               of_RecipientExchange = pr_exchangePublic recipient,
               of_EphemeralExchange = copy_into (zeros 32) ephPublic,
               of_ManifestCommitment = manifestCommitment C contentKey tid manifestBytes,
               of_SenderBinding = pr_bindingDigest senderPeer,
               of_RecipientBinding = pr_bindingDigest recipient,
               of_ExpiresAtUnix = word_of_int (unix expiresAt),
               of_Nonce = nonce, of_Ciphertext = [], of_Signature = zeros 64 \<rparr> in
     or_fail (ErrIO ''derive envelope key'') (deriveKEK C shared (publicTranscript f)) (\<lambda>kek.
     bind_r (envelopeAEAD kek) (\<lambda>aead.
     let payload = appendU32 contentKey (word_of_nat (length manifestBytes)) @ manifestBytes;
         f = f\<lparr>of_Ciphertext := gcm_seal C aead (of_Nonce f) payload (publicTranscript f)\<rparr> in
     Inr (f\<lparr>of_Signature := copy_into (zeros 64)
            (ed_sign C (im_SigningPrivate senderIdentity) (signedTranscript f))\<rparr>))))))))))"

definition openOffer ::
  "crypto \<Rightarrow> bool \<Rightarrow> Offer \<Rightarrow> LocalDevice option \<Rightarrow> Peer \<Rightarrow> time \<Rightarrow> limits \<Rightarrow> ft_error + (Manifest \<times> bytes)" where
  "openOffer C cancelled f recipient expectedSender now lim =
    (if cancelled then Inl ErrContext else
     let lim = normalized lim in
     if of_Version f \<noteq> ProtocolVersion \<or> length (of_Ciphertext f) = 0 \<or>
        unat (MaxOfferBytes lim) < length (of_Ciphertext f) + offerFixedSize \<or>
        unat (MaxManifestBytes lim) + contentKeySize + 4 + 16 < length (of_Ciphertext f) \<or>
        ofb_allZero (of_TransferID f) \<or> ofb_allZero (of_ManifestCommitment f) \<or>
        ofb_allZero (of_SenderBinding f) \<or> ofb_allZero (of_RecipientBinding f)
     then Inl (ErrInvalidInput ''recipient input'') else
     bind_r (ld_snapshot recipient) (\<lambda>(_, recipientExchange, recipientPeer).
     if pr_tenantID expectedSender \<noteq> pr_tenantID recipientPeer
     then Inl (ErrAuthentication ''cross-tenant transfer requires an explicit guest capability'')
     else if now < pr_notBefore expectedSender \<or> now < pr_notBefore recipientPeer \<or>
        sint (of_ExpiresAtUnix f) \<le> unix now \<or> sint (of_ExpiresAtUnix f) \<le> 0 \<or>
        unix (pr_notAfter expectedSender) < sint (of_ExpiresAtUnix f) \<or>
        unix (pr_notAfter recipientPeer) < sint (of_ExpiresAtUnix f) \<or>
        of_SenderSigning f \<noteq> pr_signingPublic expectedSender \<or>
        of_RecipientSigning f \<noteq> pr_signingPublic recipientPeer \<or>
        of_SenderBinding f \<noteq> pr_bindingDigest expectedSender \<or>
        of_RecipientBinding f \<noteq> pr_bindingDigest recipientPeer \<or>
        \<not> ed_verify C (pr_signingPublic expectedSender) (signedTranscript f) (of_Signature f)
     then Inl (ErrAuthentication []) else
     or_fail (ErrInvalidInput ''recipient X25519 private key'') (x_public C recipientExchange) (\<lambda>xpub.
     if xpub \<noteq> of_RecipientExchange f then Inl (ErrAuthentication [])
     else if \<not> x_valid_public C (of_EphemeralExchange f) then Inl (ErrAuthentication []) else
     or_fail (ErrAuthentication []) (x_ecdh C recipientExchange (of_EphemeralExchange f)) (\<lambda>shared.
     or_fail (ErrIO ''derive envelope key'') (deriveKEK C shared (publicTranscript f)) (\<lambda>kek.
     bind_r (envelopeAEAD kek) (\<lambda>aead.
     or_fail (ErrAuthentication [])
       (gcm_open C aead (of_Nonce f) (of_Ciphertext f) (publicTranscript f)) (\<lambda>plain.
     if length plain < contentKeySize + 4 then Inl (ErrIntegrity []) else
     let n = be32 (take 4 (drop contentKeySize plain)) in
     if MaxManifestBytes (normalized lim) < n \<or> unat n + contentKeySize + 4 \<noteq> length plain
     then Inl (ErrIntegrity ''envelope manifest length'') else
     bind_r (wrap_r (\<lambda>_. ErrIntegrity ''manifest'') (decodeManifest (drop (contentKeySize + 4) plain) lim)) (\<lambda>m.
     if manifestCommitment C (take contentKeySize plain) (of_TransferID f) (drop (contentKeySize + 4) plain) \<noteq>
        of_ManifestCommitment f
     then Inl (ErrIntegrity []) else
     Inr (m, take contentKeySize plain)))))))))"

lemma snapshot_Inr:
  "ld_snapshot d = Inr (i, x, p) \<longleftrightarrow>
     (\<exists>l. d = Some l \<and> \<not> ld_closed l \<and> i = ld_identity l \<and> x = ld_exchangePrivate l \<and> p = ld_peer l)"
  by (auto simp: ld_snapshot_def branch_simps split: option.splits)

lemma openOffer_accepted:
  assumes "openOffer C cancelled f recipient sender now lim = Inr (m, key)"
  shows "\<exists>d. recipient = Some d \<and> \<not> ld_closed d \<and> \<not> cancelled \<and>
     pr_tenantID sender = pr_tenantID (ld_peer d) \<and>
     of_SenderSigning f = pr_signingPublic sender \<and> of_SenderBinding f = pr_bindingDigest sender \<and>
     of_RecipientSigning f = pr_signingPublic (ld_peer d) \<and>
     of_RecipientBinding f = pr_bindingDigest (ld_peer d) \<and>
     x_public C (ld_exchangePrivate d) = Some (of_RecipientExchange f) \<and>
     ed_verify C (pr_signingPublic sender) (signedTranscript f) (of_Signature f) \<and>
     pr_notBefore sender \<le> now \<and> pr_notBefore (ld_peer d) \<le> now \<and> unix now < sint (of_ExpiresAtUnix f) \<and>
     sint (of_ExpiresAtUnix f) \<le> unix (pr_notAfter sender) \<and>
     sint (of_ExpiresAtUnix f) \<le> unix (pr_notAfter (ld_peer d)) \<and>
     manifest_ok lim m \<and> length key = contentKeySize \<and>
     of_ManifestCommitment f = manifestCommitment C key (of_TransferID f) (encodeManifest m)"
proof -
  obtain i x p plain where
    d: "\<not> cancelled" "ld_snapshot recipient = Inr (i, x, p)" and
    g: "pr_tenantID sender = pr_tenantID p" "pr_notBefore sender \<le> now" "pr_notBefore p \<le> now"
      "unix now < sint (of_ExpiresAtUnix f)" "sint (of_ExpiresAtUnix f) \<le> unix (pr_notAfter sender)"
      "sint (of_ExpiresAtUnix f) \<le> unix (pr_notAfter p)" "of_SenderSigning f = pr_signingPublic sender"
      "of_RecipientSigning f = pr_signingPublic p" "of_SenderBinding f = pr_bindingDigest sender"
      "of_RecipientBinding f = pr_bindingDigest p"
      "ed_verify C (pr_signingPublic sender) (signedTranscript f) (of_Signature f)" and
    k: "x_public C x = Some (of_RecipientExchange f)" and
    pl: "contentKeySize + 4 \<le> length plain"
      "decodeManifest (drop (contentKeySize + 4) plain) (normalized lim) = Inr m"
      "manifestCommitment C (take contentKeySize plain) (of_TransferID f) (drop (contentKeySize + 4) plain) =
       of_ManifestCommitment f" "key = take contentKeySize plain"
    using assms unfolding openOffer_def Let_def
    by (simp only: branch_simps split_paired_Ex prod.case not_less not_le de_Morgan_disj not_not
        sum.inject prod.inject) blast
  have m: "manifest_ok (normalized lim) m" "drop (contentKeySize + 4) plain = encodeManifest m"
    using pl(2) manifest_codec.dec_iff by blast+
  then have "manifest_ok lim m" by (simp add: manifest_ok_def)
  then show ?thesis using d g k pl m(2) by (auto simp: snapshot_Inr)
qed

text \<open>
  C3: an offer opens only for the recipient it was signed for. When \<open>openOffer\<close> returns a manifest
  and a content key, the recipient device is open, sender and recipient are of one tenant, both
  device bindings named in the offer are the expected ones, the signature of the expected sender
  covers the whole offer, the offer has not expired and does not outlive either binding, the
  manifest is valid within the limits, and the offer's commitment is the keyed commitment to
  exactly that manifest.
\<close>

theorem openOffer_authentic:
  assumes "openOffer C cancelled f recipient sender now lim = Inr (m, key)"
  shows "\<exists>d. recipient = Some d \<and> \<not> ld_closed d \<and> \<not> cancelled \<and>
     pr_tenantID sender = pr_tenantID (ld_peer d) \<and>
     of_SenderSigning f = pr_signingPublic sender \<and> of_SenderBinding f = pr_bindingDigest sender \<and>
     of_RecipientSigning f = pr_signingPublic (ld_peer d) \<and>
     of_RecipientBinding f = pr_bindingDigest (ld_peer d) \<and>
     x_public C (ld_exchangePrivate d) = Some (of_RecipientExchange f) \<and>
     ed_verify C (pr_signingPublic sender) (signedTranscript f) (of_Signature f) \<and>
     pr_notBefore sender \<le> now \<and> pr_notBefore (ld_peer d) \<le> now \<and> unix now < sint (of_ExpiresAtUnix f) \<and>
     sint (of_ExpiresAtUnix f) \<le> unix (pr_notAfter sender) \<and>
     sint (of_ExpiresAtUnix f) \<le> unix (pr_notAfter (ld_peer d)) \<and>
     manifest_ok lim m \<and> length key = contentKeySize \<and>
     of_ManifestCommitment f = manifestCommitment C key (of_TransferID f) (encodeManifest m)"
  by (rule openOffer_accepted[OF assms])

section \<open>Completeness\<close>

text \<open>What opening a device from its binding establishes.\<close>

definition device_ready :: "crypto \<Rightarrow> LocalDevice \<Rightarrow> bool" where
  "device_ready C d \<longleftrightarrow> \<not> ld_closed d \<and> length (im_SigningPrivate (ld_identity d)) = 64 \<and>
     ed_public C (im_SigningPrivate (ld_identity d)) = pr_signingPublic (ld_peer d) \<and>
     x_public C (ld_exchangePrivate d) = Some (pr_exchangePublic (ld_peer d)) \<and>
     (\<exists>s. pr_notAfter (ld_peer d) = from_unix (sint (s :: i64))) \<and>
     length (pr_signingPublic (ld_peer d)) = 32 \<and> length (pr_exchangePublic (ld_peer d)) = 32"

lemma OpenLocalDevice_ready:
  assumes "OpenLocalDevice C binding signingPrivate exchangePrivate authorityPublic t dv now kv = Inr d"
    and "wf_binding binding"
  shows "device_ready C d" "pr_tenantID (ld_peer d) = t" "pr_deviceID (ld_peer d) = dv"
    "kv \<le> pr_keyVersion (ld_peer d)"
  using assms unfolding OpenLocalDevice_def VerifyDeviceBinding_def device_ready_def wf_binding_def
  by (auto simp: branch_simps not_less)

text \<open>\<open>io.ReadFull\<close> fills the arrays it is given.\<close>

definition wf_random :: "offer_random \<Rightarrow> bool" where
  "wf_random r \<longleftrightarrow> (\<forall>x. or_id r = Some x \<longrightarrow> length x = 16) \<and> (\<forall>x. or_nonce r = Some x \<longrightarrow> length x = 12)"

lemma expiry_word:
  assumes "0 < e" "e \<le> sint (s :: i64)"
  shows "sint (word_of_int e :: i64) = e"
  using assms sint_range64[of s] by (simp add: signed_of_int signed_take_bit_int_eq_self)

lemma makeOffer_shape:
  assumes C: "crypto_works C" and s: "device_ready C s" and rd: "device_ready C d"
    and rnd: "wf_random r" and dig: "length (pr_bindingDigest (ld_peer s)) = 32" "length (pr_bindingDigest (ld_peer d)) = 32"
    and mk: "makeOffer C False m key (Some s) (ld_peer d) expiresAt r = Inr f"
  obtains eph shared kek where
    "wf_Offer f" "of_Version f = ProtocolVersion" "sint (of_ExpiresAtUnix f) = unix expiresAt" "0 < unix expiresAt"
    "unix expiresAt \<le> unix (pr_notAfter (ld_peer s))" "unix expiresAt \<le> unix (pr_notAfter (ld_peer d))"
    "length key = contentKeySize" "pr_tenantID (ld_peer s) = pr_tenantID (ld_peer d)"
    "of_SenderSigning f = pr_signingPublic (ld_peer s)" "of_RecipientSigning f = pr_signingPublic (ld_peer d)"
    "of_RecipientExchange f = pr_exchangePublic (ld_peer d)"
    "of_SenderBinding f = pr_bindingDigest (ld_peer s)" "of_RecipientBinding f = pr_bindingDigest (ld_peer d)"
    "\<not> ofb_allZero (of_TransferID f)" "x_valid_public C (of_EphemeralExchange f)"
    "x_ecdh C (ld_exchangePrivate d) (of_EphemeralExchange f) = Some shared"
    "deriveKEK C shared (publicTranscript f) = Some kek" "aes_key_ok kek"
    "of_ManifestCommitment f = manifestCommitment C key (of_TransferID f) (encodeManifest m)"
    "of_Ciphertext f = gcm_seal C kek (of_Nonce f)
       (appendU32 key (word_of_nat (length (encodeManifest m))) @ encodeManifest m) (publicTranscript f)"
    "ed_verify C (pr_signingPublic (ld_peer s)) (signedTranscript f) (of_Signature f)"
proof -
  let ?mk = "\<lambda>tid nonce A ct sig.
      \<lparr> of_Version = ProtocolVersion, of_TransferID = tid,
        of_SenderSigning = pr_signingPublic (ld_peer s), of_RecipientSigning = pr_signingPublic (ld_peer d),
        of_RecipientExchange = pr_exchangePublic (ld_peer d), of_EphemeralExchange = copy_into (zeros 32) A,
        of_ManifestCommitment = manifestCommitment C key tid (encodeManifest m),
        of_SenderBinding = pr_bindingDigest (ld_peer s), of_RecipientBinding = pr_bindingDigest (ld_peer d),
        of_ExpiresAtUnix = word_of_int (unix expiresAt), of_Nonce = nonce, of_Ciphertext = ct,
        of_Signature = sig \<rparr>"
  let ?pl = "appendU32 key (word_of_nat (length (encodeManifest m))) @ encodeManifest m"
  obtain eph A shared tid nonce kek where
    r: "or_id r = Some tid" "or_nonce r = Some nonce" "x_public C eph = Some A"
      "x_ecdh C eph (pr_exchangePublic (ld_peer d)) = Some shared" and
    g: "length key = contentKeySize" "pr_tenantID (ld_peer s) = pr_tenantID (ld_peer d)" "0 < unix expiresAt"
      "expiresAt \<le> pr_notAfter (ld_peer s)" "expiresAt \<le> pr_notAfter (ld_peer d)" "\<not> ofb_allZero tid" and
    kek: "deriveKEK C shared (publicTranscript (?mk tid nonce A [] (zeros 64))) = Some kek" "aes_key_ok kek" and
    f: "f = (let ct = gcm_seal C kek nonce ?pl (publicTranscript (?mk tid nonce A [] (zeros 64)))
            in ?mk tid nonce A ct (copy_into (zeros 64)
              (ed_sign C (im_SigningPrivate (ld_identity s)) (signedTranscript (?mk tid nonce A ct (zeros 64))))))"
    using mk unfolding makeOffer_def Let_def envelopeAEAD_def ld_snapshot_def
    by (simp only: branch_simps option.case split_paired_Ex prod.case not_less not_le de_Morgan_disj not_not
        sum.inject prod.inject Offer.simps) blast
  have pub: "publicTranscript f = publicTranscript (?mk tid nonce A [] (zeros 64))"
    by (simp add: f Let_def publicTranscript_def)
  have "agreement_works C" "signing_works C" "hash_sizes C" using C by (simp_all add: crypto_worksD)
  note laws = this
  have A: "length A = 32" "x_valid_public C A"
    "x_ecdh C (ld_exchangePrivate d) A = x_ecdh C eph (pr_exchangePublic (ld_peer d))"
    using laws(1) r(3) rd unfolding agreement_works_def device_ready_def by metis+
  have priv: "length (im_SigningPrivate (ld_identity s)) = 64"
    "ed_public C (im_SigningPrivate (ld_identity s)) = pr_signingPublic (ld_peer s)"
    using s by (simp_all add: device_ready_def)
  have sg: "length (ed_sign C (im_SigningPrivate (ld_identity s)) x) = 64"
    "ed_verify C (pr_signingPublic (ld_peer s)) x (ed_sign C (im_SigningPrivate (ld_identity s)) x)" for x
    using laws(2) priv unfolding signing_works_def by metis+
  have st: "signedTranscript (?mk tid nonce A ct x) = signedTranscript (?mk tid nonce A ct y)" for ct x y
    by (simp add: signedTranscript_def publicTranscript_def)
  have sig: "of_Signature f = ed_sign C (im_SigningPrivate (ld_identity s)) (signedTranscript f)"
    unfolding f Let_def using sg(1) by (subst st[where y = "zeros 64"]) simp
  have ver: "ed_verify C (pr_signingPublic (ld_peer s)) (signedTranscript f) (of_Signature f)"
    unfolding sig by (rule sg(2))
  have ct: "of_Ciphertext f = gcm_seal C kek (of_Nonce f) ?pl (publicTranscript f)"
    unfolding pub by (simp add: f Let_def)
  obtain ss sd where na: "pr_notAfter (ld_peer s) = from_unix (sint (ss :: i64))"
    "pr_notAfter (ld_peer d) = from_unix (sint (sd :: i64))"
    using s rd by (auto simp: device_ready_def)
  have le: "unix expiresAt \<le> unix (pr_notAfter (ld_peer s))" "unix expiresAt \<le> unix (pr_notAfter (ld_peer d))"
    using g(4,5) by (simp_all add: unix_mono)
  have ex: "sint (of_ExpiresAtUnix f) = unix expiresAt"
    using expiry_word[OF g(3), of ss] le(1) na(1) by (simp add: f Let_def)
  have wf: "wf_Offer f"
    using rnd r dig s rd A sig sg
    by (simp add: f Let_def wf_Offer_def of_fields_def wf_random_def device_ready_def manifestCommitment_def)
  show thesis
    by (rule that[of shared kek]) (use wf ex g le r A kek in \<open>simp_all only: pub ver ct, simp_all add: f Let_def\<close>)
qed

text \<open>The payload of the envelope, read back as \<open>openOffer\<close> reads it.\<close>

lemma envelope_payload:
  assumes "length key = contentKeySize" "length mb < 4294967296"
  defines "p \<equiv> appendU32 key (word_of_nat (length mb)) @ mb"
  shows "take contentKeySize p = key" "drop (contentKeySize + 4) p = mb"
    "unat (be32 (take 4 (drop contentKeySize p))) = length mb" "length p = contentKeySize + 4 + length mb"
  using assms by (simp_all add: p_def appendU32_def unat_of_nat be32_def be_dec_enc)

lemma makeOffer_roundtrip:
  assumes C: "crypto_works C" and s: "device_ready C s" and rd: "device_ready C d" and rnd: "wf_random r"
    and dig: "length (pr_bindingDigest (ld_peer s)) = 32" "length (pr_bindingDigest (ld_peer d)) = 32"
    and mk: "makeOffer C False m key (Some s) (ld_peer d) expiresAt r = Inr f"
    and m: "manifest_ok lim m"
    and size: "length (of_Ciphertext f) + offerFixedSize \<le> unat (MaxOfferBytes (normalized lim))"
    and nz: "\<not> ofb_allZero (of_ManifestCommitment f)" "\<not> ofb_allZero (pr_bindingDigest (ld_peer s))"
      "\<not> ofb_allZero (pr_bindingDigest (ld_peer d))"
    and now: "pr_notBefore (ld_peer s) \<le> now" "pr_notBefore (ld_peer d) \<le> now" "unix now < unix expiresAt"
  shows "\<exists>wire. offer_MarshalBinary f = Inr wire \<and> ParseOffer wire lim = Inr f \<and>
     openOffer C False f (Some d) (ld_peer s) now lim = Inr (m, key)"
proof -
  obtain eph shared kek where S: "wf_Offer f" "of_Version f = ProtocolVersion"
    "sint (of_ExpiresAtUnix f) = unix expiresAt" "0 < unix expiresAt"
    "unix expiresAt \<le> unix (pr_notAfter (ld_peer s))" "unix expiresAt \<le> unix (pr_notAfter (ld_peer d))"
    "length key = contentKeySize" "pr_tenantID (ld_peer s) = pr_tenantID (ld_peer d)"
    "of_SenderSigning f = pr_signingPublic (ld_peer s)" "of_RecipientSigning f = pr_signingPublic (ld_peer d)"
    "of_RecipientExchange f = pr_exchangePublic (ld_peer d)"
    "of_SenderBinding f = pr_bindingDigest (ld_peer s)" "of_RecipientBinding f = pr_bindingDigest (ld_peer d)"
    "\<not> ofb_allZero (of_TransferID f)" "x_valid_public C (of_EphemeralExchange f)"
    "x_ecdh C (ld_exchangePrivate d) (of_EphemeralExchange f) = Some shared"
    "deriveKEK C shared (publicTranscript f) = Some kek" "aes_key_ok kek"
    "of_ManifestCommitment f = manifestCommitment C key (of_TransferID f) (encodeManifest m)"
    "ed_verify C (pr_signingPublic (ld_peer s)) (signedTranscript f) (of_Signature f)"
    and ct: "of_Ciphertext f = gcm_seal C kek (of_Nonce f)
       (appendU32 key (word_of_nat (length (encodeManifest m))) @ encodeManifest m) (publicTranscript f)"
    by (rule makeOffer_shape[OF C s rd rnd dig mk])
  have mb: "length (encodeManifest m) \<le> unat (MaxManifestBytes (normalized lim))"
    using m by (simp add: manifest_ok_def)
  then have mb32: "length (encodeManifest m) < 4294967296"
    using unat_u32_less[of "MaxManifestBytes (normalized lim)"] by linarith
  note P = envelope_payload[OF S(7) mb32]
  have "aead_works C" using C by (simp add: crypto_worksD)
  then have seal: "length (of_Ciphertext f) = contentKeySize + 4 + length (encodeManifest m) + 16"
    "gcm_open C kek (of_Nonce f) (of_Ciphertext f) (publicTranscript f) =
       Some (appendU32 key (word_of_nat (length (encodeManifest m))) @ encodeManifest m)"
    by (simp_all add: ct aead_works_def appendU32_def S(7))
  have ne: "of_Ciphertext f \<noteq> []" using seal(1) by auto
  have ok: "offer_ok lim f" using S(1-4) ne size mb seal(1) by (simp add: offer_ok_def)
  have dec: "decodeManifest (encodeManifest m) (normalized lim) = Inr m"
    using m by (simp add: manifest_codec.dec_iff) (simp add: manifest_ok_def)
  have ln: "\<not> MaxManifestBytes (normalized lim) < be32 (take 4 (drop contentKeySize
      (appendU32 key (word_of_nat (length (encodeManifest m))) @ encodeManifest m)))"
    using mb P(3) by (simp add: word_less_nat_alt)
  have nc: "\<not> unat (MaxOfferBytes (normalized lim)) < length (of_Ciphertext f) + offerFixedSize"
    "\<not> unat (MaxManifestBytes (normalized lim)) + contentKeySize + 4 + 16 < length (of_Ciphertext f)"
    using size mb seal(1) by auto
  have "openOffer C False f (Some d) (ld_peer s) now lim = Inr (m, key)"
    using S(2-20) rd nz now seal(2) ne dec ln nc P
    unfolding openOffer_def Let_def ld_snapshot_def device_ready_def envelopeAEAD_def
    by (simp add: not_le)
  then show ?thesis using offer_MarshalBinary_eq(1)[OF S(2) ne] offer_codec.roundtrip[OF ok] by blast
qed

text \<open>
  C2: an offer made for a device opens on that device. Whatever \<open>makeOffer\<close> produced, sent over the
  wire with \<open>MarshalBinary\<close> and \<open>ParseOffer\<close>, is returned unchanged by the parser, and \<open>openOffer\<close> on
  the recipient's device gives back exactly the manifest and the content key of the sender, as long
  as the time is inside both bindings and before the expiry and the offer is within the limits. The
  hypotheses on \<open>C\<close> are the documented behaviour of the cryptographic library; that no digest is the
  all-zero string is what \<open>openOffer\<close> tests.
\<close>

theorem makeOffer_opens:
  assumes C: "crypto_works C" and s: "device_ready C s" and rd: "device_ready C d" and rnd: "wf_random r"
    and dig: "length (pr_bindingDigest (ld_peer s)) = 32" "length (pr_bindingDigest (ld_peer d)) = 32"
    and mk: "makeOffer C False m key (Some s) (ld_peer d) expiresAt r = Inr f"
    and m: "manifest_ok lim m"
    and size: "length (of_Ciphertext f) + offerFixedSize \<le> unat (MaxOfferBytes (normalized lim))"
    and nz: "\<not> ofb_allZero (of_ManifestCommitment f)" "\<not> ofb_allZero (pr_bindingDigest (ld_peer s))"
      "\<not> ofb_allZero (pr_bindingDigest (ld_peer d))"
    and now: "pr_notBefore (ld_peer s) \<le> now" "pr_notBefore (ld_peer d) \<le> now" "unix now < unix expiresAt"
  shows "\<exists>wire. offer_MarshalBinary f = Inr wire \<and> ParseOffer wire lim = Inr f \<and>
     openOffer C False f (Some d) (ld_peer s) now lim = Inr (m, key)"
  by (rule makeOffer_roundtrip[OF assms])

section \<open>A concrete exchange\<close>

definition sample_device :: "u8 \<Rightarrow> LocalDevice" where
  "sample_device k =
     \<lparr> ld_closed = False,
       ld_identity = \<lparr> im_SigningPrivate = replicate 64 k, im_SigningPublic = replicate 32 k \<rparr>,
       ld_exchangePrivate = replicate 32 k,
       ld_peer = \<lparr> pr_signingPublic = replicate 32 k, pr_exchangePublic = replicate 32 k,
         pr_bindingDigest = replicate 32 k, pr_tenantID = ''t'', pr_deviceID = ''d'', pr_keyVersion = 1,
         pr_notBefore = from_unix 0, pr_notAfter = from_unix 1000 \<rparr> \<rparr>"

definition sample_random :: offer_random where
  "sample_random = \<lparr> or_eph = Some (replicate 32 3), or_id = Some (replicate 16 4), or_nonce = Some (replicate 12 5) \<rparr>"

definition sample_offer :: Offer where
  "sample_offer = projr (makeOffer sample_crypto False sample_manifest (replicate 32 9)
     (Some (sample_device 1)) (ld_peer (sample_device 2)) (from_unix 900) sample_random)"

lemma sample_offer_made:
  "makeOffer sample_crypto False sample_manifest (replicate 32 9)
     (Some (sample_device 1)) (ld_peer (sample_device 2)) (from_unix 900) sample_random = Inr sample_offer"
proof -
  have "\<not> isl (makeOffer sample_crypto False sample_manifest (replicate 32 9)
     (Some (sample_device 1)) (ld_peer (sample_device 2)) (from_unix 900) sample_random)"
    by code_simp
  then show ?thesis unfolding sample_offer_def by (cases "makeOffer sample_crypto False sample_manifest (replicate 32 9)
     (Some (sample_device 1)) (ld_peer (sample_device 2)) (from_unix 900) sample_random") simp_all
qed

lemma sample_device_ready: "device_ready sample_crypto (sample_device k)"
proof -
  have "sint (1000 :: i64) = 1000" by simp
  then have "\<exists>s. from_unix 1000 = from_unix (sint (s :: i64))" by metis
  then show ?thesis by (simp add: device_ready_def sample_device_def sample_crypto_sel)
qed

lemma sample_manifest_ok: "manifest_ok DefaultLimits sample_manifest"
  using sample_manifest_valid
  by (simp add: manifest_ok_def wf_Manifest_def sample_manifest_def length_encodeManifest normalized_sel)

lemma sample_offer_conditions:
  "wf_random sample_random"
  "length (pr_bindingDigest (ld_peer (sample_device 1))) = 32"
  "length (pr_bindingDigest (ld_peer (sample_device 2))) = 32"
  "length (of_Ciphertext sample_offer) + offerFixedSize \<le> unat (MaxOfferBytes (normalized DefaultLimits))"
  "\<not> ofb_allZero (of_ManifestCommitment sample_offer)"
  "\<not> ofb_allZero (pr_bindingDigest (ld_peer (sample_device 1)))"
  "\<not> ofb_allZero (pr_bindingDigest (ld_peer (sample_device 2)))"
  "pr_notBefore (ld_peer (sample_device 1)) \<le> from_unix 5"
  "pr_notBefore (ld_peer (sample_device 2)) \<le> from_unix 5"
  "unix (from_unix 5) < unix (from_unix 900)"
  subgoal by (simp add: wf_random_def sample_random_def)
  subgoal by code_simp
  subgoal by code_simp
  subgoal by code_simp
  subgoal by code_simp
  subgoal by code_simp
  subgoal by code_simp
  subgoal by code_simp
  subgoal by code_simp
  subgoal by code_simp
  done

lemmas sample_offer_hyps = sample_crypto_works sample_device_ready sample_device_ready
  sample_offer_conditions(1-3) sample_offer_made sample_manifest_ok sample_offer_conditions(4-10)

lemma makeOffer_opens_witness:
  "\<exists>wire. offer_MarshalBinary sample_offer = Inr wire \<and> ParseOffer wire DefaultLimits = Inr sample_offer \<and>
     openOffer sample_crypto False sample_offer (Some (sample_device 2)) (ld_peer (sample_device 1)) (from_unix 5)
       DefaultLimits = Inr (sample_manifest, replicate 32 9)"
  by (rule makeOffer_opens[OF sample_offer_hyps])

lemma sample_offer_opens:
  "openOffer sample_crypto False sample_offer (Some (sample_device 2)) (ld_peer (sample_device 1)) (from_unix 5)
     DefaultLimits = Inr (sample_manifest, replicate 32 9)"
  using makeOffer_roundtrip[OF sample_offer_hyps] by blast

lemma openOffer_authentic_witness:
  "unix (from_unix 5) < sint (of_ExpiresAtUnix sample_offer)"
  using openOffer_authentic[OF sample_offer_opens] by blast

end
