(* ===== verification/FT_Sender.thy ===== *)
theory FT_Sender
  imports FT_Offer
begin

text \<open>
  File transfer, \<open>internal/filetransfer/sender.go\<close> and \<open>Sender.MissingChunks\<close> of \<open>resume.go\<close>: how a
  sender hashes a snapshot of the source and makes the offer, how it encrypts one chunk, and the
  wire format of an encrypted chunk. Reading the source is an argument: what the file handle
  returns while hashing, and later what \<open>ReadAt\<close> returns, which need not be the same bytes.
\<close>

section \<open>Chunk keys\<close>

definition chunkNonceContext :: bytes where
  "chunkNonceContext = str_bytes ''RatelMesh-File-Transfer-Chunk-Nonce-v2'' @ [0]"

definition chunkAADContext :: bytes where
  "chunkAADContext = str_bytes ''RatelMesh-File-Transfer-Chunk-AAD-v2'' @ [0]"

definition chunkAEAD :: "bytes \<Rightarrow> ft_error + bytes" where
  "chunkAEAD key = (if aes_key_ok key then Inr key else Inl (ErrIO ''create chunk cipher''))"

definition chunkNonce :: "crypto \<Rightarrow> bytes \<Rightarrow> bytes \<Rightarrow> u32 \<Rightarrow> bytes" where
  "chunkNonce C key tid index =
     (let sum = hmac_sha256 C key (chunkNonceContext @ tid)
      in copy_into (zeros 8) (take 8 sum) @ be_enc 4 (unat index))"

definition chunkAAD :: "bytes \<Rightarrow> bytes \<Rightarrow> u32 \<Rightarrow> u32 \<Rightarrow> bytes" where
  "chunkAAD tid commitment index sz =
     (let b = chunkAADContext;
          b = appendU16 b ProtocolVersion;
          b = b @ tid;
          b = b @ commitment;
          b = appendU32 b index
      in appendU32 b sz)"

lemma chunkNonce_length [simp]: "length (chunkNonce C key tid i) = 12"
  by (simp add: chunkNonce_def Let_def)

text \<open>
  No nonce repeats under the content key of a transfer. Chunks with different indices get
  different nonces, whatever the keyed hash returns, and every nonce has the 12 bytes AES-GCM takes.
\<close>

theorem chunkNonce_unique:
  "length (chunkNonce C key tid i) = 12 \<and> (chunkNonce C key tid i = chunkNonce C key tid j) = (i = j)"
  by (simp add: chunkNonce_def Let_def)

lemma chunkAAD_inject:
  "length tid = length tid' \<Longrightarrow> length cm = length cm' \<Longrightarrow>
   chunkAAD tid cm i n = chunkAAD tid' cm' i' n' \<longleftrightarrow> tid = tid' \<and> cm = cm' \<and> i = i' \<and> n = n'"
  by (auto simp: chunkAAD_def Let_def appendU16_def appendU32_def append_eq_append_conv)

section \<open>Encrypted chunks\<close>

record EncryptedChunk =
  ec_Index :: u32
  ec_PlaintextSize :: u32
  ec_Ciphertext :: bytes

definition chunk_MarshalBinary :: "EncryptedChunk \<Rightarrow> bytes" where
  "chunk_MarshalBinary c =
     (let b = [];
          b = appendU32 b (ec_Index c);
          b = appendU32 b (ec_PlaintextSize c);
          b = appendU32 b (word_of_nat (length (ec_Ciphertext c)))
      in b @ ec_Ciphertext c)"

definition ParseEncryptedChunk :: "bytes \<Rightarrow> u32 \<Rightarrow> ft_error + EncryptedChunk" where
  "ParseEncryptedChunk b maxChunkSize =
    (let maxChunkSize = (if maxChunkSize = 0 then MaxChunkSize DefaultLimits else maxChunkSize) in
     if unat maxChunkSize + 12 + 32 < length b then Inl (ErrLimitExceeded ''encrypted chunk bytes'') else
     or_fail (ErrInvalidInput ''chunk header'') (u32_d (new_decoder b)) (\<lambda>(index, d).
     or_fail (ErrLimitExceeded ''plaintext size'') (u32_d d) (\<lambda>(size, d).
     if maxChunkSize < size then Inl (ErrLimitExceeded ''plaintext size'') else
     or_fail (ErrInvalidInput ''ciphertext size'') (u32_d d) (\<lambda>(n, d).
     if n \<noteq> size + 16 \<or> int (unat n) \<noteq> int (length b) - 12 then Inl (ErrInvalidInput ''ciphertext size'') else
     or_fail (ErrInvalidInput ''truncated chunk'') (take_d (int (unat n)) d) (\<lambda>(c, d).
     Inr \<lparr> ec_Index = index, ec_PlaintextSize = size, ec_Ciphertext = c \<rparr>)))))"

definition chunk_ok :: "u32 \<Rightarrow> EncryptedChunk \<Rightarrow> bool" where
  "chunk_ok mx c \<longleftrightarrow> ec_PlaintextSize c \<le> (if mx = 0 then MaxChunkSize DefaultLimits else mx) \<and>
     length (ec_Ciphertext c) = unat (ec_PlaintextSize c + 16)"

lemma chunk_MarshalBinary_eq:
  "chunk_MarshalBinary c = be_enc 4 (unat (ec_Index c)) @ be_enc 4 (unat (ec_PlaintextSize c)) @
     be_enc 4 (unat (word_of_nat (length (ec_Ciphertext c)) :: u32)) @ ec_Ciphertext c"
  by (simp add: chunk_MarshalBinary_def Let_def appendU32_def)

lemma unat_add16: "unat (w + 16 :: u32) \<le> unat w + 16"
  by (simp add: unat_word_ariths)

lemma ParseEncryptedChunk_sound:
  assumes "ParseEncryptedChunk b mx = Inr c"
  shows "chunk_ok mx c \<and> b = chunk_MarshalBinary c"
  using assms unfolding ParseEncryptedChunk_def Let_def
  apply (simp only: branch_simps split_paired_Ex prod.case not_less de_Morgan_disj not_not)
  apply (elim exE conjE)
  apply (drule u32_d_inv[OF at_rest_new])
  apply (elim exE conjE)
  apply ((drule (1) u32_d_inv take_d_inv, elim exE conjE)+)
  by (auto simp: chunk_ok_def chunk_MarshalBinary_eq)

lemma ParseEncryptedChunk_complete:
  assumes "chunk_ok mx c"
  shows "ParseEncryptedChunk (chunk_MarshalBinary c) mx = Inr c"
proof -
  let ?mx = "if mx = 0 then MaxChunkSize DefaultLimits else mx"
  have l: "length (ec_Ciphertext c) = unat (ec_PlaintextSize c + 16)" and s: "\<not> ?mx < ec_PlaintextSize c"
    using assms by (auto simp: chunk_ok_def)
  have w: "(word_of_nat (length (ec_Ciphertext c)) :: u32) = ec_PlaintextSize c + 16" by (simp add: l)
  have L: "length (chunk_MarshalBinary c) = 12 + unat (ec_PlaintextSize c + 16)"
    using l by (simp add: chunk_MarshalBinary_eq)
  have "unat (ec_PlaintextSize c) \<le> unat ?mx" using s by (simp add: word_less_nat_alt)
  then have g: "\<not> unat ?mx + 12 + 32 < length (chunk_MarshalBinary c)"
    using L unat_add16[of "ec_PlaintextSize c"] by linarith
  note B = chunk_MarshalBinary_eq[of c, unfolded w]
  show ?thesis
    apply (insert u32_d_ok[OF at_rest_new[of "chunk_MarshalBinary c", unfolded B]])
    apply (elim exE conjE)
    apply (drule u32_d_ok, elim exE conjE)
    apply (drule u32_d_ok, elim exE conjE)
    apply (drule take_d_ok[where r = "[]", simplified], rule refl, elim exE conjE)
    unfolding B[symmetric] ParseEncryptedChunk_def Let_def
    using g s l L by simp
qed

interpretation chunk_codec: codec chunk_MarshalBinary "\<lambda>b. ParseEncryptedChunk b mx" "chunk_ok mx" for mx
  by unfold_locales (use ParseEncryptedChunk_sound ParseEncryptedChunk_complete in blast)

section \<open>The sender\<close>

text \<open>
  The open source file: \<open>ReadAt offset n\<close> returns at most \<open>n\<close> bytes, or \<open>None\<close> for an error other
  than end of file.
\<close>

record Sender =
  sd_source :: "i64 \<Rightarrow> nat \<Rightarrow> bytes option"
  sd_manifest :: Manifest
  sd_contentKey :: bytes
  sd_offer :: Offer
  sd_closed :: bool

text \<open>
  What \<open>NewSender\<close> observes of the source path: whether it opens, what \<open>Stat\<close> says, the bytes the
  handle delivers until end of file, whether the last \<open>Stat\<close> agrees with the first, and the
  reader used afterwards.
\<close>

record source_file =
  sf_opens :: bool
  sf_stat :: "(bool \<times> i64) option"
  sf_content :: bytes
  sf_unchanged :: bool
  sf_readAt :: "i64 \<Rightarrow> nat \<Rightarrow> bytes option"

text \<open>The hashing loop: the remaining indices, the rest of the file, the bytes hashed so far.\<close>

fun hash_chunks :: "crypto \<Rightarrow> (nat \<Rightarrow> bool) \<Rightarrow> i64 \<Rightarrow> u32 \<Rightarrow> u32 \<Rightarrow> nat list \<Rightarrow> bytes \<Rightarrow> bytes \<Rightarrow>
   ft_error + (bytes list \<times> bytes \<times> bytes)" where
  "hash_chunks C cancelled sz cs count [] rest whole = Inr ([], rest, whole)"
| "hash_chunks C cancelled sz cs count (i # is) rest whole =
     (if cancelled i then Inl ErrContext else
      let want = unat (expectedPlaintextSize sz cs (word_of_nat i) count) in
      if length rest < want then Inl (ErrIntegrity ''source changed while hashing'') else
      bind_r (hash_chunks C cancelled sz cs count is (drop want rest) (whole @ take want rest))
        (\<lambda>(hs, r, w). Inr (sha256 C (take want rest) # hs, r, w)))"

definition NewSender ::
  "crypto \<Rightarrow> (nat \<Rightarrow> bool) \<Rightarrow> bool \<Rightarrow> string \<Rightarrow> source_file \<Rightarrow> LocalDevice option \<Rightarrow> Peer \<Rightarrow> time \<Rightarrow> u32 \<Rightarrow>
   limits \<Rightarrow> bytes option \<Rightarrow> offer_random \<Rightarrow> ft_error + Sender" where
  "NewSender C cancelled cancelledOffer sourcePath sf sender recipient expiresAt chunkSize lim randomKey r =
    (let lim = normalized lim;
         chunkSize = (if chunkSize = 0 then DefaultChunkSize else chunkSize) in
     if MaxChunkSize lim < chunkSize then Inl (ErrLimitExceeded ''chunk size'') else
     if \<not> sf_opens sf then Inl (ErrIO ''open source'') else
     or_fail (ErrIO ''stat source'') (sf_stat sf) (\<lambda>(regular, size).
     if \<not> regular \<or> sint size < 0 \<or> sint (MaxFileSize lim) < sint size
     then Inl (ErrInvalidInput ''source must be a bounded regular file'') else
     bind_r (sanitizeFilename (path_base sourcePath) (MaxFilenameBytes lim)) (\<lambda>name.
     let count = wantChunks size chunkSize in
     if ucast (MaxChunks lim) < count then Inl (ErrLimitExceeded ''chunk count'') else
     bind_r (hash_chunks C cancelled size chunkSize (ucast count) [0..<unat count] (sf_content sf) [])
       (\<lambda>(hashes, rest, whole).
     if rest \<noteq> [] then Inl (ErrIntegrity ''source changed while hashing'')
     else if \<not> sf_unchanged sf then Inl (ErrIntegrity ''source changed while hashing'') else
     let m = \<lparr> mf_Filename = name, mf_Size = size, mf_ChunkSize = chunkSize, mf_ChunkHashes = hashes,
               mf_ContentHash = copy_into (zeros 32) (sha256 C whole) \<rparr> in
     check_r (validateManifest m lim) (
     let raw = encodeManifest m in
     if unat (MaxManifestBytes lim) < length raw then Inl (ErrLimitExceeded ''manifest bytes'') else
     if unat (MaxResumeBytes lim) < bitmapLen (ChunkCount m) + resumeTokenFixedSize
     then Inl (ErrLimitExceeded ''resume state bytes'') else
     or_fail (ErrIO ''generate content key'') randomKey (\<lambda>key.
     bind_r (makeOffer C cancelledOffer m key sender recipient expiresAt r) (\<lambda>f.
     bind_r (offer_MarshalBinary f) (\<lambda>wire.
     if unat (MaxOfferBytes lim) < length wire then Inl (ErrLimitExceeded ''offer bytes'') else
     Inr \<lparr> sd_source = sf_readAt sf, sd_manifest = m, sd_contentKey = key, sd_offer = f,
           sd_closed = False \<rparr>))))))))"

definition Sender_Close :: "Sender \<Rightarrow> Sender" where
  "Sender_Close s = (if sd_closed s then s else s\<lparr>sd_closed := True, sd_contentKey := []\<rparr>)"

definition EncryptChunk :: "crypto \<Rightarrow> bool \<Rightarrow> Sender \<Rightarrow> u32 \<Rightarrow> ft_error + EncryptedChunk" where
  "EncryptChunk C cancelled s index =
    (if cancelled then Inl ErrContext
     else if sd_closed s then Inl ErrClosed
     else if length (mf_ChunkHashes (sd_manifest s)) \<le> unat index then Inl (ErrInvalidInput ''chunk index'') else
     let m = sd_manifest s;
         n = expectedPlaintextSize (mf_Size m) (mf_ChunkSize m) index (ChunkCount m) in
     or_fail (ErrIO ''read source chunk'') (sd_source s (ucast index * ucast (mf_ChunkSize m)) (unat n)) (\<lambda>buf.
     if length buf \<noteq> unat n \<or> sha256 C buf \<noteq> mf_ChunkHashes m ! unat index
     then Inl (ErrIntegrity ''source changed after manifest creation'') else
     bind_r (chunkAEAD (sd_contentKey s)) (\<lambda>aead.
     let nonce = chunkNonce C (sd_contentKey s) (of_TransferID (sd_offer s)) index;
         aad = chunkAAD (of_TransferID (sd_offer s)) (of_ManifestCommitment (sd_offer s)) index n in
     Inr \<lparr> ec_Index = index, ec_PlaintextSize = n, ec_Ciphertext = gcm_seal C aead nonce buf aad \<rparr>)))"

definition MissingChunks :: "crypto \<Rightarrow> Sender \<Rightarrow> ResumeToken \<Rightarrow> ft_error + u32 list" where
  "MissingChunks C s token =
    (if sd_closed s then Inl (ErrInvalidInput ''sender closed'') else
     let f = sd_offer s in
     if rt_Version token \<noteq> ProtocolVersion \<or> rt_TransferID token \<noteq> of_TransferID f \<or>
        rt_ManifestCommitment token \<noteq> of_ManifestCommitment f \<or> rt_SenderSigning token \<noteq> of_SenderSigning f \<or>
        rt_RecipientSigning token \<noteq> of_RecipientSigning f \<or> rt_SenderBinding token \<noteq> of_SenderBinding f \<or>
        rt_RecipientBinding token \<noteq> of_RecipientBinding f \<or>
        length (rt_Completed token) \<noteq> bitmapLen (ChunkCount (sd_manifest s))
     then Inl (ErrAuthentication []) else
     or_fail (ErrIO ''derive resume key'')
       (deriveResumeKey C (sd_contentKey s) (of_TransferID f) (of_ManifestCommitment f) (of_SenderSigning f)
          (of_RecipientSigning f) (of_SenderBinding f) (of_RecipientBinding f)) (\<lambda>key.
     if \<not> verifyResume C token key then Inl (ErrAuthentication []) else
     Inr (filter (\<lambda>i. \<not> bitSet (rt_Completed token) i)
            (map word_of_nat [0..<unat (ChunkCount (sd_manifest s))]))))"

lemma hash_chunks_pieces:
  "hash_chunks C cancelled sz cs count is rest whole = Inr (hs, r, w) \<Longrightarrow>
   \<exists>ps. rest = concat ps @ r \<and> w = whole @ concat ps \<and> hs = map (sha256 C) ps \<and>
     map length ps = map (\<lambda>i. unat (expectedPlaintextSize sz cs (word_of_nat i) count)) is"
proof (induction "is" arbitrary: rest whole hs r w)
  case (Cons i "is")
  let ?n = "unat (expectedPlaintextSize sz cs (word_of_nat i) count)"
  obtain hs' where n: "?n \<le> length rest"
    and rec: "hash_chunks C cancelled sz cs count is (drop ?n rest) (whole @ take ?n rest) = Inr (hs', r, w)"
    and hs: "hs = sha256 C (take ?n rest) # hs'"
    using Cons.prems by (auto simp: branch_simps Let_def not_less)
  obtain ps where ps: "drop ?n rest = concat ps @ r" "w = (whole @ take ?n rest) @ concat ps" "hs' = map (sha256 C) ps"
    "map length ps = map (\<lambda>i. unat (expectedPlaintextSize sz cs (word_of_nat i) count)) is"
    using Cons.IH[OF rec] by blast
  have "rest = take ?n rest @ concat ps @ r" using ps(1) by (metis append_take_drop_id)
  then show ?case using ps hs n by (intro exI[of _ "take ?n rest # ps"]) auto
qed simp

lemma NewSender_parts:
  assumes "NewSender C cancelled c2 path sf sender recipient expiresAt cs lim rk r = Inr s"
  shows "\<exists>sz w. sf_stat sf = Some (True, sz) \<and> 0 \<le> sint sz \<and> mf_Size (sd_manifest s) = sz \<and>
    hash_chunks C cancelled sz (mf_ChunkSize (sd_manifest s)) (ucast (wantChunks sz (mf_ChunkSize (sd_manifest s))))
       [0..<unat (wantChunks sz (mf_ChunkSize (sd_manifest s)))] (sf_content sf) [] =
       Inr (mf_ChunkHashes (sd_manifest s), [], w) \<and>
    mf_ContentHash (sd_manifest s) = copy_into (zeros 32) (sha256 C w) \<and>
    validateManifest (sd_manifest s) lim = None \<and>
    length (encodeManifest (sd_manifest s)) \<le> unat (MaxManifestBytes (normalized lim)) \<and>
    wantChunks sz (mf_ChunkSize (sd_manifest s)) \<le> ucast (MaxChunks (normalized lim)) \<and>
    makeOffer C c2 (sd_manifest s) (sd_contentKey s) sender recipient expiresAt r = Inr (sd_offer s) \<and>
    \<not> sd_closed s"
  using assms unfolding NewSender_def Let_def
  apply (simp only: branch_simps split_paired_Ex prod.case not_less not_le de_Morgan_disj not_not sum.inject)
  apply (elim exE conjE)
  by auto

lemma piece_at:
  assumes "map length ps = map f [0..<n]" "i < n"
  shows "take (f i) (drop (\<Sum>j<i. f j) (concat ps)) = ps ! i"
proof -
  have n: "length ps = n" using arg_cong[OF assms(1), of length] by simp
  have f: "length (ps ! j) = f j" if "j < n" for j
    using arg_cong[OF assms(1), of "\<lambda>xs. xs ! j"] that n by simp
  have "concat ps = concat (take i ps) @ ps ! i @ concat (drop (Suc i) ps)"
    using id_take_nth_drop[of i ps] assms(2) n by (metis concat.simps(2) concat_append)
  moreover have "length (concat (take i ps)) = (\<Sum>j<i. f j)"
  proof -
    have "map length (take i ps) = map f [0..<i]"
      using assms n f by (intro nth_equalityI) auto
    then show ?thesis by (simp add: length_concat interv_sum_list_conv_sum_set_nat atLeast0LessThan)
  qed
  ultimately show ?thesis using f[OF assms(2)] by simp
qed

text \<open>
  C4: a new sender describes the file it read. The manifest of the sender \<open>NewSender\<close> returns is one
  every recipient with the same limits accepts, its size is the length of the bytes read, its
  content hash is the hash of all of them, and the \<open>i\<close>-th chunk hash is the hash of the bytes at
  offset \<open>i * ChunkSize\<close>, of the length the recipient will expect for chunk \<open>i\<close>.
\<close>

theorem NewSender_describes_file:
  assumes "NewSender C cancelled c2 path sf sender recipient expiresAt cs lim rk r = Inr s"
    and "hash_sizes C"
  shows "manifest_ok lim (sd_manifest s) \<and>
    unat (mf_Size (sd_manifest s)) = length (sf_content sf) \<and>
    mf_ContentHash (sd_manifest s) = sha256 C (sf_content sf) \<and>
    (\<forall>i < length (mf_ChunkHashes (sd_manifest s)).
       mf_ChunkHashes (sd_manifest s) ! i =
         sha256 C (take (chunk_len (sd_manifest s) i)
           (drop (i * unat (mf_ChunkSize (sd_manifest s))) (sf_content sf))))"
proof -
  let ?m = "sd_manifest s"
  let ?n = "length (mf_ChunkHashes ?m)" and ?c = "unat (mf_ChunkSize ?m)"
  obtain w where h: "hash_chunks C cancelled (mf_Size ?m) (mf_ChunkSize ?m) (ucast (wantChunks (mf_Size ?m) (mf_ChunkSize ?m)))
       [0..<unat (wantChunks (mf_Size ?m) (mf_ChunkSize ?m))] (sf_content sf) [] = Inr (mf_ChunkHashes ?m, [], w)"
    and ch: "mf_ContentHash ?m = copy_into (zeros 32) (sha256 C w)" and v: "validateManifest ?m lim = None"
    and len: "length (encodeManifest ?m) \<le> unat (MaxManifestBytes (normalized lim))"
    and wc: "wantChunks (mf_Size ?m) (mf_ChunkSize ?m) \<le> ucast (MaxChunks (normalized lim))"
    using NewSender_parts[OF assms(1)] by blast
  obtain ps where ps: "sf_content sf = concat ps" "w = concat ps" "mf_ChunkHashes ?m = map (sha256 C) ps"
    "map length ps = map (\<lambda>i. unat (expectedPlaintextSize (mf_Size ?m) (mf_ChunkSize ?m) (word_of_nat i)
        (ucast (wantChunks (mf_Size ?m) (mf_ChunkSize ?m))))) [0..<unat (wantChunks (mf_Size ?m) (mf_ChunkSize ?m))]"
    using hash_chunks_pieces[OF h] by auto
  have n: "?n = unat (wantChunks (mf_Size ?m) (mf_ChunkSize ?m))"
    using arg_cong[OF ps(4), of length] ps(3) by simp
  then have "?n < 4294967296" using wc unat_u32_less[of "MaxChunks (normalized lim)"] by (simp add: word_le_nat_alt)
  then have n63: "?n < 2 ^ 63" by simp
  have "word_of_nat ?n = wantChunks (mf_Size ?m) (mf_ChunkSize ?m)" by (simp add: n)
  then have "ucast (wantChunks (mf_Size ?m) (mf_ChunkSize ?m)) = ChunkCount ?m"
    by (simp add: ChunkCount_def n)
  then have lens: "map length ps = map (chunk_len ?m) [0..<?n]"
    using ps(4) n by (simp add: chunk_len_def)
  note cover = validateManifest_covers[OF v n63]
  have "length (sf_content sf) = (\<Sum>i < ?n. chunk_len ?m i)"
    using arg_cong[OF lens, of sum_list] ps(1)
    by (simp add: length_concat interv_sum_list_conv_sum_set_nat atLeast0LessThan)
  then have size: "unat (mf_Size ?m) = length (sf_content sf)" using cover by simp
  have off: "(\<Sum>j<i. chunk_len ?m j) = i * ?c" if "i < ?n" for i
  proof -
    have "chunk_len ?m j = ?c" if "j < i" for j
      using validateManifest_chunk_len(1)[OF v n63, of j] that \<open>i < ?n\<close> by simp
    then show ?thesis by simp
  qed
  have hash: "mf_ChunkHashes ?m ! i = sha256 C (take (chunk_len ?m i) (drop (i * ?c) (sf_content sf)))" if "i < ?n" for i
  proof -
    have "i < length ps" using that ps(3) by simp
    then show ?thesis using piece_at[OF lens that] off[OF that] ps(1,3) by simp
  qed
  have wf: "wf_Manifest ?m" using ps(3) ch assms(2) by (simp add: wf_Manifest_def list_all_iff hash_sizesD)
  then show ?thesis using v len size hash ch ps(1,2) assms(2) by (simp add: manifest_ok_def hash_sizesD)
qed

definition sample_file :: source_file where
  "sample_file = \<lparr> sf_opens = True, sf_stat = Some (True, 5), sf_content = [104, 101, 108, 108, 111],
     sf_unchanged = True, sf_readAt = (\<lambda>off n. Some (take n (drop (unat off) [104, 101, 108, 108, 111]))) \<rparr>"

definition sample_NewSender :: "ft_error + Sender" where
  "sample_NewSender = NewSender sample_crypto (\<lambda>_. False) False ''/tmp/hello.txt'' sample_file
     (Some (sample_device 1)) (ld_peer (sample_device 2)) (from_unix 900) 2 DefaultLimits
     (Some (replicate 32 9)) sample_random"

definition sample_sender :: Sender where
  "sample_sender = projr sample_NewSender"

lemma sample_sender_made: "sample_NewSender = Inr sample_sender"
proof -
  have "\<not> isl sample_NewSender" by code_simp
  then show ?thesis unfolding sample_sender_def by (cases sample_NewSender) simp_all
qed

lemma NewSender_describes_file_witness:
  "mf_ContentHash (sd_manifest sample_sender) = sha256 sample_crypto [104, 101, 108, 108, 111]"
  using NewSender_describes_file[OF sample_sender_made[unfolded sample_NewSender_def]
      crypto_worksD(1)[OF sample_crypto_works]]
  by (simp add: sample_file_def)

end
