(* ===== verification/FT_Receiver.thy ===== *)
theory FT_Receiver
  imports FT_State FT_Sender
begin

text \<open>
  File transfer, an open \<open>Receiver\<close> of \<open>internal/filetransfer/receiver.go\<close> and the consumed
  tombstones of \<open>tombstone.go\<close>: receiving and persisting chunks, revalidating what a resume token
  claims, publishing the finished file, cancelling and closing. The open handle of \<open>content.part\<close> is
  a field with the bytes of the file. Every operation returns the receiver it leaves behind, also
  when it fails.
\<close>

section \<open>The receiver\<close>

record Receiver =
  rv_stateID :: string
  rv_part :: "bytes option"
  rv_admission :: admission
  rv_manifest :: Manifest
  rv_contentKey :: bytes
  rv_resumeKey :: bytes
  rv_offer :: Offer
  rv_completed :: bytes
  rv_finalized :: bool
  rv_closed :: bool
  rv_limits :: limits

abbreviation transferRoot :: "Receiver \<Rightarrow> dir" where
  "transferRoot r \<equiv> Child (rv_stateID r)"

text \<open>An operation on a receiver: the error or none, the receiver afterwards, the effects.\<close>

type_synonym rv_op = "Receiver \<Rightarrow> fsw \<Rightarrow> (ft_error option \<times> Receiver) \<times> fsw"

definition write_at :: "bytes \<Rightarrow> nat \<Rightarrow> bytes \<Rightarrow> bytes" where
  "write_at part off data =
     (if data = [] then part
      else take off (part @ zeros (off - length part)) @ data @ drop (off + length data) part)"

text \<open>\<open>ReadAt\<close>: at most \<open>n\<close> bytes, fewer at the end of the file.\<close>

definition part_read :: "Receiver \<Rightarrow> nat \<Rightarrow> nat \<Rightarrow> bytes io" where
  "part_read r off n = (case rv_part r of None \<Rightarrow> io_err (ErrInvalidInput ''closed file'')
     | Some p \<Rightarrow> io_seq (io_step (ErrIO ''read'')) (io_ret (take n (drop off p))))"

definition part_write :: "Receiver \<Rightarrow> nat \<Rightarrow> bytes \<Rightarrow> fsw \<Rightarrow> (ft_error option \<times> Receiver) \<times> fsw" where
  "part_write r off data w = (case rv_part r of None \<Rightarrow> ((Some (ErrIO ''write verified chunk''), r), w)
     | Some p \<Rightarrow> (case pop_fault w of
         (None, w) \<Rightarrow> ((None, r\<lparr>rv_part := Some (write_at p off data)\<rparr>), w)
       | (Some k, w) \<Rightarrow> ((Some (ErrIO ''write verified chunk''), r\<lparr>rv_part := Some (write_at p off (take k data))\<rparr>), w)))"

definition resumeToken :: "crypto \<Rightarrow> Receiver \<Rightarrow> ResumeToken" where
  "resumeToken C r =
     signResume C \<lparr> rt_Version = ProtocolVersion, rt_TransferID = of_TransferID (rv_offer r),
       rt_ManifestCommitment = of_ManifestCommitment (rv_offer r),
       rt_SenderSigning = of_SenderSigning (rv_offer r), rt_RecipientSigning = of_RecipientSigning (rv_offer r),
       rt_SenderBinding = of_SenderBinding (rv_offer r), rt_RecipientBinding = of_RecipientBinding (rv_offer r),
       rt_Completed = rv_completed r, rt_MAC = zeros 32 \<rparr> (rv_resumeKey r)"

definition validToken :: "crypto \<Rightarrow> Receiver \<Rightarrow> ResumeToken \<Rightarrow> bool" where
  "validToken C r t \<longleftrightarrow> rt_Version t = ProtocolVersion \<and> rt_TransferID t = of_TransferID (rv_offer r) \<and>
     rt_ManifestCommitment t = of_ManifestCommitment (rv_offer r) \<and>
     rt_SenderSigning t = of_SenderSigning (rv_offer r) \<and> rt_RecipientSigning t = of_RecipientSigning (rv_offer r) \<and>
     rt_SenderBinding t = of_SenderBinding (rv_offer r) \<and> rt_RecipientBinding t = of_RecipientBinding (rv_offer r) \<and>
     length (rt_Completed t) = length (rv_completed r) \<and> verifyResume C t (rv_resumeKey r)"

section \<open>Persisting the resume state\<close>

fun persist_create :: "dir \<Rightarrow> nat \<Rightarrow> string io" where
  "persist_create d 0 = io_err ErrExist"
| "persist_create d (Suc tries) =
     io_bind (io_random 12) (\<lambda>rnd.
     let tmp = temp_name ''resume-'' ''.new'' rnd in
     io_try (fs_create d tmp) (\<lambda>x. case x of
       Inr _ \<Rightarrow> io_ret tmp
     | Inl e \<Rightarrow> if e \<noteq> ErrExist then io_err e else persist_create d tries))"

definition persist :: "crypto \<Rightarrow> Receiver \<Rightarrow> unit io" where
  "persist C r =
     (let token = resume_MarshalBinary (resumeToken C r); d = transferRoot r in
      io_bind (persist_create d 5) (\<lambda>tmp.
      io_try (io_seq (io_step (ErrIO ''secure resume state'')) (io_seq (fs_write d tmp token) (io_seq fs_sync
          (io_seq fs_close (io_seq (fs_rename d tmp ''resume.state'') syncRootDir))))) (\<lambda>x.
        case x of Inl e \<Rightarrow> atomic_cleanup d tmp e | Inr _ \<Rightarrow> io_try fs_close (\<lambda>_. io_ret ()))))"

definition io_opt :: "unit io \<Rightarrow> fsw \<Rightarrow> ft_error option \<times> fsw" where
  "io_opt m w = (case m w of (Inl e, w') \<Rightarrow> (Some e, w') | (Inr _, w') \<Rightarrow> (None, w'))"

section \<open>Receiving a chunk\<close>

definition chunk_size :: "Manifest \<Rightarrow> u32 \<Rightarrow> u32" where
  "chunk_size m i = expectedPlaintextSize (mf_Size m) (mf_ChunkSize m) i (ChunkCount m)"

text \<open>The offset \<open>int64(index) * int64(ChunkSize)\<close> passed to the file calls.\<close>

definition chunk_offset :: "Manifest \<Rightarrow> u32 \<Rightarrow> nat" where
  "chunk_offset m i = unat (ucast i * ucast (mf_ChunkSize m) :: u64)"

definition store_chunk :: "crypto \<Rightarrow> u32 \<Rightarrow> bytes \<Rightarrow> rv_op" where
  "store_chunk C index plain r w =
     (case part_write r (chunk_offset (rv_manifest r) index) plain w of
       ((Some e, r), w) \<Rightarrow> ((Some e, r), w)
     | ((None, r), w) \<Rightarrow>
         (case fs_sync w of
            (Inl e, w) \<Rightarrow> ((Some (ErrIO ''sync verified chunk''), r), w)
          | (Inr _, w) \<Rightarrow>
              let r = r\<lparr>rv_completed := setBit (rv_completed r) index\<rparr> in
              (case persist C r w of
                 (Inl e, w) \<Rightarrow> ((Some e, r\<lparr>rv_completed := clearBit (rv_completed r) index\<rparr>), w)
               | (Inr _, w) \<Rightarrow> ((None, r), w))))"

definition check_replay :: "crypto \<Rightarrow> u32 \<Rightarrow> bytes \<Rightarrow> rv_op" where
  "check_replay C index plain r w =
     (case part_read r (chunk_offset (rv_manifest r) index) (length plain) w of
       (Inr existing, w) \<Rightarrow>
         ((if length existing = length plain \<and> sha256 C existing = mf_ChunkHashes (rv_manifest r) ! unat index
           then None else Some ErrConflictingChunk, r), w)
     | (Inl _, w) \<Rightarrow> ((Some ErrConflictingChunk, r), w))"

definition open_chunk :: "crypto \<Rightarrow> Receiver \<Rightarrow> EncryptedChunk \<Rightarrow> ft_error + bytes" where
  "open_chunk C r chunk =
    (let m = rv_manifest r; index = ec_Index chunk in
     if rv_closed r then Inl ErrClosed
     else if rv_finalized r then Inl ErrAlreadyFinalized
     else if ChunkCount m \<le> index then Inl (ErrInvalidInput ''chunk index'') else
     let want = chunk_size m index in
     if ec_PlaintextSize chunk \<noteq> want \<or> length (ec_Ciphertext chunk) \<noteq> unat want + 16
     then Inl (ErrInvalidInput ''chunk size'') else
     bind_r (chunkAEAD (rv_contentKey r)) (\<lambda>aead.
     let nonce = chunkNonce C (rv_contentKey r) (of_TransferID (rv_offer r)) index;
         aad = chunkAAD (of_TransferID (rv_offer r)) (of_ManifestCommitment (rv_offer r)) index want in
     or_fail (ErrAuthentication []) (gcm_open C aead nonce (ec_Ciphertext chunk) aad) (\<lambda>plain.
     if sha256 C plain \<noteq> mf_ChunkHashes m ! unat index then Inl (ErrIntegrity []) else Inr plain)))"

definition ReceiveChunk :: "crypto \<Rightarrow> EncryptedChunk \<Rightarrow> rv_op" where
  "ReceiveChunk C chunk r w =
     (case ctx_err w of
       (Inl e, w) \<Rightarrow> ((Some e, r), w)
     | (Inr _, w) \<Rightarrow>
         (case open_chunk C r chunk of
            Inl e \<Rightarrow> ((Some e, r), w)
          | Inr plain \<Rightarrow>
              if bitSet (rv_completed r) (ec_Index chunk) then check_replay C (ec_Index chunk) plain r w
              else
                (case ctx_err w of
                   (Inl e, w) \<Rightarrow> ((Some e, r), w)
                 | (Inr _, w) \<Rightarrow> store_chunk C (ec_Index chunk) plain r w)))"

definition chunk_indices :: "Manifest \<Rightarrow> u32 list" where
  "chunk_indices m = map word_of_nat [0..<unat (ChunkCount m)]"

text \<open>The loop of \<open>revalidateCompleted\<close>; the flag says whether a bit was cleared.\<close>

fun revalidate_loop :: "crypto \<Rightarrow> u32 list \<Rightarrow> bool \<Rightarrow> Receiver \<Rightarrow> fsw \<Rightarrow> (ft_error option \<times> bool \<times> Receiver) \<times> fsw" where
  "revalidate_loop C [] changed r w = ((None, changed, r), w)"
| "revalidate_loop C (i # is) changed r w =
     (if \<not> bitSet (rv_completed r) i then revalidate_loop C is changed r w
      else case ctx_err w of
        (Inl e, w) \<Rightarrow> ((Some e, changed, r), w)
      | (Inr _, w) \<Rightarrow>
          let n = unat (chunk_size (rv_manifest r) i) in
          (case part_read r (chunk_offset (rv_manifest r) i) n w of
             (x, w) \<Rightarrow>
               if (case x of Inl _ \<Rightarrow> True
                   | Inr buf \<Rightarrow> length buf \<noteq> n \<or> sha256 C buf \<noteq> mf_ChunkHashes (rv_manifest r) ! unat i)
               then revalidate_loop C is True (r\<lparr>rv_completed := clearBit (rv_completed r) i\<rparr>) w
               else revalidate_loop C is changed r w))"

definition revalidateCompleted :: "crypto \<Rightarrow> rv_op" where
  "revalidateCompleted C r w =
     (case revalidate_loop C (chunk_indices (rv_manifest r)) False r w of
       ((Some e, _, r), w) \<Rightarrow> ((Some e, r), w)
     | ((None, changed, r), w) \<Rightarrow>
         if changed then (case io_opt (persist C r) w of (e, w) \<Rightarrow> ((e, r), w)) else ((None, r), w))"

definition Complete :: "Receiver \<Rightarrow> bool" where
  "Complete r \<longleftrightarrow> list_all (\<lambda>i. bitSet (rv_completed r) i) (chunk_indices (rv_manifest r))"

section \<open>What a completed bit means\<close>

definition chunk_stored :: "crypto \<Rightarrow> Manifest \<Rightarrow> bytes \<Rightarrow> nat \<Rightarrow> bool" where
  "chunk_stored C m p i \<longleftrightarrow>
     (let d = take (chunk_len m i) (drop (i * unat (mf_ChunkSize m)) p)
      in length d = chunk_len m i \<and> sha256 C d = mf_ChunkHashes m ! i)"

definition rv_inv :: "crypto \<Rightarrow> Receiver \<Rightarrow> bool" where
  "rv_inv C r \<longleftrightarrow> validateManifest (rv_manifest r) (rv_limits r) = None \<and>
     length (mf_ChunkHashes (rv_manifest r)) < 2 ^ 63 \<and>
     length (rv_completed r) = bitmapLen (ChunkCount (rv_manifest r)) \<and>
     (\<forall>p i. rv_part r = Some p \<longrightarrow> i < length (mf_ChunkHashes (rv_manifest r)) \<longrightarrow>
        bitSet (rv_completed r) (word_of_nat i) \<longrightarrow> chunk_stored C (rv_manifest r) p i)"

text \<open>What an operation never changes.\<close>

definition rv_frame :: "Receiver \<Rightarrow> Receiver \<Rightarrow> bool" where
  "rv_frame r r' \<longleftrightarrow> rv_manifest r' = rv_manifest r \<and> rv_limits r' = rv_limits r \<and> rv_offer r' = rv_offer r \<and>
     rv_contentKey r' = rv_contentKey r \<and> rv_resumeKey r' = rv_resumeKey r \<and> rv_stateID r' = rv_stateID r \<and>
     rv_finalized r' = rv_finalized r \<and> rv_closed r' = rv_closed r \<and> rv_admission r' = rv_admission r"

lemma take_drop_write:
  assumes "a + n \<le> off \<and> length (take n (drop a p)) = n \<or> off + length data \<le> a"
  shows "length (take n (drop a p)) = n \<Longrightarrow> take n (drop a (write_at p off data)) = take n (drop a p)"
proof (cases "data = []")
  case False
  assume ln: "length (take n (drop a p)) = n"
  show ?thesis
  proof (cases "off + length data \<le> a")
    case True
    have "drop a (write_at p off data) = drop a p"
    proof -
      have "length (take off (p @ zeros (off - length p))) = off" by simp
      then have "drop a (write_at p off data) = drop (a - off - length data) (drop (off + length data) p)"
        using False True by (simp add: write_at_def)
      then show ?thesis using True by simp
    qed
    then show ?thesis by simp
  next
    case c: False
    then have le: "a + n \<le> off" using assms by auto
    show ?thesis
    proof (cases "n = 0")
      case n: False
      have lp: "a + n \<le> length p" using ln n by (auto simp: min_def split: if_splits)
      have "take n (drop a (write_at p off data)) = take n (drop a (take off (p @ zeros (off - length p))))"
        using False le by (simp add: write_at_def)
      also have "\<dots> = take n (drop a (p @ zeros (off - length p)))"
      proof -
        have "n \<le> off - a" using le by simp
        then show ?thesis by (simp only: drop_take take_take min_absorb1)
      qed
      also have "\<dots> = take n (drop a p)" using lp by simp
      finally show ?thesis .
    qed simp
  qed
qed (simp add: write_at_def)

lemma read_written:
  "data \<noteq> [] \<Longrightarrow> take (length data) (drop off (write_at p off data)) = data"
  by (simp add: write_at_def)

lemma chunk_index_facts:
  assumes v: "validateManifest m lim = None" and l: "length (mf_ChunkHashes m) < 2 ^ 63"
    and i: "i < length (mf_ChunkHashes m)"
  shows "unat (word_of_nat i :: u32) = i" "chunk_offset m (word_of_nat i) = i * unat (mf_ChunkSize m)"
    "unat (chunk_size m (word_of_nat i)) = chunk_len m i" "unat (ChunkCount m) = length (mf_ChunkHashes m)"
    "chunk_len m i \<le> unat (mf_ChunkSize m)" "0 < chunk_len m i"
proof -
  have n: "length (mf_ChunkHashes m) < 2 ^ 32" using validateManifest_chunk_len(7)[OF v l i] .
  show "unat (word_of_nat i :: u32) = i" using n i by (simp add: unat_of_nat)
  show "unat (ChunkCount m) = length (mf_ChunkHashes m)" using n by (simp add: ChunkCount_def unat_of_nat)
  show "chunk_offset m (word_of_nat i) = i * unat (mf_ChunkSize m)" "chunk_len m i \<le> unat (mf_ChunkSize m)" "0 < chunk_len m i"
    using validateManifest_covers[OF v l] i by (auto simp: chunk_offset_def)
  show "unat (chunk_size m (word_of_nat i)) = chunk_len m i" by (simp add: chunk_size_def chunk_len_def)
qed

lemma chunk_stored_write_other:
  assumes v: "validateManifest m lim = None" and l: "length (mf_ChunkHashes m) < 2 ^ 63"
    and i: "i < length (mf_ChunkHashes m)" and j: "j < length (mf_ChunkHashes m)" "i \<noteq> j"
    and len: "length data \<le> chunk_len m j" and s: "chunk_stored C m p i"
  shows "chunk_stored C m (write_at p (j * unat (mf_ChunkSize m)) data) i"
proof -
  let ?c = "unat (mf_ChunkSize m)"
  note F = chunk_index_facts(5)[OF v l i] chunk_index_facts(5)[OF v l j(1)]
  have ln: "length (take (chunk_len m i) (drop (i * ?c) p)) = chunk_len m i" using s by (simp add: chunk_stored_def Let_def)
  have "i * ?c + chunk_len m i \<le> j * ?c \<or> j * ?c + length data \<le> i * ?c"
  proof (cases "i < j")
    case True
    then have "Suc i * ?c \<le> j * ?c" by (intro mult_right_mono) auto
    then show ?thesis using F by simp
  next
    case False
    then have "Suc j * ?c \<le> i * ?c" using j(2) by (intro mult_right_mono) auto
    then show ?thesis using F len by simp
  qed
  then show ?thesis using take_drop_write[of "i * ?c" "chunk_len m i" "j * ?c" p data] ln s
    by (auto simp: chunk_stored_def Let_def)
qed

lemma word_nat_eq32: "i < 2 ^ 32 \<Longrightarrow> (word_of_nat i :: u32) = w \<longleftrightarrow> i = unat w"
  by (auto simp: unat_of_nat)

lemma rv_frame_refl [simp]: "rv_frame r r"
  by (simp add: rv_frame_def)

lemma open_chunk_Inr:
  assumes o: "open_chunk C r chunk = Inr plain" and inv: "rv_inv C r" and sz: "aead_sizes C"
  shows "unat (ec_Index chunk) < length (mf_ChunkHashes (rv_manifest r))"
    "length plain = chunk_len (rv_manifest r) (unat (ec_Index chunk))"
    "sha256 C plain = mf_ChunkHashes (rv_manifest r) ! unat (ec_Index chunk)"
    "\<not> rv_closed r" "\<not> rv_finalized r"
proof -
  let ?m = "rv_manifest r" and ?i = "ec_Index chunk"
  have g: "\<not> rv_closed r" "\<not> rv_finalized r" "?i < ChunkCount ?m" "length (ec_Ciphertext chunk) = unat (chunk_size ?m ?i) + 16"
    "sha256 C plain = mf_ChunkHashes ?m ! unat ?i"
    and op: "\<exists>k n a. gcm_open C k n (ec_Ciphertext chunk) a = Some plain"
    using o by (auto simp: open_chunk_def Let_def branch_simps not_le)
  have v: "validateManifest ?m (rv_limits r) = None" "length (mf_ChunkHashes ?m) < 2 ^ 63" using inv by (auto simp: rv_inv_def)
  have "unat (ChunkCount ?m) \<le> length (mf_ChunkHashes ?m)" by (simp add: ChunkCount_def unat_of_nat)
  then show i: "unat ?i < length (mf_ChunkHashes ?m)" using g(3) by (simp add: word_less_nat_alt)
  have "length plain = unat (chunk_size ?m ?i)" using op sz g(4) by (auto simp: aead_sizes_def)
  then show "length plain = chunk_len ?m (unat ?i)" using chunk_index_facts(3)[OF v i] by simp
  show "sha256 C plain = mf_ChunkHashes ?m ! unat ?i" "\<not> rv_closed r" "\<not> rv_finalized r" by (fact g)+
qed

text \<open>Storing the plaintext of a chunk whose bit is clear keeps the meaning of the set bits.\<close>

lemma part_write_cases:
  assumes "part_write r off data w = ((e, r'), w')"
  shows "(r' = r \<and> e \<noteq> None) \<or> (\<exists>p k. rv_part r = Some p \<and> r' = r\<lparr>rv_part := Some (write_at p off (take k data))\<rparr> \<and> e \<noteq> None) \<or>
     (\<exists>p. rv_part r = Some p \<and> r' = r\<lparr>rv_part := Some (write_at p off data)\<rparr> \<and> e = None)"
  using assms by (auto simp: part_write_def split: option.splits prod.splits)

lemma write_keeps_inv:
  assumes inv: "rv_inv C r" and p: "rv_part r = Some p" and i: "i < length (mf_ChunkHashes (rv_manifest r))"
    and clear: "\<not> bitSet (rv_completed r) (word_of_nat i)" and len: "length data \<le> chunk_len (rv_manifest r) i"
  shows "rv_inv C (r\<lparr>rv_part := Some (write_at p (i * unat (mf_ChunkSize (rv_manifest r))) data)\<rparr>)"
proof -
  have v: "validateManifest (rv_manifest r) (rv_limits r) = None" "length (mf_ChunkHashes (rv_manifest r)) < 2 ^ 63"
    using inv by (auto simp: rv_inv_def)
  have "chunk_stored C (rv_manifest r) (write_at p (i * unat (mf_ChunkSize (rv_manifest r))) data) j"
    if "j < length (mf_ChunkHashes (rv_manifest r))" "bitSet (rv_completed r) (word_of_nat j)" for j
  proof -
    have "j \<noteq> i" using clear that by auto
    moreover have "chunk_stored C (rv_manifest r) p j" using inv p that by (auto simp: rv_inv_def)
    ultimately show ?thesis using chunk_stored_write_other[OF v that(1) i _ len] by simp
  qed
  then show ?thesis using inv by (simp add: rv_inv_def)
qed

lemma store_chunk_inv:
  assumes inv: "rv_inv C r" and i: "i < length (mf_ChunkHashes (rv_manifest r))"
    and clear: "\<not> bitSet (rv_completed r) (word_of_nat i)"
    and len: "length plain = chunk_len (rv_manifest r) i" and h: "sha256 C plain = mf_ChunkHashes (rv_manifest r) ! i"
    and st: "store_chunk C (word_of_nat i) plain r w = ((e, r'), w')"
  shows "rv_inv C r' \<and> rv_frame r r' \<and>
     (e = None \<longrightarrow> (\<forall>j < length (mf_ChunkHashes (rv_manifest r)).
        bitSet (rv_completed r') (word_of_nat j) \<longleftrightarrow> j = i \<or> bitSet (rv_completed r) (word_of_nat j)))"
proof -
  let ?m = "rv_manifest r"
  have v: "validateManifest ?m (rv_limits r) = None" "length (mf_ChunkHashes ?m) < 2 ^ 63"
    and lc: "length (rv_completed r) = bitmapLen (ChunkCount ?m)" using inv by (auto simp: rv_inv_def)
  note F = chunk_index_facts[OF v i]
  let ?off = "i * unat (mf_ChunkSize ?m)"
  obtain e1 r1 w1 where pw: "part_write r ?off plain w = ((e1, r1), w1)" by (metis prod.collapse)
  show ?thesis
  proof (cases e1)
    case (Some x)
    then have "e = Some x" "r' = r1" using st pw by (simp_all add: store_chunk_def F)
    then show ?thesis using part_write_cases[OF pw] Some inv write_keeps_inv[OF inv _ i clear] len
      by (auto simp: rv_frame_def)
  next
    case None
    then obtain p where p: "rv_part r = Some p" "r1 = r\<lparr>rv_part := Some (write_at p ?off plain)\<rparr>"
      using part_write_cases[OF pw] by auto
    have inv1: "rv_inv C r1" unfolding p(2) by (rule write_keeps_inv[OF inv p(1) i clear]) (simp add: len)
    have ne: "plain \<noteq> []" using len F(6) by auto
    have stored: "chunk_stored C ?m (write_at p ?off plain) i"
      using read_written[OF ne, of ?off p] len h by (simp add: chunk_stored_def Let_def)
    have idx: "unat ((word_of_nat i :: u32) div 8) < length (rv_completed r)"
      unfolding lc by (rule bitmap_index) (use F i in \<open>simp add: word_less_nat_alt\<close>)
    let ?r2 = "r1\<lparr>rv_completed := setBit (rv_completed r1) (word_of_nat i)\<rparr>"
    have bit2: "bitSet (setBit (rv_completed r) (word_of_nat i)) (word_of_nat j) \<longleftrightarrow> j = i \<or> bitSet (rv_completed r) (word_of_nat j)"
      if "j < length (mf_ChunkHashes ?m)" for j
    proof -
      have "(word_of_nat j :: u32) = word_of_nat i \<longleftrightarrow> j = i"
        using chunk_index_facts(1)[OF v that] F(1) by metis
      then show ?thesis by (simp add: bitSet_setBit[OF idx])
    qed
    have inv2: "rv_inv C ?r2" using inv1 bit2 stored p by (auto simp: rv_inv_def)
    let ?r3 = "?r2\<lparr>rv_completed := clearBit (rv_completed ?r2) (word_of_nat i)\<rparr>"
    have bit3: "bitSet (clearBit (setBit (rv_completed r) (word_of_nat i)) (word_of_nat i)) k \<Longrightarrow> bitSet (rv_completed r) k" for k
      using idx by (auto simp: bitSet_clearBit bitSet_setBit)
    have inv3: "rv_inv C ?r3" using inv1 bit3 p by (auto simp: rv_inv_def)
    consider "r' = r1" "e \<noteq> None" | "r' = ?r3" "e \<noteq> None" | "r' = ?r2" "e = None"
      using st pw None by (auto simp: store_chunk_def F Let_def split: prod.splits sum.splits)
    then show ?thesis
      by cases (use inv1 inv2 inv3 p bit2 in \<open>auto simp: rv_frame_def\<close>)
  qed
qed

lemma check_replay_same: "check_replay C i plain r w = ((e, r'), w') \<Longrightarrow> r' = r"
  by (auto simp: check_replay_def split: prod.splits sum.splits)

lemma word_index: "word_of_nat (unat (w :: u32)) = w"
  by simp

lemma ReceiveChunk_step:
  assumes inv: "rv_inv C r" and sz: "aead_sizes C" and rc: "ReceiveChunk C chunk r w = ((e, r'), w')"
  shows "rv_inv C r' \<and> rv_frame r r' \<and>
    (e = None \<longrightarrow> (\<exists>plain. open_chunk C r chunk = Inr plain) \<and>
      (\<forall>j < length (mf_ChunkHashes (rv_manifest r)).
        bitSet (rv_completed r') (word_of_nat j) \<longleftrightarrow> j = unat (ec_Index chunk) \<or> bitSet (rv_completed r) (word_of_nat j)))"
proof -
  consider (fail) "e \<noteq> None" "r' = r"
    | (replay) plain w1 where "open_chunk C r chunk = Inr plain" "bitSet (rv_completed r) (ec_Index chunk)"
        "check_replay C (ec_Index chunk) plain r w1 = ((e, r'), w')"
    | (store) plain w1 where "open_chunk C r chunk = Inr plain" "\<not> bitSet (rv_completed r) (ec_Index chunk)"
        "store_chunk C (ec_Index chunk) plain r w1 = ((e, r'), w')"
    using rc by (auto simp: ReceiveChunk_def split: prod.splits sum.splits if_splits)
  then show ?thesis
  proof cases
    case fail
    then show ?thesis using inv by auto
  next
    case replay
    then have "r' = r" by (blast dest: check_replay_same)
    moreover have "bitSet (rv_completed r) (word_of_nat (unat (ec_Index chunk)))" using replay(2) by simp
    ultimately show ?thesis using inv replay(1) by auto
  next
    case store
    note O = open_chunk_Inr[OF store(1) inv sz]
    have "store_chunk C (word_of_nat (unat (ec_Index chunk))) plain r w1 = ((e, r'), w')" using store(3) by simp
    from store_chunk_inv[OF inv O(1) _ O(2,3) this] store(1,2) show ?thesis by auto
  qed
qed

text \<open>
  C11: a set bit always means a verified chunk on disk. If before \<open>ReceiveChunk\<close> the bytes of every
  chunk marked complete are present in the partial file with the hash the manifest names, the same
  holds after it, for any chunk a peer sends and any failing or partial write, sync or persist; the
  manifest, the keys and the offer do not change; and only when it reports success is exactly one
  more bit set, that of the chunk that authenticated under the content key.
\<close>

theorem ReceiveChunk_keeps_verified:
  assumes "rv_inv C r" and "aead_sizes C" and "ReceiveChunk C chunk r w = ((e, r'), w')"
  shows "rv_inv C r' \<and> rv_frame r r' \<and>
    (e = None \<longrightarrow> (\<exists>plain. open_chunk C r chunk = Inr plain) \<and>
      (\<forall>j < length (mf_ChunkHashes (rv_manifest r)).
        bitSet (rv_completed r') (word_of_nat j) \<longleftrightarrow> j = unat (ec_Index chunk) \<or> bitSet (rv_completed r) (word_of_nat j)))"
  by (rule ReceiveChunk_step[OF assms])

end
