(* ===== verification/FT_Resumption.thy ===== *)
theory FT_Resumption
  imports FT_Receiver
begin

text \<open>
  File transfer, receiving and resuming: what \<open>revalidateCompleted\<close> (\<open>internal/filetransfer/receiver.go\<close>)
  leaves of a resume bitmap, what \<open>ReceiveChunk\<close> adds to it and what \<open>persist\<close> writes, with the sender's
  side of the same exchange (\<open>EncryptChunk\<close>, \<open>MissingChunks\<close>).
\<close>

section \<open>Revalidation\<close>

lemma rv_frame_trans: "rv_frame r1 r2 \<Longrightarrow> rv_frame r2 r3 \<Longrightarrow> rv_frame r1 r3"
  by (simp add: rv_frame_def)

lemma rv_frame_completed [simp]:
  "rv_frame (r\<lparr>rv_completed := b\<rparr>) r' = rv_frame r r'" "rv_frame r (r'\<lparr>rv_completed := b\<rparr>) = rv_frame r r'"
  by (simp_all add: rv_frame_def)

definition chunk_held :: "crypto \<Rightarrow> Receiver \<Rightarrow> nat \<Rightarrow> bool" where
  "chunk_held C r i \<longleftrightarrow> (case rv_part r of None \<Rightarrow> False | Some p \<Rightarrow> chunk_stored C (rv_manifest r) p i)"

lemma part_read_held:
  assumes v: "validateManifest (rv_manifest r) lim = None" "length (mf_ChunkHashes (rv_manifest r)) < 2 ^ 63"
    and i: "unat i < length (mf_ChunkHashes (rv_manifest r))"
    and rd: "part_read r (chunk_offset (rv_manifest r) i) (unat (chunk_size (rv_manifest r) i)) w = (x, w')"
  shows "(\<exists>e. x = Inl e \<and> (fw_faults w = [] \<longrightarrow> rv_part r = None)) \<or>
    (\<exists>buf. x = Inr buf \<and> (length buf = unat (chunk_size (rv_manifest r) i) \<and> sha256 C buf = mf_ChunkHashes (rv_manifest r) ! unat i
        \<longleftrightarrow> chunk_held C r (unat i)))" and "fw_faults w = [] \<Longrightarrow> w' = w"
  using rd chunk_index_facts(2,3)[OF v i]
  by (auto simp: part_read_def chunk_held_def chunk_stored_def Let_def io_step_def pop_fault_def io_bind_def io_ret_def io_err_def
      split: option.splits list.splits prod.splits)

lemma ctx_no_faults: "fw_faults w = [] \<Longrightarrow> io_step e w = (Inr (), w)"
  by (simp add: io_step_def pop_fault_def)

lemma revalidate_loop_changed:
  "revalidate_loop C is True r w = ((e, ch', r'), w') \<Longrightarrow> ch'"
  by (induction "is" arbitrary: r w) (auto simp: Let_def split: if_splits prod.splits sum.splits)

text \<open>What the loop over the indices \<open>is\<close> leaves, from receiver \<open>r\<close> and world \<open>w\<close>.\<close>

definition reval_post :: "crypto \<Rightarrow> u32 list \<Rightarrow> Receiver \<Rightarrow> fsw \<Rightarrow> ft_error option \<Rightarrow> Receiver \<Rightarrow> fsw \<Rightarrow> bool" where
  "reval_post C is r w e r' w' \<longleftrightarrow>
    rv_frame r r' \<and> rv_part r' = rv_part r \<and> length (rv_completed r') = length (rv_completed r) \<and>
    (\<forall>i. bitSet (rv_completed r') i \<longrightarrow> bitSet (rv_completed r) i) \<and>
    (\<forall>i. bitSet (rv_completed r) i \<longrightarrow> i \<notin> set is \<or> fw_faults w = [] \<and> chunk_held C r (unat i) \<longrightarrow> bitSet (rv_completed r') i) \<and>
    (e = None \<longrightarrow> (\<forall>i \<in> set is. bitSet (rv_completed r') i \<longrightarrow> chunk_held C r (unat i))) \<and>
    (fw_faults w = [] \<longrightarrow> e = None \<and> w' = w)"

lemma reval_post_keep:
  assumes IH: "reval_post C is r w2 e r' w'" and w2: "fw_faults w = [] \<Longrightarrow> w2 = w"
    and h: "bitSet (rv_completed r) i \<Longrightarrow> chunk_held C r (unat i)"
  shows "reval_post C (i # is) r w e r' w'"
  unfolding reval_post_def
proof (intro conjI allI ballI impI)
  note I = IH[unfolded reval_post_def]
  show "rv_frame r r'" "rv_part r' = rv_part r" "length (rv_completed r') = length (rv_completed r)" using I by simp_all
  show sub: "bitSet (rv_completed r) j" if "bitSet (rv_completed r') j" for j using I that by blast
  show "bitSet (rv_completed r') j" if "bitSet (rv_completed r) j"
    "j \<notin> set (i # is) \<or> fw_faults w = [] \<and> chunk_held C r (unat j)" for j
  proof -
    have "j \<notin> set is \<or> fw_faults w2 = [] \<and> chunk_held C r (unat j)" using that(2) w2 by auto
    then show ?thesis using I that(1) by blast
  qed
  show "chunk_held C r (unat j)" if "e = None" "j \<in> set (i # is)" "bitSet (rv_completed r') j" for j
  proof (cases "j = i")
    case True
    then show ?thesis using h sub[OF that(3)] by simp
  next
    case False
    then have "j \<in> set is" using that(2) by simp
    then show ?thesis using I that(1,3) by blast
  qed
  show "e = None" if "fw_faults w = []" using I w2[OF that] that by simp
  show "w' = w" if "fw_faults w = []" using I w2[OF that] that by simp
qed

lemma reval_post_clear:
  assumes IH: "reval_post C is (r\<lparr>rv_completed := clearBit (rv_completed r) i\<rparr>) w2 e r' w'"
    and w2: "fw_faults w = [] \<Longrightarrow> w2 = w" and idx: "unat (i div 8) < length (rv_completed r)"
    and nh: "fw_faults w = [] \<Longrightarrow> \<not> chunk_held C r (unat i)"
  shows "reval_post C (i # is) r w e r' w'"
  unfolding reval_post_def
proof (intro conjI allI ballI impI)
  have held: "chunk_held C (r\<lparr>rv_completed := clearBit (rv_completed r) i\<rparr>) = chunk_held C r"
    by (simp add: chunk_held_def fun_eq_iff split: option.split)
  have bits: "bitSet (rv_completed (r\<lparr>rv_completed := clearBit (rv_completed r) i\<rparr>)) j \<longleftrightarrow> j \<noteq> i \<and> bitSet (rv_completed r) j" for j
    using idx by (simp add: bitSet_clearBit)
  note I = IH[unfolded reval_post_def held bits]
  show "rv_frame r r'" "rv_part r' = rv_part r" "length (rv_completed r') = length (rv_completed r)" using I by simp_all
  show "bitSet (rv_completed r) j" if "bitSet (rv_completed r') j" for j using I that by blast
  show "bitSet (rv_completed r') j" if "bitSet (rv_completed r) j"
    "j \<notin> set (i # is) \<or> fw_faults w = [] \<and> chunk_held C r (unat j)" for j
  proof -
    have "j \<noteq> i" using that(2) nh by auto
    moreover have "j \<notin> set is \<or> fw_faults w2 = [] \<and> chunk_held C r (unat j)" using that(2) w2 by auto
    ultimately show ?thesis using I that(1) by blast
  qed
  show "chunk_held C r (unat j)" if "e = None" "j \<in> set (i # is)" "bitSet (rv_completed r') j" for j
  proof -
    have "j \<noteq> i" using I that(3) by blast
    then have "j \<in> set is" using that(2) by simp
    then show ?thesis using I that(1,3) by blast
  qed
  show "e = None" if "fw_faults w = []" using I w2[OF that] that by simp
  show "w' = w" if "fw_faults w = []" using I w2[OF that] that by simp
qed

lemma revalidate_loop_ok:
  assumes "revalidate_loop C is ch r w = ((e, ch', r'), w')"
    and "\<forall>i \<in> set is. unat i < length (mf_ChunkHashes (rv_manifest r)) \<and> unat (i div 8) < length (rv_completed r)"
    and "validateManifest (rv_manifest r) lim = None" "length (mf_ChunkHashes (rv_manifest r)) < 2 ^ 63"
  shows "reval_post C is r w e r' w' \<and> (\<not> ch' \<longrightarrow> r' = r)"
  using assms
proof (induction "is" arbitrary: ch r w)
  case (Cons i "is")
  let ?clear = "r\<lparr>rv_completed := clearBit (rv_completed r) i\<rparr>"
  show ?case
  proof (cases "bitSet (rv_completed r) i")
    case False
    then have "reval_post C is r w e r' w' \<and> (\<not> ch' \<longrightarrow> r' = r)" using Cons.IH[of ch r w] Cons.prems by simp
    then show ?thesis using reval_post_keep False by blast
  next
    case set: True
    obtain x w1 where c: "ctx_err w = (x, w1)" by fastforce
    have c0: "fw_faults w = [] \<Longrightarrow> x = Inr () \<and> w1 = w" using c ctx_no_faults[of w] by (auto simp: ctx_err_def)
    show ?thesis
    proof (cases x)
      case (Inl err)
      then show ?thesis using Cons.prems(1) set c c0 by (auto simp: reval_post_def)
    next
      case (Inr u)
      obtain y w2 where rd: "part_read r (chunk_offset (rv_manifest r) i) (unat (chunk_size (rv_manifest r) i)) w1 = (y, w2)"
        by fastforce
      note R = part_read_held(1)[OF Cons.prems(3,4) _ rd, of C] part_read_held(2)[OF Cons.prems(3,4) _ rd]
      let ?bad = "case y of Inl _ \<Rightarrow> True | Inr buf \<Rightarrow> length buf \<noteq> unat (chunk_size (rv_manifest r) i) \<or>
           sha256 C buf \<noteq> mf_ChunkHashes (rv_manifest r) ! unat i"
      have w2: "fw_faults w = [] \<Longrightarrow> w2 = w" using R(2) c0 Cons.prems(2) by auto
      show ?thesis
      proof (cases ?bad)
        case True
        have l: "revalidate_loop C is True ?clear w2 = ((e, ch', r'), w')" using Cons.prems(1) set c Inr rd True by simp
        then have "reval_post C is ?clear w2 e r' w'" using Cons.IH[OF l] Cons.prems(2-4) by simp
        moreover have "ch'" using l by (rule revalidate_loop_changed)
        moreover have "fw_faults w = [] \<Longrightarrow> \<not> chunk_held C r (unat i)"
          using R(1) True c0 Cons.prems(2) by (auto simp: chunk_held_def)
        ultimately show ?thesis using reval_post_clear w2 Cons.prems(2) by simp
      next
        case False
        have l: "revalidate_loop C is ch r w2 = ((e, ch', r'), w')" using Cons.prems(1) set c Inr rd False by simp
        have h: "chunk_held C r (unat i)" using R(1) False Cons.prems(2) by (auto split: sum.splits)
        have p: "reval_post C is r w2 e r' w' \<and> (\<not> ch' \<longrightarrow> r' = r)" using Cons.IH[OF l] Cons.prems(2-4) by simp
        then show ?thesis using reval_post_keep[OF _ w2 h] by blast
      qed
    qed
  qed
qed (auto simp: reval_post_def)

lemma chunk_indices_set:
  assumes "validateManifest m lim = None" "length (mf_ChunkHashes m) < 2 ^ 63"
  shows "i \<in> set (chunk_indices m) \<longleftrightarrow> unat i < length (mf_ChunkHashes m)"
proof -
  have n: "unat (ChunkCount m) = length (mf_ChunkHashes m)"
  proof (cases "mf_ChunkHashes m = []")
    case True
    then show ?thesis by (simp add: ChunkCount_def)
  next
    case False
    then show ?thesis using chunk_index_facts(4)[OF assms, of 0] by simp
  qed
  then have "i \<in> set (chunk_indices m)" if "unat i < length (mf_ChunkHashes m)"
    using that by (force simp: chunk_indices_def intro!: image_eqI[of _ _ "unat i"])
  moreover have "unat i < length (mf_ChunkHashes m)" if i: "i \<in> set (chunk_indices m)"
  proof -
    obtain k where k: "k < length (mf_ChunkHashes m)" "i = word_of_nat k" using i n by (auto simp: chunk_indices_def)
    then show ?thesis using chunk_index_facts(1)[OF assms k(1)] by simp
  qed
  ultimately show ?thesis by blast
qed

definition rv_shape :: "Receiver \<Rightarrow> bool" where
  "rv_shape r \<longleftrightarrow> validateManifest (rv_manifest r) (rv_limits r) = None \<and>
     length (mf_ChunkHashes (rv_manifest r)) < 2 ^ 63 \<and>
     length (rv_completed r) = bitmapLen (ChunkCount (rv_manifest r))"

lemma rv_inv_iff:
  "rv_inv C r \<longleftrightarrow> rv_shape r \<and>
     (rv_part r \<noteq> None \<longrightarrow> (\<forall>i < length (mf_ChunkHashes (rv_manifest r)). bitSet (rv_completed r) (word_of_nat i) \<longrightarrow> chunk_held C r i))"
  by (auto simp: rv_inv_def rv_shape_def chunk_held_def)

lemma revalidate_shape:
  assumes "rv_shape r" and "revalidate_loop C (chunk_indices (rv_manifest r)) False r w = ((e, ch, r'), w')"
  shows "reval_post C (chunk_indices (rv_manifest r)) r w e r' w' \<and> (e = None \<longrightarrow> rv_inv C r')"
proof -
  let ?m = "rv_manifest r"
  have v: "validateManifest ?m (rv_limits r) = None" "length (mf_ChunkHashes ?m) < 2 ^ 63"
    and lc: "length (rv_completed r) = bitmapLen (ChunkCount ?m)" using assms(1) by (auto simp: rv_shape_def)
  note S = chunk_indices_set[OF v]
  have "unat (i div 8) < length (rv_completed r)" if "unat i < length (mf_ChunkHashes ?m)" for i :: u32
    unfolding lc by (rule bitmap_index) (use chunk_index_facts(4)[OF v that] that in \<open>simp add: word_less_nat_alt\<close>)
  then have post: "reval_post C (chunk_indices ?m) r w e r' w'"
    using revalidate_loop_ok[OF assms(2) _ v] S by blast
  note P = post[unfolded reval_post_def]
  have "rv_inv C r'" if e: "e = None"
  proof -
    have shape: "rv_shape r'" using P assms(1) by (simp add: rv_shape_def rv_frame_def)
    have "chunk_held C r' i" if i: "i < length (mf_ChunkHashes ?m)" and b: "bitSet (rv_completed r') (word_of_nat i)" for i
    proof -
      have w: "unat (word_of_nat i :: u32) = i" using chunk_index_facts(1)[OF v i] .
      then have "word_of_nat i \<in> set (chunk_indices ?m)" using S i by simp
      then have "chunk_held C r i" using P e b w by fastforce
      moreover have "rv_part r' = rv_part r" "rv_manifest r' = rv_manifest r" using P by (auto simp: rv_frame_def)
      ultimately show ?thesis by (simp add: chunk_held_def split: option.splits)
    qed
    then show ?thesis using shape P by (auto simp: rv_inv_iff rv_frame_def)
  qed
  then show ?thesis using post by blast
qed

lemma revalidateCompleted_step:
  assumes sh: "rv_shape r" and rv: "revalidateCompleted C r w = ((e, r'), w')"
  shows "rv_frame r r' \<and> rv_part r' = rv_part r \<and>
    (\<forall>i. bitSet (rv_completed r') i \<longrightarrow> bitSet (rv_completed r) i) \<and> (e = None \<longrightarrow> rv_inv C r') \<and>
    (fw_faults w = [] \<longrightarrow> (\<forall>j < length (mf_ChunkHashes (rv_manifest r)).
       bitSet (rv_completed r') (word_of_nat j) \<longleftrightarrow> bitSet (rv_completed r) (word_of_nat j) \<and> chunk_held C r j))"
proof -
  obtain e1 ch r1 w1 where l: "revalidate_loop C (chunk_indices (rv_manifest r)) False r w = ((e1, ch, r1), w1)"
    by (metis prod.collapse)
  have r': "r' = r1" and e: "e = None \<Longrightarrow> e1 = None"
    using rv l by (auto simp: revalidateCompleted_def io_opt_def split: option.splits if_splits prod.splits)
  note P = revalidate_shape[OF sh l] and Q = revalidate_shape[OF sh l, THEN conjunct1, unfolded reval_post_def]
  have v: "validateManifest (rv_manifest r) (rv_limits r) = None" "length (mf_ChunkHashes (rv_manifest r)) < 2 ^ 63"
    using sh by (auto simp: rv_shape_def)
  have "bitSet (rv_completed r') (word_of_nat j) \<longleftrightarrow> bitSet (rv_completed r) (word_of_nat j) \<and> chunk_held C r j"
    if f: "fw_faults w = []" and j: "j < length (mf_ChunkHashes (rv_manifest r))" for j
  proof -
    have u: "unat (word_of_nat j :: u32) = j" using chunk_index_facts(1)[OF v j] .
    then have "word_of_nat j \<in> set (chunk_indices (rv_manifest r))" using chunk_indices_set[OF v] j by simp
    moreover have "e1 = None" using Q f by blast
    ultimately show ?thesis using Q f u unfolding r' by metis
  qed
  then show ?thesis using Q P e r' by blast
qed

text \<open>
  C13: nothing a resume token claims is taken on trust. Starting from any bitmap of the right length,
  when \<open>revalidateCompleted\<close> succeeds every bit still set belongs to a chunk whose bytes are in the
  partial file with the manifest's hash; it never sets a bit nor touches the file; and when nothing
  fails it clears exactly the bits whose chunk is not there.
\<close>

theorem revalidateCompleted_trusts_nothing:
  assumes "rv_shape r" and "revalidateCompleted C r w = ((e, r'), w')"
  shows "rv_frame r r' \<and> rv_part r' = rv_part r \<and>
    (\<forall>i. bitSet (rv_completed r') i \<longrightarrow> bitSet (rv_completed r) i) \<and> (e = None \<longrightarrow> rv_inv C r') \<and>
    (fw_faults w = [] \<longrightarrow> (\<forall>j < length (mf_ChunkHashes (rv_manifest r)).
       bitSet (rv_completed r') (word_of_nat j) \<longleftrightarrow> bitSet (rv_completed r) (word_of_nat j) \<and> chunk_held C r j))"
  by (rule revalidateCompleted_step[OF assms])

section \<open>Persisting without failures\<close>

lemma fs_no_faults:
  assumes "fw_faults w = []"
  shows "fs_sync w = (Inr (), w)" "fs_close w = (Inr (), w)" "syncRootDir w = (Inr (), w)" "ctx_err w = (Inr (), w)"
    "io_step e w = (Inr (), w)" "fs_write d name data w = (Inr (), set_dir d (AList.update name (Regular data) (fdir d w)) w)"
    "fs_op d f w = (case f (fdir d w) of Inl e \<Rightarrow> (Inl e, w) | Inr (a, fs) \<Rightarrow> (Inr a, set_dir d fs w))"
  using assms by (simp_all add: fs_sync_def fs_close_def syncRootDir_def ctx_err_def io_step_def pop_fault_def fs_write_def fs_op_def io_bind_def)

lemma set_dir_faults [simp]: "fw_faults (set_dir d fs w) = fw_faults w" "fw_random (set_dir d fs w) = fw_random w"
  "fw_manager (set_dir d fs w) = fw_manager w"
  by (cases d; simp)+

definition resume_temp :: "bytes \<Rightarrow> string" where
  "resume_temp rnd = temp_name ''resume-'' ''.new'' (copy_into (zeros 12) rnd)"

lemma persist_no_faults:
  assumes f: "fw_faults w = []" and rnd: "fw_random w = rnd # rs" and new: "map_of (fdir (transferRoot r) w) (resume_temp rnd) = None"
  shows "\<exists>w'. persist C r w = (Inr (), w') \<and> fw_faults w' = [] \<and> fw_random w' = rs \<and>
    map_of (fdir (transferRoot r) w') ''resume.state'' = Some (Regular (resume_MarshalBinary (resumeToken C r)))"
proof -
  let ?tmp = "resume_temp rnd" and ?w1 = "w\<lparr>fw_random := rs\<rparr>"
  let ?w2 = "set_dir (transferRoot r) (AList.update ?tmp (Regular []) (fdir (transferRoot r) w)) ?w1"
  have t: "?tmp \<noteq> ''resume.state''" by (simp add: resume_temp_def temp_name_def)
  have r12: "io_random 12 w = (Inr (copy_into (zeros 12) rnd), ?w1)"
    using f rnd by (simp add: io_random_def io_bind_def fs_no_faults)
  have cr: "fs_create (transferRoot r) ?tmp ?w1 = (Inr (), ?w2)"
    using f new by (simp add: fs_create_def fs_no_faults(7) map_has_def)
  have c: "persist_create (transferRoot r) 5 w = (Inr ?tmp, ?w2)"
    using r12 cr by (simp add: numeral_eq_Suc io_bind_def io_try_def resume_temp_def Let_def io_ret_def)
  have f2: "fw_faults ?w2 = []" using f by simp
  show ?thesis
    using t c f2 rnd unfolding persist_def Let_def
    by (simp add: io_bind_def io_try_def fs_no_faults fs_rename_def update_Some_unfold io_ret_def)
qed
text \<open>A successful \<open>persist\<close>, whatever failed before it, leaves the token in \<open>resume.state\<close>.\<close>

lemma persist_create_temp:
  "persist_create d n w = (Inr tmp, w') \<Longrightarrow> \<exists>rnd. tmp = temp_name ''resume-'' ''.new'' rnd"
proof (induction n arbitrary: w)
  case (Suc n)
  then obtain rnd w1 x w2 where "fs_create d (temp_name ''resume-'' ''.new'' rnd) w1 = (x, w2)"
    and "(case x of Inr _ \<Rightarrow> io_ret (temp_name ''resume-'' ''.new'' rnd)
     | Inl e \<Rightarrow> if e \<noteq> ErrExist then io_err e else persist_create d n) w2 = (Inr tmp, w')"
    unfolding persist_create.simps io_bind_Inr Let_def io_try_iff by blast
  then show ?case using Suc.IH by (cases x) (auto split: if_splits)
qed simp

lemma persist_Inr:
  assumes "persist C r w = (Inr u, w')"
  shows "map_of (fdir (transferRoot r) w') ''resume.state'' = Some (Regular (resume_MarshalBinary (resumeToken C r)))"
proof -
  let ?data = "resume_MarshalBinary (resumeToken C r)"
  obtain tmp w1 x w2 where c: "persist_create (transferRoot r) 5 w = (Inr tmp, w1)"
    and b: "io_seq (io_step (ErrIO ''secure resume state'')) (io_seq (fs_write (transferRoot r) tmp ?data) (io_seq fs_sync
          (io_seq fs_close (io_seq (fs_rename (transferRoot r) tmp ''resume.state'') syncRootDir)))) w1 = (x, w2)"
    and k: "(case x of Inl e \<Rightarrow> atomic_cleanup (transferRoot r) tmp e | Inr _ \<Rightarrow> io_try fs_close (\<lambda>_. io_ret ())) w2 = (Inr (), w')"
    using assms unfolding persist_def Let_def io_bind_Inr io_try_iff by (cases u) blast
  obtain rnd where "tmp = temp_name ''resume-'' ''.new'' rnd" using persist_create_temp[OF c] by blast
  then have ne: "tmp \<noteq> ''resume.state''" by (simp add: temp_name_def)
  note cl = cleanup_or_close_Inr[OF k]
  have "io_seq (io_step (ErrIO ''secure resume state'')) (io_seq (fs_write (transferRoot r) tmp ?data) (io_seq fs_sync
      (io_seq fs_close (io_seq (fs_rename (transferRoot r) tmp ''resume.state'') syncRootDir)))) w1 = (Inr (), w2)" using b cl by simp
  from io_seq_Inr[OF this] obtain w3 where "io_seq (fs_write (transferRoot r) tmp ?data) (io_seq fs_sync (io_seq fs_close
      (io_seq (fs_rename (transferRoot r) tmp ''resume.state'') syncRootDir))) w3 = (Inr (), w2)"
    by blast
  then have "map_of (fdir (transferRoot r) w') ''resume.state'' = Some (Regular ?data)" using write_rename_Inr[OF _ ne] cl by metis
  then show ?thesis .
qed

text \<open>The array fields of the receiver's offer.\<close>

definition rv_tokens_fit :: "crypto \<Rightarrow> Receiver \<Rightarrow> bool" where
  "rv_tokens_fit C r \<longleftrightarrow> wf_ResumeToken (resumeToken C r) \<and>
     resumeTokenFixedSize + length (rv_completed r) \<le> unat (MaxResumeBytes (normalized (rv_limits r)))"

lemma resumeToken_sel [simp]:
  "rt_Version (resumeToken C r) = ProtocolVersion" "rt_TransferID (resumeToken C r) = of_TransferID (rv_offer r)"
  "rt_ManifestCommitment (resumeToken C r) = of_ManifestCommitment (rv_offer r)"
  "rt_SenderSigning (resumeToken C r) = of_SenderSigning (rv_offer r)"
  "rt_RecipientSigning (resumeToken C r) = of_RecipientSigning (rv_offer r)"
  "rt_SenderBinding (resumeToken C r) = of_SenderBinding (rv_offer r)"
  "rt_RecipientBinding (resumeToken C r) = of_RecipientBinding (rv_offer r)"
  "rt_Completed (resumeToken C r) = rv_completed r"
  by (simp_all add: resumeToken_def signResume_def)

lemma resumeToken_verifies: "hash_sizes C \<Longrightarrow> verifyResume C (resumeToken C r) (rv_resumeKey r)"
  unfolding resumeToken_def by (rule verify_signResume) simp_all

lemma wf_resumeToken:
  "hash_sizes C \<Longrightarrow> wf_Offer (rv_offer r) \<Longrightarrow> wf_ResumeToken (resumeToken C r)"
  by (simp add: wf_ResumeToken_def rt_fields_def wf_Offer_def resumeToken_def signResume_def hash_sizesD of_fields_def)

text \<open>
  Progress survives a restart. When \<open>persist\<close> succeeds, whatever else failed, the file
  \<open>resume.state\<close> parses to a token that the receiver of the same offer and key accepts, and that
  marks exactly the chunks the receiver had marked.
\<close>

theorem persist_resumes:
  assumes "persist C r w = (Inr u, w')" and "hash_sizes C" and "wf_Offer (rv_offer r)"
    and "resumeTokenFixedSize + length (rv_completed r) \<le> unat (MaxResumeBytes (normalized (rv_limits r)))"
  shows "\<exists>data t. map_of (fdir (transferRoot r) w') ''resume.state'' = Some (Regular data) \<and>
    ParseResumeToken data (rv_limits r) = Inr t \<and> validToken C r t \<and> rt_Completed t = rv_completed r"
proof -
  have "resume_ok (rv_limits r) (resumeToken C r)"
    using assms wf_resumeToken by (simp add: resume_ok_def)
  then have "ParseResumeToken (resume_MarshalBinary (resumeToken C r)) (rv_limits r) = Inr (resumeToken C r)"
    by (rule resume_codec.roundtrip)
  moreover have "validToken C r (resumeToken C r)"
    using resumeToken_verifies[OF assms(2)] by (simp add: validToken_def)
  ultimately show ?thesis using persist_Inr[OF assms(1)] by fastforce
qed

section \<open>Sender and receiver\<close>

text \<open>The two ends of one transfer: the receiver opened the sender's offer.\<close>

definition paired :: "crypto \<Rightarrow> Sender \<Rightarrow> Receiver \<Rightarrow> bool" where
  "paired C s r \<longleftrightarrow> rv_offer r = sd_offer s \<and> rv_manifest r = sd_manifest s \<and> rv_contentKey r = sd_contentKey s \<and>
     deriveResumeKey C (sd_contentKey s) (of_TransferID (sd_offer s)) (of_ManifestCommitment (sd_offer s))
       (of_SenderSigning (sd_offer s)) (of_RecipientSigning (sd_offer s)) (of_SenderBinding (sd_offer s))
       (of_RecipientBinding (sd_offer s)) = Some (rv_resumeKey r) \<and> \<not> sd_closed s"

text \<open>
  A resume token tells the sender exactly what is missing. For the two ends of one transfer,
  \<open>MissingChunks\<close> accepts the token of the receiver and returns, in order, the indices whose bit the
  receiver has not set.
\<close>

theorem MissingChunks_exact:
  assumes "paired C s r" and "hash_sizes C" and "length (rv_completed r) = bitmapLen (ChunkCount (rv_manifest r))"
  shows "MissingChunks C s (resumeToken C r) = Inr (filter (\<lambda>i. \<not> bitSet (rv_completed r) i) (chunk_indices (rv_manifest r)))"
  using assms resumeToken_verifies[OF assms(2), of r]
  by (simp add: MissingChunks_def paired_def Let_def chunk_indices_def)
lemma open_EncryptChunk:
  assumes p: "paired C s r" and e: "EncryptChunk C cancelled s i = Inr chunk" and inv: "rv_inv C r"
    and a: "aead_works C" and o: "\<not> rv_closed r" "\<not> rv_finalized r"
  shows "\<exists>buf. open_chunk C r chunk = Inr buf \<and> ec_Index chunk = i"
proof -
  let ?m = "sd_manifest s"
  have v: "validateManifest ?m (rv_limits r) = None" "length (mf_ChunkHashes ?m) < 2 ^ 63"
    using inv p by (auto simp: rv_inv_def paired_def)
  obtain buf aead where g: "unat i < length (mf_ChunkHashes ?m)"
    "length buf = unat (chunk_size ?m i)" "sha256 C buf = mf_ChunkHashes ?m ! unat i" "chunkAEAD (sd_contentKey s) = Inr aead"
    and c: "chunk = \<lparr> ec_Index = i, ec_PlaintextSize = chunk_size ?m i, ec_Ciphertext = gcm_seal C aead
       (chunkNonce C (sd_contentKey s) (of_TransferID (sd_offer s)) i) buf
       (chunkAAD (of_TransferID (sd_offer s)) (of_ManifestCommitment (sd_offer s)) i (chunk_size ?m i)) \<rparr>"
    using e by (auto simp: EncryptChunk_def Let_def branch_simps chunk_size_def not_le)
  have "\<not> ChunkCount ?m \<le> i" using chunk_index_facts(4)[OF v g(1)] g(1) by (simp add: word_le_nat_alt)
  moreover have "length (gcm_seal C k n buf b) = length buf + 16" "gcm_open C k n (gcm_seal C k n buf b) b = Some buf" for k n b
    using a by (auto simp: aead_works_def)
  ultimately have "open_chunk C r chunk = Inr buf"
    using o p g c by (simp add: open_chunk_def Let_def paired_def)
  then show ?thesis using c by simp
qed

lemma store_no_faults:
  assumes "fw_faults w = []" "fw_random w = rnd # rs" "map_of (fdir (transferRoot r) w) (resume_temp rnd) = None" "rv_part r = Some p"
  shows "\<exists>r' w'. store_chunk C i plain r w = ((None, r'), w') \<and>
    map_of (fdir (transferRoot r) w') ''resume.state'' = Some (Regular (resume_MarshalBinary (resumeToken C r')))"
proof -
  let ?r1 = "r\<lparr>rv_part := Some (write_at p (chunk_offset (rv_manifest r) i) plain)\<rparr>"
  have "part_write r (chunk_offset (rv_manifest r) i) plain w = ((None, ?r1), w)"
    using assms by (simp add: part_write_def pop_fault_def)
  then show ?thesis
    using persist_no_faults[OF assms(1,2), of "?r1\<lparr>rv_completed := setBit (rv_completed ?r1) i\<rparr>" C] assms(3) fs_no_faults(1)[OF assms(1)]
    by (auto simp: store_chunk_def Let_def)
qed

lemma replay_no_faults:
  assumes inv: "rv_inv C r" and f: "fw_faults w = []" and p: "rv_part r = Some p"
    and i: "unat i < length (mf_ChunkHashes (rv_manifest r))" and b: "bitSet (rv_completed r) i"
    and len: "length plain = chunk_len (rv_manifest r) (unat i)"
  shows "check_replay C i plain r w = ((None, r), w)"
proof -
  have v: "validateManifest (rv_manifest r) (rv_limits r) = None" "length (mf_ChunkHashes (rv_manifest r)) < 2 ^ 63"
    using inv by (auto simp: rv_inv_def)
  have "chunk_stored C (rv_manifest r) p (unat i)" using inv p i b by (auto simp: rv_inv_def dest!: spec[of _ "unat i"])
  then show ?thesis using f p len chunk_index_facts(2)[OF v i]
    by (simp add: check_replay_def part_read_def fs_no_faults io_bind_def io_ret_def chunk_stored_def Let_def)
qed

lemma delivered:
  assumes p: "paired C s r" and e: "EncryptChunk C False s i = Inr chunk" and inv: "rv_inv C r"
    and a: "aead_works C" "aead_sizes C" and o: "\<not> rv_closed r" "\<not> rv_finalized r" "rv_part r = Some part"
    and w: "fw_faults w = []" "fw_random w = rnd # rs" "map_of (fdir (transferRoot r) w) (resume_temp rnd) = None"
  shows "\<exists>r' w'. ReceiveChunk C chunk r w = ((None, r'), w') \<and> bitSet (rv_completed r') i \<and> chunk_held C r' (unat i)"
proof -
  obtain buf where oc: "open_chunk C r chunk = Inr buf" "ec_Index chunk = i"
    using open_EncryptChunk[OF p e inv a(1) o(1,2)] by blast
  note O = open_chunk_Inr[OF oc(1) inv a(2), unfolded oc(2)]
  have "\<exists>r' w'. ReceiveChunk C chunk r w = ((None, r'), w') \<and> rv_part r' \<noteq> None"
  proof (cases "bitSet (rv_completed r) i")
    case True
    then show ?thesis using replay_no_faults[OF inv w(1) o(3) O(1) True O(2)] oc o(3) fs_no_faults(4)[OF w(1)]
      by (simp add: ReceiveChunk_def)
  next
    case False
    obtain r' w' where st: "store_chunk C i buf r w = ((None, r'), w')" using store_no_faults[OF w o(3)] by blast
    moreover have "rv_part r' \<noteq> None"
      using st o(3) by (auto simp: store_chunk_def Let_def part_write_def split: prod.splits sum.splits option.splits)
    ultimately show ?thesis using False oc fs_no_faults(4)[OF w(1)] by (simp add: ReceiveChunk_def)
  qed
  then obtain r' w' where rc: "ReceiveChunk C chunk r w = ((None, r'), w')" and pp: "rv_part r' \<noteq> None" by blast
  note S = ReceiveChunk_step[OF inv a(2) rc]
  have b: "bitSet (rv_completed r') i" using S O(1) oc(2) by (auto dest!: spec[of _ "unat i"])
  have "chunk_held C r' (unat i)"
    using S b O(1) pp by (auto simp: rv_inv_iff rv_frame_def dest!: spec[of _ "unat i"])
  then show ?thesis using rc b by blast
qed

text \<open>
  C12: a chunk that is sent arrives. Whatever has arrived before, the chunk the sender encrypts for
  index \<open>i\<close> is accepted by the receiver of the same transfer when no I/O fails: \<open>ReceiveChunk\<close> reports
  success, the bit of \<open>i\<close> is set and the verified bytes are in the partial file.
\<close>

theorem EncryptChunk_is_received:
  assumes "paired C s r" and "EncryptChunk C False s i = Inr chunk" and "rv_inv C r"
    and "aead_works C" "aead_sizes C" and "\<not> rv_closed r" "\<not> rv_finalized r" "rv_part r = Some part"
    and "fw_faults w = []" "fw_random w = rnd # rs" "map_of (fdir (transferRoot r) w) (resume_temp rnd) = None"
  shows "\<exists>r' w'. ReceiveChunk C chunk r w = ((None, r'), w') \<and> bitSet (rv_completed r') i \<and> chunk_held C r' (unat i)"
  by (rule delivered[OF assms])

section \<open>A transfer in small\<close>

definition sample_resume_key :: bytes where
  "sample_resume_key = the (let f = sd_offer sample_sender in deriveResumeKey sample_crypto (sd_contentKey sample_sender)
     (of_TransferID f) (of_ManifestCommitment f) (of_SenderSigning f) (of_RecipientSigning f) (of_SenderBinding f)
     (of_RecipientBinding f))"

definition sample_receiver :: Receiver where
  "sample_receiver = \<lparr> rv_stateID = hex_encode (of_TransferID (sd_offer sample_sender)), rv_part = Some [],
     rv_admission = fst (snd sample_claimed),
     rv_manifest = sd_manifest sample_sender, rv_contentKey = sd_contentKey sample_sender,
     rv_resumeKey = sample_resume_key, rv_offer = sd_offer sample_sender, rv_completed = [0],
     rv_finalized = False, rv_closed = False, rv_limits = DefaultLimits \<rparr>"

definition sample_chunk :: EncryptedChunk where
  "sample_chunk = projr (EncryptChunk sample_crypto False sample_sender 1)"

lemma sample_encrypts: "\<not> isl (EncryptChunk sample_crypto False sample_sender 1)"
  by code_simp

lemma sample_hashes: "length (mf_ChunkHashes (sd_manifest sample_sender)) = 3"
  by code_simp

lemma sample_transfer_facts:
  "validateManifest (sd_manifest sample_sender) DefaultLimits = None"
  "length (mf_ChunkHashes (sd_manifest sample_sender)) = 3" "ChunkCount (sd_manifest sample_sender) = 3"
  "\<not> sd_closed sample_sender"
  using NewSender_parts[OF sample_sender_made[unfolded sample_NewSender_def]] sample_hashes
  by (auto simp: ChunkCount_def)

lemma sample_offer_wf: "wf_Offer (sd_offer sample_sender)"
proof -
  have "makeOffer sample_crypto False (sd_manifest sample_sender) (sd_contentKey sample_sender) (Some (sample_device 1))
      (ld_peer (sample_device 2)) (from_unix 900) sample_random = Inr (sd_offer sample_sender)"
    using NewSender_parts[OF sample_sender_made[unfolded sample_NewSender_def]] by blast
  then show ?thesis
    by (rule makeOffer_shape[OF sample_crypto_works sample_device_ready sample_device_ready sample_offer_conditions(1-3)])
qed

lemma sample_chunk_made: "EncryptChunk sample_crypto False sample_sender 1 = Inr sample_chunk"
  using sample_encrypts unfolding sample_chunk_def
  by (cases "EncryptChunk sample_crypto False sample_sender 1") simp_all

lemma sample_receiver_sel:
  "rv_manifest sample_receiver = sd_manifest sample_sender" "rv_limits sample_receiver = DefaultLimits"
  "rv_completed sample_receiver = [0]" "rv_part sample_receiver = Some []" "rv_offer sample_receiver = sd_offer sample_sender"
  "\<not> rv_closed sample_receiver" "\<not> rv_finalized sample_receiver"
  "rv_contentKey sample_receiver = sd_contentKey sample_sender" "rv_resumeKey sample_receiver = sample_resume_key"
  by (simp_all add: sample_receiver_def)

lemma sample_receiver_ok: "rv_shape sample_receiver" "rv_inv sample_crypto sample_receiver"
proof -
  show shape: "rv_shape sample_receiver"
    unfolding rv_shape_def sample_receiver_sel sample_transfer_facts(1-3) by (simp add: bitmapLen_eq)
  have "\<not> bitSet [0] (word_of_nat i :: u32)" if "i < 3" for i
    using bitSet_zeros[of "word_of_nat i" 3] that by (simp add: bitmapLen_eq zeros_def word_less_nat_alt unat_of_nat)
  then show "rv_inv sample_crypto sample_receiver"
    unfolding rv_inv_iff sample_receiver_sel sample_transfer_facts(2) using shape by blast
qed

lemma sample_paired: "paired sample_crypto sample_sender sample_receiver"
proof -
  have "hkdf_sha256 sample_crypto k t i 32 \<noteq> None" for k t i by (simp add: sample_crypto_def)
  then show ?thesis using sample_transfer_facts(4)
    by (simp add: paired_def sample_receiver_def sample_resume_key_def deriveResumeKey_def Let_def)
qed

lemma ReceiveChunk_keeps_verified_witness:
  "rv_inv sample_crypto (snd (fst (ReceiveChunk sample_crypto sample_chunk sample_receiver sample_world)))"
  using ReceiveChunk_keeps_verified[OF sample_receiver_ok(2) sample_aead_sizes, of sample_chunk sample_world
      "fst (fst (ReceiveChunk sample_crypto sample_chunk sample_receiver sample_world))"
      "snd (fst (ReceiveChunk sample_crypto sample_chunk sample_receiver sample_world))"
      "snd (ReceiveChunk sample_crypto sample_chunk sample_receiver sample_world)"] by simp

lemma revalidate_no_faults:
  assumes "rv_shape r" "fw_faults w = []" "fw_random w = rnd # rs" "map_of (fdir (transferRoot r) w) (resume_temp rnd) = None"
  shows "\<exists>r' w'. revalidateCompleted C r w = ((None, r'), w')"
proof -
  obtain e ch r' w' where l: "revalidate_loop C (chunk_indices (rv_manifest r)) False r w = ((e, ch, r'), w')"
    by (metis prod.collapse)
  then have "e = None" "w' = w" "rv_stateID r' = rv_stateID r"
    using revalidate_shape[OF assms(1) l] assms(2) by (auto simp: reval_post_def rv_frame_def)
  then show ?thesis using l assms(4) persist_no_faults[OF assms(2,3), of r' C]
    by (auto simp: revalidateCompleted_def io_opt_def)
qed

lemma sample_world_sel: "fw_faults sample_world = []" "fw_random sample_world = zeros 12 # [be_enc 12 1]"
    "map_of (fdir d sample_world) (resume_temp (zeros 12)) = None"
  by (cases d; simp add: sample_world_def)+

lemma revalidateCompleted_trusts_nothing_witness:
  "rv_inv sample_crypto (snd (fst (revalidateCompleted sample_crypto (sample_receiver\<lparr>rv_completed := [255]\<rparr>) sample_world)))"
proof -
  let ?r = "sample_receiver\<lparr>rv_completed := [255]\<rparr>"
  have "rv_shape ?r" using sample_receiver_ok(1) by (simp add: rv_shape_def sample_receiver_sel)
  moreover from revalidate_no_faults[OF this sample_world_sel, of sample_crypto] obtain r' w' where
    "revalidateCompleted sample_crypto ?r sample_world = ((None, r'), w')" by blast
  ultimately show ?thesis using revalidateCompleted_trusts_nothing[of ?r sample_crypto sample_world None r' w'] by simp
qed

lemma sample_persisted: "\<exists>w'. persist sample_crypto sample_receiver sample_world = (Inr (), w')"
  using persist_no_faults[OF sample_world_sel, of sample_crypto sample_receiver] by blast

lemma persist_resumes_witness:
  "\<exists>data. map_of (fdir (transferRoot sample_receiver) (snd (persist sample_crypto sample_receiver sample_world))) ''resume.state'' = Some (Regular data)"
proof -
  obtain w' where p: "persist sample_crypto sample_receiver sample_world = (Inr (), w')" using sample_persisted by blast
  have "resumeTokenFixedSize + length (rv_completed sample_receiver) \<le> unat (MaxResumeBytes (normalized (rv_limits sample_receiver)))"
    unfolding sample_receiver_sel by code_simp
  moreover have "wf_Offer (rv_offer sample_receiver)" using sample_offer_wf by (simp add: sample_receiver_sel)
  ultimately show ?thesis using persist_resumes[OF p crypto_worksD(1)[OF sample_crypto_works]] p by auto
qed

lemma MissingChunks_exact_witness:
  "MissingChunks sample_crypto sample_sender (resumeToken sample_crypto sample_receiver) =
     Inr (filter (\<lambda>i. \<not> bitSet [0] i) (chunk_indices (sd_manifest sample_sender)))"
  using MissingChunks_exact[OF sample_paired crypto_worksD(1)[OF sample_crypto_works]] sample_receiver_ok(1)
  unfolding rv_shape_def sample_receiver_sel by blast

lemma EncryptChunk_is_received_witness:
  "\<exists>r' w'. ReceiveChunk sample_crypto sample_chunk sample_receiver sample_world = ((None, r'), w') \<and> bitSet (rv_completed r') 1"
proof -
  show ?thesis
    using EncryptChunk_is_received[OF sample_paired sample_chunk_made sample_receiver_ok(2) crypto_worksD(5)[OF sample_crypto_works]
      sample_aead_sizes sample_receiver_sel(6,7,4) sample_world_sel] by blast
qed

end
