(* ===== verification/FT_Lease.thy ===== *)
theory FT_Lease
  imports FT_State
begin

text \<open>
  File transfer, the directories below the state directory: opening, renaming and removing them
  (\<open>internal/filetransfer/state.go\<close>), and the lease that a process holds on one
  (\<open>lease.go\<close>). Which leases are held is part of the state; a lease belongs to the directory, so
  it follows a rename.
\<close>

section \<open>Observations that steps leave alone\<close>

definition io_keeps :: "(fsw \<Rightarrow> 'x) \<Rightarrow> 'a io \<Rightarrow> bool" where
  "io_keeps f m \<longleftrightarrow> (\<forall>w. f (snd (m w)) = f w)"

lemma keeps_bind: "io_keeps f m \<Longrightarrow> (\<And>a. io_keeps f (k a)) \<Longrightarrow> io_keeps f (io_bind m k)"
  unfolding io_keeps_def io_bind_def by (auto split: prod.split sum.split) (metis snd_conv)+

lemma keeps_try: "io_keeps f m \<Longrightarrow> (\<And>a. io_keeps f (k a)) \<Longrightarrow> io_keeps f (io_try m k)"
  unfolding io_keeps_def io_try_def by (auto split: prod.split) (metis snd_conv)+

lemma keeps_simple: "io_keeps f (io_ret a)" "io_keeps f (io_err e)" "io_keeps f (io_pure x)"
  by (simp_all add: io_keeps_def io_ret_def io_err_def io_pure_def)

lemma keepsI: "(\<And>w x w'. m w = (x, w') \<Longrightarrow> f w' = f w) \<Longrightarrow> io_keeps f m"
  unfolding io_keeps_def by (metis prod.collapse)

lemma keepsD: "io_keeps f m \<Longrightarrow> m w = (x, w') \<Longrightarrow> f w' = f w"
  unfolding io_keeps_def by (metis snd_conv)

lemma io_step_fdir: "io_step e w = (x, w') \<Longrightarrow> fdir d w' = fdir d w"
  by (drule io_step_cases) simp

lemma keeps_dirs: "io_keeps (fdir d) (io_step e)" "io_keeps (fdir d) (fs_lstat d' name)"
  by (rule keepsI, erule io_step_fdir lstat_dirs)+

lemma read_dirs: "readBoundedRootFile d name mx w = (x, w') \<Longrightarrow> fdir d' w' = fdir d' w"
proof (erule keepsD[where f = "fdir d'", rotated])
  show "io_keeps (fdir d') (readBoundedRootFile d name mx)"
    by (auto simp: readBoundedRootFile_def intro!: keeps_bind keeps_simple keeps_dirs split: entry.split)
qed

section \<open>Directories\<close>

definition lease_held :: "string \<Rightarrow> fsw \<Rightarrow> bool" where
  "lease_held n w \<longleftrightarrow> n \<in> set (fw_leases w)"

definition dir_rename :: "string \<Rightarrow> string \<Rightarrow> unit io" where
  "dir_rename a b = io_seq (io_step (ErrIO ''rename'')) (\<lambda>w.
     case map_of (fw_children w) a of None \<Rightarrow> (Inl ErrNotExist, w)
     | Some fs \<Rightarrow> if map_has (fw_children w) b \<or> map_has (fw_state w) b then (Inl ErrExist, w)
         else (Inr (), w\<lparr>fw_children := AList.update b fs (AList.delete a (fw_children w)),
           fw_leases := (if lease_held a w then b # removeAll a (fw_leases w) else removeAll b (fw_leases w))\<rparr>))"

definition dir_remove :: "string \<Rightarrow> unit io" where
  "dir_remove a = io_seq (io_step (ErrIO ''remove'')) (\<lambda>w.
     case map_of (fw_children w) a of None \<Rightarrow> (Inl ErrNotExist, w)
     | Some fs \<Rightarrow> if fs \<noteq> [] then (Inl (ErrIO ''directory not empty''), w)
         else (Inr (), w\<lparr>fw_children := AList.delete a (fw_children w), fw_leases := removeAll a (fw_leases w)\<rparr>))"

definition dir_create :: "string \<Rightarrow> unit io" where
  "dir_create a = io_seq (io_step (ErrIO ''mkdir'')) (\<lambda>w.
     if map_has (fw_children w) a \<or> map_has (fw_state w) a then (Inl ErrExist, w)
     else (Inr (), w\<lparr>fw_children := AList.update a [] (fw_children w), fw_leases := removeAll a (fw_leases w)\<rparr>))"

text \<open>\<open>Lstat\<close> of a name in the state directory: whether it is a directory.\<close>

definition dir_lstat :: "string \<Rightarrow> bool io" where
  "dir_lstat a = io_seq (io_step (ErrIO ''lstat'')) (\<lambda>w.
     if map_has (fw_children w) a then (Inr True, w)
     else if map_has (fw_state w) a then (Inr False, w) else (Inl ErrNotExist, w))"

text \<open>
  Opening and checking the state directory; that it does not exist is a failure of the first step,
  unless it is created.
\<close>

definition openVerifiedStateRoot :: "bool \<Rightarrow> unit io" where
  "openVerifiedStateRoot create =
     io_seq (io_step (if create then ErrIO ''create transfer state root'' else ErrNotExist)) (
     io_seq (io_step (ErrInvalidInput ''transfer state root is not a real directory'')) (
     io_seq (io_step (ErrIO ''open'')) (io_step (ErrInvalidInput ''transfer state root changed while opening''))))"

definition openVerifiedChild :: "string \<Rightarrow> unit io" where
  "openVerifiedChild name =
     io_bind (dir_lstat name) (\<lambda>isDir.
     if \<not> isDir then io_err (ErrInvalidInput ''transfer state is not a real directory'') else
     io_seq (io_step (ErrIO ''open'')) (io_step (ErrInvalidInput ''transfer state changed while opening'')))"

text \<open>Removing an unpublished staging directory.\<close>

definition cleanupStaging :: "string \<Rightarrow> unit io" where
  "cleanupStaging name =
     io_try (dir_lstat name) (\<lambda>x. case x of
       Inl e \<Rightarrow> if e = ErrNotExist then io_ret () else io_err e
     | Inr isDir \<Rightarrow>
         if \<not> isDir then io_err (ErrIO ''not a directory'') else
         io_try (removeStateContent (Child name)) (\<lambda>removeErr.
         io_try fs_close (\<lambda>closeErr.
         case (removeErr, closeErr) of
           (Inl e, _) \<Rightarrow> io_err e
         | (_, Inl e) \<Rightarrow> io_err e
         | _ \<Rightarrow> io_try (dir_remove name) (\<lambda>y. case y of
               Inl e \<Rightarrow> if e \<noteq> ErrNotExist then io_err e else syncRootDir
             | Inr _ \<Rightarrow> syncRootDir))))"

section \<open>Leases\<close>

text \<open>\<open>O_RDWR|O_CREATE\<close>.\<close>

definition fs_open_create :: "dir \<Rightarrow> string \<Rightarrow> unit io" where
  "fs_open_create d name = fs_op d (\<lambda>fs. case map_of fs name of
     None \<Rightarrow> Inr ((), AList.update name (Regular []) fs)
   | Some (Regular _) \<Rightarrow> Inr ((), fs)
   | Some (Irregular _) \<Rightarrow> Inl (ErrIO ''open''))"

definition lockFile :: "string \<Rightarrow> unit io" where
  "lockFile n = io_seq (io_step (ErrIO ''lock transfer lease'')) (\<lambda>w.
     if lease_held n w then (Inl ErrTransferBusy, w) else (Inr (), w\<lparr>fw_leases := n # fw_leases w\<rparr>))"

definition lease_precheck :: "string \<Rightarrow> unit io" where
  "lease_precheck n =
     io_try (fs_lstat (Child n) ''transfer.lock'') (\<lambda>x. case x of
       Inl e \<Rightarrow> if e \<noteq> ErrNotExist then io_err e else io_ret ()
     | Inr en \<Rightarrow> if is_irregular en then io_err (ErrInvalidInput ''transfer lease is not regular'') else io_ret ())"

definition acquireTransferLease :: "string \<Rightarrow> unit io" where
  "acquireTransferLease n =
     io_seq (lease_precheck n) (
     io_seq (fs_open_create (Child n) ''transfer.lock'') (
     io_seq (io_step (ErrIO ''secure transfer lease'')) (
     io_seq (io_step (ErrInvalidInput ''transfer lease changed while opening'')) (lockFile n))))"

definition lease_close :: "string \<Rightarrow> unit io" where
  "lease_close n = (\<lambda>w. case io_step (ErrIO ''unlock'') w of
     (r, w) \<Rightarrow> (r, w\<lparr>fw_leases := removeAll n (fw_leases w)\<rparr>))"

text \<open>\<open>errors.Join\<close>: no error, or (of the errors joined) the first.\<close>

fun errors_join :: "ft_error option list \<Rightarrow> ft_error option" where
  "errors_join [] = None"
| "errors_join (None # es) = errors_join es"
| "errors_join (Some e # es) = Some e"

lemma errors_join_None: "errors_join es = None \<longleftrightarrow> (\<forall>e \<in> set es. e = None)"
  by (induction es rule: errors_join.induct) auto

section \<open>Slots\<close>

text \<open>A transfer directory with its lease, which steps on other directories leave alone.\<close>

definition slot :: "string \<Rightarrow> fsw \<Rightarrow> files option \<times> bool" where
  "slot n w = (map_of (fw_children w) n, lease_held n w)"

abbreviation child_at :: "string \<Rightarrow> fsw \<Rightarrow> files option" where
  "child_at n \<equiv> \<lambda>w. map_of (fw_children w) n"

lemma keeps_child: "io_keeps (slot n) m \<Longrightarrow> io_keeps (child_at n) m"
  by (simp add: io_keeps_def slot_def)

lemma pop_fault_fields [simp]:
  "pop_fault w = (f, w') \<Longrightarrow> fw_children w' = fw_children w" "pop_fault w = (f, w') \<Longrightarrow> fw_leases w' = fw_leases w"
  by (auto simp: pop_fault_def split: list.splits)

lemma children_steps: "io_keeps fw_children (io_step e)" "io_keeps fw_children fs_close"
  by (auto simp: io_keeps_def io_step_def fs_close_def split: prod.split option.split)

named_theorems slot_keeps \<open>steps that leave a slot alone\<close>

lemma slot_steps [slot_keeps]:
  "io_keeps (slot n) (io_step e)" "io_keeps (slot n) fs_close" "io_keeps (slot n) syncRootDir"
  "io_keeps (slot n) (with_manager f)" "io_keeps (slot n) ctx_err" "io_keeps (slot n) (io_ret a)"
  "io_keeps (slot n) (io_err x)"
  by (auto simp: io_keeps_def io_step_def fs_close_def syncRootDir_def ctx_err_def with_manager_def slot_def
      lease_held_def io_ret_def io_err_def split: prod.split option.split)

lemma slot_random [slot_keeps]: "io_keeps (slot n) (io_random k)"
  unfolding io_random_def
  by (rule keeps_bind[OF slot_steps(1)]) (auto simp: io_keeps_def slot_def lease_held_def split: list.split)

lemma set_dir_leases [simp]: "fw_leases (set_dir d fs w) = fw_leases w"
  by (cases d) auto

lemma slot_op: "d \<noteq> Child n \<Longrightarrow> io_keeps (slot n) (fs_op d f)"
  unfolding fs_op_def
  by (rule keeps_bind, rule slot_steps, cases d) (auto simp: io_keeps_def slot_def lease_held_def split: sum.split)

lemma slot_ops [slot_keeps]:
  assumes "d \<noteq> Child n"
  shows "io_keeps (slot n) (fs_lstat d a)" "io_keeps (slot n) (fs_remove d a)" "io_keeps (slot n) (fs_readdir d k)"
    "io_keeps (slot n) (fs_open_create d a)"
  using assms by (simp_all add: fs_lstat_def fs_remove_def fs_readdir_def fs_open_create_def slot_op)

lemma slot_removable [slot_keeps]: "d \<noteq> Child n \<Longrightarrow> io_keeps (slot n) (removable d xs)"
  by (induction xs) (auto intro!: keeps_try keeps_bind slot_keeps split: sum.split entry.split prod.split)

lemma slot_remove_all [slot_keeps]: "d \<noteq> Child n \<Longrightarrow> io_keeps (slot n) (remove_all d xs)"
  by (induction xs) (auto intro!: keeps_try slot_keeps split: sum.split)

lemma slot_removeContent [slot_keeps]: "d \<noteq> Child n \<Longrightarrow> io_keeps (slot n) (removeStateContent d)"
  unfolding removeStateContent_def by (auto intro!: keeps_bind slot_keeps)

lemma slot_dirs [slot_keeps]:
  "n \<noteq> a \<Longrightarrow> n \<noteq> b \<Longrightarrow> io_keeps (slot n) (dir_rename a b)" "n \<noteq> a \<Longrightarrow> io_keeps (slot n) (dir_remove a)"
  "n \<noteq> a \<Longrightarrow> io_keeps (slot n) (dir_create a)" "io_keeps (slot n) (dir_lstat c)"
  unfolding dir_rename_def dir_remove_def dir_create_def dir_lstat_def
  by (intro keeps_bind slot_steps; auto simp: io_keeps_def slot_def lease_held_def split: option.split)+

lemma slot_open [slot_keeps]: "io_keeps (slot n) (openVerifiedStateRoot cr)" "io_keeps (slot n) (openVerifiedChild c)"
  unfolding openVerifiedStateRoot_def openVerifiedChild_def by (auto intro!: keeps_bind slot_keeps)

lemma slot_leases [slot_keeps]: "n \<noteq> a \<Longrightarrow> io_keeps (slot n) (acquireTransferLease a)" "n \<noteq> a \<Longrightarrow> io_keeps (slot n) (lease_close a)"
proof -
  show "io_keeps (slot n) (acquireTransferLease a)" if "n \<noteq> a"
  proof -
    have "io_keeps (slot n) (lockFile a)" unfolding lockFile_def
      by (rule keeps_bind[OF slot_steps(1)]) (use that in \<open>auto simp: io_keeps_def slot_def lease_held_def\<close>)
    then show ?thesis using that unfolding acquireTransferLease_def lease_precheck_def
      by (auto intro!: keeps_try keeps_bind slot_keeps split: sum.split)
  qed
  show "io_keeps (slot n) (lease_close a)" if "n \<noteq> a"
    using that by (auto simp: io_keeps_def slot_def lease_held_def lease_close_def io_step_def split: prod.split option.split)
qed


lemma dir_rename_slot: "n \<noteq> a \<Longrightarrow> n \<noteq> b \<Longrightarrow> dir_rename a b w = (x, w') \<Longrightarrow> slot n w' = slot n w"
  by (rule keepsD[OF slot_dirs(1)])

lemma dir_rename_Inr:
  assumes "dir_rename a b w = (Inr u, w')" "a \<noteq> b"
  shows "child_at a w' = None" "child_at b w' = child_at a w" "child_at a w \<noteq> None" "child_at b w = None"
  using assms keepsD[OF slot_steps(1)]
  by (auto simp: dir_rename_def io_bind_def slot_def map_has_def split: prod.splits sum.splits option.splits if_splits)

lemma dir_remove_Inr: "dir_remove a w = (Inr u, w') \<Longrightarrow> child_at a w' = None"
  using keepsD[OF slot_steps(1)]
  by (auto simp: dir_remove_def io_bind_def split: prod.splits sum.splits option.splits if_splits)

end
