(* ===== verification/FT_Publish.thy ===== *)
theory FT_Publish
  imports FT_Resumption FT_Lease
begin

text \<open>
  File transfer, the end of a transfer: the consumed tombstones of
  \<open>internal/filetransfer/tombstone.go\<close> and \<open>Finalize\<close> of
  \<open>receiver.go\<close>.
\<close>

section \<open>Operations on the receiver\<close>

definition rv_fail :: "ft_error \<Rightarrow> rv_op" where "rv_fail e r w = ((Some e, r), w)"

definition rv_done :: rv_op where "rv_done r w = ((None, r), w)"

definition rv_do :: "'a io \<Rightarrow> ('a \<Rightarrow> rv_op) \<Rightarrow> rv_op" where
  "rv_do m k r w = (case m w of (Inl e, w') \<Rightarrow> ((Some e, r), w') | (Inr a, w') \<Rightarrow> k a r w')"

definition rv_try :: "'a io \<Rightarrow> (ft_error + 'a \<Rightarrow> rv_op) \<Rightarrow> rv_op" where
  "rv_try m k r w = (case m w of (x, w') \<Rightarrow> k x r w')"

definition rv_set :: "(Receiver \<Rightarrow> Receiver) \<Rightarrow> rv_op \<Rightarrow> rv_op" where
  "rv_set f k r w = k (f r) w"

definition rv_get :: "(Receiver \<Rightarrow> rv_op) \<Rightarrow> rv_op" where
  "rv_get k r w = k r r w"

text \<open>A deferred call that runs with the outcome of the body.\<close>

definition rv_finally :: "rv_op \<Rightarrow> (ft_error option \<Rightarrow> unit io) \<Rightarrow> rv_op" where
  "rv_finally k f r w = (case k r w of ((e, r'), w') \<Rightarrow> ((e, r'), snd (f e w')))"

section \<open>Tombstones\<close>

definition consumedContext :: bytes where
  "consumedContext = str_bytes ''RatelMesh-File-Transfer-Consumed-v2'' @ [0]"

definition consumedSize :: nat where
  "consumedSize = 4 + 2 + 16 + 32 * 5 + 8 + 32"

definition consumedBytes :: "crypto \<Rightarrow> Receiver \<Rightarrow> bytes" where
  "consumedBytes C r =
     (let b = str_bytes ''RMFC'';
          b = appendU16 b ProtocolVersion;
          b = b @ of_TransferID (rv_offer r);
          b = b @ of_ManifestCommitment (rv_offer r);
          b = b @ of_SenderBinding (rv_offer r);
          b = b @ of_RecipientBinding (rv_offer r);
          b = b @ mf_ContentHash (rv_manifest r);
          b = appendU64 b (of_ExpiresAtUnix (rv_offer r))
      in b @ hmac_sha256 C (rv_resumeKey r) (consumedContext @ b))"

definition verifyConsumed :: "crypto \<Rightarrow> Receiver \<Rightarrow> string \<Rightarrow> bool io" where
  "verifyConsumed C r name =
     io_try (readBoundedRootFile (transferRoot r) name consumedSize) (\<lambda>x. case x of
       Inl e \<Rightarrow> if e = ErrNotExist then io_ret False else io_err e
     | Inr data \<Rightarrow> if data \<noteq> consumedBytes C r then io_err (ErrAuthentication []) else io_ret True)"

definition stageConsumed :: "crypto \<Rightarrow> Receiver \<Rightarrow> unit io" where
  "stageConsumed C r =
     io_bind (verifyConsumed C r ''consumed.pending'') (\<lambda>valid.
       if valid then io_ret ()
       else atomicWriteState (transferRoot r) ''consumed.pending'' (consumedBytes C r))"

definition commitConsumed :: "crypto \<Rightarrow> Receiver \<Rightarrow> unit io" where
  "commitConsumed C r =
     io_bind (verifyConsumed C r ''consumed.state'') (\<lambda>valid.
       if valid then io_ret () else
       io_bind (verifyConsumed C r ''consumed.pending'') (\<lambda>valid.
         if \<not> valid then io_err (ErrIntegrity []) else
         io_seq (fs_rename (transferRoot r) ''consumed.pending'' ''consumed.state'') syncRootDir))"

section \<open>Copying and verifying\<close>

definition copyBuffer :: nat where "copyBuffer = 2 ^ 20"

text \<open>
  The copy loop: what is left of the source, and what has been copied. It returns the error, if any,
  with the bytes copied so far; a source that ends early gives \<open>ErrEOF\<close>.
\<close>

function copyWithContext :: "(bytes \<Rightarrow> unit io) \<Rightarrow> nat \<Rightarrow> bytes \<Rightarrow> bytes \<Rightarrow> (ft_error option \<times> bytes) io" where
  "copyWithContext wr expected src copied =
    (if expected \<le> length copied then io_ret (None, copied) else
     io_try ctx_err (\<lambda>c. case c of Inl e \<Rightarrow> io_ret (Some e, copied) | Inr _ \<Rightarrow>
     io_try (io_step (ErrIO ''read completed transfer'')) (\<lambda>rd. case rd of Inl e \<Rightarrow> io_ret (Some e, copied) | Inr _ \<Rightarrow>
     if src = [] then io_ret (Some ErrEOF, copied) else
     let want = min copyBuffer (expected - length copied) in
     io_try (wr (take want src)) (\<lambda>x. case x of Inl _ \<Rightarrow> io_ret (Some (ErrIO ''write destination partial''), copied)
     | Inr _ \<Rightarrow> copyWithContext wr expected (drop want src) (copied @ take want src)))))"
  by pat_completeness auto

termination
  by (relation "measure (\<lambda>(_, _, src, _). length src)") (auto simp: copyBuffer_def)

declare copyWithContext.simps [simp del]

definition verifyRootFile :: "crypto \<Rightarrow> dir \<Rightarrow> string \<Rightarrow> i64 \<Rightarrow> bytes \<Rightarrow> unit io" where
  "verifyRootFile C d name sz expected =
     io_bind (fs_lstat d name) (\<lambda>before. case before of
       Irregular _ \<Rightarrow> io_err (ErrIntegrity [])
     | Regular data \<Rightarrow>
         if int (length data) \<noteq> sint sz then io_err (ErrIntegrity []) else
         io_seq (io_step (ErrIO ''open'')) (
         io_seq (io_step (ErrIntegrity [])) (
         io_bind (copyWithContext (\<lambda>_. io_ret ()) (Suc (unat sz)) data []) (\<lambda>(err, copied).
           if err \<noteq> None \<and> err \<noteq> Some ErrEOF then io_err (the err)
           else if int (length copied) \<noteq> sint sz \<or> sha256 C copied \<noteq> expected then io_err (ErrIntegrity [])
           else io_ret ()))))"

text \<open>The loop of \<open>Finalize\<close> that hashes the partial file: the bytes left, the bytes hashed.\<close>

function hash_part :: "bytes \<Rightarrow> bytes \<Rightarrow> bytes io" where
  "hash_part rest hashed =
     io_seq ctx_err (io_seq (io_step (ErrIO ''verify completed transfer'')) (
       if rest = [] then io_ret hashed
       else hash_part (drop copyBuffer rest) (hashed @ take copyBuffer rest)))"
  by pat_completeness auto

termination
  by (relation "measure (\<lambda>(rest, _). length rest)") (auto simp: copyBuffer_def)

declare hash_part.simps [simp del]
section \<open>Finalizing\<close>

definition drop_state_file :: "dir \<Rightarrow> string \<Rightarrow> unit io" where
  "drop_state_file d name = io_try (fs_remove d name) (\<lambda>x. case x of
     Inl e \<Rightarrow> if e \<noteq> ErrNotExist then io_err e else io_ret () | Inr _ \<Rightarrow> io_ret ())"

text \<open>
  Closing the handle of \<open>content.part\<close>: the bytes it holds are what the entry, if it still has the
  name, contains from then on.
\<close>

definition close_handle :: "dir \<Rightarrow> bytes \<Rightarrow> unit io" where
  "close_handle d p = io_seq (\<lambda>w. (Inr (), if map_has (fdir d w) ''content.part''
     then set_dir d (AList.update ''content.part'' (Regular p) (fdir d w)) w else w)) fs_close"

definition close_part :: "rv_op \<Rightarrow> rv_op" where
  "close_part k = rv_get (\<lambda>r. case rv_part r of None \<Rightarrow> k | Some p \<Rightarrow>
     rv_do (close_handle (transferRoot r) p) (\<lambda>_. rv_set (\<lambda>r. r\<lparr>rv_part := None\<rparr>) k))"

definition finalizeStateLocked :: "crypto \<Rightarrow> rv_op" where
  "finalizeStateLocked C =
     rv_get (\<lambda>r. rv_do (commitConsumed C r) (\<lambda>_.
     close_part (
     rv_do (drop_state_file (transferRoot r) ''content.part'') (\<lambda>_.
     rv_do (drop_state_file (transferRoot r) ''resume.state'') (\<lambda>_.
     rv_do (drop_state_file (transferRoot r) ''consumed.pending'') (\<lambda>_.
     rv_do syncRootDir (\<lambda>_.
     rv_set (\<lambda>r. r\<lparr>rv_finalized := True\<rparr>) (
     rv_do (with_manager (\<lambda>m. ((), markCompleted m (rv_admission r)))) (\<lambda>_.
     rv_do (with_manager (\<lambda>m. closeActive m (rv_admission r))) (\<lambda>a.
     rv_set (\<lambda>r. r\<lparr>rv_admission := a\<rparr>) rv_done))))))))))"

definition partial_name :: "Receiver \<Rightarrow> string" where
  "partial_name r = ''.ratelmesh-'' @ hex_encode (of_TransferID (rv_offer r)) @ ''.partial''"

abbreviation verify_dest :: "crypto \<Rightarrow> Receiver \<Rightarrow> string \<Rightarrow> unit io" where
  "verify_dest C r name \<equiv> verifyRootFile C DestDir name (mf_Size (rv_manifest r)) (mf_ContentHash (rv_manifest r))"

text \<open>\<open>Finalize\<close> when the destination exists: nothing but a recovered partial is touched.\<close>

definition finalize_existing :: "crypto \<Rightarrow> string \<Rightarrow> rv_op" where
  "finalize_existing C name = rv_get (\<lambda>r.
     rv_do (verify_dest C r name) (\<lambda>_.
     rv_try (fs_lstat DestDir (partial_name r)) (\<lambda>x. case x of
       Inr e \<Rightarrow> if is_dir e then rv_fail (ErrInvalidInput ''destination partial is a directory'') else
         rv_do (fs_remove DestDir (partial_name r)) (\<lambda>_. rv_do syncRootDir (\<lambda>_. finalizeStateLocked C))
     | Inl e \<Rightarrow> if e \<noteq> ErrNotExist then rv_fail e else rv_do syncRootDir (\<lambda>_. finalizeStateLocked C))))"

text \<open>The tail shared by recovery and a fresh copy: drop the partial link, then the state.\<close>

definition finalize_published :: "crypto \<Rightarrow> string \<Rightarrow> rv_op" where
  "finalize_published C name = rv_get (\<lambda>r.
     rv_do syncRootDir (\<lambda>_.
     rv_do (verify_dest C r name) (\<lambda>_.
     rv_do (fs_remove DestDir (partial_name r)) (\<lambda>_.
     rv_do syncRootDir (\<lambda>_. finalizeStateLocked C)))))"

text \<open>A verified partial of an earlier run: publish it again unless it was published already.\<close>

definition finalize_recover :: "crypto \<Rightarrow> string \<Rightarrow> rv_op" where
  "finalize_recover C name = rv_get (\<lambda>r.
     rv_try (fs_link DestDir (partial_name r) name) (\<lambda>x. case x of
       Inr _ \<Rightarrow> finalize_published C name
     | Inl e \<Rightarrow> rv_try (verify_dest C r name) (\<lambda>y. case y of
           Inl _ \<Rightarrow> rv_fail e
         | Inr _ \<Rightarrow> finalize_published C name)))"

text \<open>An append to the partial file; a failing one leaves a prefix of the piece.\<close>

definition fs_append :: "dir \<Rightarrow> string \<Rightarrow> bytes \<Rightarrow> unit io" where
  "fs_append d name piece = (\<lambda>w.
     let old = (case map_of (fdir d w) name of Some (Regular b) \<Rightarrow> b | _ \<Rightarrow> []) in
     case pop_fault w of
       (None, w) \<Rightarrow> (Inr (), set_dir d (AList.update name (Regular (old @ piece)) (fdir d w)) w)
     | (Some k, w) \<Rightarrow> (Inl (ErrIO ''write''), set_dir d (AList.update name (Regular (old @ take k piece)) (fdir d w)) w))"

text \<open>\<open>Seek(0, io.SeekStart)\<close>: what the reads after it will deliver.\<close>

definition part_seek :: "Receiver \<Rightarrow> bytes io" where
  "part_seek r = (case rv_part r of None \<Rightarrow> io_err (ErrIO ''seek completed transfer'')
     | Some p \<Rightarrow> io_seq (io_step (ErrIO ''seek completed transfer'')) (io_ret p))"

text \<open>Copy the verified partial next to the destination and link it there.\<close>

definition copy_out :: "crypto \<Rightarrow> Receiver \<Rightarrow> string \<Rightarrow> unit io" where
  "copy_out C r name =
     io_bind (part_seek r) (\<lambda>p.
     io_bind (copyWithContext (fs_append DestDir (partial_name r)) (unat (mf_Size (rv_manifest r))) p []) (\<lambda>(err, copied).
     if err \<noteq> None then io_err (the err)
     else if sha256 C copied \<noteq> mf_ContentHash (rv_manifest r) then io_err (ErrIntegrity []) else
     io_seq fs_sync (io_seq fs_close (fs_link DestDir (partial_name r) name))))"

definition finalize_copy :: "crypto \<Rightarrow> string \<Rightarrow> rv_op" where
  "finalize_copy C name = rv_get (\<lambda>r.
     rv_do (fs_create DestDir (partial_name r)) (\<lambda>_.
     rv_try (copy_out C r name) (\<lambda>x. case x of
       Inl e \<Rightarrow> rv_finally (rv_fail e) (\<lambda>_. io_try fs_close (\<lambda>_. fs_remove DestDir (partial_name r)))
     | Inr _ \<Rightarrow> rv_finally (finalize_published C name) (\<lambda>_. fs_close))))"

text \<open>The partial left by an earlier run, if there is one.\<close>

definition finalize_fresh :: "crypto \<Rightarrow> string \<Rightarrow> rv_op" where
  "finalize_fresh C name = rv_get (\<lambda>r.
     rv_try (fs_lstat DestDir (partial_name r)) (\<lambda>x. case x of
       Inl e \<Rightarrow> if e \<noteq> ErrNotExist then rv_fail e else finalize_copy C name
     | Inr _ \<Rightarrow> rv_try (verify_dest C r (partial_name r)) (\<lambda>y. case y of
           Inr _ \<Rightarrow> finalize_recover C name
         | Inl _ \<Rightarrow> rv_do ctx_err (\<lambda>_. rv_do (fs_remove DestDir (partial_name r)) (\<lambda>_.
             rv_do syncRootDir (\<lambda>_. finalize_copy C name))))))"

text \<open>\<open>Truncate\<close> to the manifest's size, then hash everything.\<close>

definition truncate_part :: "rv_op \<Rightarrow> rv_op" where
  "truncate_part k = rv_get (\<lambda>r. case rv_part r of None \<Rightarrow> rv_fail (ErrIO ''truncate completed transfer'')
     | Some p \<Rightarrow> rv_do (io_step (ErrIO ''truncate completed transfer'')) (\<lambda>_.
         rv_set (\<lambda>r. r\<lparr>rv_part := Some (take (unat (mf_Size (rv_manifest r))) (p @ zeros (unat (mf_Size (rv_manifest r)) - length p)))\<rparr>) k))"

definition verify_part :: "crypto \<Rightarrow> Receiver \<Rightarrow> unit io" where
  "verify_part C r =
     io_bind (part_seek r) (\<lambda>p.
     io_bind (hash_part p []) (\<lambda>hashed.
     if int (length hashed) \<noteq> sint (mf_Size (rv_manifest r)) \<or> sha256 C hashed \<noteq> mf_ContentHash (rv_manifest r)
     then io_err (ErrIntegrity []) else io_ret ()))"

definition Finalize :: "crypto \<Rightarrow> bool \<Rightarrow> string \<Rightarrow> rv_op" where
  "Finalize C hasDestination name = rv_get (\<lambda>r.
     if \<not> hasDestination then rv_fail (ErrInvalidInput ''nil destination root'') else
     case sanitizeFilename name (MaxFilenameBytes (rv_limits r)) of Inl e \<Rightarrow> rv_fail e | Inr _ \<Rightarrow>
     if rv_closed r then rv_fail ErrClosed
     else if rv_finalized r then rv_fail ErrAlreadyFinalized
     else if \<not> Complete r then rv_fail ErrIncomplete else
     rv_do ctx_err (\<lambda>_.
     rv_do (stageConsumed C r) (\<lambda>_.
     rv_try (fs_lstat DestDir name) (\<lambda>x. case x of
       Inr _ \<Rightarrow> finalize_existing C name
     | Inl e \<Rightarrow> if e \<noteq> ErrNotExist then rv_fail e else
         truncate_part (rv_get (\<lambda>r. rv_do (verify_part C r) (\<lambda>_. finalize_fresh C name)))))))"

section \<open>What finalizing touches\<close>

text \<open>\<open>rv_touches t k\<close>: for a receiver whose partial name is \<open>t\<close>, nothing but the entry \<open>t\<close> changes.\<close>

definition rv_touches :: "string \<Rightarrow> rv_op \<Rightarrow> bool" where
  "rv_touches t k \<longleftrightarrow> (\<forall>r w n. partial_name r = t \<longrightarrow> n \<noteq> t \<longrightarrow> map_of (fw_dest (snd (k r w))) n = map_of (fw_dest w) n)"

lemma rv_touchesD:
  "rv_touches t k \<Longrightarrow> k r w = (x, w') \<Longrightarrow> partial_name r = t \<Longrightarrow> n \<noteq> t \<Longrightarrow> map_of (fw_dest w') n = map_of (fw_dest w) n"
  unfolding rv_touches_def by (metis snd_conv)

definition io_dest :: "(string \<Rightarrow> bool) \<Rightarrow> 'a io \<Rightarrow> bool" where
  "io_dest P m \<longleftrightarrow> (\<forall>w n. \<not> P n \<longrightarrow> map_of (fw_dest (snd (m w))) n = map_of (fw_dest w) n)"

named_theorems dest_frame \<open>what an operation touches in the destination\<close>

lemma io_dest_touches: "io_touches DestDir P m \<Longrightarrow> io_dest P m"
  unfolding io_touches_def io_dest_def by (metis fdir.simps(2))

lemma io_dest_child: "io_touches (Child c) Q m \<Longrightarrow> io_dest P m"
  unfolding io_touches_def io_dest_def by (metis fdir.simps(2) dir.distinct(5))

lemma io_dest_bind: "io_dest P m \<Longrightarrow> (\<And>a. io_dest P (k a)) \<Longrightarrow> io_dest P (io_bind m k)"
  unfolding io_dest_def io_bind_def by (auto split: prod.split sum.split) (metis snd_conv)+

lemma io_dest_try: "io_dest P m \<Longrightarrow> (\<And>a. io_dest P (k a)) \<Longrightarrow> io_dest P (io_try m k)"
  unfolding io_dest_def io_try_def by (auto split: prod.split) (metis snd_conv)+

lemma rv_do_touches: "io_dest (\<lambda>n. n = t) m \<Longrightarrow> (\<And>a. rv_touches t (k a)) \<Longrightarrow> rv_touches t (rv_do m k)"
  unfolding rv_touches_def io_dest_def rv_do_def by (auto split: prod.split sum.split) (metis snd_conv)+

lemma rv_try_touches: "io_dest (\<lambda>n. n = t) m \<Longrightarrow> (\<And>a. rv_touches t (k a)) \<Longrightarrow> rv_touches t (rv_try m k)"
  unfolding rv_touches_def io_dest_def rv_try_def by (auto split: prod.split) (metis snd_conv)+

lemma rv_finally_touches: "rv_touches t k \<Longrightarrow> (\<And>e. io_dest (\<lambda>n. n = t) (f e)) \<Longrightarrow> rv_touches t (rv_finally k f)"
  unfolding rv_touches_def io_dest_def rv_finally_def by (auto split: prod.split) (metis snd_conv)+

lemma rv_simple_touches:
  "rv_touches t (rv_fail e)" "rv_touches t rv_done"
  by (simp_all add: rv_touches_def rv_fail_def rv_done_def)

lemma rv_set_touches: "rv_touches t k \<Longrightarrow> (\<And>r. partial_name (g r) = partial_name r) \<Longrightarrow> rv_touches t (rv_set g k)"
  by (simp add: rv_touches_def rv_set_def)

lemma rv_get_touches: "(\<And>r. partial_name r = t \<Longrightarrow> rv_touches t (h r)) \<Longrightarrow> rv_touches t (rv_get h)"
  by (simp add: rv_touches_def rv_get_def)

lemma partial_name_simps [simp]:
  "partial_name (r\<lparr>rv_part := p\<rparr>) = partial_name r" "partial_name (r\<lparr>rv_finalized := f\<rparr>) = partial_name r"
  "partial_name (r\<lparr>rv_admission := a\<rparr>) = partial_name r"
  by (simp_all add: partial_name_def)

definition part_only :: "dir \<Rightarrow> fsw \<Rightarrow> fsw \<Rightarrow> bool" where
  "part_only d w w' \<longleftrightarrow> (\<forall>n. n \<noteq> ''content.part'' \<longrightarrow> map_of (fdir d w') n = map_of (fdir d w) n) \<and>
     (\<forall>d'. d' \<noteq> d \<longrightarrow> fdir d' w' = fdir d' w)"

lemma part_onlyD:
  "part_only d w w' \<Longrightarrow> n \<noteq> ''content.part'' \<Longrightarrow> map_of (fdir d w') n = map_of (fdir d w) n"
  by (simp add: part_only_def)

lemma close_handle_only:
  assumes "close_handle d p w = (x, w')"
  shows "part_only d w w'"
proof -
  let ?w = "if map_has (fdir d w) ''content.part'' then set_dir d (AList.update ''content.part'' (Regular p) (fdir d w)) w else w"
  have c: "fs_close ?w = (x, w')" using assms by (simp add: close_handle_def io_bind_def)
  have k: "fdir d' w' = fdir d' ?w" for d' by (rule sync_dirs(2)[OF c])
  show ?thesis unfolding part_only_def k by simp
qed

lemma close_handle_dest: "io_dest P (close_handle (Child c) p)"
proof (rule io_dest_child[of c "\<lambda>n. n = ''content.part''"])
  have "part_only (Child c) w (snd (close_handle (Child c) p w))" for w
    by (rule close_handle_only[of "Child c" p w "fst (close_handle (Child c) p w)"]) simp
  then show "io_touches (Child c) (\<lambda>n. n = ''content.part'') (close_handle (Child c) p)"
    unfolding io_touches_def part_only_def by blast
qed

lemma close_part_touches: "rv_touches t k \<Longrightarrow> rv_touches t (close_part k)"
  unfolding close_part_def
  by (auto intro!: rv_get_touches rv_set_touches rv_do_touches close_handle_dest split: option.split)

lemma drop_state_touches: "io_dest P (drop_state_file (Child c) name)"
  unfolding drop_state_file_def
  by (rule io_dest_try) (auto intro!: io_dest_child[of c "\<lambda>_. True"] io_frame split: sum.split)

lemma verifyConsumed_touches: "io_touches (Child c) Q (verifyConsumed C r name)"
  if "c = rv_stateID r"
  unfolding verifyConsumed_def that by (rule touches_try[OF touches_read]) (auto intro!: io_frame split: sum.split)

lemma commit_touches: "io_dest P (commitConsumed C r)"
  unfolding commitConsumed_def
  by (rule io_dest_child[of "rv_stateID r" "\<lambda>_. True"]) (auto intro!: touches_bind verifyConsumed_touches io_frame)

lemma stage_touches: "io_dest P (stageConsumed C r)"
  unfolding stageConsumed_def
  by (rule io_dest_child[of "rv_stateID r" "\<lambda>_. True"]) (auto intro!: touches_bind verifyConsumed_touches io_frame)

lemma dest_steps: "io_dest P syncRootDir" "io_dest P (with_manager f)" "io_dest P ctx_err" "io_dest P fs_close"
  "io_dest P (fs_lstat DestDir n)" "P n \<Longrightarrow> io_dest P (fs_remove DestDir n)" "P n \<Longrightarrow> io_dest P (fs_create DestDir n)" "io_dest P (io_step e)"
  by (rule io_dest_touches, (rule io_frame)+, assumption?)+

lemma state_touches: "rv_touches t (finalizeStateLocked C)"
  unfolding finalizeStateLocked_def
  by (intro rv_get_touches rv_set_touches rv_do_touches commit_touches close_part_touches drop_state_touches dest_steps)
     (simp_all add: rv_simple_touches)

text \<open>
  The copy loop for an invariant \<open>J\<close> of what has been copied: \<open>J\<close> survives failing steps, and a write
  extends it; \<open>K\<close> is what is left when a write failed.
\<close>

lemma copy_loop:
  assumes "copyWithContext wr n src acc w = (x, w')" and "J acc w"
    and "\<And>e w x w' acc. io_step e w = (x, w') \<Longrightarrow> J acc w \<Longrightarrow> J acc w'"
    and "\<And>piece w u w' acc. wr piece w = (Inr u, w') \<Longrightarrow> J acc w \<Longrightarrow> J (acc @ piece) w'"
    and "\<And>piece w e w' acc. wr piece w = (Inl e, w') \<Longrightarrow> J acc w \<Longrightarrow> K w'" and "\<And>acc w. J acc w \<Longrightarrow> K w"
  shows "\<exists>err copied k. x = Inr (err, copied) \<and> copied = acc @ take k src \<and> K w' \<and>
    (err = None \<longrightarrow> n \<le> length copied \<and> J copied w') \<and> (length acc \<le> n \<longrightarrow> length copied \<le> n)"
  using assms(1,2)
proof (induction "length src" arbitrary: src acc w rule: less_induct)
  case less
  have stop: ?case if "x = Inr (err, acc)" "w' = w1" "J acc w1" "err = None \<longrightarrow> n \<le> length acc" for err w1
    using that assms(6) by (intro exI[of _ err] exI[of _ acc] exI[of _ 0]) auto
  show ?case
  proof (cases "n \<le> length acc")
    case True
    then show ?thesis using less.prems stop[of None w] by (simp add: copyWithContext.simps[of wr n src acc])
  next
    case n: False
    obtain c w1 where c: "ctx_err w = (c, w1)" by fastforce
    have J1: "J acc w1" using assms(3) c less.prems(2) by (auto simp: ctx_err_def)
    obtain rd w2 where rd: "io_step (ErrIO ''read completed transfer'') w1 = (rd, w2)" by fastforce
    have J2: "J acc w2" using assms(3)[OF rd J1] .
    note eq = less.prems(1)[unfolded copyWithContext.simps[of wr n src acc] if_not_P[OF n]]
    show ?thesis
    proof (cases "isl c \<or> isl rd \<or> src = []")
      case True
      then show ?thesis using eq c rd J1 J2 stop[of _ w1] stop[of _ w2]
        by (auto simp: io_try_def isl_def split: sum.splits)
    next
      case False
      let ?want = "min copyBuffer (n - length acc)"
      obtain y w3 where wr: "wr (take ?want src) w2 = (y, w3)" by fastforce
      show ?thesis
      proof (cases y)
        case (Inl e)
        then have "x = Inr (Some (ErrIO ''write destination partial''), acc)" "w' = w3"
          using eq c rd False wr by (auto simp: io_try_def Let_def split: sum.splits)
        then show ?thesis using assms(5)[of _ w2 e w3 acc] wr Inl J2
          by (intro exI[of _ "Some (ErrIO ''write destination partial'')"] exI[of _ acc] exI[of _ 0]) auto
      next
        case (Inr u)
        have rec: "copyWithContext wr n (drop ?want src) (acc @ take ?want src) w3 = (x, w')"
          using eq c rd False wr Inr by (auto simp: io_try_def Let_def split: sum.splits)
        have "length (drop ?want src) < length src" using False n by (auto simp: copyBuffer_def)
        from less.hyps[OF this rec] assms(4)[of _ w2 u w3 acc] wr Inr J2
        obtain err copied k where IH: "x = Inr (err, copied)" "copied = (acc @ take ?want src) @ take k (drop ?want src)"
          "K w'" "err = None \<longrightarrow> n \<le> length copied \<and> J copied w'"
          "length (acc @ take ?want src) \<le> n \<longrightarrow> length copied \<le> n" by blast
        have "copied = acc @ take (?want + k) src" using IH(2) by (simp add: take_add)
        moreover have "length (acc @ take ?want src) \<le> n" using n by simp
        ultimately show ?thesis using IH by blast
      qed
    qed
  qed
qed

lemma copy_null:
  assumes "copyWithContext (\<lambda>_. io_ret ()) n src [] w = (x, w')"
  shows "\<exists>err k. x = Inr (err, take k src)" "fdir d w' = fdir d w"
proof -
  let ?J = "\<lambda>w'. \<forall>d. fdir d w' = fdir d w"
  have "\<exists>err copied k. x = Inr (err, copied) \<and> copied = [] @ take k src \<and> ?J w' \<and>
      (err = None \<longrightarrow> n \<le> length copied \<and> ?J w') \<and> (length ([] :: bytes) \<le> n \<longrightarrow> length copied \<le> n)"
    by (rule copy_loop[OF assms, where J = "\<lambda>_. ?J"]) (simp_all add: io_step_fdir)
  then show "\<exists>err k. x = Inr (err, take k src)" "fdir d w' = fdir d w" by auto
qed

lemma copy_null_keeps: "io_keeps (fdir d) (copyWithContext (\<lambda>_. io_ret ()) n src [])"
  by (rule keepsI) (erule copy_null(2))

lemma verifyRoot_dirs: "verifyRootFile C d name sz hash w = (x, w') \<Longrightarrow> fdir d' w' = fdir d' w"
proof (erule keepsD[where f = "fdir d'", rotated])
  show "io_keeps (fdir d') (verifyRootFile C d name sz hash)"
    by (auto simp: verifyRootFile_def intro!: keeps_bind keeps_simple keeps_dirs copy_null_keeps split: entry.split)
qed

lemma verifyRoot_Inr:
  assumes "verifyRootFile C d name sz hash w = (Inr u, w')"
  shows "\<exists>data. map_of (fdir d w) name = Some (Regular data) \<and> int (length data) = sint sz \<and> sha256 C data = hash"
proof -
  obtain en w1 where l: "fs_lstat d name w = (Inr en, w1)"
    and k: "(case en of Irregular _ \<Rightarrow> io_err (ErrIntegrity [])
     | Regular data \<Rightarrow>
         if int (length data) \<noteq> sint sz then io_err (ErrIntegrity []) else
         io_seq (io_step (ErrIO ''open'')) (
         io_seq (io_step (ErrIntegrity [])) (
         io_bind (copyWithContext (\<lambda>_. io_ret ()) (Suc (unat sz)) data []) (\<lambda>(err, copied).
           if err \<noteq> None \<and> err \<noteq> Some ErrEOF then io_err (the err)
           else if int (length copied) \<noteq> sint sz \<or> sha256 C copied \<noteq> hash then io_err (ErrIntegrity [])
           else io_ret ())))) w1 = (Inr u, w')"
    using assms unfolding verifyRootFile_def io_bind_Inr by blast
  obtain data where d: "en = Regular data" "int (length data) = sint sz" using k by (cases en) (auto split: if_splits)
  obtain y w2 w3 where c: "copyWithContext (\<lambda>_. io_ret ()) (Suc (unat sz)) data [] w2 = (Inr y, w3)"
    and y: "int (length (snd y)) = sint sz" "sha256 C (snd y) = hash"
    using k d by (auto simp: io_bind_Inr split: if_splits prod.splits)
  obtain k where "snd y = take k data" using copy_null(1)[OF c] by auto
  then have "snd y = data" using y(1) d(2) by (cases "k \<le> length data") auto
  then show ?thesis using lstat_Inr[OF l] d y by simp
qed

definition verified :: "crypto \<Rightarrow> Manifest \<Rightarrow> entry option \<Rightarrow> bool" where
  "verified C m en \<longleftrightarrow> (\<exists>data. en = Some (Regular data) \<and> int (length data) = sint (mf_Size m) \<and> sha256 C data = mf_ContentHash m)"

lemma verify_dest_Inr:
  "verify_dest C r name w = (Inr u, w') \<Longrightarrow> verified C (rv_manifest r) (map_of (fw_dest w) name) \<and> fw_dest w' = fw_dest w"
  using verifyRoot_Inr[of C DestDir name] verifyRoot_dirs[of C DestDir name _ _ _ _ _ DestDir] by (fastforce simp: verified_def)

lemma verify_touches: "io_dest P (verify_dest C r name)"
  unfolding io_dest_def using verifyRoot_dirs[of C DestDir name _ _ _ _ _ DestDir] by (metis fdir.simps(2) prod.collapse)

section \<open>Copying out\<close>

lemma append_cases:
  assumes "fs_append d name piece w = (x, w')" and "map_of (fdir d w) name = Some (Regular acc)"
  shows "(x = Inr () \<longrightarrow> map_of (fdir d w') name = Some (Regular (acc @ piece)))"
    "\<forall>n. n \<noteq> name \<longrightarrow> map_of (fdir d w') n = map_of (fdir d w) n"
  using assms by (auto simp: fs_append_def Let_def split: prod.splits option.splits)

lemma copy_append:
  assumes "copyWithContext (fs_append DestDir name) n src [] w = (x, w')" and "map_of (fw_dest w) name = Some (Regular [])"
  shows "\<exists>err copied. x = Inr (err, copied) \<and> (\<forall>m. m \<noteq> name \<longrightarrow> map_of (fw_dest w') m = map_of (fw_dest w) m) \<and>
    (err = None \<longrightarrow> length copied = n \<and> map_of (fw_dest w') name = Some (Regular copied))"
proof -
  let ?F = "\<lambda>w'. \<forall>m. m \<noteq> name \<longrightarrow> map_of (fw_dest w') m = map_of (fw_dest w) m"
  let ?J = "\<lambda>acc w'. ?F w' \<and> map_of (fw_dest w') name = Some (Regular acc)"
  have 1: "?J acc w2" if "io_step e w1 = (y, w2)" "?J acc w1" for e w1 y w2 acc
    using io_step_fdir[OF that(1), of DestDir] that(2) by simp
  have 2: "?J (acc @ piece) w2" if "fs_append DestDir name piece w1 = (Inr u, w2)" "?J acc w1" for piece w1 u w2 acc
    using append_cases[OF that(1)] that(2) by simp
  have 3: "?F w2" if "fs_append DestDir name piece w1 = (Inl e, w2)" "?J acc w1" for piece w1 e w2 acc
    using append_cases[OF that(1)] that(2) by simp
  obtain err copied k where "x = Inr (err, copied)" "copied = [] @ take k src" "?F w'"
    "err = None \<longrightarrow> n \<le> length copied \<and> ?J copied w'" "length ([] :: bytes) \<le> n \<longrightarrow> length copied \<le> n"
    using copy_loop[OF assms(1), where J = ?J and K = ?F] assms(2) 1 2 3 by blast
  then show ?thesis by auto
qed

lemma link_cases:
  assumes "fs_link d a b w = (x, w')" "a \<noteq> b"
  shows "(\<forall>n. n \<noteq> b \<longrightarrow> map_of (fdir d w') n = map_of (fdir d w) n)"
    "x = Inr () \<longrightarrow> map_of (fdir d w) b = None \<and> map_of (fdir d w') b = map_of (fdir d w) a"
    "x \<noteq> Inr () \<longrightarrow> fdir d w' = fdir d w"
  using assms(1) unfolding fs_link_def fs_op_def io_bind_def
  by (auto split: prod.splits sum.splits option.splits if_splits simp: map_has_def dest!: io_step_cases)

text \<open>One entry: untouched, or absent before and verified now.\<close>

definition name_ok :: "crypto \<Rightarrow> Manifest \<Rightarrow> string \<Rightarrow> fsw \<Rightarrow> fsw \<Rightarrow> bool" where
  "name_ok C m name w w' \<longleftrightarrow> map_of (fw_dest w') name = map_of (fw_dest w) name \<or>
     map_of (fw_dest w) name = None \<and> verified C m (map_of (fw_dest w') name)"


lemma seek_cases: "part_seek r w = (x, w') \<Longrightarrow> fdir d w' = fdir d w"
  by (auto simp: part_seek_def io_bind_def split: option.splits prod.splits sum.splits dest!: io_step_fdir[where d = d])

lemma copy_out_cases:
  assumes c: "copy_out C r name w = (x, w')" and ne: "name \<noteq> partial_name r" and sz: "0 \<le> sint (mf_Size (rv_manifest r))"
    and t: "map_of (fw_dest w) (partial_name r) = Some (Regular [])"
  shows "(\<forall>n. n \<noteq> name \<longrightarrow> n \<noteq> partial_name r \<longrightarrow> map_of (fw_dest w') n = map_of (fw_dest w) n) \<and>
    name_ok C (rv_manifest r) name w w'"
proof -
  let ?tmp = "partial_name r" and ?m = "rv_manifest r"
  obtain y w1 where s: "part_seek r w = (y, w1)" by fastforce
  have d1: "fw_dest w1 = fw_dest w" using seek_cases[OF s, of DestDir] by simp
  show ?thesis
  proof (cases y)
    case (Inl e)
    then show ?thesis using c s d1 by (simp add: copy_out_def io_bind_def name_ok_def)
  next
    case (Inr p)
    obtain z w2 where cw: "copyWithContext (fs_append DestDir ?tmp) (unat (mf_Size ?m)) p [] w1 = (z, w2)" by fastforce
    from copy_append[OF cw] t d1 obtain err copied where z: "z = Inr (err, copied)"
      and fr: "\<forall>m. m \<noteq> ?tmp \<longrightarrow> map_of (fw_dest w2) m = map_of (fw_dest w) m"
      and cp: "err = None \<longrightarrow> length copied = unat (mf_Size ?m) \<and> map_of (fw_dest w2) ?tmp = Some (Regular copied)" by auto
    show ?thesis
    proof (cases "err \<noteq> None \<or> sha256 C copied \<noteq> mf_ContentHash ?m")
      case True
      then show ?thesis using c s Inr cw z fr ne by (auto simp: copy_out_def io_bind_def name_ok_def split: if_splits)
    next
      case False
      then have tail: "io_seq fs_sync (io_seq fs_close (fs_link DestDir ?tmp name)) w2 = (x, w')"
        using c s Inr cw z by (simp add: copy_out_def io_bind_def)
      show ?thesis
      proof (cases "fw_dest w' = fw_dest w2")
        case True
        then show ?thesis using fr ne by (simp add: name_ok_def)
      next
        case changed: False
        obtain w4 where l: "fs_link DestDir ?tmp name w4 = (x, w')" and d4: "fw_dest w4 = fw_dest w2"
          using tail changed sync_dirs(1)[of w2 _ _ DestDir] sync_dirs(2)[of _ _ _ DestDir]
          by (auto simp: io_bind_def split: prod.splits sum.splits)
        have "x = Inr ()" using link_cases(3)[OF l] ne changed d4 by auto
        moreover have "verified C ?m (map_of (fw_dest w2) ?tmp)" using cp False sint_eq_unat64[OF sz]
          by (auto simp: verified_def)
        ultimately show ?thesis using link_cases(1,2)[OF l] ne fr d4 by (auto simp: name_ok_def)
      qed
    qed
  qed
qed

section \<open>The outcome of finalizing\<close>

lemma rv_do_None:
  "rv_do m k r w = ((None, r'), w') \<longleftrightarrow> (\<exists>a w1. m w = (Inr a, w1) \<and> k a r w1 = ((None, r'), w'))"
  by (auto simp: rv_do_def split: prod.splits sum.splits)

lemma published_touches: "rv_touches t (finalize_published C name)"
  unfolding finalize_published_def
  by (intro rv_get_touches rv_do_touches dest_steps verify_touches state_touches) simp_all

text \<open>What holds when the state files were dropped: the tombstone, a receiver marked final.\<close>

definition final_state :: "crypto \<Rightarrow> Receiver \<Rightarrow> Receiver \<Rightarrow> fsw \<Rightarrow> bool" where
  "final_state C r r' w' \<longleftrightarrow> rv_finalized r' \<and> rv_part r' = None \<and>
     map_of (fdir (transferRoot r) w') ''consumed.state'' = Some (Regular (consumedBytes C r)) \<and>
     (\<forall>n \<in> {''content.part'', ''resume.state'', ''consumed.pending''}. map_of (fdir (transferRoot r) w') n = None)"

lemma verifyConsumed_Inr:
  assumes "verifyConsumed C r name w = (Inr b, w')"
  shows "fdir d w' = fdir d w" "b \<Longrightarrow> map_of (fdir (transferRoot r) w) name = Some (Regular (consumedBytes C r))"
proof -
  obtain x w1 where rd: "readBoundedRootFile (transferRoot r) name consumedSize w = (x, w1)"
    and k: "(case x of Inl e \<Rightarrow> if e = ErrNotExist then io_ret False else io_err e
     | Inr data \<Rightarrow> if data \<noteq> consumedBytes C r then io_err (ErrAuthentication []) else io_ret True) w1 = (Inr b, w')"
    using assms unfolding verifyConsumed_def io_try_iff by blast
  have w1: "w' = w1" using k by (cases x) (auto split: if_splits)
  show "fdir d w' = fdir d w" using read_dirs[OF rd] w1 by simp
  show "map_of (fdir (transferRoot r) w) name = Some (Regular (consumedBytes C r))" if b
    using k rd that read_Inr(1)[of "transferRoot r" name consumedSize w] by (cases x) (auto split: if_splits)
qed

lemma commit_Inr:
  assumes "commitConsumed C r w = (Inr u, w')"
  shows "map_of (fdir (transferRoot r) w') ''consumed.state'' = Some (Regular (consumedBytes C r))"
proof -
  obtain v w1 where v: "verifyConsumed C r ''consumed.state'' w = (Inr v, w1)"
    and k: "(if v then io_ret () else
       io_bind (verifyConsumed C r ''consumed.pending'') (\<lambda>valid.
         if \<not> valid then io_err (ErrIntegrity []) else
         io_seq (fs_rename (transferRoot r) ''consumed.pending'' ''consumed.state'') syncRootDir)) w1 = (Inr u, w')"
    using assms unfolding commitConsumed_def io_bind_Inr by blast
  show ?thesis
  proof (cases v)
    case True
    then show ?thesis using verifyConsumed_Inr(1)[OF v, of "transferRoot r"] verifyConsumed_Inr(2)[OF v] k by simp
  next
    case False
    then obtain p w2 where p: "verifyConsumed C r ''consumed.pending'' w1 = (Inr p, w2)"
      and k2: "(if \<not> p then io_err (ErrIntegrity []) else
         io_seq (fs_rename (transferRoot r) ''consumed.pending'' ''consumed.state'') syncRootDir) w2 = (Inr u, w')"
      using k by (auto simp: io_bind_Inr)
    then obtain w3 u3 where rn: "fs_rename (transferRoot r) ''consumed.pending'' ''consumed.state'' w2 = (Inr u3, w3)"
      and sy: "syncRootDir w3 = (Inr u, w')" by (auto simp: io_bind_Inr split: if_splits)
    have "map_of (fdir (transferRoot r) w2) ''consumed.pending'' = Some (Regular (consumedBytes C r))"
      using verifyConsumed_Inr(1)[OF p, of "transferRoot r"] verifyConsumed_Inr(2)[OF p] k2 by (auto split: if_splits)
    then show ?thesis using rename_Inr[OF rn] sync_dirs(3)[OF sy, of "transferRoot r"] by simp
  qed
qed

lemma drop_Inr:
  assumes "drop_state_file d name w = (Inr u, w')"
  shows "map_of (fdir d w') n = (if n = name then None else map_of (fdir d w) n)"
proof -
  obtain x w1 where r: "fs_remove d name w = (x, w1)"
    and k: "(case x of Inl e \<Rightarrow> if e \<noteq> ErrNotExist then io_err e else io_ret () | Inr _ \<Rightarrow> io_ret ()) w1 = (Inr u, w')"
    using assms unfolding drop_state_file_def io_try_iff by blast
  show ?thesis
  proof (cases x)
    case (Inl e)
    then show ?thesis using k r remove_Inl[of d name w e w1 d] by (auto split: if_splits)
  next
    case (Inr v)
    then show ?thesis using k r remove_Inr[of d name w v w1] by simp
  qed
qed

lemma close_part_None:
  assumes "close_part k r w = ((None, r'), w')"
  shows "\<exists>w1. k (r\<lparr>rv_part := None\<rparr>) w1 = ((None, r'), w') \<and> part_only (transferRoot r) w w1"
proof (cases "rv_part r")
  case None
  then have "r\<lparr>rv_part := None\<rparr> = r" by simp
  moreover have "k r w = ((None, r'), w')" using assms None by (simp add: close_part_def rv_get_def)
  ultimately show ?thesis by (metis part_only_def)
next
  case (Some p)
  then obtain u w1 where h: "close_handle (transferRoot r) p w = (Inr u, w1)" and "k (r\<lparr>rv_part := None\<rparr>) w1 = ((None, r'), w')"
    using assms by (auto simp: close_part_def rv_get_def rv_do_None rv_set_def)
  then show ?thesis using close_handle_only[OF h] by blast
qed

lemma manager_dirs: "with_manager f w = (x, w') \<Longrightarrow> fdir d w' = fdir d w"
  by (auto simp: with_manager_def split: prod.splits)

lemma state_None:
  assumes "finalizeStateLocked C r w = ((None, r'), w')"
  shows "final_state C r r' w'"
proof -
  let ?d = "transferRoot r"
  obtain u1 w1 w2 u3 w3 u4 w4 u5 w5 u6 w6 u7 w7 a w8 where
    cm: "commitConsumed C r w = (Inr u1, w1)" and
    d2: "part_only ?d w1 w2" and
    dr: "drop_state_file ?d ''content.part'' w2 = (Inr u3, w3)" "drop_state_file ?d ''resume.state'' w3 = (Inr u4, w4)"
      "drop_state_file ?d ''consumed.pending'' w4 = (Inr u5, w5)" and
    sy: "syncRootDir w5 = (Inr u6, w6)" and
    m: "with_manager (\<lambda>m. ((), markCompleted m (rv_admission r))) w6 = (Inr u7, w7)"
      "with_manager (\<lambda>m. closeActive m (rv_admission r)) w7 = (Inr a, w8)" and
    fin: "r' = r\<lparr>rv_part := None, rv_finalized := True, rv_admission := a\<rparr>" "w' = w8"
    using assms unfolding finalizeStateLocked_def rv_get_def rv_do_None
    by (auto simp: rv_do_None rv_set_def rv_done_def dest!: close_part_None)
  have d: "fdir ?d w' = fdir ?d w5"
    using sync_dirs(3)[OF sy, of ?d] manager_dirs[OF m(1), of ?d] manager_dirs[OF m(2), of ?d] fin by simp
  show ?thesis
    using commit_Inr[OF cm] part_onlyD[OF d2] drop_Inr[OF dr(1)] drop_Inr[OF dr(2)] drop_Inr[OF dr(3)]
    unfolding final_state_def d by (simp add: fin)
qed

lemma published_None:
  assumes p: "finalize_published C name r w = ((None, r'), w')" and ne: "name \<noteq> partial_name r"
  shows "verified C (rv_manifest r) (map_of (fw_dest w') name) \<and> final_state C r r' w'"
proof -
  obtain u w1 w2 k where v: "verify_dest C r name w1 = (Inr u, w2)" and k: "rv_touches (partial_name r) k"
    and r: "k r w2 = ((None, r'), w')"
    and f: "\<exists>w5. finalizeStateLocked C r w5 = ((None, r'), w')"
  proof -
    obtain u1 w1 u2 w2 u3 w3 u4 w4 where s: "syncRootDir w = (Inr u1, w1)" "verify_dest C r name w1 = (Inr u2, w2)"
      "fs_remove DestDir (partial_name r) w2 = (Inr u3, w3)" "syncRootDir w3 = (Inr u4, w4)" "finalizeStateLocked C r w4 = ((None, r'), w')"
      using p by (auto simp: finalize_published_def rv_get_def rv_do_None)
    let ?k = "rv_do (fs_remove DestDir (partial_name r)) (\<lambda>_. rv_do syncRootDir (\<lambda>_. finalizeStateLocked C))"
    have "rv_touches (partial_name r) ?k" by (intro rv_do_touches dest_steps state_touches) simp
    moreover have "?k r w2 = ((None, r'), w')" using s by (auto simp: rv_do_None)
    ultimately show ?thesis using that s by blast
  qed
  have "map_of (fw_dest w') name = map_of (fw_dest w2) name" using k r ne unfolding rv_touches_def by (metis snd_conv)
  then show ?thesis using verify_dest_Inr[OF v] state_None f by metis
qed

text \<open>What every way through \<open>Finalize\<close> guarantees, from world \<open>w\<close>.\<close>

definition fin_ok :: "crypto \<Rightarrow> string \<Rightarrow> Receiver \<Rightarrow> fsw \<Rightarrow> ft_error option \<Rightarrow> Receiver \<Rightarrow> fsw \<Rightarrow> bool" where
  "fin_ok C name r w e r' w' \<longleftrightarrow>
     (\<forall>n. n \<noteq> name \<longrightarrow> n \<noteq> partial_name r \<longrightarrow> map_of (fw_dest w') n = map_of (fw_dest w) n) \<and>
     name_ok C (rv_manifest r) name w w' \<and>
     (e = None \<longrightarrow> verified C (rv_manifest r) (map_of (fw_dest w') name) \<and> final_state C r r' w')"

lemma name_ok_trans: "name_ok C m name w w1 \<Longrightarrow> map_of (fw_dest w2) name = map_of (fw_dest w1) name \<Longrightarrow> name_ok C m name w w2"
  by (auto simp: name_ok_def)

text \<open>Steps before that touch at most the partial, and steps after.\<close>

lemma fin_ok_before:
  assumes "fin_ok C name r w1 e r' w'" and "\<And>n. n \<noteq> partial_name r \<Longrightarrow> map_of (fw_dest w1) n = map_of (fw_dest w) n"
    and "name \<noteq> partial_name r"
  shows "fin_ok C name r w e r' w'"
  using assms by (auto simp: fin_ok_def name_ok_def)

lemma fin_ok_touches:
  assumes "rv_touches (partial_name r) k" "k r w = ((e, r'), w')" "e \<noteq> None" "name \<noteq> partial_name r"
  shows "fin_ok C name r w e r' w'"
  using assms unfolding fin_ok_def name_ok_def rv_touches_def by (metis snd_conv)

lemma fin_ok_fail: "rv_fail x r w = ((e, r'), w') \<Longrightarrow> fin_ok C name r w e r' w'"
  by (auto simp: rv_fail_def fin_ok_def name_ok_def)

lemma fin_ok_do:
  assumes "rv_do m k r w = ((e, r'), w')" and "io_dest (\<lambda>n. n = partial_name r) m" and "name \<noteq> partial_name r"
    and "\<And>a w1. m w = (Inr a, w1) \<Longrightarrow> k a r w1 = ((e, r'), w') \<Longrightarrow> fin_ok C name r w1 e r' w'"
  shows "fin_ok C name r w e r' w'"
proof -
  obtain x w1 where m: "m w = (x, w1)" by fastforce
  have eq: "map_of (fw_dest w1) n = map_of (fw_dest w) n" if "n \<noteq> partial_name r" for n
    using assms(2) m that unfolding io_dest_def by (metis snd_conv)
  show ?thesis
  proof (cases x)
    case (Inl err)
    then have "e = Some err" "r' = r" "w' = w1" using assms(1) m by (simp_all add: rv_do_def)
    then show ?thesis using eq assms(3) by (simp add: fin_ok_def name_ok_def)
  next
    case (Inr a)
    then have "k a r w1 = ((e, r'), w')" using assms(1) m by (simp add: rv_do_def)
    from assms(4)[OF _ this] m Inr have "fin_ok C name r w1 e r' w'" by simp
    then show ?thesis using eq assms(3) by (rule fin_ok_before)
  qed
qed

lemma fin_ok_try:
  assumes "rv_try m k r w = ((e, r'), w')" and "io_dest (\<lambda>n. n = partial_name r) m" and "name \<noteq> partial_name r"
    and "\<And>x w1. m w = (x, w1) \<Longrightarrow> k x r w1 = ((e, r'), w') \<Longrightarrow> fin_ok C name r w1 e r' w'"
  shows "fin_ok C name r w e r' w'"
proof -
  obtain x w1 where m: "m w = (x, w1)" by fastforce
  then have "fin_ok C name r w1 e r' w'" using assms(1,4) by (simp add: rv_try_def)
  moreover have "map_of (fw_dest w1) n = map_of (fw_dest w) n" if "n \<noteq> partial_name r" for n
    using assms(2) m that unfolding io_dest_def by (metis snd_conv)
  ultimately show ?thesis using assms(3) by (rule fin_ok_before)
qed

lemma published_ok:
  assumes "finalize_published C name r w = ((e, r'), w')" and "name \<noteq> partial_name r"
  shows "fin_ok C name r w e r' w'"
proof (cases e)
  case None
  have "map_of (fw_dest w') n = map_of (fw_dest w) n" if "n \<noteq> partial_name r" for n
    using published_touches[of "partial_name r" C name] assms(1) that unfolding rv_touches_def by (metis snd_conv)
  then show ?thesis using published_None[OF assms(1)[unfolded None] assms(2)] assms(2) None by (simp add: fin_ok_def name_ok_def)
next
  case (Some x)
  then show ?thesis using fin_ok_touches[OF published_touches assms(1) _ assms(2)] by simp
qed

lemma existing_ok:
  assumes x: "finalize_existing C name r w = ((e, r'), w')" and ne: "name \<noteq> partial_name r"
  shows "fin_ok C name r w e r' w'"
proof -
  let ?k = "\<lambda>_ :: unit. rv_try (fs_lstat DestDir (partial_name r)) (\<lambda>x. case x of
       Inr e \<Rightarrow> if is_dir e then rv_fail (ErrInvalidInput ''destination partial is a directory'') else
         rv_do (fs_remove DestDir (partial_name r)) (\<lambda>_. rv_do syncRootDir (\<lambda>_. finalizeStateLocked C))
     | Inl e \<Rightarrow> if e \<noteq> ErrNotExist then rv_fail e else rv_do syncRootDir (\<lambda>_. finalizeStateLocked C))"
  have k: "rv_touches (partial_name r) (?k u)" for u
    by (intro rv_try_touches dest_steps) (auto intro!: rv_do_touches dest_steps state_touches rv_simple_touches split: sum.split)
  have f: "final_state C r r' w'" if "?k u r w1 = ((None, r'), w')" for u w1
    using that state_None by (auto simp: rv_try_def rv_do_None rv_fail_def split: prod.splits sum.splits if_splits)
  have x': "rv_do (verify_dest C r name) ?k r w = ((e, r'), w')" using x by (simp add: finalize_existing_def rv_get_def)
  show ?thesis
  proof (rule fin_ok_do[OF x' verify_touches ne])
    fix u w1 assume v: "verify_dest C r name w = (Inr u, w1)" and e: "?k u r w1 = ((e, r'), w')"
    have eq: "map_of (fw_dest w') n = map_of (fw_dest w1) n" if "n \<noteq> partial_name r" for n
      by (rule rv_touchesD[OF k e refl that])
    have ver: "verified C (rv_manifest r) (map_of (fw_dest w') name)" using verify_dest_Inr[OF v] eq[OF ne] by simp
    have "final_state C r r' w'" if "e = None" using f e that by blast
    then show "fin_ok C name r w1 e r' w'" using ver eq ne by (simp add: fin_ok_def name_ok_def)
  qed
qed

lemma recover_ok:
  assumes x: "finalize_recover C name r w = ((e, r'), w')" and ne: "name \<noteq> partial_name r"
    and v: "verified C (rv_manifest r) (map_of (fw_dest w) (partial_name r))"
  shows "fin_ok C name r w e r' w'"
proof -
  obtain y w1 where l: "fs_link DestDir (partial_name r) name w = (y, w1)" by fastforce
  note L = link_cases[OF l] 
  show ?thesis
  proof (cases y)
    case (Inr u)
    then have p: "fin_ok C name r w1 e r' w'"
      using x l published_ok[OF _ ne] by (simp add: finalize_recover_def rv_get_def rv_try_def)
    moreover have "name_ok C (rv_manifest r) name w w1" "\<And>n. n \<noteq> name \<Longrightarrow> map_of (fw_dest w1) n = map_of (fw_dest w) n"
      using L ne v Inr by (auto simp: name_ok_def)
    ultimately show ?thesis by (auto simp: fin_ok_def name_ok_def)
  next
    case (Inl err)
    then have d1: "fw_dest w1 = fw_dest w" using L(3) ne by simp
    have t: "rv_try (verify_dest C r name) (\<lambda>y. case y of Inl _ \<Rightarrow> rv_fail err | Inr _ \<Rightarrow> finalize_published C name) r w1 = ((e, r'), w')"
      using x l Inl by (simp add: finalize_recover_def rv_get_def rv_try_def)
    have "fin_ok C name r w1 e r' w'"
      by (rule fin_ok_try[OF t verify_touches ne]) (auto intro: fin_ok_fail published_ok[OF _ ne] split: sum.splits)
    then show ?thesis using d1 by (simp add: fin_ok_def name_ok_def)
  qed
qed

lemma finally_ok:
  assumes f: "rv_finally k g r w = ((e, r'), w')" and g: "\<And>e. io_dest (\<lambda>n. n = partial_name r) (g e)"
    and cs: "\<And>e c. io_keeps (fdir (Child c)) (g e)" and ne: "name \<noteq> partial_name r"
    and k: "\<And>e r' w'. k r w = ((e, r'), w') \<Longrightarrow> fin_ok C name r w e r' w'"
  shows "fin_ok C name r w e r' w'"
proof -
  obtain w1 where k1: "k r w = ((e, r'), w1)" and w': "w' = snd (g e w1)"
    using f by (auto simp: rv_finally_def split: prod.splits)
  have "map_of (fw_dest w') n = map_of (fw_dest w1) n" if "n \<noteq> partial_name r" for n
    using g[of e] w' that unfolding io_dest_def by simp
  moreover have "fdir (Child c) w' = fdir (Child c) w1" for c using cs[of c e] w' by (simp add: io_keeps_def)
  ultimately show ?thesis using k[OF k1] ne unfolding fin_ok_def name_ok_def final_state_def by simp
qed

lemma close_keeps: "io_keeps (fdir d) fs_close" "io_keeps (fdir (Child c)) (fs_remove DestDir n)"
proof -
  show "io_keeps (fdir d) fs_close" by (rule keepsI) (erule sync_dirs(2))
  show "io_keeps (fdir (Child c)) (fs_remove DestDir n)"
  proof -
    have "io_touches DestDir (\<lambda>_. True) (fs_remove DestDir n)" by (rule touches_ops(2)) simp
    then show ?thesis unfolding io_touches_def io_keeps_def using dir.distinct by metis
  qed
qed

lemma copy_ok:
  assumes x: "finalize_copy C name r w = ((e, r'), w')" and ne: "name \<noteq> partial_name r" and sz: "0 \<le> sint (mf_Size (rv_manifest r))"
  shows "fin_ok C name r w e r' w'"
proof -
  let ?t = "partial_name r"
  let ?abort = "\<lambda>e. rv_finally (rv_fail e) (\<lambda>_. io_try fs_close (\<lambda>_. fs_remove DestDir ?t))"
  let ?k = "\<lambda>_ :: unit. rv_try (copy_out C r name) (\<lambda>x. case x of Inl e \<Rightarrow> ?abort e
     | Inr _ \<Rightarrow> rv_finally (finalize_published C name) (\<lambda>_. fs_close))"
  have x': "rv_do (fs_create DestDir ?t) ?k r w = ((e, r'), w')" using x by (simp add: finalize_copy_def rv_get_def)
  have abort: "fin_ok C name r w1 e r' w'" if "?abort er r w1 = ((e, r'), w')" for er w1
    by (rule finally_ok[OF that _ _ ne]) (auto intro!: io_dest_try dest_steps keeps_try close_keeps fin_ok_fail)
  have pub: "fin_ok C name r w1 e r' w'" if "rv_finally (finalize_published C name) (\<lambda>_. fs_close) r w1 = ((e, r'), w')" for w1
    by (rule finally_ok[OF that _ _ ne]) (auto intro!: dest_steps close_keeps published_ok[OF _ ne])
  show ?thesis
  proof (rule fin_ok_do[OF x' _ ne])
    show "io_dest (\<lambda>n. n = ?t) (fs_create DestDir ?t)" by (rule dest_steps) simp
    fix u w1 assume c: "fs_create DestDir ?t w = (Inr u, w1)" and k: "?k u r w1 = ((e, r'), w')"
    have t: "map_of (fw_dest w1) ?t = Some (Regular [])"
      using c unfolding fs_create_def by (auto dest!: fs_op_Inr split: if_splits)
    obtain y w2 where co: "copy_out C r name w1 = (y, w2)" by fastforce
    note O = copy_out_cases[OF co ne sz t]
    have "fin_ok C name r w2 e r' w'" using k co abort pub by (cases y) (auto simp: rv_try_def)
    then show "fin_ok C name r w1 e r' w'" using O by (auto simp: fin_ok_def name_ok_def)
  qed
qed

lemma fresh_ok:
  assumes x: "finalize_fresh C name r w = ((e, r'), w')" and ne: "name \<noteq> partial_name r" and sz: "0 \<le> sint (mf_Size (rv_manifest r))"
  shows "fin_ok C name r w e r' w'"
proof -
  let ?t = "partial_name r"
  let ?clean = "rv_do ctx_err (\<lambda>_. rv_do (fs_remove DestDir ?t) (\<lambda>_. rv_do syncRootDir (\<lambda>_. finalize_copy C name)))"
  let ?k = "\<lambda>y :: ft_error + unit. case y of Inr _ \<Rightarrow> finalize_recover C name | Inl _ \<Rightarrow> ?clean"
  let ?l = "\<lambda>x. case x of Inl e \<Rightarrow> if e \<noteq> ErrNotExist then rv_fail e else finalize_copy C name
     | Inr _ \<Rightarrow> rv_try (verify_dest C r ?t) ?k"
  have x': "rv_try (fs_lstat DestDir ?t) ?l r w = ((e, r'), w')" using x by (simp add: finalize_fresh_def rv_get_def)
  have clean: "fin_ok C name r w1 e r' w'" if "?clean r w1 = ((e, r'), w')" for w1
  proof (rule fin_ok_do[OF that dest_steps(3) ne])
    fix u w2 assume "rv_do (fs_remove DestDir ?t) (\<lambda>_. rv_do syncRootDir (\<lambda>_. finalize_copy C name)) r w2 = ((e, r'), w')"
    then show "fin_ok C name r w2 e r' w'"
    proof (rule fin_ok_do[OF _ dest_steps(6) ne])
      fix u w3 assume "rv_do syncRootDir (\<lambda>_. finalize_copy C name) r w3 = ((e, r'), w')"
      then show "fin_ok C name r w3 e r' w'" by (rule fin_ok_do[OF _ dest_steps(1) ne]) (erule copy_ok[OF _ ne sz])
    qed simp
  qed
  show ?thesis
  proof (rule fin_ok_try[OF x' dest_steps(5) ne])
    fix z w1 assume z: "?l z r w1 = ((e, r'), w')"
    show "fin_ok C name r w1 e r' w'"
    proof (cases z)
      case (Inl er)
      then show ?thesis using z fin_ok_fail copy_ok[OF _ ne sz] by (auto split: if_splits)
    next
      case (Inr en)
      then have v: "rv_try (verify_dest C r ?t) ?k r w1 = ((e, r'), w')" using z by simp
      obtain y w2 where vd: "verify_dest C r ?t w1 = (y, w2)" by fastforce
      have d2: "fw_dest w2 = fw_dest w1" using verifyRoot_dirs[OF vd, of DestDir] by simp
      have "fin_ok C name r w2 e r' w'"
      proof (cases y)
        case (Inl er)
        then show ?thesis using v vd clean by (simp add: rv_try_def)
      next
        case y: (Inr u)
        have "verified C (rv_manifest r) (map_of (fw_dest w2) ?t)" using verify_dest_Inr vd y d2 by metis
        then show ?thesis using v vd y recover_ok[OF _ ne] by (simp add: rv_try_def)
      qed
      then show ?thesis using d2 by (simp add: fin_ok_def name_ok_def)
    qed
  qed
qed

lemma fin_ok_part:
  assumes "fin_ok C name (r\<lparr>rv_part := p\<rparr>) w e r' w'"
  shows "fin_ok C name r w e r' w'"
  using assms by (simp add: fin_ok_def final_state_def consumedBytes_def)

lemma hash_part_keeps: "io_keeps (fdir d) (hash_part rest hashed)"
proof (induction rest hashed rule: hash_part.induct)
  case (1 rest hashed)
  then show ?case by (subst hash_part.simps) (auto intro!: keeps_bind keeps_simple keeps_dirs simp: ctx_err_def)
qed

lemma keeps_dest: "io_keeps (fdir DestDir) m \<Longrightarrow> io_dest P m"
  by (simp add: io_keeps_def io_dest_def)

lemma verify_part_touches: "io_dest P (verify_part C r)"
proof (rule keeps_dest)
  have "io_keeps (fdir DestDir) (part_seek r)" by (rule keepsI) (erule seek_cases)
  then show "io_keeps (fdir DestDir) (verify_part C r)"
    by (auto simp: verify_part_def intro!: keeps_bind keeps_simple hash_part_keeps)
qed

lemma Finalize_ok:
  assumes x: "Finalize C h name r w = ((e, r'), w')" and ne: "name \<noteq> partial_name r" and sz: "0 \<le> sint (mf_Size (rv_manifest r))"
  shows "fin_ok C name r w e r' w'"
proof -
  let ?fresh = "truncate_part (rv_get (\<lambda>r. rv_do (verify_part C r) (\<lambda>_. finalize_fresh C name)))"
  let ?k = "\<lambda>x. case x of Inr _ \<Rightarrow> finalize_existing C name | Inl e \<Rightarrow> if e \<noteq> ErrNotExist then rv_fail e else ?fresh"
  have fresh: "fin_ok C name r w1 e r' w'" if f: "?fresh r w1 = ((e, r'), w')" for w1
  proof (cases "rv_part r")
    case None
    then show ?thesis using f fin_ok_fail by (auto simp: truncate_part_def rv_get_def)
  next
    case (Some p)
    let ?r1 = "r\<lparr>rv_part := Some (take (unat (mf_Size (rv_manifest r))) (p @ zeros (unat (mf_Size (rv_manifest r)) - length p)))\<rparr>"
    let ?next = "rv_set (\<lambda>r. r\<lparr>rv_part := Some (take (unat (mf_Size (rv_manifest r))) (p @ zeros (unat (mf_Size (rv_manifest r)) - length p)))\<rparr>)
       (rv_get (\<lambda>r. rv_do (verify_part C r) (\<lambda>_. finalize_fresh C name)))"
    have t: "rv_do (io_step (ErrIO ''truncate completed transfer'')) (\<lambda>_. ?next) r w1 = ((e, r'), w')"
      using f Some by (simp add: truncate_part_def rv_get_def)
    show ?thesis
    proof (rule fin_ok_do[OF t dest_steps(8) ne])
      fix u w2 assume "?next r w2 = ((e, r'), w')"
      then have n: "rv_do (verify_part C ?r1) (\<lambda>_. finalize_fresh C name) ?r1 w2 = ((e, r'), w')"
        by (simp add: rv_set_def rv_get_def)
      have "fin_ok C name ?r1 w2 e r' w'"
        by (rule fin_ok_do[OF n verify_part_touches]) (use ne sz in \<open>auto intro: fresh_ok\<close>)
      then show "fin_ok C name r w2 e r' w'" by (rule fin_ok_part)
    qed
  qed
  show ?thesis
  proof (cases "h \<and> isl (sanitizeFilename name (MaxFilenameBytes (rv_limits r))) = False \<and> \<not> rv_closed r \<and> \<not> rv_finalized r \<and> Complete r")
    case False
    then have "\<exists>er. rv_fail er r w = ((e, r'), w')" using x by (auto simp: Finalize_def rv_get_def isl_def split: sum.splits if_splits)
    then show ?thesis using fin_ok_fail by blast
  next
    case True
    then have x': "rv_do ctx_err (\<lambda>_. rv_do (stageConsumed C r) (\<lambda>_. rv_try (fs_lstat DestDir name) ?k)) r w = ((e, r'), w')"
      using x by (auto simp: Finalize_def rv_get_def isl_def split: sum.splits)
    then show ?thesis
    proof (rule fin_ok_do[OF _ dest_steps(3) ne])
      fix u w1 assume "rv_do (stageConsumed C r) (\<lambda>_. rv_try (fs_lstat DestDir name) ?k) r w1 = ((e, r'), w')"
      then show "fin_ok C name r w1 e r' w'"
      proof (rule fin_ok_do[OF _ stage_touches ne])
        fix u w2 assume "rv_try (fs_lstat DestDir name) ?k r w2 = ((e, r'), w')"
        then show "fin_ok C name r w2 e r' w'"
          by (rule fin_ok_try[OF _ dest_steps(5) ne])
             (auto intro: fin_ok_fail existing_ok[OF _ ne] fresh split: sum.splits if_splits)
      qed
    qed
  qed
qed


section \<open>The end of a transfer in small\<close>

definition sample_full_receiver :: Receiver where
  "sample_full_receiver = sample_receiver\<lparr>rv_part := Some [104, 101, 108, 108, 111], rv_completed := [7]\<rparr>"

definition sample_final :: "(ft_error option \<times> Receiver) \<times> fsw" where
  "sample_final = Finalize sample_crypto True ''hello.txt'' sample_full_receiver (sample_world\<lparr>fw_dest := [(''hello.txt'', Regular [1])]\<rparr>)"


end
