(* ===== verification/FT_Cancel.thy ===== *)
theory FT_Cancel
  imports FT_Publish
begin

text \<open>
  File transfer, giving a transfer up: \<open>Cancel\<close> and \<open>Close\<close> of \<open>internal/filetransfer/receiver.go\<close>.
\<close>

section \<open>Cancelling and closing\<close>

definition rv_catch :: "unit io \<Rightarrow> (ft_error option \<Rightarrow> rv_op) \<Rightarrow> rv_op" where
  "rv_catch m k r w = (case io_opt m w of (e, w') \<Rightarrow> k e r w')"

definition rv_return :: "ft_error option \<Rightarrow> rv_op" where "rv_return e r w = ((e, r), w)"

definition forget_keys :: "Receiver \<Rightarrow> Receiver" where
  "forget_keys r = r\<lparr>rv_closed := True, rv_contentKey := [], rv_resumeKey := []\<rparr>"

definition release_active :: "rv_op \<Rightarrow> rv_op" where
  "release_active k = rv_get (\<lambda>r. rv_do (with_manager (\<lambda>m. closeActive m (rv_admission r))) (\<lambda>a.
     rv_set (\<lambda>r. r\<lparr>rv_admission := a\<rparr>) k))"

text \<open>The last steps of \<open>Cancel\<close>: give up the lease, remove the emptied directory.\<close>

definition cancel_teardown :: "string \<Rightarrow> ft_error option list \<Rightarrow> rv_op" where
  "cancel_teardown quarantine errs =
     rv_catch (lease_close quarantine) (\<lambda>leaseErr.
     rv_catch (fs_remove (Child quarantine) ''transfer.lock'') (\<lambda>lockErr.
     rv_catch syncRootDir (\<lambda>dirSyncErr.
     rv_catch fs_close (\<lambda>transferErr.
     rv_catch (dir_remove quarantine) (\<lambda>removeErr.
     rv_catch syncRootDir (\<lambda>rootSyncErr.
     rv_catch fs_close (\<lambda>stateErr.
     rv_return (errors_join (errs @ [leaseErr, lockErr, dirSyncErr, transferErr, removeErr, rootSyncErr, stateErr])))))))))"

text \<open>Once renamed, the content is removed only if the quarantine name is durable.\<close>

definition cancel_quarantined :: "string \<Rightarrow> rv_op" where
  "cancel_quarantined quarantine =
     rv_catch syncRootDir (\<lambda>quarantineSyncErr.
     rv_catch (if quarantineSyncErr = None then io_seq (removeStateContent (Child quarantine)) syncRootDir else io_ret ()) (\<lambda>cleanupErr.
     rv_set forget_keys (
     rv_get (\<lambda>r. rv_do (with_manager (\<lambda>m. ((), releaseReservation m (rv_admission r)))) (\<lambda>_.
     release_active (
     cancel_teardown quarantine [quarantineSyncErr, cleanupErr]))))))"

definition Cancel :: rv_op where
  "Cancel = rv_get (\<lambda>r.
     if rv_closed r then rv_done else
     close_part (
     rv_do (io_random 8) (\<lambda>suffix.
     let quarantine = ''.cancel-'' @ rv_stateID r @ ''-'' @ hex_encode suffix in
     rv_do (dir_rename (rv_stateID r) quarantine) (\<lambda>_. cancel_quarantined quarantine))))"

definition Close :: rv_op where
  "Close = rv_get (\<lambda>r.
     if rv_closed r then rv_done else
     rv_set forget_keys (
     rv_catch (case rv_part r of None \<Rightarrow> io_ret () | Some p \<Rightarrow> close_handle (transferRoot r) p) (\<lambda>partErr.
     rv_set (\<lambda>r. r\<lparr>rv_part := None\<rparr>) (
     release_active (
     rv_catch (lease_close (rv_stateID r)) (\<lambda>leaseErr.
     rv_catch fs_close (\<lambda>transferErr.
     rv_catch fs_close (\<lambda>stateErr.
     rv_return (errors_join [partErr, leaseErr, transferErr, stateErr])))))))))"

section \<open>What cancelling leaves\<close>

definition rv_keeps :: "(fsw \<Rightarrow> 'x) \<Rightarrow> rv_op \<Rightarrow> bool" where
  "rv_keeps f k \<longleftrightarrow> (\<forall>r w. f (snd (k r w)) = f w)"

lemma rv_keeps_rules:
  "io_keeps f m \<Longrightarrow> (\<And>a. rv_keeps f (g a)) \<Longrightarrow> rv_keeps f (rv_do m g)"
  "io_keeps f mu \<Longrightarrow> (\<And>e. rv_keeps f (h e)) \<Longrightarrow> rv_keeps f (rv_catch mu h)"
  "rv_keeps f k \<Longrightarrow> rv_keeps f (rv_set s k)"
  "(\<And>r. rv_keeps f (q r)) \<Longrightarrow> rv_keeps f (rv_get q)"
  "rv_keeps f (rv_return e)" "rv_keeps f rv_done" "rv_keeps f (rv_fail x)"
  by (auto simp: rv_keeps_def io_keeps_def rv_do_def rv_catch_def io_opt_def rv_set_def rv_get_def rv_return_def rv_done_def rv_fail_def
      split: prod.split sum.split) (metis snd_conv)+

lemma rv_keepsD: "rv_keeps f k \<Longrightarrow> k r w = (x, w') \<Longrightarrow> f w' = f w"
  unfolding rv_keeps_def by (metis snd_conv)

lemma rv_catch_iff:
  "rv_catch m k r w = (y, w') \<longleftrightarrow> (\<exists>x w1. io_opt m w = (x, w1) \<and> k x r w1 = (y, w'))"
  by (auto simp: rv_catch_def split: prod.splits)

lemma io_opt_None: "io_opt m w = (None, w') \<longleftrightarrow> m w = (Inr (), w')"
  by (auto simp: io_opt_def split: prod.splits sum.splits)

lemma teardown_keeps: "n \<noteq> q \<Longrightarrow> rv_keeps (child_at n) (cancel_teardown q es)"
  unfolding cancel_teardown_def
  by (intro rv_keeps_rules keeps_child slot_keeps) auto

lemma teardown_None:
  assumes "cancel_teardown q es r w = ((None, r'), w')"
  shows "r' = r \<and> child_at q w' = None"
proof -
  obtain w1 w2 w3 w4 where rm: "dir_remove q w1 = (Inr (), w2)" and sy: "syncRootDir w2 = (Inr (), w3)"
    and cl: "fs_close w3 = (Inr (), w4)" and e: "w' = w4" "r' = r"
    using assms unfolding cancel_teardown_def rv_catch_iff rv_return_def
    by (clarsimp simp: errors_join_None io_opt_None)
  show ?thesis
    using dir_remove_Inr[OF rm] keepsD[OF keeps_child[OF slot_steps(3)] sy] keepsD[OF keeps_child[OF slot_steps(2)] cl] e by simp
qed

lemma release_active_keeps: "rv_keeps (child_at n) k \<Longrightarrow> rv_keeps (child_at n) (release_active k)"
  unfolding release_active_def by (intro rv_keeps_rules keeps_child slot_keeps)

lemma quarantined_keeps: "n \<noteq> q \<Longrightarrow> rv_keeps (child_at n) (cancel_quarantined q)"
  unfolding cancel_quarantined_def
  by (intro rv_keeps_rules release_active_keeps teardown_keeps)
     (auto intro!: keeps_child keeps_bind slot_keeps)

lemma quarantined_None:
  assumes "cancel_quarantined q r w = ((None, r'), w')"
  shows "rv_closed r' \<and> rv_contentKey r' = [] \<and> rv_resumeKey r' = [] \<and> child_at q w' = None"
proof -
  obtain a es w1 where t: "cancel_teardown q es (forget_keys r\<lparr>rv_admission := a\<rparr>) w1 = ((None, r'), w')"
    using assms unfolding cancel_quarantined_def rv_catch_iff rv_set_def rv_get_def release_active_def
    by (auto simp: rv_do_None)
  show ?thesis using teardown_None[OF t] by (simp add: forget_keys_def)
qed

lemma close_handle_slot: "n \<noteq> c \<Longrightarrow> io_keeps (child_at n) (close_handle (Child c) p)"
  unfolding close_handle_def
  by (intro keeps_bind keeps_child slot_keeps) (simp add: io_keeps_def slot_def lease_held_def)

lemma close_part_cases:
  assumes "close_part k r w = ((e, r'), w')"
  shows "(e \<noteq> None \<and> (\<forall>n. n \<noteq> rv_stateID r \<longrightarrow> child_at n w' = child_at n w)) \<or>
    (\<exists>w1. k (r\<lparr>rv_part := None\<rparr>) w1 = ((e, r'), w') \<and> (\<forall>n. n \<noteq> rv_stateID r \<longrightarrow> child_at n w1 = child_at n w))"
proof (cases "rv_part r")
  case None
  then have "r\<lparr>rv_part := None\<rparr> = r" by simp
  moreover have "k r w = ((e, r'), w')" using assms None by (simp add: close_part_def rv_get_def)
  ultimately show ?thesis by metis
next
  case (Some p)
  obtain x w1 where h: "close_handle (transferRoot r) p w = (x, w1)" by fastforce
  have "child_at n w1 = child_at n w" if "n \<noteq> rv_stateID r" for n
    by (rule keepsD[OF close_handle_slot[OF that] h])
  then show ?thesis using assms Some h
    by (cases x) (auto simp: close_part_def rv_get_def rv_do_def rv_set_def)
qed

lemma io_random_children: "io_random n w = (x, w') \<Longrightarrow> fw_children w' = fw_children w"
  using keepsD[OF children_steps(1)]
  by (auto simp: io_random_def io_bind_def split: prod.splits sum.splits list.splits)

lemma Cancel_step:
  assumes c: "Cancel r w = ((e, r'), w')" and o: "\<not> rv_closed r"
  shows "\<exists>q. q \<noteq> rv_stateID r \<and>
    (\<forall>n. n \<noteq> rv_stateID r \<longrightarrow> n \<noteq> q \<longrightarrow> child_at n w' = child_at n w) \<and>
    (e = None \<longrightarrow> rv_closed r' \<and> rv_contentKey r' = [] \<and> rv_resumeKey r' = [] \<and>
       child_at (rv_stateID r) w' = None \<and> child_at q w' = None)"
proof -
  let ?id = "rv_stateID r" and ?r = "r\<lparr>rv_part := None\<rparr>"
  let ?k = "\<lambda>suffix. rv_do (dir_rename ?id (''.cancel-'' @ ?id @ ''-'' @ hex_encode suffix))
     (\<lambda>_. cancel_quarantined (''.cancel-'' @ ?id @ ''-'' @ hex_encode suffix))"
  have none: ?thesis if "e \<noteq> None" "\<forall>n. n \<noteq> ?id \<longrightarrow> child_at n w' = child_at n w"
    using that by (intro exI[of _ "CHR ''x'' # ?id"]) auto
  have "close_part (rv_do (io_random 8) ?k) r w = ((e, r'), w')"
    using c o by (simp add: Cancel_def rv_get_def Let_def)
  from close_part_cases[OF this] show ?thesis
  proof (elim disjE exE conjE)
    fix w1 assume k: "rv_do (io_random 8) ?k ?r w1 = ((e, r'), w')" and c1: "\<forall>n. n \<noteq> ?id \<longrightarrow> child_at n w1 = child_at n w"
    obtain x w2 where rnd: "io_random 8 w1 = (x, w2)" by fastforce
    have c2: "child_at n w2 = child_at n w" if "n \<noteq> ?id" for n using that io_random_children[OF rnd] c1 by simp
    show ?thesis
    proof (cases x)
      case (Inl er)
      then show ?thesis using k rnd c2 none by (auto simp: rv_do_def)
    next
      case (Inr suffix)
      let ?q = "''.cancel-'' @ ?id @ ''-'' @ hex_encode suffix"
      have q: "?q \<noteq> ?id" using arg_cong[of ?q ?id length] by auto
      obtain y w3 where rn: "dir_rename ?id ?q w2 = (y, w3)" by fastforce
      have R: "child_at n w3 = child_at n w2" if "n \<noteq> ?id" "n \<noteq> ?q" for n
        using dir_rename_slot[OF that rn] by (simp add: slot_def)
      have k2: "rv_do (dir_rename ?id ?q) (\<lambda>_. cancel_quarantined ?q) ?r w2 = ((e, r'), w')"
        using k rnd Inr by (simp add: rv_do_def)
      show ?thesis
      proof (cases y)
        case (Inl er)
        then have "e \<noteq> None" "w' = w3" using k2 rn by (auto simp: rv_do_def)
        then show ?thesis using R q c2 by (intro exI[of _ ?q]) auto
      next
        case (Inr u)
        then have cq: "cancel_quarantined ?q ?r w3 = ((e, r'), w')" using k2 rn by (simp add: rv_do_def)
        have keep: "child_at n w' = child_at n w3" if "n \<noteq> ?q" for n
          using rv_keepsD[OF quarantined_keeps[OF that] cq] .
        show ?thesis
        proof (intro exI[of _ ?q] conjI allI impI q)
          show "child_at n w' = child_at n w" if "n \<noteq> ?id" "n \<noteq> ?q" for n using keep[OF that(2)] R[OF that] c2[OF that(1)] by simp
          assume "e = None"
          then show "rv_closed r'" "rv_contentKey r' = []" "rv_resumeKey r' = []" "child_at ?q w' = None"
            using quarantined_None cq by blast+
          show "child_at ?id w' = None" using keep[OF q[symmetric]] dir_rename_Inr(1)[OF rn[unfolded Inr] q[symmetric]] by simp
        qed
      qed
    qed
  qed (use none in blast)
qed

text \<open>
  Cancelling removes the transfer and nothing else. Whatever fails, \<open>Cancel\<close> leaves every other
  transfer directory alone; if it reports success for an open receiver, the receiver is closed
  and has forgotten its keys, and neither its directory nor a quarantine of it is left.
\<close>

theorem Cancel_removes_transfer:
  assumes "Cancel r w = ((e, r'), w')" and "\<not> rv_closed r"
  shows "\<exists>q. q \<noteq> rv_stateID r \<and>
    (\<forall>n. n \<noteq> rv_stateID r \<longrightarrow> n \<noteq> q \<longrightarrow> map_of (fw_children w') n = map_of (fw_children w) n) \<and>
    (e = None \<longrightarrow> rv_closed r' \<and> rv_contentKey r' = [] \<and> rv_resumeKey r' = [] \<and>
       map_of (fw_children w') (rv_stateID r) = None \<and> map_of (fw_children w') q = None)"
  by (rule Cancel_step[OF assms])

section \<open>A cancelled transfer in small\<close>

definition sample_cancel :: "(ft_error option \<times> Receiver) \<times> fsw" where
  "sample_cancel = Cancel sample_receiver sample_world"

lemma Cancel_removes_transfer_witness:
  "\<exists>q. \<forall>n. n \<noteq> rv_stateID sample_receiver \<longrightarrow> n \<noteq> q \<longrightarrow> map_of (fw_children (snd sample_cancel)) n = None"
proof -
  have "Cancel sample_receiver sample_world = ((fst (fst sample_cancel), snd (fst sample_cancel)), snd sample_cancel)"
    by (simp add: sample_cancel_def prod_eq_iff)
  from Cancel_removes_transfer[OF this sample_receiver_sel(6)] show ?thesis by (auto simp: sample_world_def)
qed

end
