(* ===== verification/FT_Open.thy ===== *)
theory FT_Open
  imports FT_Cancel
begin

text \<open>
  File transfer, \<open>OpenReceiverWithManager\<close> of \<open>internal/filetransfer/receiver.go\<close>: the checks and
  effects that turn an offer into an open receiver, and the clean-up when one of them fails.
\<close>

section \<open>What has been acquired so far\<close>

text \<open>The variables the deferred clean-up looks at.\<close>

record open_state =
  op_admission :: admission
  op_persistent :: bool
  op_lease :: "string option"
  op_staging :: "string option"
  op_published :: bool
  op_part :: bool

type_synonym 'a opn = "open_state \<Rightarrow> fsw \<Rightarrow> (ft_error + 'a) \<times> open_state \<times> fsw"

definition on_io :: "'a io \<Rightarrow> 'a opn" where
  "on_io m s w = (case m w of (x, w') \<Rightarrow> (x, s, w'))"

definition on_bind :: "'a opn \<Rightarrow> ('a \<Rightarrow> 'b opn) \<Rightarrow> 'b opn" where
  "on_bind m k s w = (case m s w of (Inl e, s', w') \<Rightarrow> (Inl e, s', w') | (Inr a, s', w') \<Rightarrow> k a s' w')"

definition on_ret :: "'a \<Rightarrow> 'a opn" where "on_ret a s w = (Inr a, s, w)"

definition on_err :: "ft_error \<Rightarrow> 'a opn" where "on_err e s w = (Inl e, s, w)"

definition on_get :: "(open_state \<Rightarrow> 'a opn) \<Rightarrow> 'a opn" where "on_get k s w = k s s w"

definition on_set :: "(open_state \<Rightarrow> open_state) \<Rightarrow> unit opn" where "on_set f s w = (Inr (), f s, w)"

abbreviation on_seq :: "'a opn \<Rightarrow> 'b opn \<Rightarrow> 'b opn" where
  "on_seq m k \<equiv> on_bind m (\<lambda>_. k)"

abbreviation on_do :: "'a io \<Rightarrow> ('a \<Rightarrow> 'b opn) \<Rightarrow> 'b opn" where
  "on_do m k \<equiv> on_bind (on_io m) k"

abbreviation on_then :: "'a io \<Rightarrow> 'b opn \<Rightarrow> 'b opn" where
  "on_then m k \<equiv> on_bind (on_io m) (\<lambda>_. k)"

text \<open>A call whose error is inspected.\<close>

definition io_result :: "'a io \<Rightarrow> (ft_error + 'a) io" where
  "io_result m w = (case m w of (x, w') \<Rightarrow> (Inr x, w'))"

definition on_opt :: "(fsw \<Rightarrow> ft_error option \<times> fsw) \<Rightarrow> unit opn" where
  "on_opt m s w = (case m w of (None, w') \<Rightarrow> (Inr (), s, w') | (Some e, w') \<Rightarrow> (Inl e, s, w'))"

text \<open>A call on the admission manager for the admission held.\<close>

definition on_admission :: "(AdmissionManager \<Rightarrow> admission \<Rightarrow> 'a \<times> admission \<times> AdmissionManager) \<Rightarrow> 'a opn" where
  "on_admission f s w = (case f (fw_manager w) (op_admission s) of
     (x, a, m) \<Rightarrow> (Inr x, s\<lparr>op_admission := a\<rparr>, w\<lparr>fw_manager := m\<rparr>))"

section \<open>Staging a new transfer directory\<close>

text \<open>What is reserved: the content, the manifest, the bitmap and the token; \<open>None\<close> on overflow.\<close>

definition reservation_size :: "Manifest \<Rightarrow> i64 option" where
  "reservation_size m =
     (let overhead = word_of_nat (length (encodeManifest m) + bitmapLen (ChunkCount m) + resumeTokenFixedSize) in
      if sint (0x7FFFFFFFFFFFFFFF - overhead) < sint (mf_Size m) then None else Some (mf_Size m + overhead))"

definition staging_name :: "bytes \<Rightarrow> string" where
  "staging_name suffix = ''.transfer-'' @ hex_encode suffix @ ''.new''"

text \<open>The metadata of a staged transfer; the handle is closed whatever happens.\<close>

definition write_metadata :: "string \<Rightarrow> Offer \<Rightarrow> string \<Rightarrow> string \<Rightarrow> i64 \<Rightarrow> unit io" where
  "write_metadata stage f tenant device reserved =
     io_bind (io_result (io_bind (io_pure (encodeReservation tenant device reserved)) (\<lambda>reservationBytes.
       io_seq (atomicWriteState (Child stage) ''expires.at'' (encodeExpiry (of_ExpiresAtUnix f)))
         (atomicWriteState (Child stage) ''reservation.state'' reservationBytes)))) (\<lambda>metaErr.
     io_bind (io_result fs_close) (\<lambda>closeErr.
     case (metaErr, closeErr) of
       (Inl e, _) \<Rightarrow> io_err e
     | (Inr _, Inl e) \<Rightarrow> io_err e
     | (Inr _, Inr _) \<Rightarrow> io_ret ()))"

definition publish_staging :: "string \<Rightarrow> string \<Rightarrow> unit opn" where
  "publish_staging stage tid =
     on_do (io_result (dir_rename stage tid)) (\<lambda>x. case x of
       Inl e \<Rightarrow>
         if e \<noteq> ErrExist then on_err e
         else on_then (lease_close stage) (on_set (\<lambda>s. s\<lparr>op_lease := None\<rparr>))
     | Inr _ \<Rightarrow> on_set (\<lambda>s. s\<lparr>op_lease := Some tid, op_persistent := True, op_published := True\<rparr>))"

definition open_staging :: "string \<Rightarrow> Offer \<Rightarrow> string \<Rightarrow> string \<Rightarrow> i64 \<Rightarrow> unit opn" where
  "open_staging tid f tenant device reserved =
     on_do (io_result (dir_lstat tid)) (\<lambda>st. case st of
       Inr _ \<Rightarrow> on_ret ()
     | Inl e \<Rightarrow>
       if e \<noteq> ErrNotExist then on_err e else
       on_do (io_random 12) (\<lambda>suffix.
       let stage = staging_name suffix in
       on_seq (on_set (\<lambda>s. s\<lparr>op_staging := Some stage\<rparr>)) (
       on_then (dir_create stage) (
       on_then (io_step (ErrIO ''open transfer staging state'')) (
       on_do (io_result (acquireTransferLease stage)) (\<lambda>lease. case lease of
         Inl e \<Rightarrow> on_do (io_result fs_close) (\<lambda>_. on_err e)
       | Inr _ \<Rightarrow>
         on_seq (on_set (\<lambda>s. s\<lparr>op_lease := Some stage\<rparr>)) (
         on_then (write_metadata stage f tenant device reserved) (
         publish_staging stage tid))))))))"

section \<open>Opening the transfer directory\<close>

definition check_reservation :: "string \<Rightarrow> string \<Rightarrow> string \<Rightarrow> i64 \<Rightarrow> unit io" where
  "check_reservation tid tenant device reserved =
     io_bind (readBoundedRootFile (Child tid) ''reservation.state'' 512) (\<lambda>data.
     case decodeReservation data of
       Inl _ \<Rightarrow> io_err (ErrAuthentication ''transfer reservation mismatch'')
     | Inr r \<Rightarrow>
         if rr_tenant r \<noteq> tenant \<or> rr_device r \<noteq> device \<or> rr_bytes r \<noteq> reserved
         then io_err (ErrAuthentication ''transfer reservation mismatch'') else io_ret ())"

definition open_directory :: "string \<Rightarrow> Offer \<Rightarrow> string \<Rightarrow> string \<Rightarrow> i64 \<Rightarrow> unit opn" where
  "open_directory tid f tenant device reserved =
     on_then syncRootDir (
     on_then (openVerifiedChild tid) (
     on_get (\<lambda>s.
     on_then (if ad_completed (op_admission s) then io_ret () else check_reservation tid tenant device reserved) (
     on_seq (on_set (\<lambda>s. s\<lparr>op_persistent := True\<rparr>)) (
     on_seq (on_admission (\<lambda>m a. ((), markReservationPersistent m a))) (
     on_then (io_step (ErrIO ''secure transfer state'')) (
     on_get (\<lambda>s.
     on_seq (if op_lease s \<noteq> None then on_ret ()
             else on_then (acquireTransferLease tid) (on_set (\<lambda>s. s\<lparr>op_lease := Some tid\<rparr>))) (
     on_then syncRootDir (
     on_io (persistExpiry (Child tid) (of_ExpiresAtUnix f))))))))))))"

text \<open>A transfer whose tombstone is committed is not opened again.\<close>

definition check_consumed :: "crypto \<Rightarrow> Receiver \<Rightarrow> unit opn" where
  "check_consumed C probe =
     on_do (verifyConsumed C probe ''consumed.state'') (\<lambda>consumed.
     if consumed then on_seq (on_admission (\<lambda>m a. ((), a, markCompleted m a))) (on_err ErrAlreadyCompleted)
     else on_get (\<lambda>s. if ad_completed (op_admission s) then on_err (ErrAuthentication []) else on_ret ()))"

text \<open>
  Opening \<open>content.part\<close>: created if missing, cut to the file's size if it is longer. The result is
  what the handle holds.
\<close>

definition part_bytes :: "string \<Rightarrow> bytes io" where
  "part_bytes tid = fs_op (Child tid) (\<lambda>fs. case map_of fs ''content.part'' of
     Some (Regular b) \<Rightarrow> Inr (b, fs) | _ \<Rightarrow> Inl (ErrIO ''stat transfer partial''))"

definition open_part :: "string \<Rightarrow> i64 \<Rightarrow> bytes opn" where
  "open_part tid sz =
     on_do (io_result (fs_lstat (Child tid) ''content.part'')) (\<lambda>x.
     on_then (case x of
         Inl e \<Rightarrow> if e \<noteq> ErrNotExist then io_err e else io_ret ()
       | Inr en \<Rightarrow> if is_irregular en then io_err (ErrInvalidInput ''transfer partial is not a regular file'') else io_ret ()) (
     on_then (fs_open_create (Child tid) ''content.part'') (
     on_seq (on_set (\<lambda>s. s\<lparr>op_part := True\<rparr>)) (
     on_then (io_step (ErrIO ''secure transfer partial'')) (
     on_do (part_bytes tid) (\<lambda>b.
     on_then (if unat sz < length b
              then fs_op (Child tid) (\<lambda>fs. Inr ((), AList.update ''content.part'' (Regular (take (unat sz) b)) fs))
              else io_ret ()) (
     on_then (io_step (ErrInvalidInput ''transfer partial changed while opening'')) (
     on_ret (take (unat sz) b)))))))))"

section \<open>Loading the resume state\<close>

definition load_token :: "crypto \<Rightarrow> Receiver \<Rightarrow> bytes \<Rightarrow> Receiver io" where
  "load_token C r stateBytes =
     io_seq (io_step (ErrIO ''open resume state'')) (
     io_seq (io_step (ErrInvalidInput ''resume state changed while opening'')) (
     io_seq (io_step (ErrIO ''read resume state'')) (
     io_seq (io_step (ErrIO ''close resume state'')) (
     if unat (MaxResumeBytes (rv_limits r)) < length stateBytes then io_err (ErrLimitExceeded ''resume state bytes'') else
     case ParseResumeToken stateBytes (rv_limits r) of
       Inl _ \<Rightarrow> io_err (ErrAuthentication [])
     | Inr token \<Rightarrow>
         if \<not> validToken C r token then io_err (ErrAuthentication [])
         else io_ret (r\<lparr>rv_completed := copy_into (rv_completed r) (rt_Completed token)\<rparr>)))))"

definition load_resume :: "crypto \<Rightarrow> Receiver \<Rightarrow> Receiver io" where
  "load_resume C r =
     io_bind (io_result (fs_lstat (transferRoot r) ''resume.state'')) (\<lambda>x. case x of
       Inl e \<Rightarrow> if e \<noteq> ErrNotExist then io_err e else io_ret r
     | Inr (Irregular _) \<Rightarrow> io_err (ErrLimitExceeded ''resume state file'')
     | Inr (Regular stateBytes) \<Rightarrow>
         if unat (MaxResumeBytes (rv_limits r)) < length stateBytes then io_err (ErrLimitExceeded ''resume state file'')
         else load_token C r stateBytes)"

text \<open>The last checks: nothing of the token is believed that the file does not show.\<close>

definition revalidate_opened :: "crypto \<Rightarrow> Receiver \<Rightarrow> Receiver io" where
  "revalidate_opened C r w = (case revalidateCompleted C r w of
     ((Some e, _), w') \<Rightarrow> (Inl e, w') | ((None, r'), w') \<Rightarrow> (Inr r', w'))"

definition resume_opened :: "crypto \<Rightarrow> Receiver \<Rightarrow> Receiver io" where
  "resume_opened C r =
     io_bind (load_resume C r) (\<lambda>r.
     io_bind (revalidate_opened C r) (\<lambda>r.
     io_seq (persist C r) (io_ret r)))"

section \<open>Opening a receiver\<close>

definition transfer_id :: "Offer \<Rightarrow> string" where
  "transfer_id f = hex_encode (of_TransferID f)"

definition opened_receiver :: "string \<Rightarrow> Offer \<Rightarrow> Manifest \<Rightarrow> bytes \<Rightarrow> bytes \<Rightarrow> limits \<Rightarrow> admission \<Rightarrow> bytes option \<Rightarrow> Receiver" where
  "opened_receiver tid f m contentKey resumeKey lim a part =
     \<lparr> rv_stateID = tid, rv_part = part, rv_admission = a, rv_manifest = m, rv_contentKey = contentKey,
       rv_resumeKey = resumeKey, rv_offer = f, rv_completed = zeros (bitmapLen (ChunkCount m)),
       rv_finalized = False, rv_closed = False, rv_limits = lim \<rparr>"

text \<open>From the claimed reservation to the open transfer directory.\<close>

definition open_storage :: "crypto \<Rightarrow> Offer \<Rightarrow> Manifest \<Rightarrow> bytes \<Rightarrow> bytes \<Rightarrow> limits \<Rightarrow> string \<Rightarrow> string \<Rightarrow> i64 \<Rightarrow> Receiver opn" where
  "open_storage C f m contentKey resumeKey lim tenant device reserved =
     (let tid = transfer_id f in
      on_seq (open_staging tid f tenant device reserved) (
      on_seq (open_directory tid f tenant device reserved) (
      on_get (\<lambda>s.
      on_seq (check_consumed C (opened_receiver tid f m contentKey resumeKey lim (op_admission s) None)) (
      on_bind (open_part tid (mf_Size m)) (\<lambda>part.
      on_get (\<lambda>s.
      on_do (resume_opened C (opened_receiver tid f m contentKey resumeKey lim (op_admission s) (Some part))) (\<lambda>r.
      on_then (case op_staging s of
          Some stage \<Rightarrow> if op_published s then io_ret () else cleanupStaging stage
        | None \<Rightarrow> io_ret ()) (
      on_ret r)))))))))"

text \<open>The deferred clean-up of a call that fails.\<close>

definition open_cleanup :: "open_state \<Rightarrow> fsw \<Rightarrow> fsw" where
  "open_cleanup s w =
     (let w = w\<lparr>fw_manager := snd (closeActive (fw_manager w) (op_admission s))\<rparr>;
          w = (if op_persistent s then w else w\<lparr>fw_manager := abortNewReservation (fw_manager w) (op_admission s)\<rparr>);
          w = (if op_part s then snd (fs_close w) else w);
          w = (case op_lease s of Some n \<Rightarrow> snd (lease_close n w) | None \<Rightarrow> w)
      in case op_staging s of
           Some stage \<Rightarrow> if op_published s then w else snd (cleanupStaging stage w)
         | None \<Rightarrow> w)"

definition run_opening :: "'a opn \<Rightarrow> admission \<Rightarrow> 'a io" where
  "run_opening m a w =
     (case m \<lparr> op_admission = a, op_persistent = False, op_lease = None, op_staging = None, op_published = False,
              op_part = False \<rparr> w of
        (Inr r, s, w') \<Rightarrow> (Inr r, w')
      | (Inl e, s, w') \<Rightarrow> (Inl e, open_cleanup s w'))"

definition claim :: "string \<Rightarrow> i64 \<Rightarrow> unit opn" where
  "claim key reserved =
     on_bind (on_admission (\<lambda>m a. claimReservation m a key reserved)) (\<lambda>x.
     case x of Some e \<Rightarrow> on_err e | None \<Rightarrow> on_ret ())"

text \<open>
  The offer is authentic and the transfer admitted; \<open>scan\<close> is what \<open>loadPersistent\<close> sees of the state
  directory and \<open>lstat\<close> what it sees of other state roots.
\<close>

definition open_admitted ::
  "crypto \<Rightarrow> (string \<Rightarrow> string option) \<Rightarrow> string \<Rightarrow> (string \<Rightarrow> inode option) \<Rightarrow> (fsw \<Rightarrow> root_view) \<Rightarrow> Offer \<Rightarrow> Peer \<Rightarrow> limits \<Rightarrow>
   Manifest \<Rightarrow> bytes \<Rightarrow> i64 \<Rightarrow> Receiver opn" where
  "open_admitted C reservation_key absolute lstat scan f recipientPeer lim m contentKey reserved =
    (case deriveResumeKey C contentKey (of_TransferID f) (of_ManifestCommitment f) (of_SenderSigning f)
         (of_RecipientSigning f) (of_SenderBinding f) (of_RecipientBinding f) of
       None \<Rightarrow> on_err (ErrIO ''derive resume key'')
     | Some resumeKey \<Rightarrow>
         on_then (openVerifiedStateRoot True) (
         on_seq (on_opt (\<lambda>w. case loadPersistent (fw_manager w) absolute lstat (scan w) of (e, mgr) \<Rightarrow> (e, w\<lparr>fw_manager := mgr\<rparr>))) (
         on_then (io_step (ErrIO ''secure transfer state root'')) (
         case reservation_key (transfer_id f) of None \<Rightarrow> on_err (ErrIO ''absolute path'')
         | Some key \<Rightarrow>
             on_seq (claim key reserved) (
             open_storage C f m contentKey resumeKey lim (pr_tenantID recipientPeer) (pr_deviceID recipientPeer) reserved)))))"

definition release_admission :: "admission \<Rightarrow> unit io" where
  "release_admission a = with_manager (\<lambda>m. ((), snd (closeActive m a)))"

definition begin_admission :: "Peer \<Rightarrow> admission io" where
  "begin_admission p = (\<lambda>w. case adm_begin (fw_manager w) (pr_tenantID p) (pr_deviceID p) of
     Inl e \<Rightarrow> (Inl e, w) | Inr (a, mgr) \<Rightarrow> (Inr a, w\<lparr>fw_manager := mgr\<rparr>))"

definition OpenReceiverWithManager ::
  "crypto \<Rightarrow> (string \<Rightarrow> string option) \<Rightarrow> string \<Rightarrow> (string \<Rightarrow> inode option) \<Rightarrow> (fsw \<Rightarrow> root_view) \<Rightarrow> Offer \<Rightarrow>
   LocalDevice option \<Rightarrow> Peer \<Rightarrow> time \<Rightarrow> limits \<Rightarrow> Receiver io" where
  "OpenReceiverWithManager C reservation_key absolute lstat scan f recipient expectedSender now lim =
    (let lim = normalized lim in
     io_seq ctx_err (
     io_bind (io_pure (ld_snapshot recipient)) (\<lambda>(_, _, recipientPeer).
     io_bind (trustedTransferTime StateDir now (pr_keyVersion recipientPeer)) (\<lambda>trustedNow.
     io_bind (begin_admission recipientPeer) (\<lambda>admit.
     io_bind (io_result ctx_err) (\<lambda>cancelled.
     case openOffer C (isl cancelled) f recipient expectedSender trustedNow lim of
       Inl e \<Rightarrow> io_seq (release_admission admit) (io_err e)
     | Inr (m, contentKey) \<Rightarrow>
         case reservation_size m of
           None \<Rightarrow> io_seq (release_admission admit) (io_err (ErrLimitExceeded ''reservation overflow''))
         | Some reserved \<Rightarrow>
             run_opening (open_admitted C reservation_key absolute lstat scan f recipientPeer lim m contentKey reserved) admit))))))"

section \<open>Inversion\<close>

lemma on_bind_Inr:
  "on_bind m k s w = (Inr b, s', w') \<longleftrightarrow> (\<exists>a s1 w1. m s w = (Inr a, s1, w1) \<and> k a s1 w1 = (Inr b, s', w'))"
  by (auto simp: on_bind_def split: prod.splits sum.splits)

lemma on_io_iff: "on_io m s w = (x, s', w') \<longleftrightarrow> m w = (x, w') \<and> s' = s"
  by (auto simp: on_io_def split: prod.splits)

lemma on_simple_iff:
  "on_ret a s w = (x, s', w') \<longleftrightarrow> x = Inr a \<and> s' = s \<and> w' = w"
  "on_err e s w = (x, s', w') \<longleftrightarrow> x = Inl e \<and> s' = s \<and> w' = w"
  "on_get k s w = (x, s', w') \<longleftrightarrow> k s s w = (x, s', w')"
  "on_set f s w = (y, s', w') \<longleftrightarrow> y = Inr () \<and> s' = f s \<and> w' = w"
  by (auto simp: on_ret_def on_err_def on_get_def on_set_def)

lemma io_result_iff: "io_result m w = (y, w') \<longleftrightarrow> (\<exists>x. y = Inr x \<and> m w = (x, w'))"
  by (auto simp: io_result_def split: prod.splits)

section \<open>What a successful opening returns\<close>

lemma load_resume_Inr:
  assumes "load_resume C r w = (Inr r', w')"
  shows "\<exists>c. r' = r\<lparr>rv_completed := c\<rparr> \<and> length c = length (rv_completed r)"
proof -
  obtain x w1 where k: "(case x of
       Inl e \<Rightarrow> if e \<noteq> ErrNotExist then io_err e else io_ret r
     | Inr (Irregular _) \<Rightarrow> io_err (ErrLimitExceeded ''resume state file'')
     | Inr (Regular stateBytes) \<Rightarrow>
         if unat (MaxResumeBytes (rv_limits r)) < length stateBytes then io_err (ErrLimitExceeded ''resume state file'')
         else load_token C r stateBytes) w1 = (Inr r', w')"
    using assms unfolding load_resume_def io_bind_Inr by blast
  have t: ?thesis if "load_token C r b w1 = (Inr r', w')" for b
    using that unfolding load_token_def io_bind_Inr
    by (elim exE conjE) (auto split: if_splits sum.splits)
  have "r\<lparr>rv_completed := rv_completed r\<rparr> = r" by simp
  then show ?thesis using k t by (auto split: sum.splits entry.splits if_splits intro!: exI[of _ "rv_completed r"])
qed

lemma resume_opened_Inr:
  assumes "resume_opened C r w = (Inr r', w')" and "rv_shape r"
  shows "rv_inv C r' \<and> rv_frame r r' \<and> rv_part r' = rv_part r"
proof -
  obtain r1 w1 w2 where l: "load_resume C r w = (Inr r1, w1)" and v: "revalidate_opened C r1 w1 = (Inr r', w2)"
    using assms(1) unfolding resume_opened_def io_bind_Inr by auto
  obtain c where c: "r1 = r\<lparr>rv_completed := c\<rparr>" "length c = length (rv_completed r)" using load_resume_Inr[OF l] by blast
  have sh: "rv_shape r1" using assms(2) c by (simp add: rv_shape_def)
  have "revalidateCompleted C r1 w1 = ((None, r'), w2)"
    using v by (auto simp: revalidate_opened_def split: prod.splits option.splits)
  from revalidateCompleted_step[OF sh this] c show ?thesis by (auto simp: rv_frame_def)
qed

lemma openOffer_shape:
  assumes "openOffer C cancelled f recipient sender now lim = Inr (m, key)"
  shows "rv_shape (opened_receiver tid f m ck rk (normalized lim) a p)"
proof -
  have ok: "manifest_ok lim m" using openOffer_accepted[OF assms] by blast
  then have "length (encodeManifest m) = 56 + length (mf_Filename m) + 32 * length (mf_ChunkHashes m)"
    using length_encodeManifest by (simp add: manifest_ok_def)
  moreover have "length (encodeManifest m) < 2 ^ 32"
    using ok unsigned_less[of "MaxManifestBytes (normalized lim)", where ?'a = nat] by (simp add: manifest_ok_def)
  ultimately show ?thesis using ok by (simp add: rv_shape_def opened_receiver_def manifest_ok_def)
qed

section \<open>A consumed transfer stays consumed\<close>

definition consumed_at :: "string \<Rightarrow> fsw \<Rightarrow> bool" where
  "consumed_at tid w \<longleftrightarrow> map_of (fdir (Child tid) w) ''consumed.state'' \<noteq> None"

definition io_stable :: "(fsw \<Rightarrow> bool) \<Rightarrow> 'a io \<Rightarrow> bool" where
  "io_stable P m \<longleftrightarrow> (\<forall>w. P w \<longrightarrow> P (snd (m w)))"

definition on_stable :: "(fsw \<Rightarrow> bool) \<Rightarrow> 'a opn \<Rightarrow> bool" where
  "on_stable P m \<longleftrightarrow> (\<forall>s w. P w \<longrightarrow> P (snd (snd (m s w))))"

lemma on_stableD: "on_stable P m \<Longrightarrow> m s w = (x, s', w') \<Longrightarrow> P w \<Longrightarrow> P w'"
  unfolding on_stable_def by (metis snd_conv)

lemma io_stableD: "io_stable P m \<Longrightarrow> m w = (x, w') \<Longrightarrow> P w \<Longrightarrow> P w'"
  unfolding io_stable_def by (metis snd_conv)

named_theorems stable \<open>steps that keep a transfer consumed\<close>

lemma stable_bind [stable]: "io_stable P m \<Longrightarrow> (\<And>a. io_stable P (k a)) \<Longrightarrow> io_stable P (io_bind m k)"
  unfolding io_stable_def io_bind_def by (auto split: prod.split sum.split)

lemma stable_result [stable]: "io_stable P m \<Longrightarrow> io_stable P (io_result m)"
  unfolding io_stable_def io_result_def by (auto split: prod.split)

lemma on_stable_bind [stable]: "on_stable P m \<Longrightarrow> (\<And>a. on_stable P (k a)) \<Longrightarrow> on_stable P (on_bind m k)"
  unfolding on_stable_def on_bind_def by (auto split: prod.split sum.split) (metis snd_conv)+

lemma on_stable_io [stable]: "io_stable P m \<Longrightarrow> on_stable P (on_io m)"
  unfolding on_stable_def io_stable_def on_io_def by (auto split: prod.split)

lemma on_stable_simple [stable]:
  "on_stable P (on_ret a)" "on_stable P (on_err e)" "on_stable P (on_set f)" "(\<And>s. on_stable P (k s)) \<Longrightarrow> on_stable P (on_get k)"
  by (auto simp: on_stable_def on_ret_def on_err_def on_set_def on_get_def)

lemma touches_stable:
  "io_touches d Q m \<Longrightarrow> d = Child tid \<longrightarrow> \<not> Q ''consumed.state'' \<Longrightarrow> io_stable (consumed_at tid) m"
  unfolding io_stable_def consumed_at_def io_touches_def by (cases "d = Child tid") metis+

lemma slot_stable: "io_keeps (slot tid) m \<Longrightarrow> io_stable (consumed_at tid) m"
  unfolding io_stable_def consumed_at_def io_keeps_def slot_def by simp

lemma manager_stable [stable]: "on_stable (consumed_at tid) (on_admission f)"
  by (simp add: on_stable_def on_admission_def consumed_at_def split: prod.split)

lemmas stable_steps [stable] = slot_steps[THEN slot_stable] slot_dirs(4)[THEN slot_stable] slot_open[THEN slot_stable] slot_random[THEN slot_stable]

lemma ErrIO_not_missing: "dir_lstat tid w = (Inl ErrNotExist, w') \<Longrightarrow> \<not> consumed_at tid w"
  using keepsD[OF slot_steps(1)]
  by (auto simp: dir_lstat_def io_bind_def consumed_at_def map_has_def io_step_def slot_def split: prod.splits option.splits if_splits)

lemma staging_stable: "on_stable (consumed_at tid) (open_staging tid f tenant device reserved)"
  unfolding on_stable_def
proof (intro allI impI)
  fix s w assume c: "consumed_at tid w"
  obtain x w1 where l: "dir_lstat tid w = (x, w1)" by fastforce
  have c1: "consumed_at tid w1"
    using slot_dirs(4)[THEN slot_stable] c l unfolding io_stable_def by (metis snd_conv)
  have "x \<noteq> Inl ErrNotExist" using ErrIO_not_missing l c by blast
  then have "snd (snd (open_staging tid f tenant device reserved s w)) = w1"
    using l by (auto simp: open_staging_def on_bind_def on_io_def io_result_def on_ret_def on_err_def split: sum.split)
  then show "consumed_at tid (snd (snd (open_staging tid f tenant device reserved s w)))" using c1 by simp
qed

lemma lease_touches: "io_touches (Child n) (\<lambda>a. a = ''transfer.lock'') (fs_open_create (Child n) ''transfer.lock'')"
  unfolding fs_open_create_def by (rule touches_op) (auto split: option.splits entry.splits)

lemma lockFile_stable [stable]: "io_stable (consumed_at tid) (lockFile n)"
  unfolding lockFile_def by (rule stable_bind[OF stable_steps(1)]) (auto simp: io_stable_def consumed_at_def)

lemma lease_stable [stable]: "io_stable (consumed_at tid) (acquireTransferLease tid)"
proof -
  have pre: "io_touches (Child tid) (\<lambda>a. a = ''transfer.lock'') (lease_precheck tid)"
    unfolding lease_precheck_def by (rule touches_try[OF touches_ops(1)]) (auto intro!: io_frame split: sum.split)
  show ?thesis
    unfolding acquireTransferLease_def
    by (intro stable_bind stable_steps(1) lockFile_stable touches_stable[OF pre] touches_stable[OF lease_touches]) simp_all
qed

lemma expiry_stable [stable]: "io_stable (consumed_at tid) (persistExpiry (Child tid) e)"
proof -
  have rd: "io_touches (Child tid) (\<lambda>n. n \<noteq> ''consumed.state'') (readExpiry (Child tid))"
    unfolding readExpiry_def by (auto intro!: touches_bind io_frame split: entry.split)
  have at: "io_touches (Child tid) (\<lambda>n. n \<noteq> ''consumed.state'') (atomicWriteState (Child tid) ''expires.at'' d)" for d
    by (rule touches_atomic) (auto simp: is_temp_of_def temp_name_def)
  have "io_touches (Child tid) (\<lambda>n. n \<noteq> ''consumed.state'') (persistExpiry (Child tid) e)"
    unfolding persistExpiry_def Let_def
    by (rule touches_try[OF touches_ops(1)]) (auto intro!: touches_try rd at io_frame split: sum.split)
  then show ?thesis by (rule touches_stable) simp
qed

lemma directory_stable: "on_stable (consumed_at tid) (open_directory tid f tenant device reserved)"
proof -
  have ck: "io_stable (consumed_at tid) (check_reservation tid tenant device reserved)"
    unfolding check_reservation_def
    by (rule stable_bind[OF touches_stable[OF touches_read]]) (auto intro: stable split: sum.split)
  show ?thesis unfolding open_directory_def by (auto intro!: stable ck)
qed

text \<open>Checking the tombstone: any entry of that name stops the opening.\<close>

lemma check_consumed_fails:
  assumes "check_consumed C p s w = (Inr u, s', w')"
  shows "\<not> consumed_at (rv_stateID p) w"
proof -
  obtain w1 where v: "verifyConsumed C p ''consumed.state'' w = (Inr False, w1)"
    using assms by (auto simp: check_consumed_def on_bind_Inr on_io_iff on_simple_iff split: if_splits)
  obtain x w2 where r: "readBoundedRootFile (transferRoot p) ''consumed.state'' consumedSize w = (x, w2)"
    and k: "(case x of Inl e \<Rightarrow> if e = ErrNotExist then io_ret False else io_err e
       | Inr data \<Rightarrow> if data \<noteq> consumedBytes C p then io_err (ErrAuthentication []) else io_ret True) w2 = (Inr False, w1)"
    using v unfolding verifyConsumed_def io_try_iff by blast
  have x: "x = Inl ErrNotExist" using k by (auto split: sum.splits if_splits)
  have "map_of (fdir (transferRoot p) w) ''consumed.state'' = None" by (rule read_NotExist[OF r[unfolded x]])
  then show ?thesis by (simp only: consumed_at_def simp_thms)
qed

lemma open_storage_Inr:
  assumes o: "open_storage C f m ck rk lim tenant device reserved s w = (Inr r, s', w')"
    and sh: "\<And>a p. rv_shape (opened_receiver (transfer_id f) f m ck rk lim a p)"
  shows "\<not> consumed_at (transfer_id f) w \<and> rv_inv C r \<and>
    (\<exists>a p. rv_frame (opened_receiver (transfer_id f) f m ck rk lim a (Some p)) r \<and> rv_part r = Some p)"
proof -
  let ?tid = "transfer_id f"
  obtain u1 s1 w1 u2 s2 w2 u3 s3 w3 s4 w4 p w5 w6 a b where
    st: "open_staging ?tid f tenant device reserved s w = (Inr u1, s1, w1)" and
    di: "open_directory ?tid f tenant device reserved s1 w1 = (Inr u2, s2, w2)" and
    ck: "check_consumed C (opened_receiver ?tid f m ck rk lim b None) s2 w2 = (Inr u3, s3, w3)" and
    re: "resume_opened C (opened_receiver ?tid f m ck rk lim a (Some p)) w5 = (Inr r, w6)"
    using o unfolding open_storage_def Let_def on_bind_Inr on_simple_iff on_io_iff by (elim exE conjE) blast
  have "\<not> consumed_at ?tid w2" using check_consumed_fails[OF ck] by (simp add: opened_receiver_def)
  moreover have "consumed_at ?tid w \<Longrightarrow> consumed_at ?tid w1"
    using staging_stable st unfolding on_stable_def by (metis snd_conv)
  moreover have "consumed_at ?tid w1 \<Longrightarrow> consumed_at ?tid w2"
    using directory_stable di unfolding on_stable_def by (metis snd_conv)
  moreover have "rv_part r = Some p" using resume_opened_Inr[OF re sh] by (simp add: opened_receiver_def)
  ultimately show ?thesis using resume_opened_Inr[OF re sh] by blast
qed

text \<open>What the caller gets, relative to the manifest and key that the offer was opened to.\<close>

definition opened_for :: "crypto \<Rightarrow> Offer \<Rightarrow> Manifest \<Rightarrow> bytes \<Rightarrow> limits \<Rightarrow> Receiver \<Rightarrow> bool" where
  "opened_for C f m key lim r \<longleftrightarrow> rv_manifest r = m \<and> rv_contentKey r = key \<and> rv_offer r = f \<and>
     rv_stateID r = transfer_id f \<and> rv_limits r = lim \<and> \<not> rv_closed r \<and> \<not> rv_finalized r \<and> rv_part r \<noteq> None \<and>
     deriveResumeKey C key (of_TransferID f) (of_ManifestCommitment f) (of_SenderSigning f)
       (of_RecipientSigning f) (of_SenderBinding f) (of_RecipientBinding f) = Some (rv_resumeKey r) \<and> rv_inv C r"

lemma claim_stable [stable]: "on_stable (consumed_at tid) (claim key reserved)"
  unfolding claim_def by (rule on_stable_bind[OF manager_stable]) (auto intro: stable split: option.split)

lemma on_opt_stable: "(\<And>w d. fdir d (snd (g w)) = fdir d w) \<Longrightarrow> on_stable (consumed_at tid) (on_opt g)"
  unfolding on_stable_def on_opt_def consumed_at_def by (simp del: fdir.simps add: prod.case_eq_if option.case_eq_if)

lemma open_admitted_Inr:
  assumes o: "open_admitted C rkey absolute lstat scan f peer lim m key reserved s w = (Inr r, s', w')"
    and sh: "\<And>rk a p. rv_shape (opened_receiver (transfer_id f) f m key rk lim a p)"
  shows "\<not> consumed_at (transfer_id f) w \<and> opened_for C f m key lim r"
proof -
  let ?ld = "on_opt (\<lambda>w. case loadPersistent (fw_manager w) absolute lstat (scan w) of (e, mgr) \<Rightarrow> (e, w\<lparr>fw_manager := mgr\<rparr>))"
  have ld: "on_stable (consumed_at tid) ?ld" for tid by (rule on_opt_stable) (simp split: prod.split)
  obtain rk k u1 s1 w1 u2 s2 w2 u3 s3 w3 u4 s4 w4 where
    d: "deriveResumeKey C key (of_TransferID f) (of_ManifestCommitment f) (of_SenderSigning f)
         (of_RecipientSigning f) (of_SenderBinding f) (of_RecipientBinding f) = Some rk" and
    c1: "on_io (openVerifiedStateRoot True) s w = (Inr u1, s1, w1)" and
    c2: "?ld s1 w1 = (Inr u2, s2, w2)" and
    c3: "on_io (io_step (ErrIO ''secure transfer state root'')) s2 w2 = (Inr u3, s3, w3)" and
    c4: "claim k reserved s3 w3 = (Inr u4, s4, w4)" and
    st: "open_storage C f m key rk lim (pr_tenantID peer) (pr_deviceID peer) reserved s4 w4 = (Inr r, s', w')"
    using o unfolding open_admitted_def
    by (auto simp: on_bind_Inr on_simple_iff split: option.splits)
  have P: "consumed_at tid w \<Longrightarrow> consumed_at tid w4" for tid
    using on_stableD[OF on_stable_io[OF stable_steps(9)] c1] on_stableD[OF ld c2]
      on_stableD[OF on_stable_io[OF stable_steps(1)] c3] on_stableD[OF claim_stable c4] by blast
  note S = open_storage_Inr[OF st sh]
  then obtain a p where fr: "rv_frame (opened_receiver (transfer_id f) f m key rk lim a (Some p)) r" "rv_part r = Some p" by blast
  then show ?thesis using S P d unfolding opened_for_def rv_frame_def opened_receiver_def by auto
qed

lemma touches_weaken: "io_touches d P m \<Longrightarrow> io_touches d (\<lambda>_. True) m"
  by (simp add: io_touches_def)

lemma trusted_time_touches: "io_touches d (\<lambda>_. True) (trustedTransferTime d now kv)"
  unfolding trustedTransferTime_def load_trusted_time_def
  by (auto intro!: touches_bind touches_try io_frame touches_weaken[OF touches_lock] split: sum.split)

lemma begin_stable: "io_stable (consumed_at tid) (begin_admission p)"
  by (auto simp: begin_admission_def io_stable_def consumed_at_def split: sum.split)

lemma run_opening_Inr:
  "run_opening m a w = (Inr r, w') \<Longrightarrow> \<exists>s s'. m s w = (Inr r, s', w')"
  by (auto simp: run_opening_def split: prod.splits sum.splits)

lemma OpenReceiver_Inr:
  assumes o: "OpenReceiverWithManager C rkey absolute lstat scan f recipient sender now lim w = (Inr r, w')"
  shows "\<not> consumed_at (transfer_id f) w \<and> (\<exists>d trustedNow w1 w2 m key. recipient = Some d \<and>
     trustedTransferTime StateDir now (pr_keyVersion (ld_peer d)) w1 = (Inr trustedNow, w2) \<and>
     openOffer C False f recipient sender trustedNow (normalized lim) = Inr (m, key) \<and>
     opened_for C f m key (normalized lim) r)"
proof -
  let ?k = "\<lambda>a p t cn. (case openOffer C (isl cn) f recipient sender t (normalized lim) of
         Inl e \<Rightarrow> io_seq (release_admission a) (io_err e)
       | Inr (m, contentKey) \<Rightarrow> (case reservation_size m of
           None \<Rightarrow> io_seq (release_admission a) (io_err (ErrLimitExceeded ''reservation overflow''))
         | Some reserved \<Rightarrow> run_opening (open_admitted C rkey absolute lstat scan f p (normalized lim) m contentKey reserved) a))"
  let ?rest = "\<lambda>p. io_bind (trustedTransferTime StateDir now (pr_keyVersion p)) (\<lambda>t.
     io_bind (begin_admission p) (\<lambda>a. io_bind (io_result ctx_err) (?k a p t)))"
  obtain u w1 q where c1: "ctx_err w = (Inr u, w1)" and sq: "ld_snapshot recipient = Inr q"
    and rest: "(case q of (_, _, p) \<Rightarrow> ?rest p) w1 = (Inr r, w')"
    using o unfolding OpenReceiverWithManager_def Let_def io_bind_Inr io_pure_iff by blast
  obtain i x p where q: "q = (i, x, p)" by (cases q)
  note sn = sq[unfolded q]
  obtain t w2 a w3 cn w4 where
    c2: "trustedTransferTime StateDir now (pr_keyVersion p) w1 = (Inr t, w2)" and
    c3: "begin_admission p w2 = (Inr a, w3)" and c4: "io_result ctx_err w3 = (Inr cn, w4)" and
    k: "?k a p t cn w4 = (Inr r, w')"
    using rest unfolding q prod.case io_bind_Inr by blast
  obtain m key reserved where op: "openOffer C (isl cn) f recipient sender t (normalized lim) = Inr (m, key)"
    and ru: "run_opening (open_admitted C rkey absolute lstat scan f p (normalized lim) m key reserved) a w4 = (Inr r, w')"
    using k by (auto simp: io_bind_Inr split: sum.splits option.splits)
  have nc: "isl cn = False" using openOffer_accepted[OF op] by blast
  obtain s s' where ad: "open_admitted C rkey absolute lstat scan f p (normalized lim) m key reserved s w4 = (Inr r, s', w')"
    using run_opening_Inr[OF ru] by blast
  note A = open_admitted_Inr[OF ad openOffer_shape[OF op, unfolded normalized_idem]]
  have "consumed_at tid w \<Longrightarrow> consumed_at tid w4" for tid
    using io_stableD[OF stable_steps(5) c1] io_stableD[OF touches_stable[OF trusted_time_touches] c2]
      io_stableD[OF begin_stable c3] io_stableD[OF stable_result[OF stable_steps(5)] c4] by blast
  then show ?thesis using A op c2 sn unfolding nc snapshot_Inr by blast
qed


text \<open>
  C9: a finished transfer cannot be replayed. If the state directory of the offered transfer holds a
  \<open>consumed.state\<close> entry of whatever content, no call of \<open>OpenReceiverWithManager\<close> for that offer
  returns a receiver, whatever else fails or succeeds and whatever the clock says.
\<close>

theorem consumed_transfer_never_reopens:
  assumes "map_of (fw_children w) (transfer_id f) = Some fs" and "map_of fs ''consumed.state'' = Some e"
  shows "isl (fst (OpenReceiverWithManager C rkey absolute lstat scan f recipient sender now lim w))"
proof (rule ccontr)
  assume "\<not> isl (fst (OpenReceiverWithManager C rkey absolute lstat scan f recipient sender now lim w))"
  then obtain r w' where "OpenReceiverWithManager C rkey absolute lstat scan f recipient sender now lim w = (Inr r, w')"
    by (metis isl_def sum.collapse(2) prod.collapse)
  from OpenReceiver_Inr[OF this] show False using assms by (simp add: consumed_at_def)
qed

lemma consumed_transfer_never_reopens_witness:
  "isl (fst (OpenReceiverWithManager sample_crypto Some ''root'' (\<lambda>_. None) (\<lambda>_. \<lparr> rv_inode = 0, rv_entries = Some [] \<rparr>)
     sample_offer (Some (sample_device 2)) (ld_peer (sample_device 1)) (from_unix 5) DefaultLimits
     (sample_world\<lparr>fw_children := [(transfer_id sample_offer, [(''consumed.state'', Regular [])])]\<rparr>)))"
  by (rule consumed_transfer_never_reopens[where fs = "[(''consumed.state'', Regular [])]" and e = "Regular []"]) simp_all

end
