(* ===== verification/FT_Collect.thy ===== *)
theory FT_Collect
  imports FT_Lease
begin

text \<open>
  File transfer, garbage collection of \<open>internal/filetransfer/gc.go\<close>: which transfer directories and
  crash residuals of the state directory are removed, under which budgets.
\<close>

definition maxGCRemovals :: nat where "maxGCRemovals = 256"
definition gcReadBatch :: nat where "gcReadBatch = 128"

section \<open>One entry\<close>

text \<open>A failing step closes the lease and the directory handle first.\<close>

definition gc_guard :: "string \<Rightarrow> 'a io \<Rightarrow> ('a \<Rightarrow> 'b io) \<Rightarrow> 'b io" where
  "gc_guard n m k = io_try m (\<lambda>x. case x of
     Inl e \<Rightarrow> io_try (lease_close n) (\<lambda>_. io_try fs_close (\<lambda>_. io_err e))
   | Inr a \<Rightarrow> k a)"

definition collect_lock_error :: "ft_error + unit \<Rightarrow> ft_error option" where
  "collect_lock_error x = (case x of Inl e \<Rightarrow> if e = ErrNotExist then None else Some e | Inr _ \<Rightarrow> None)"

definition gc_quarantine :: "string \<Rightarrow> bytes \<Rightarrow> string" where
  "gc_quarantine tid suffix = ''.gc-'' @ tid @ ''-'' @ hex_encode suffix"

definition sum_error :: "ft_error + unit \<Rightarrow> ft_error option" where
  "sum_error x = (case x of Inl e \<Rightarrow> Some e | Inr _ \<Rightarrow> None)"

text \<open>The part of \<open>collectOne\<close> after the content is gone.\<close>

definition collect_finish :: "string \<Rightarrow> string option \<Rightarrow> unit io" where
  "collect_finish quarantine key =
     io_try (lease_close quarantine) (\<lambda>leaseErr.
     io_try (fs_remove (Child quarantine) ''transfer.lock'') (\<lambda>lockErr.
     io_try syncRootDir (\<lambda>syncErr.
     io_try fs_close (\<lambda>closeErr.
     let errs = [sum_error leaseErr, collect_lock_error lockErr, sum_error syncErr, sum_error closeErr] in
     case errors_join errs of Some e \<Rightarrow> io_err e | None \<Rightarrow>
     io_seq (dir_remove quarantine) (
     io_seq syncRootDir (
     case key of None \<Rightarrow> io_ret () | Some k \<Rightarrow> with_manager (\<lambda>m. ((), dropReservation m k))))))))"

text \<open>\<open>collectOne\<close>, once the transfer is known to be expired and its lease is held.\<close>

definition collect_expired :: "(string \<Rightarrow> string option) \<Rightarrow> string \<Rightarrow> unit io" where
  "collect_expired reservation_key tid =
     gc_guard tid (io_random 8) (\<lambda>suffix.
     let quarantine = gc_quarantine tid suffix in
     gc_guard tid (dir_rename tid quarantine) (\<lambda>_.
     gc_guard quarantine syncRootDir (\<lambda>_.
     gc_guard quarantine (removeStateContent (Child quarantine)) (\<lambda>_.
     gc_guard quarantine syncRootDir (\<lambda>_.
     collect_finish quarantine (reservation_key tid))))))"

definition collect_leased :: "(string \<Rightarrow> string option) \<Rightarrow> string \<Rightarrow> time \<Rightarrow> unit io" where
  "collect_leased reservation_key tid now =
     gc_guard tid (transferExpired (Child tid) now) (\<lambda>expired.
     if \<not> expired then io_try (lease_close tid) (\<lambda>_. io_try fs_close (\<lambda>_. io_err ErrTransferBusy))
     else collect_expired reservation_key tid)"

definition collectOne :: "(string \<Rightarrow> string option) \<Rightarrow> string \<Rightarrow> time \<Rightarrow> unit io" where
  "collectOne reservation_key tid now =
     io_bind (dir_lstat tid) (\<lambda>isDir.
     if \<not> isDir then io_err (ErrInvalidInput ''transfer entry'') else
     io_seq (openVerifiedChild tid) (
     io_try (acquireTransferLease tid) (\<lambda>lease. case lease of
       Inl e \<Rightarrow> io_try fs_close (\<lambda>_. io_err e)
     | Inr _ \<Rightarrow> collect_leased reservation_key tid now)))"

text \<open>
  \<open>collectResidual\<close>. The deferred calls close the lease and the handle; \<open>old\<close> says whether the
  directory has not been modified for the retention time.
\<close>

definition residual_body :: "string \<Rightarrow> crashResidualKind \<Rightarrow> unit io" where
  "residual_body name kind =
     io_seq (validateResidualContent (Child name) kind) (
     io_seq (removeStateContent (Child name)) (
     io_seq syncRootDir (
     io_seq (lease_close name) (
     io_seq (io_try (fs_remove (Child name) ''transfer.lock'') (\<lambda>x. case collect_lock_error x of Some e \<Rightarrow> io_err e | None \<Rightarrow> io_ret ())) (
     io_seq syncRootDir (
     io_seq fs_close (
     io_seq (dir_remove name) syncRootDir)))))))"

definition collectResidual :: "(string \<Rightarrow> bool) \<Rightarrow> string \<Rightarrow> bool io" where
  "collectResidual old name =
     (let kind = residualKind name in
      if kind = residualUnknown then io_err (ErrInvalidInput ''residual name'') else
      io_try (dir_lstat name) (\<lambda>x. case x of
        Inl e \<Rightarrow> if e = ErrNotExist then io_ret False else io_err e
      | Inr isDir \<Rightarrow>
          if \<not> isDir then io_err (ErrInvalidInput ''residual is not a real directory'')
          else if kind = residualStaging \<and> \<not> old name then io_err ErrTransferBusy else
          io_seq (openVerifiedChild name) (
          io_try (acquireTransferLease name) (\<lambda>lease. case lease of
            Inl e \<Rightarrow> io_try fs_close (\<lambda>_. io_err e)
          | Inr _ \<Rightarrow> io_try (residual_body name kind) (\<lambda>y.
              io_try (lease_close name) (\<lambda>_. io_try fs_close (\<lambda>_.
              case y of Inl e \<Rightarrow> io_err e | Inr _ \<Rightarrow> io_ret True)))))))"

section \<open>The collector\<close>

record gc_state =
  gc_scanned :: nat
  gc_removed :: nat
  gc_errors :: "ft_error list"

definition gc_note :: "gc_state \<Rightarrow> ft_error \<Rightarrow> gc_state" where
  "gc_note s e = (if e = ErrTransferBusy then s else s\<lparr>gc_errors := gc_errors s @ [e]\<rparr>)"

definition gc_entry :: "(string \<Rightarrow> string option) \<Rightarrow> (string \<Rightarrow> bool) \<Rightarrow> time \<Rightarrow> gc_state \<Rightarrow> string \<Rightarrow> gc_state io" where
  "gc_entry reservation_key old now s name =
     (if validTransferID name then
        io_try (collectOne reservation_key name now) (\<lambda>x. io_ret (case x of
          Inl e \<Rightarrow> gc_note s e | Inr _ \<Rightarrow> s\<lparr>gc_removed := Suc (gc_removed s)\<rparr>))
      else if residualKind name \<noteq> residualUnknown then
        io_try (collectResidual old name) (\<lambda>x. io_ret (case x of
          Inl e \<Rightarrow> gc_note s e
        | Inr didRemove \<Rightarrow> if didRemove then s\<lparr>gc_removed := Suc (gc_removed s)\<rparr> else s))
      else io_ret s)"

fun gc_entries :: "(string \<Rightarrow> string option) \<Rightarrow> (string \<Rightarrow> bool) \<Rightarrow> time \<Rightarrow> gc_state \<Rightarrow> string list \<Rightarrow> gc_state io" where
  "gc_entries rk old now s [] = io_ret s"
| "gc_entries rk old now s (name # rest) =
     (let s = s\<lparr>gc_scanned := Suc (gc_scanned s)\<rparr> in
      if maxGCScannedEntries < gc_scanned s then io_ret (s\<lparr>gc_errors := gc_errors s @ [ErrLimitExceeded ''too many state-root entries'']\<rparr>)
      else if maxGCRemovals \<le> gc_removed s then io_ret (s\<lparr>gc_errors := gc_errors s @ [ErrLimitExceeded ''GC removal budget'']\<rparr>)
      else io_bind (gc_entry rk old now s name) (\<lambda>s. gc_entries rk old now s rest))"

text \<open>The outer loop over the batches of \<open>ReadDir\<close>; a read that fails ends it.\<close>

function gc_batches :: "(string \<Rightarrow> string option) \<Rightarrow> (string \<Rightarrow> bool) \<Rightarrow> time \<Rightarrow> gc_state \<Rightarrow> string list \<Rightarrow> gc_state io" where
  "gc_batches rk old now s names =
     io_try (io_step (ErrIO ''readdir'')) (\<lambda>rd. case rd of
       Inl e \<Rightarrow> io_ret (s\<lparr>gc_errors := gc_errors s @ [e]\<rparr>)
     | Inr _ \<Rightarrow>
         io_bind (gc_entries rk old now s (take gcReadBatch names)) (\<lambda>s.
         if maxGCScannedEntries < gc_scanned s \<or> maxGCRemovals \<le> gc_removed s then io_ret s
         else if names = [] then io_ret s
         else gc_batches rk old now s (drop gcReadBatch names)))"
  by pat_completeness auto

termination
  by (relation "measure (\<lambda>(_, _, _, _, names). length names)") (auto simp: gcReadBatch_def)

declare gc_batches.simps [simp del]

text \<open>The names of the state directory are listed in full when it is opened.\<close>

definition root_names :: "fsw \<Rightarrow> string list" where
  "root_names w = map fst (fw_children w) @ map fst (fw_state w)"

definition GarbageCollectExpiredWithManager ::
  "(string \<Rightarrow> string option) \<Rightarrow> (string \<Rightarrow> bool) \<Rightarrow> time \<Rightarrow> int \<Rightarrow> bool \<Rightarrow> fsw \<Rightarrow> (nat \<times> ft_error option) \<times> fsw" where
  "GarbageCollectExpiredWithManager reservation_key old now retention hasManager w =
    (if retention \<le> 0 \<or> \<not> hasManager then ((0, Some (ErrInvalidInput ''GC configuration'')), w) else
     case openVerifiedStateRoot False w of
       (Inl e, w) \<Rightarrow> ((0, if e = ErrNotExist then None else Some e), w)
     | (Inr _, w) \<Rightarrow>
         (case io_step (ErrIO ''open'') w of
            (Inl e, w) \<Rightarrow> ((0, Some e), w)
          | (Inr _, w) \<Rightarrow>
              (case gc_batches reservation_key old now \<lparr>gc_scanned = 0, gc_removed = 0, gc_errors = []\<rparr> (root_names w) w of
                 (Inl e, w) \<Rightarrow> ((0, Some e), w)
               | (Inr s, w) \<Rightarrow>
                   (case fs_close w of (x, w) \<Rightarrow>
                      ((gc_removed s, errors_join (map Some (gc_errors s) @ [sum_error x])), w)))))"

section \<open>What the collector spares\<close>

definition io_rel :: "(fsw \<Rightarrow> fsw \<Rightarrow> bool) \<Rightarrow> 'a io \<Rightarrow> bool" where
  "io_rel R m \<longleftrightarrow> (\<forall>w. R w (snd (m w)))"

lemma io_relD: "io_rel R m \<Longrightarrow> m w = (x, w') \<Longrightarrow> R w w'"
  unfolding io_rel_def by (metis snd_conv)

lemma io_relI: "(\<And>w x w'. m w = (x, w') \<Longrightarrow> R w w') \<Longrightarrow> io_rel R m"
  unfolding io_rel_def by (metis prod.collapse)

lemma rel_bind:
  assumes "\<And>a b c. R a b \<Longrightarrow> R b c \<Longrightarrow> R a c" "io_rel R m" "\<And>a. io_rel R (k a)"
  shows "io_rel R (io_bind m k)"
proof (rule io_relI)
  fix w x w' assume b: "io_bind m k w = (x, w')"
  obtain y w1 where m: "m w = (y, w1)" by fastforce
  show "R w w'"
    using b m io_relD[OF assms(2) m] assms(1) io_relD[OF assms(3)] by (cases y) (auto simp: io_bind_def)
qed

lemma rel_try:
  assumes "\<And>a b c. R a b \<Longrightarrow> R b c \<Longrightarrow> R a c" "io_rel R m" "\<And>a. io_rel R (k a)"
  shows "io_rel R (io_try m k)"
proof (rule io_relI)
  fix w x w' assume b: "io_try m k w = (x, w')"
  obtain y w1 where m: "m w = (y, w1)" by fastforce
  show "R w w'" using b m io_relD[OF assms(2) m] assms(1) io_relD[OF assms(3)] by (auto simp: io_try_def)
qed

text \<open>An existing directory and its lease do not change.\<close>

definition same :: "string \<Rightarrow> fsw \<Rightarrow> fsw \<Rightarrow> bool" where
  "same n w w' \<longleftrightarrow> (child_at n w \<noteq> None \<longrightarrow> slot n w' = slot n w)"

lemma same_refl [simp]: "same n w w"
  by (simp add: same_def)

lemma same_trans: "same n a b \<Longrightarrow> same n b c \<Longrightarrow> same n a c"
  by (auto simp: same_def slot_def)

lemma same_keeps: "io_keeps (slot n) m \<Longrightarrow> io_rel (same n) m"
  by (simp add: io_keeps_def io_rel_def same_def)

named_theorems same_rel \<open>steps that leave an existing directory alone\<close>

lemma same_lstat [same_rel]: "io_rel (same n) (fs_lstat d a)"
proof (rule io_relI)
  fix w x w' assume l: "fs_lstat d a w = (x, w')"
  show "same n w w'"
  proof (cases "d = Child n")
    case False
    then show ?thesis using keepsD[OF slot_ops(1) l] by (simp add: same_def)
  next
    case True
    show ?thesis using l unfolding True fs_lstat_def fs_op_def io_bind_def
      by (auto simp: same_def slot_def lease_held_def split: prod.splits sum.splits option.splits
          dest: keepsD[OF slot_steps(1)[of n]])
  qed
qed

lemma same_simple [same_rel]: "io_rel (same n) (io_step e)" "io_rel (same n) (io_ret a)" "io_rel (same n) (io_err e)"
  "io_rel (same n) fs_close" "io_rel (same n) syncRootDir" "io_rel (same n) (dir_lstat c)" "io_rel (same n) (openVerifiedChild c)"
  by (auto intro: same_keeps slot_keeps)

lemma same_bind:
  "io_rel (same n) m \<Longrightarrow> (\<And>a. io_rel (same n) (k a)) \<Longrightarrow> io_rel (same n) (io_bind m k)"
  "io_rel (same n) m \<Longrightarrow> (\<And>a. io_rel (same n) (h a)) \<Longrightarrow> io_rel (same n) (io_try m h)"
  by (rule rel_bind rel_try; blast intro: same_trans)+

lemma same_expired [same_rel]: "io_rel (same n) (transferExpired d now)"
  unfolding transferExpired_def readExpiry_def Let_def
  by (auto intro!: same_bind same_rel split: entry.split)

text \<open>An existing directory keeps all entries but its lock file, and a lease that is held stays held.\<close>

definition spared :: "string \<Rightarrow> fsw \<Rightarrow> fsw \<Rightarrow> bool" where
  "spared n w w' \<longleftrightarrow> (\<forall>fs. child_at n w = Some fs \<longrightarrow>
     (\<exists>fs'. child_at n w' = Some fs' \<and> (\<forall>a. a \<noteq> ''transfer.lock'' \<longrightarrow> map_of fs' a = map_of fs a)) \<and>
     (lease_held n w \<longrightarrow> lease_held n w'))"

lemma spared_trans: "spared n a b \<Longrightarrow> spared n b c \<Longrightarrow> spared n a c"
  unfolding spared_def by (metis (no_types, lifting))

lemma spared_bind:
  "io_rel (spared n) m \<Longrightarrow> (\<And>a. io_rel (spared n) (k a)) \<Longrightarrow> io_rel (spared n) (io_bind m k)"
  "io_rel (spared n) m \<Longrightarrow> (\<And>a. io_rel (spared n) (h a)) \<Longrightarrow> io_rel (spared n) (io_try m h)"
  by (rule rel_bind rel_try; blast intro: spared_trans)+

lemma same_spared: "same n w w' \<Longrightarrow> spared n w w'"
  by (auto simp: same_def spared_def slot_def)

lemma keeps_spared: "io_keeps (slot n) m \<Longrightarrow> io_rel (spared n) m"
  using same_keeps[of n m] same_spared by (simp add: io_rel_def)

definition collectable :: "time \<Rightarrow> files \<Rightarrow> bool" where
  "collectable now fs \<longleftrightarrow> (\<exists>data. map_of fs ''expires.at'' = Some (Regular data) \<and> length data = 8 \<and>
     0 \<le> unix now \<and> be64 data \<le> word_of_int (unix now))"

lemma child_of_file: "map_of (fdir (Child n) w) a = Some e \<Longrightarrow> \<exists>fs. child_at n w = Some fs \<and> map_of fs a = Some e"
  by (auto split: option.splits)

lemma expired_True:
  assumes "transferExpired (Child n) now w = (Inr True, w')"
  shows "\<exists>fs. child_at n w = Some fs \<and> collectable now fs"
proof -
  obtain data w1 where rd: "readExpiry (Child n) w = (Inr data, w1)" and t: "0 \<le> unix now" "be64 data \<le> word_of_int (unix now)"
    using assms by (auto simp: transferExpired_def io_bind_Inr Let_def not_less split: if_splits)
  obtain en w2 where l: "fs_lstat (Child n) ''expires.at'' w = (Inr en, w2)"
    and k: "(case en of Irregular _ \<Rightarrow> io_err (ErrInvalidInput ''transfer expiry'')
     | Regular data \<Rightarrow>
         if length data \<noteq> 8 then io_err (ErrInvalidInput ''transfer expiry'') else
         io_seq (io_step (ErrIO ''open'')) (
         io_seq (io_step (ErrInvalidInput ''transfer expiry changed while opening'')) (
         io_seq (io_step (ErrIO ''read'')) (io_ret data)))) w2 = (Inr data, w1)"
    using rd unfolding readExpiry_def io_bind_Inr[of "fs_lstat (Child n) ''expires.at''"] by blast
  have en: "en = Regular data" "length data = 8"
    using k by (cases en; auto simp: io_bind_Inr split: if_splits)+
  from child_of_file[of n w "''expires.at''" en] lstat_Inr[OF l] obtain fs
    where "child_at n w = Some fs" "map_of fs ''expires.at'' = Some en" by blast
  then show ?thesis using en t by (auto simp: collectable_def)
qed

lemma collectable_spared:
  "spared n w w' \<Longrightarrow> child_at n w = Some fs \<Longrightarrow> child_at n w' = Some fs' \<Longrightarrow> collectable now fs' = collectable now fs"
  by (auto simp: spared_def collectable_def)

lemma lease_steps: "io_keeps (lease_held n) (io_step e)" "io_keeps (lease_held n) (fs_op d f)" "io_keeps (lease_held n) (io_ret a)"
  "io_keeps (lease_held n) (io_err x)"
proof -
  show s: "io_keeps (lease_held n) (io_step e)" for e
    using slot_steps(1)[of n e] by (simp add: io_keeps_def slot_def)
  show "io_keeps (lease_held n) (fs_op d f)" unfolding fs_op_def
    by (rule keeps_bind[OF s]) (auto simp: io_keeps_def lease_held_def split: sum.split)
qed (simp_all add: io_keeps_def io_ret_def io_err_def)

lemma spared_lock: "io_rel (spared n) (fs_open_create (Child n) ''transfer.lock'')" "io_rel (spared n) (lockFile n)"
proof -
  show "io_rel (spared n) (fs_open_create (Child n) ''transfer.lock'')"
    unfolding fs_open_create_def fs_op_def
  proof (rule spared_bind(1)[OF keeps_spared[OF slot_steps(1)]])
    show "io_rel (spared n) (\<lambda>w. case case map_of (fdir (Child n) w) ''transfer.lock'' of
        None \<Rightarrow> Inr ((), AList.update ''transfer.lock'' (Regular []) (fdir (Child n) w))
      | Some (Regular _) \<Rightarrow> Inr ((), fdir (Child n) w) | Some (Irregular _) \<Rightarrow> Inl (ErrIO ''open'') of
        Inl e \<Rightarrow> (Inl e, w) | Inr (a, fs) \<Rightarrow> (Inr a, set_dir (Child n) fs w))"
      by (auto simp: io_rel_def spared_def lease_held_def split: option.split entry.split)
  qed
  show "io_rel (spared n) (lockFile n)" unfolding lockFile_def
    by (rule spared_bind(1)[OF keeps_spared[OF slot_steps(1)]]) (auto simp: io_rel_def spared_def lease_held_def)
qed

lemma same_precheck [same_rel]: "io_rel (same n) (lease_precheck c)"
  unfolding lease_precheck_def by (auto intro!: same_bind same_rel split: sum.split)

lemma lease_precheck_lease: "io_keeps (lease_held n) (lease_precheck c)"
  unfolding lease_precheck_def fs_lstat_def by (auto intro!: keeps_try lease_steps split: sum.split)

lemma acquire_spared: "io_rel (spared n) (acquireTransferLease n)"
proof -
  have "io_rel (spared n) (lease_precheck n)" using same_precheck[of n n] same_spared by (simp add: io_rel_def)
  then show ?thesis unfolding acquireTransferLease_def
    by (rule spared_bind) (intro spared_bind spared_lock keeps_spared[OF slot_steps(1)])
qed

lemma acquire_Inr:
  assumes "acquireTransferLease n w = (Inr u, w')"
  shows "\<not> lease_held n w"
proof -
  obtain u1 w1 u2 w2 u3 w3 u4 w4 where s: "lease_precheck n w = (Inr u1, w1)"
    "fs_open_create (Child n) ''transfer.lock'' w1 = (Inr u2, w2)"
    "io_step (ErrIO ''secure transfer lease'') w2 = (Inr u3, w3)"
    "io_step (ErrInvalidInput ''transfer lease changed while opening'') w3 = (Inr u4, w4)" and l: "lockFile n w4 = (Inr u, w')"
    using assms unfolding acquireTransferLease_def io_bind_Inr by blast
  have "lease_held n w4 = lease_held n w"
    using keepsD[OF lease_precheck_lease s(1)] keepsD[OF lease_steps(2) s(2)[unfolded fs_open_create_def]]
      keepsD[OF lease_steps(1) s(3)] keepsD[OF lease_steps(1) s(4)] by simp
  moreover obtain w5 where "io_step (ErrIO ''lock transfer lease'') w4 = (Inr (), w5)" "\<not> lease_held n w5"
    using l by (auto simp: lockFile_def io_bind_Inr split: if_splits)
  ultimately show ?thesis using keepsD[OF lease_steps(1)[of n]] by metis
qed

text \<open>Collecting one transfer spares every directory that is leased or not yet to be collected.\<close>

lemma gc_quarantine_neq: "gc_quarantine t s \<noteq> t"
  using arg_cong[of "gc_quarantine t s" t length] by (auto simp: gc_quarantine_def)

definition protected :: "time \<Rightarrow> string \<Rightarrow> fsw \<Rightarrow> bool" where
  "protected now n w \<longleftrightarrow> (\<exists>fs. child_at n w = Some fs \<and> (lease_held n w \<or> \<not> collectable now fs))"

lemma protected_spared: "protected now n w \<Longrightarrow> spared n w w' \<Longrightarrow> protected now n w'"
proof -
  assume p: "protected now n w" and s: "spared n w w'"
  obtain fs where fs: "child_at n w = Some fs" "lease_held n w \<or> \<not> collectable now fs" using p by (auto simp: protected_def)
  obtain fs' where "child_at n w' = Some fs'" using s fs(1) by (auto simp: spared_def)
  then show ?thesis using fs s collectable_spared[OF s fs(1)] by (auto simp: protected_def spared_def)
qed

lemma lease_close_unheld:
  assumes "lease_close n w = (x, w')" "\<not> lease_held n w0" "spared n w0 w"
  shows "spared n w0 w'"
proof -
  obtain y w1 where st: "io_step (ErrIO ''unlock'') w = (y, w1)" and w': "w' = w1\<lparr>fw_leases := removeAll n (fw_leases w1)\<rparr>"
    using assms(1) by (auto simp: lease_close_def split: prod.splits)
  have "child_at n w' = child_at n w" using keepsD[OF children_steps(1) st] w' by simp
  then show ?thesis using assms(2,3) by (simp add: spared_def)
qed

lemma io_bind_cases:
  assumes "io_bind m k w = (x, w')"
  obtains (err) e where "m w = (Inl e, w')" "x = Inl e" | (ok) a w1 where "m w = (Inr a, w1)" "k a w1 = (x, w')"
  using assms that by (auto simp: io_bind_def split: prod.splits sum.splits)

lemma spared_refl [simp]: "spared n w w"
  by (simp add: same_spared)

lemma rel_same: "io_rel (same n) m \<Longrightarrow> m w = (x, w') \<Longrightarrow> spared n w w'"
  by (drule (1) io_relD) (rule same_spared)

text \<open>With the lease just taken, a directory that is not to be collected is handed back.\<close>

lemma gc_abort_spares:
  assumes "io_try (lease_close n) (\<lambda>_. io_try fs_close (\<lambda>_. io_err e)) w1 = (x, w')"
    and "\<not> lease_held n w0" "spared n w0 w1"
  shows "spared n w0 w'"
proof -
  obtain y w2 z where l: "lease_close n w1 = (y, w2)" and f: "fs_close w2 = (z, w')"
    using assms(1) by (auto simp: io_try_iff)
  show ?thesis
    using lease_close_unheld[OF l assms(2,3)] rel_same[OF same_simple(4) f] by (rule spared_trans)
qed

lemma leased_spares:
  assumes c: "collect_leased rk n now w1 = (x, w')" and sp: "spared n w0 w1" and free: "\<not> lease_held n w0"
    and p: "protected now n w1" and nc: "\<And>fs. child_at n w1 = Some fs \<Longrightarrow> \<not> collectable now fs"
  shows "spared n w0 w'"
proof -
  obtain y w2 where t: "transferExpired (Child n) now w1 = (y, w2)" by fastforce
  have s2: "spared n w0 w2" using sp rel_same[OF same_expired t] by (rule spared_trans)
  have "y \<noteq> Inr True" using expired_True[of n now w1 w2] t nc by auto
  then obtain e where "io_try (lease_close n) (\<lambda>_. io_try fs_close (\<lambda>_. io_err e)) w2 = (x, w')"
    using c t by (cases y) (auto simp: collect_leased_def gc_guard_def io_try_def[of "transferExpired (Child n) now"] split: if_splits)
  then show ?thesis using gc_abort_spares free s2 by blast
qed

lemma collectOne_spares_same:
  assumes c: "collectOne rk n now w = (x, w')" and p: "protected now n w"
  shows "spared n w w'"
  using c unfolding collectOne_def
proof (cases rule: io_bind_cases)
  case (err e)
  then show ?thesis using rel_same[OF same_simple(6)] by blast
next
  case (ok isDir w1)
  have s1: "spared n w w1" using rel_same[OF same_simple(6) ok(1)] .
  show ?thesis
  proof (cases isDir)
    case False
    then show ?thesis using ok(2) s1 by simp
  next
    case True
    have "io_seq (openVerifiedChild n) (io_try (acquireTransferLease n) (\<lambda>lease. case lease of
       Inl e \<Rightarrow> io_try fs_close (\<lambda>_. io_err e) | Inr _ \<Rightarrow> collect_leased rk n now)) w1 = (x, w')"
      using ok(2) True by simp
    then show ?thesis
    proof (cases rule: io_bind_cases)
      case (err e)
      then show ?thesis using spared_trans[OF s1 rel_same[OF same_simple(7)]] by blast
    next
      case (ok u w2)
      have s2: "spared n w w2" using spared_trans[OF s1 rel_same[OF same_simple(7) ok(1)]] .
      obtain y w3 where a: "acquireTransferLease n w2 = (y, w3)" by fastforce
      have s3: "spared n w w3" using spared_trans[OF s2 io_relD[OF acquire_spared a]] .
      show ?thesis
      proof (cases y)
        case (Inl e)
        then obtain z where "fs_close w3 = (z, w')" using ok(2) a by (auto simp: io_try_iff io_try_def[of "acquireTransferLease n"])
        then show ?thesis using spared_trans[OF s3 rel_same[OF same_simple(4)]] by blast
      next
        case (Inr v)
        then have l: "collect_leased rk n now w3 = (x, w')" using ok(2) a by (simp add: io_try_def)
        have nh: "\<not> lease_held n w2" using acquire_Inr a Inr by blast
        have free: "\<not> lease_held n w" using nh s2 p by (auto simp: spared_def protected_def)
        have p3: "protected now n w3" using protected_spared[OF p s3] .
        have "\<not> collectable now fs" if "child_at n w3 = Some fs" for fs
          using p free s3 that collectable_spared[OF s3] by (auto simp: protected_def)
        then show ?thesis using leased_spares[OF l s3 free p3] by blast
      qed
    qed
  qed
qed

text \<open>Everything else the collector does happens in other directories.\<close>

lemma slot_guard [slot_keeps]:
  "n \<noteq> c \<Longrightarrow> io_keeps (slot n) m \<Longrightarrow> (\<And>a. io_keeps (slot n) (k a)) \<Longrightarrow> io_keeps (slot n) (gc_guard c m k)"
  unfolding gc_guard_def by (auto intro!: keeps_try slot_keeps split: sum.split)

lemma slot_read [slot_keeps]: "d \<noteq> Child n \<Longrightarrow> io_keeps (slot n) (transferExpired d now)"
  unfolding transferExpired_def readExpiry_def Let_def by (auto intro!: keeps_bind slot_keeps split: entry.split)

lemma slot_finish [slot_keeps]: "n \<noteq> c \<Longrightarrow> io_keeps (slot n) (collect_finish c key)"
  unfolding collect_finish_def Let_def
  by (auto intro!: keeps_try keeps_bind slot_keeps split: option.split)

lemma slot_collectOne: 
  assumes "n \<noteq> c" "\<And>s. n \<noteq> gc_quarantine c s"
  shows "io_keeps (slot n) (collectOne rk c now)"
  unfolding collectOne_def collect_leased_def collect_expired_def Let_def
  by (auto intro!: keeps_try keeps_bind slot_keeps split: sum.split simp: assms assms[symmetric])

lemma slot_residual_entries [slot_keeps]: "d \<noteq> Child n \<Longrightarrow> io_keeps (slot n) (residual_entries d kind xs)"
proof (induction xs)
  case (Cons name rest)
  have "io_keeps (slot n) (if b then io_err e else residual_entries d kind rest)" for b e using Cons by (simp add: slot_steps)
  then show ?case unfolding residual_entries.simps
    by (intro keeps_bind slot_keeps Cons.prems) (simp only: split_def slot_steps split: if_split, blast intro: slot_steps)
qed (simp add: slot_steps)

lemma slot_validate [slot_keeps]: "d \<noteq> Child n \<Longrightarrow> io_keeps (slot n) (validateResidualContent d kind)"
  unfolding validateResidualContent_def by (auto intro!: keeps_bind slot_keeps)

lemma slot_residual:
  assumes "n \<noteq> c"
  shows "io_keeps (slot n) (collectResidual old c)"
proof -
  have "io_keeps (slot n) (residual_body c kind)" for kind
    unfolding residual_body_def using assms by (auto intro!: keeps_try keeps_bind slot_keeps split: option.split)
  then show ?thesis unfolding collectResidual_def Let_def
    using assms by (auto intro!: keeps_try keeps_bind slot_keeps split: sum.split)
qed

lemma valid_id_chars: "validTransferID n \<Longrightarrow> n \<noteq> CHR ''.'' # rest"
  by (auto simp: validTransferID_def isLowerHex_def is_lower_hex_char_def)

lemma valid_id_not_residual: "validTransferID n \<Longrightarrow> residualKind n = residualUnknown"
  by (auto simp: validTransferID_def residualKind_def quarantine_name_def)

lemma gc_entry_spares:
  assumes "validTransferID n" and "gc_entry rk old now s name w = (x, w')" and "protected now n w"
  shows "spared n w w'"
proof -
  have quar: "n \<noteq> gc_quarantine c sfx" for c sfx
    using valid_id_chars[OF assms(1)] by (auto simp: gc_quarantine_def)
  consider (one) y w1 where "validTransferID name" "collectOne rk name now w = (y, w1)" "w' = w1"
    | (residual) y w1 where "\<not> validTransferID name" "residualKind name \<noteq> residualUnknown" "collectResidual old name w = (y, w1)" "w' = w1"
    | (none) "w' = w"
    using assms(2) by (auto simp: gc_entry_def io_try_iff split: if_splits)
  then show ?thesis
  proof cases
    case one
    show ?thesis
    proof (cases "name = n")
      case True
      then show ?thesis using one collectOne_spares_same assms(3) by blast
    next
      case False
      then have "io_keeps (slot n) (collectOne rk name now)" using quar by (intro slot_collectOne) auto
      then show ?thesis using one io_relD[OF keeps_spared] by blast
    qed
  next
    case residual
    then have "n \<noteq> name" using assms(1) by auto
    then show ?thesis using residual io_relD[OF keeps_spared[OF slot_residual]] by blast
  qed simp
qed

lemma gc_entries_spares:
  assumes "validTransferID n" and "gc_entries rk old now s names w = (x, w')" and "protected now n w"
  shows "spared n w w'"
  using assms(2,3)
proof (induction names arbitrary: s w)
  case (Cons name rest)
  let ?s = "s\<lparr>gc_scanned := Suc (gc_scanned s)\<rparr>"
  show ?case
  proof (cases "maxGCScannedEntries < gc_scanned ?s \<or> maxGCRemovals \<le> gc_removed ?s")
    case True
    then show ?thesis using Cons.prems by (auto simp: Let_def split: if_splits)
  next
    case False
    then have "io_bind (gc_entry rk old now ?s name) (\<lambda>s. gc_entries rk old now s rest) w = (x, w')"
      using Cons.prems(1) by (simp add: Let_def)
    then show ?thesis
    proof (cases rule: io_bind_cases)
      case (err e)
      then show ?thesis using gc_entry_spares[OF assms(1)] Cons.prems(2) by blast
    next
      case (ok s1 w1)
      have "spared n w w1" using gc_entry_spares[OF assms(1) ok(1) Cons.prems(2)] .
      moreover from this have "spared n w1 w'" using Cons.IH[OF ok(2)] protected_spared Cons.prems(2) by blast
      ultimately show ?thesis by (rule spared_trans)
    qed
  qed
qed simp

lemma gc_batches_spares:
  assumes "validTransferID n"
  shows "gc_batches rk old now s names w = (x, w') \<Longrightarrow> protected now n w \<Longrightarrow> spared n w w'"
proof (induction "length names" arbitrary: names s w rule: less_induct)
  case less
  let ?k = "\<lambda>s. if maxGCScannedEntries < gc_scanned s \<or> maxGCRemovals \<le> gc_removed s then io_ret s
         else if names = [] then io_ret s else gc_batches rk old now s (drop gcReadBatch names)"
  obtain y w1 where st: "io_step (ErrIO ''readdir'') w = (y, w1)" by fastforce
  have s1: "spared n w w1" using rel_same[OF same_simple(1) st] .
  have p1: "protected now n w1" using protected_spared[OF less.prems(2) s1] .
  show ?case
  proof (cases y)
    case (Inl e)
    then show ?thesis using less.prems(1) st s1 unfolding gc_batches.simps[of rk old now s names] by (simp add: io_try_def)
  next
    case (Inr u)
    then have "io_bind (gc_entries rk old now s (take gcReadBatch names)) ?k w1 = (x, w')"
      using less.prems(1) st unfolding gc_batches.simps[of rk old now s names] by (simp add: io_try_def)
    then show ?thesis
    proof (cases rule: io_bind_cases)
      case (err e)
      then show ?thesis using spared_trans[OF s1 gc_entries_spares[OF assms _ p1]] by blast
    next
      case (ok s2 w2)
      have s2: "spared n w w2" using spared_trans[OF s1 gc_entries_spares[OF assms ok(1) p1]] .
      consider "w' = w2" | "names \<noteq> []" "gc_batches rk old now s2 (drop gcReadBatch names) w2 = (x, w')"
        using ok(2) by (auto split: if_splits)
      then show ?thesis
      proof cases
        case 2
        have "length (drop gcReadBatch names) < length names" using 2(1) by (simp add: gcReadBatch_def)
        from less.hyps[OF this 2(2) protected_spared[OF less.prems(2) s2]] show ?thesis using spared_trans[OF s2] by blast
      qed (use s2 in simp)
    qed
  qed
qed

text \<open>
  C14: collection deletes only what is expired and free. Whatever fails, a transfer directory whose
  lease somebody holds, or whose expiry record is missing, malformed or still in the future, is
  still there after \<open>GarbageCollectExpiredWithManager\<close> with every entry it had (its lock file may
  be created), and its lease is still held if it was.
\<close>

theorem collection_spares_live_transfers:
  assumes "validTransferID n" and "map_of (fw_children w) n = Some fs" and "lease_held n w \<or> \<not> collectable now fs"
    and "GarbageCollectExpiredWithManager rk old now retention hasManager w = (x, w')"
  shows "\<exists>fs'. map_of (fw_children w') n = Some fs' \<and> (\<forall>a. a \<noteq> ''transfer.lock'' \<longrightarrow> map_of fs' a = map_of fs a) \<and>
    (lease_held n w \<longrightarrow> lease_held n w')"
proof -
  have p: "protected now n w" using assms(2,3) by (auto simp: protected_def)
  have root: "io_rel (same n) (openVerifiedStateRoot False)" by (rule same_keeps[OF slot_open(1)])
  obtain y w1 where o: "openVerifiedStateRoot False w = (y, w1)" by fastforce
  obtain y2 w2 where st: "io_step (ErrIO ''open'') w1 = (y2, w2)" by fastforce
  let ?s0 = "\<lparr>gc_scanned = 0, gc_removed = 0, gc_errors = []\<rparr>"
  obtain y3 w3 where b: "gc_batches rk old now ?s0 (root_names w2) w2 = (y3, w3)" by fastforce
  obtain y4 w4 where cl: "fs_close w3 = (y4, w4)" by fastforce
  have s1: "spared n w w1" using rel_same[OF root o] .
  have s2: "spared n w w2" using spared_trans[OF s1 rel_same[OF same_simple(1) st]] .
  have s3: "spared n w w3" using spared_trans[OF s2 gc_batches_spares[OF assms(1) b protected_spared[OF p s2]]] .
  have s4: "spared n w w4" using spared_trans[OF s3 rel_same[OF same_simple(4) cl]] .
  have "w' \<in> {w, w1, w2, w3, w4}"
    using assms(4) o st b cl by (auto simp: GarbageCollectExpiredWithManager_def split: if_splits sum.splits)
  then have "spared n w w'" using s1 s2 s3 s4 by auto
  then show ?thesis using assms(2) by (auto simp: spared_def)
qed

section \<open>Budgets\<close>

lemma gc_note_sel [simp]: "gc_removed (gc_note s e) = gc_removed s" "gc_scanned (gc_note s e) = gc_scanned s"
  by (simp_all add: gc_note_def)

lemma gc_entry_count:
  "gc_entry rk old now s name w = (Inr s', w') \<Longrightarrow> gc_removed s' \<le> Suc (gc_removed s) \<and> gc_scanned s' = gc_scanned s"
  by (auto simp: gc_entry_def io_try_def split: if_splits prod.splits sum.splits)

lemma gc_entries_count:
  "gc_entries rk old now s names w = (Inr s', w') \<Longrightarrow> gc_removed s \<le> maxGCRemovals \<Longrightarrow> gc_scanned s \<le> maxGCScannedEntries \<Longrightarrow>
     gc_removed s' \<le> maxGCRemovals \<and> gc_scanned s' \<le> Suc maxGCScannedEntries"
proof (induction names arbitrary: s w)
  case (Cons name rest)
  let ?s = "s\<lparr>gc_scanned := Suc (gc_scanned s)\<rparr>"
  show ?case
  proof (cases "maxGCScannedEntries < gc_scanned ?s \<or> maxGCRemovals \<le> gc_removed ?s")
    case True
    then show ?thesis using Cons.prems by (auto simp: Let_def split: if_splits)
  next
    case False
    then have "io_bind (gc_entry rk old now ?s name) (\<lambda>s. gc_entries rk old now s rest) w = (Inr s', w')"
      using Cons.prems(1) by (simp add: Let_def)
    then obtain s1 w1 where e: "gc_entry rk old now ?s name w = (Inr s1, w1)" and r: "gc_entries rk old now s1 rest w1 = (Inr s', w')"
      by (auto simp: io_bind_Inr)
    have "gc_removed s1 \<le> maxGCRemovals" "gc_scanned s1 \<le> maxGCScannedEntries"
      using gc_entry_count[OF e] False by auto
    then show ?thesis using Cons.IH[OF r] by blast
  qed
qed simp

lemma gc_batches_count:
  "gc_batches rk old now s names w = (Inr s', w') \<Longrightarrow> gc_removed s \<le> maxGCRemovals \<Longrightarrow> gc_scanned s \<le> maxGCScannedEntries \<Longrightarrow>
     gc_removed s' \<le> maxGCRemovals \<and> gc_scanned s' \<le> Suc maxGCScannedEntries"
proof (induction "length names" arbitrary: names s w rule: less_induct)
  case less
  obtain y w1 where st: "io_step (ErrIO ''readdir'') w = (y, w1)" by fastforce
  show ?case
  proof (cases y)
    case (Inl e)
    then show ?thesis using less.prems st unfolding gc_batches.simps[of rk old now s names] by (auto simp: io_try_def)
  next
    case (Inr u)
    then obtain s2 w2 where e: "gc_entries rk old now s (take gcReadBatch names) w1 = (Inr s2, w2)"
      and k: "(if maxGCScannedEntries < gc_scanned s2 \<or> maxGCRemovals \<le> gc_removed s2 then io_ret s2
         else if names = [] then io_ret s2 else gc_batches rk old now s2 (drop gcReadBatch names)) w2 = (Inr s', w')"
      using less.prems(1) st unfolding gc_batches.simps[of rk old now s names] by (auto simp: io_try_def io_bind_Inr)
    note c = gc_entries_count[OF e less.prems(2,3)]
    show ?thesis
    proof (cases "maxGCScannedEntries < gc_scanned s2 \<or> maxGCRemovals \<le> gc_removed s2 \<or> names = []")
      case True
      then show ?thesis using k c by (auto split: if_splits)
    next
      case False
      then have r: "gc_batches rk old now s2 (drop gcReadBatch names) w2 = (Inr s', w')" using k by auto
      have "length (drop gcReadBatch names) < length names" using False by (simp add: gcReadBatch_def)
      from less.hyps[OF this r] show ?thesis using c False by simp
    qed
  qed
qed

lemma collection_count:
  assumes "GarbageCollectExpiredWithManager rk old now retention hasManager w = ((count, e), w')"
  shows "count \<le> maxGCRemovals"
proof -
  consider "count = 0" | s w2 w3 where "gc_batches rk old now \<lparr>gc_scanned = 0, gc_removed = 0, gc_errors = []\<rparr> (root_names w2) w2 = (Inr s, w3)"
    "count = gc_removed s"
    using assms by (auto simp: GarbageCollectExpiredWithManager_def split: if_splits sum.splits prod.splits)
  then show ?thesis by cases (auto dest!: gc_batches_count simp: maxGCScannedEntries_def maxGCRemovals_def)
qed

section \<open>A collection in small\<close>

definition sample_id :: string where
  "sample_id = ''0123456789abcdef0123456789abcdef''"

definition sample_root :: fsw where
  "sample_root = sample_world\<lparr>fw_children := [(sample_id, [(''content.part'', Regular [1, 2])])]\<rparr>"

definition sample_gc :: "(nat \<times> ft_error option) \<times> fsw" where
  "sample_gc = GarbageCollectExpiredWithManager Some (\<lambda>_. True) (from_unix 5000) 1 True sample_root"

lemma collection_spares_live_transfers_witness:
  "\<exists>fs'. map_of (fw_children (snd sample_gc)) sample_id = Some fs' \<and> map_of fs' ''content.part'' = Some (Regular [1, 2])"
proof -
  have v: "validTransferID sample_id" by code_simp
  have c: "map_of (fw_children sample_root) sample_id = Some [(''content.part'', Regular [1, 2])]"
    by (simp add: sample_root_def)
  have n: "lease_held sample_id sample_root \<or> \<not> collectable (from_unix 5000) [(''content.part'', Regular [1, 2])]"
    by (simp add: collectable_def)
  have g: "GarbageCollectExpiredWithManager Some (\<lambda>_. True) (from_unix 5000) 1 True sample_root = (fst sample_gc, snd sample_gc)"
    by (simp add: sample_gc_def)
  obtain fs' where "map_of (fw_children (snd sample_gc)) sample_id = Some fs'"
    and "\<forall>a. a \<noteq> ''transfer.lock'' \<longrightarrow> map_of fs' a = map_of [(''content.part'', Regular [1, 2])] a"
    using collection_spares_live_transfers[OF v c n g] by blast
  then show ?thesis by (intro exI[of _ fs']) simp
qed

end
