(* ===== verification/RS_Transaction.thy ===== *)
theory RS_Transaction
  imports GoStrings
begin

text \<open>
  Starting a remote-access service, the transaction itself: the types of
  \<open>internal/remoteservice/types.go\<close> and the part of \<open>EnsureRunning\<close> (\<open>manager.go\<close>) that runs under
  the target's lock, from capturing the service to the result. The OS backend, the random source
  and the deadlines are outside: an \<open>answers\<close> record says what each call returns, and the calls made
  are part of the result.
\<close>

section \<open>Types\<close>

text \<open>\<open>Platform\<close>, \<open>ServiceKind\<close> and \<open>Operation\<close> are bytes with named values.\<close>

definition rs_PlatformLinux :: u8 where "rs_PlatformLinux = 1"
definition rs_PlatformMacOS :: u8 where "rs_PlatformMacOS = 2"
definition rs_PlatformWindows :: u8 where "rs_PlatformWindows = 3"
definition ServiceSSH :: u8 where "ServiceSSH = 1"
definition ServiceRDP :: u8 where "ServiceRDP = 2"
definition OperationEnsureRunning :: u8 where "OperationEnsureRunning = 1"

text \<open>32-byte arrays are byte lists of length 32; \<open>zero32\<close> is the zero value.\<close>

definition zero32 :: bytes where "zero32 = zeros 32"

record Target =
  tg_Device :: bytes
  tg_Platform :: u8
  tg_Service :: u8

record Request =
  rq_Target :: Target
  rq_Operation :: u8
  rq_Confirmation :: bytes

record ServiceState =
  ss_Running :: bool
  ss_Enabled :: bool

record Health =
  hl_Running :: bool
  hl_Listening :: bool
  hl_Healthy :: bool
  hl_IdentityVerified :: bool

record StartPermit =
  sp_nonce :: bytes
  sp_target :: Target
  sp_before :: ServiceState

record ChangeReceipt =
  cr_nonce :: bytes
  cr_ownership :: bytes
  cr_target :: Target
  cr_before :: ServiceState
  cr_after :: bytes
  cr_uncertain :: bool

definition no_state :: ServiceState where "no_state = \<lparr> ss_Running = False, ss_Enabled = False \<rparr>"
definition no_target :: Target where "no_target = \<lparr> tg_Device = zero32, tg_Platform = 0, tg_Service = 0 \<rparr>"

definition no_receipt :: ChangeReceipt where
  "no_receipt = \<lparr> cr_nonce = zero32, cr_ownership = zero32, cr_target = no_target, cr_before = no_state,
     cr_after = zero32, cr_uncertain = False \<rparr>"

definition no_health :: Health where
  "no_health = \<lparr> hl_Running = False, hl_Listening = False, hl_Healthy = False, hl_IdentityVerified = False \<rparr>"

definition CommitOwned :: "StartPermit \<Rightarrow> bytes \<Rightarrow> bytes \<Rightarrow> ChangeReceipt" where
  "CommitOwned p after ownership =
     (if sp_nonce p = zero32 \<or> after = zero32 \<or> ownership = zero32 then no_receipt
      else \<lparr> cr_nonce = sp_nonce p, cr_ownership = ownership, cr_target = sp_target p, cr_before = sp_before p,
             cr_after = after, cr_uncertain = False \<rparr>)"

definition CommitObserved :: "StartPermit \<Rightarrow> bytes \<Rightarrow> ChangeReceipt" where
  "CommitObserved p after =
     (if sp_nonce p = zero32 \<or> after = zero32 then no_receipt
      else no_receipt\<lparr>cr_nonce := sp_nonce p, cr_target := sp_target p, cr_before := sp_before p, cr_after := after\<rparr>)"

definition CommitUncertain :: "StartPermit \<Rightarrow> ChangeReceipt" where
  "CommitUncertain p =
     (if sp_nonce p = zero32 then no_receipt
      else no_receipt\<lparr>cr_nonce := sp_nonce p, cr_target := sp_target p, cr_before := sp_before p, cr_uncertain := True\<rparr>)"

definition Changed :: "ChangeReceipt \<Rightarrow> bool" where
  "Changed r \<longleftrightarrow> cr_nonce r \<noteq> zero32 \<and> (cr_after r \<noteq> zero32 \<or> cr_uncertain r)"

definition RollbackAuthorized :: "ChangeReceipt \<Rightarrow> bool" where
  "RollbackAuthorized r \<longleftrightarrow> Changed r \<and> cr_ownership r \<noteq> zero32 \<and> cr_after r \<noteq> zero32 \<and> \<not> cr_uncertain r"

definition PostRevision :: "ChangeReceipt \<Rightarrow> bytes" where
  "PostRevision r = cr_after r"

definition AuthorizesRollback :: "ChangeReceipt \<Rightarrow> Target \<Rightarrow> ServiceState \<Rightarrow> bytes \<Rightarrow> bool" where
  "AuthorizesRollback r target before current \<longleftrightarrow>
     RollbackAuthorized r \<and> cr_target r = target \<and> cr_before r = before \<and> cr_after r = current"

text \<open>Only an owned commit authorises a rollback, and only to the revision it recorded.\<close>

lemma receipts_authorize:
  "\<not> RollbackAuthorized no_receipt" "\<not> RollbackAuthorized (CommitObserved p after)" "\<not> RollbackAuthorized (CommitUncertain p)"
  "AuthorizesRollback (CommitOwned p after ownership) t b cur \<longleftrightarrow>
     sp_nonce p \<noteq> zero32 \<and> after \<noteq> zero32 \<and> ownership \<noteq> zero32 \<and> t = sp_target p \<and> b = sp_before p \<and> cur = after"
  by (auto simp: RollbackAuthorized_def AuthorizesRollback_def Changed_def no_receipt_def CommitOwned_def CommitObserved_def CommitUncertain_def)

datatype OutcomeCode =
  OutcomeNone | OutcomeStarted | OutcomeAlreadyRunning | OutcomeRolledBack | OutcomeRollbackFailed | OutcomeManualCleanup

record Result =
  rl_Code :: OutcomeCode
  rl_Health :: Health
  rl_Rollback :: bool
  rl_RollbackAuthority :: bool
  rl_MayRemainRunning :: bool

datatype rs_code =
  CodeInvalidRequest | CodeUnsupportedTarget | CodeConfirmationDenied | CodeConfirmationExpired | CodeConfirmationInvalid |
  CodeConfirmationReplay | CodeConfirmationCapacity | CodeTransactionCapacity | CodeCaptureFailed | CodeStartFailed |
  CodeVerifyFailed | CodeAlreadyRunningUnhealthy | CodeRollbackFailed | CodeRollbackConflict | CodeManualCleanupRequired |
  CodeCanceled | CodeTimeout

text \<open>The errors the code tells apart; all others are \<open>OtherError\<close>.\<close>

datatype go_err = DeadlineExceeded | Canceled | ErrRollbackConflict | ErrOwnershipUnproven | ErrManualCleanupRequired | OtherError string

record rs_error =
  er_Code :: rs_code
  er_Cause :: "go_err option"
  er_RollbackCode :: "rs_code option"
  er_RollbackCause :: "go_err option"

definition rs_fail :: "rs_code \<Rightarrow> rs_error" where
  "rs_fail c = \<lparr> er_Code = c, er_Cause = None, er_RollbackCode = None, er_RollbackCause = None \<rparr>"

definition rs_caused :: "rs_code \<Rightarrow> go_err \<Rightarrow> rs_error" where
  "rs_caused c e = (rs_fail c)\<lparr>er_Cause := Some e\<rparr>"

definition IsCode :: "rs_error option \<Rightarrow> rs_code \<Rightarrow> bool" where
  "IsCode e c \<longleftrightarrow> (case e of None \<Rightarrow> False | Some e \<Rightarrow> er_Code e = c)"

definition contextErrorCode :: "go_err \<Rightarrow> rs_code \<Rightarrow> rs_code" where
  "contextErrorCode e fallback =
     (if e = DeadlineExceeded then CodeTimeout else if e = Canceled then CodeCanceled else fallback)"

text \<open>\<open>contextCode\<close> asks the context itself; \<open>None\<close> is a context that has not ended.\<close>

definition contextCode :: "go_err option \<Rightarrow> rs_code \<Rightarrow> rs_code" where
  "contextCode ctx fallback = (case ctx of None \<Rightarrow> fallback | Some e \<Rightarrow> contextErrorCode e fallback)"

section \<open>Configuration\<close>

record Config =
  cf_ConfirmationTTL :: duration
  cf_ConfirmationTimeout :: duration
  cf_CaptureTimeout :: duration
  cf_StartTimeout :: duration
  cf_VerifyTimeout :: duration
  cf_RollbackTimeout :: duration
  cf_MaxConfirmations :: int
  cf_MaxTransactions :: int

definition clamp :: "int \<Rightarrow> int \<Rightarrow> int \<Rightarrow> int" where
  "clamp preset most x = (let x = (if x \<le> 0 then preset else x) in if most < x then most else x)"

definition cf_normalized :: "Config \<Rightarrow> Config" where
  "cf_normalized c =
     \<lparr> cf_ConfirmationTTL = clamp (2 * minute) (5 * minute) (cf_ConfirmationTTL c),
       cf_ConfirmationTimeout = clamp (30 * second) (2 * minute) (cf_ConfirmationTimeout c),
       cf_CaptureTimeout = clamp (5 * second) (30 * second) (cf_CaptureTimeout c),
       cf_StartTimeout = clamp (20 * second) (2 * minute) (cf_StartTimeout c),
       cf_VerifyTimeout = clamp (10 * second) (30 * second) (cf_VerifyTimeout c),
       cf_RollbackTimeout = clamp (15 * second) minute (cf_RollbackTimeout c),
       cf_MaxConfirmations = clamp 256 4096 (cf_MaxConfirmations c),
       cf_MaxTransactions = clamp 64 1024 (cf_MaxTransactions c) \<rparr>"

lemma clamp_range: "0 < preset \<Longrightarrow> preset \<le> most \<Longrightarrow> 0 < clamp preset most x \<and> clamp preset most x \<le> most"
  by (auto simp: clamp_def Let_def)

section \<open>The transaction under the lock\<close>

definition validateTarget :: "Target \<Rightarrow> rs_error option" where
  "validateTarget t =
     (if tg_Device t = zero32 then Some (rs_fail CodeInvalidRequest)
      else if tg_Platform t = rs_PlatformLinux then
        (if tg_Service t \<noteq> ServiceSSH then Some (rs_fail CodeUnsupportedTarget) else None)
      else if tg_Platform t = rs_PlatformMacOS then
        (if tg_Service t \<noteq> ServiceSSH then Some (rs_fail CodeUnsupportedTarget) else None)
      else if tg_Platform t = rs_PlatformWindows then
        (if tg_Service t \<noteq> ServiceSSH \<and> tg_Service t \<noteq> ServiceRDP then Some (rs_fail CodeUnsupportedTarget) else None)
      else Some (rs_fail CodeUnsupportedTarget))"

definition validHealth :: "Health \<Rightarrow> bool" where
  "validHealth h \<longleftrightarrow> hl_Running h \<and> hl_Listening h \<and> hl_Healthy h \<and> hl_IdentityVerified h"

text \<open>A call with a deadline: what it returns, its error, and how its context ended, if it did.\<close>

record 'a answer =
  an_value :: 'a
  an_err :: "go_err option"
  an_ctx :: "go_err option"

definition with_timeout :: "'a answer \<Rightarrow> 'a \<times> go_err option" where
  "with_timeout a = (an_value a, case an_ctx a of Some e \<Rightarrow> Some e | None \<Rightarrow> an_err a)"

datatype backend_call =
    CallCapture Target
  | CallStart Target StartPermit
  | CallDetect Target
  | CallRollback Target ServiceState ChangeReceipt

record answers =
  ba_capture :: "ServiceState answer"
  ba_nonce :: "go_err + bytes"
  ba_start :: "StartPermit \<Rightarrow> ChangeReceipt answer"
  ba_detect :: "Health answer"
  ba_rollback :: "unit answer"

type_synonym outcome = "Result \<times> rs_error option \<times> backend_call list"

definition no_result :: Result where
  "no_result = \<lparr> rl_Code = OutcomeNone, rl_Health = no_health, rl_Rollback = False, rl_RollbackAuthority = False, rl_MayRemainRunning = False \<rparr>"

definition permit_accepts :: "StartPermit \<Rightarrow> ChangeReceipt \<Rightarrow> bool" where
  "permit_accepts p r \<longleftrightarrow> cr_nonce r = sp_nonce p \<and> cr_target r = sp_target p \<and> cr_before r = sp_before p \<and>
     (cr_after r \<noteq> zero32 \<or> cr_uncertain r)"

definition newStartPermit :: "go_err + bytes \<Rightarrow> Target \<Rightarrow> ServiceState \<Rightarrow> go_err + StartPermit" where
  "newStartPermit random target before =
     (case random of Inl e \<Rightarrow> Inl e
      | Inr nonce \<Rightarrow> if nonce = zero32 then Inl (OtherError ''empty start permit'')
          else Inr \<lparr> sp_nonce = nonce, sp_target = target, sp_before = before \<rparr>)"

definition manualCleanupResult :: "rs_code \<Rightarrow> go_err \<Rightarrow> Result \<times> rs_error option" where
  "manualCleanupResult ecode cause =
     (no_result\<lparr>rl_Code := OutcomeManualCleanup, rl_MayRemainRunning := True\<rparr>,
      Some \<lparr> er_Code = ecode, er_Cause = Some cause, er_RollbackCode = Some CodeManualCleanupRequired,
             er_RollbackCause = Some ErrManualCleanupRequired \<rparr>)"

definition failAndMaybeRollback ::
  "unit answer \<Rightarrow> Target \<Rightarrow> ServiceState \<Rightarrow> ChangeReceipt \<Rightarrow> rs_code \<Rightarrow> go_err \<Rightarrow> outcome" where
  "failAndMaybeRollback rollback target preState receipt ecode cause =
     (if ss_Running preState \<or> \<not> Changed receipt then (no_result, Some (rs_caused ecode cause), [])
      else if \<not> RollbackAuthorized receipt then (case manualCleanupResult ecode cause of (r, e) \<Rightarrow> (r, e, []))
      else (case snd (with_timeout rollback) of
          Some err \<Rightarrow>
            (no_result\<lparr>rl_Code := OutcomeRollbackFailed, rl_Rollback := True\<rparr>,
             Some \<lparr> er_Code = ecode, er_Cause = Some cause,
               er_RollbackCode = Some (if err = ErrRollbackConflict then CodeRollbackConflict
                                       else contextErrorCode err CodeRollbackFailed),
               er_RollbackCause = Some err \<rparr>,
             [CallRollback target preState receipt])
        | None \<Rightarrow>
            (no_result\<lparr>rl_Code := OutcomeRolledBack, rl_Rollback := True\<rparr>, Some (rs_caused ecode cause),
             [CallRollback target preState receipt])))"

definition then_calls :: "backend_call list \<Rightarrow> outcome \<Rightarrow> outcome" where
  "then_calls cs o1 = (case o1 of (r, e, ds) \<Rightarrow> (r, e, cs @ ds))"

text \<open>The service already runs: detect it and change nothing.\<close>

definition already_running :: "answers \<Rightarrow> Target \<Rightarrow> outcome" where
  "already_running ans target =
     (case with_timeout (ba_detect ans) of
        (health, Some err) \<Rightarrow> (no_result, Some (rs_caused (contextErrorCode err CodeAlreadyRunningUnhealthy) err), [CallDetect target])
      | (health, None) \<Rightarrow>
          if \<not> validHealth health then (no_result, Some (rs_fail CodeAlreadyRunningUnhealthy), [CallDetect target])
          else (no_result\<lparr>rl_Code := OutcomeAlreadyRunning, rl_Health := health\<rparr>, None, [CallDetect target]))"

text \<open>The service was started: verify it, or undo the start.\<close>

definition verify_started :: "answers \<Rightarrow> Target \<Rightarrow> ServiceState \<Rightarrow> ChangeReceipt \<Rightarrow> outcome" where
  "verify_started ans target preState receipt =
     then_calls [CallDetect target] (
     case with_timeout (ba_detect ans) of
       (health, Some err) \<Rightarrow> failAndMaybeRollback (ba_rollback ans) target preState receipt (contextErrorCode err CodeVerifyFailed) err
     | (health, None) \<Rightarrow>
         if \<not> validHealth health
         then failAndMaybeRollback (ba_rollback ans) target preState receipt CodeVerifyFailed (OtherError ''service verification was incomplete'')
         else (no_result\<lparr>rl_Code := OutcomeStarted, rl_Health := health, rl_RollbackAuthority := RollbackAuthorized receipt\<rparr>, None, []))"

definition start_service :: "answers \<Rightarrow> Target \<Rightarrow> ServiceState \<Rightarrow> StartPermit \<Rightarrow> outcome" where
  "start_service ans target preState permit =
     then_calls [CallStart target permit] (
     case with_timeout (ba_start ans permit) of (receipt, startErr) \<Rightarrow>
     if Changed receipt \<and> \<not> permit_accepts permit receipt
     then (no_result, Some (rs_caused CodeStartFailed (OtherError ''backend returned invalid change receipt'')), [])
     else (case startErr of
        Some err \<Rightarrow>
          if Changed receipt \<and> \<not> RollbackAuthorized receipt
          then (case manualCleanupResult (contextErrorCode err CodeStartFailed) err of (r, e) \<Rightarrow> (r, e, []))
          else failAndMaybeRollback (ba_rollback ans) target preState receipt (contextErrorCode err CodeStartFailed) err
      | None \<Rightarrow>
          if \<not> Changed receipt then (no_result, Some (rs_caused CodeStartFailed (OtherError ''backend reported no start'')), [])
          else verify_started ans target preState receipt))"

definition transact :: "answers \<Rightarrow> Target \<Rightarrow> outcome" where
  "transact ans target =
     then_calls [CallCapture target] (
     case with_timeout (ba_capture ans) of
       (preState, Some err) \<Rightarrow> (no_result, Some (rs_caused (contextErrorCode err CodeCaptureFailed) err), [])
     | (preState, None) \<Rightarrow>
         if ss_Running preState then already_running ans target
         else (case newStartPermit (ba_nonce ans) target preState of
            Inl e \<Rightarrow> (no_result, Some (rs_caused CodeStartFailed e), [])
          | Inr permit \<Rightarrow> start_service ans target preState permit))"

definition Detect :: "answers \<Rightarrow> Target \<Rightarrow> (rs_error + Health) \<times> backend_call list" where
  "Detect ans target =
     (case validateTarget target of Some e \<Rightarrow> (Inl e, [])
      | None \<Rightarrow> (case with_timeout (ba_detect ans) of
           (health, Some err) \<Rightarrow> (Inl (rs_caused (contextErrorCode err CodeVerifyFailed) err), [CallDetect target])
         | (health, None) \<Rightarrow> (Inr health, [CallDetect target])))"

section \<open>What a transaction does\<close>

lemma in_then_calls: "then_calls cs o1 = (r, e, calls) \<longleftrightarrow> (\<exists>ds. o1 = (r, e, ds) \<and> calls = cs @ ds)"
  by (cases o1) (auto simp: then_calls_def)

text \<open>Undoing a start: what it may call and what it reports.\<close>

lemma failAndMaybeRollback_cases:
  assumes "failAndMaybeRollback rb target before receipt c cause = (r, e, calls)" "\<not> ss_Running before"
  shows "e \<noteq> None \<and> rl_Code r \<notin> {OutcomeStarted, OutcomeAlreadyRunning} \<and> (Changed receipt \<longrightarrow> rl_Code r \<noteq> OutcomeNone) \<and>
    (calls = [] \<or> calls = [CallRollback target before receipt] \<and> RollbackAuthorized receipt)"
  using assms by (auto simp: failAndMaybeRollback_def manualCleanupResult_def no_result_def split: if_splits option.splits)

text \<open>A receipt that belongs to a permit.\<close>

definition owned_receipt :: "answers \<Rightarrow> StartPermit \<Rightarrow> ChangeReceipt \<Rightarrow> bool" where
  "owned_receipt ans permit r \<longleftrightarrow> r = an_value (ba_start ans permit) \<and> Changed r \<and> permit_accepts permit r"

definition settled :: "Result \<Rightarrow> rs_error option \<Rightarrow> bool" where
  "settled r e \<longleftrightarrow> (e = None \<longleftrightarrow> rl_Code r \<in> {OutcomeStarted, OutcomeAlreadyRunning}) \<and> (e \<noteq> None \<or> validHealth (rl_Health r))"

lemma verify_started_cases:
  assumes v: "verify_started ans target before receipt = (r, e, calls)" and "\<not> ss_Running before" "Changed receipt"
  shows "settled r e \<and> rl_Code r \<notin> {OutcomeNone, OutcomeAlreadyRunning} \<and>
    (calls = [CallDetect target] \<or> e \<noteq> None \<and> calls = [CallDetect target, CallRollback target before receipt] \<and> RollbackAuthorized receipt)"
proof -
  obtain h x where h: "with_timeout (ba_detect ans) = (h, x)" by fastforce
  show ?thesis
  proof (cases "x = None \<and> validHealth h")
    case True
    then show ?thesis using v h by (auto simp: verify_started_def in_then_calls settled_def no_result_def)
  next
    case False
    then obtain c cause ds where "failAndMaybeRollback (ba_rollback ans) target before receipt c cause = (r, e, ds)" "calls = CallDetect target # ds"
      using v h by (auto simp: verify_started_def in_then_calls split: option.splits)
    then show ?thesis using failAndMaybeRollback_cases assms(2,3) by (fastforce simp: settled_def)
  qed
qed

lemma start_service_cases:
  assumes s: "start_service ans target before permit = (r, e, calls)" and "\<not> ss_Running before"
  shows "settled r e \<and> rl_Code r \<noteq> OutcomeAlreadyRunning \<and>
    (owned_receipt ans permit (an_value (ba_start ans permit)) \<longrightarrow> rl_Code r \<noteq> OutcomeNone) \<and>
    (\<exists>ds. calls = CallStart target permit # ds \<and> (set ds \<subseteq> {CallDetect target} \<or>
      e \<noteq> None \<and> RollbackAuthorized (an_value (ba_start ans permit)) \<and> owned_receipt ans permit (an_value (ba_start ans permit)) \<and>
      set ds \<subseteq> {CallDetect target, CallRollback target before (an_value (ba_start ans permit))}))"
proof -
  let ?rc = "an_value (ba_start ans permit)"
  obtain x where x: "with_timeout (ba_start ans permit) = (?rc, x)" by (simp add: with_timeout_def)
  obtain ds where calls: "calls = CallStart target permit # ds" and d:
    "(if Changed ?rc \<and> \<not> permit_accepts permit ?rc
      then (no_result, Some (rs_caused CodeStartFailed (OtherError ''backend returned invalid change receipt'')), [])
      else (case x of
        Some err \<Rightarrow>
          if Changed ?rc \<and> \<not> RollbackAuthorized ?rc
          then (case manualCleanupResult (contextErrorCode err CodeStartFailed) err of (r, e) \<Rightarrow> (r, e, []))
          else failAndMaybeRollback (ba_rollback ans) target before ?rc (contextErrorCode err CodeStartFailed) err
      | None \<Rightarrow>
          if \<not> Changed ?rc then (no_result, Some (rs_caused CodeStartFailed (OtherError ''backend reported no start'')), [])
          else verify_started ans target before ?rc)) = (r, e, ds)"
    using s x by (auto simp: start_service_def in_then_calls)
  show ?thesis
  proof (cases "Changed ?rc \<and> permit_accepts permit ?rc")
    case False
    then consider "Changed ?rc" "\<not> permit_accepts permit ?rc" | "\<not> Changed ?rc" by blast
    then show ?thesis
    proof cases
      case 1
      then show ?thesis using d calls by (auto simp: owned_receipt_def settled_def no_result_def)
    next
      case 2
      then have "ds = [] \<and> e \<noteq> None \<and> rl_Code r = OutcomeNone"
        using d by (auto simp: failAndMaybeRollback_def no_result_def split: option.splits)
      then show ?thesis using 2 calls by (auto simp: owned_receipt_def settled_def)
    qed
  next
    case True
    then have own: "owned_receipt ans permit ?rc" by (simp add: owned_receipt_def)
    show ?thesis
    proof (cases x)
      case None
      then have "verify_started ans target before ?rc = (r, e, ds)" using d True by simp
      from verify_started_cases[OF this assms(2)] True own calls show ?thesis by auto
    next
      case (Some err)
      show ?thesis
      proof (cases "RollbackAuthorized ?rc")
        case False
        then have "ds = [] \<and> e \<noteq> None \<and> rl_Code r = OutcomeManualCleanup"
          using d True Some by (auto simp: manualCleanupResult_def no_result_def)
        then show ?thesis using calls by (auto simp: settled_def)
      next
        case auth: True
        then have "failAndMaybeRollback (ba_rollback ans) target before ?rc (contextErrorCode err CodeStartFailed) err = (r, e, ds)"
          using d True Some by simp
        from failAndMaybeRollback_cases[OF this assms(2)] True own calls show ?thesis by (auto simp: settled_def)
      qed
    qed
  qed
qed

text \<open>The start of a transaction: bound to the stopped state it captured.\<close>

definition permit_for :: "answers \<Rightarrow> Target \<Rightarrow> StartPermit \<Rightarrow> bool" where
  "permit_for ans target p \<longleftrightarrow> ba_nonce ans = Inr (sp_nonce p) \<and> sp_nonce p \<noteq> zero32 \<and> sp_target p = target \<and>
     sp_before p = an_value (ba_capture ans) \<and> \<not> ss_Running (sp_before p)"

lemma transact_cases:
  assumes t: "transact ans target = (r, e, calls)"
  shows "settled r e \<and>
    (\<exists>ds. calls = CallCapture target # ds \<and>
      (set ds \<subseteq> {CallDetect target} \<and> rl_Code r \<in> {OutcomeNone, OutcomeAlreadyRunning} \<or>
       (\<exists>permit ds'. permit_for ans target permit \<and> ds = CallStart target permit # ds' \<and> rl_Code r \<noteq> OutcomeAlreadyRunning \<and>
         (owned_receipt ans permit (an_value (ba_start ans permit)) \<longrightarrow> rl_Code r \<noteq> OutcomeNone) \<and>
         (set ds' \<subseteq> {CallDetect target} \<or>
          e \<noteq> None \<and> RollbackAuthorized (an_value (ba_start ans permit)) \<and> owned_receipt ans permit (an_value (ba_start ans permit)) \<and>
          set ds' \<subseteq> {CallDetect target, CallRollback target (sp_before permit) (an_value (ba_start ans permit))}))))"
proof -
  let ?b = "an_value (ba_capture ans)"
  obtain x where x: "with_timeout (ba_capture ans) = (?b, x)" by (simp add: with_timeout_def)
  obtain ds where calls: "calls = CallCapture target # ds" and d:
    "(case x of Some err \<Rightarrow> (no_result, Some (rs_caused (contextErrorCode err CodeCaptureFailed) err), [])
      | None \<Rightarrow> if ss_Running ?b then already_running ans target
         else (case newStartPermit (ba_nonce ans) target ?b of
            Inl e \<Rightarrow> (no_result, Some (rs_caused CodeStartFailed e), [])
          | Inr permit \<Rightarrow> start_service ans target ?b permit)) = (r, e, ds)"
    using t x by (auto simp: transact_def in_then_calls split: option.splits)
  consider err where "x = Some err" | "x = None" "ss_Running ?b"
    | e where "x = None" "\<not> ss_Running ?b" "newStartPermit (ba_nonce ans) target ?b = Inl e"
    | p where "x = None" "\<not> ss_Running ?b" "newStartPermit (ba_nonce ans) target ?b = Inr p"
    by (cases x; cases "newStartPermit (ba_nonce ans) target ?b") auto
  then show ?thesis
  proof cases
    case 4
    have p: "permit_for ans target p" "sp_before p = ?b"
      using 4 by (auto simp: newStartPermit_def permit_for_def split: sum.splits if_splits)
    have "start_service ans target ?b p = (r, e, ds)" using d 4 by simp
    from start_service_cases[OF this 4(2)] p calls show ?thesis by auto
  qed (use d calls in \<open>auto simp: settled_def no_result_def already_running_def split: option.splits if_splits prod.splits\<close>)
qed


section \<open>A rollback in small\<close>

definition sample_box :: Target where
  "sample_box = \<lparr> tg_Device = 1 # zeros 31, tg_Platform = rs_PlatformLinux, tg_Service = ServiceSSH \<rparr>"

text \<open>A stopped service that is started with ownership but does not verify, and is rolled back.\<close>

definition sample_answers :: answers where
  "sample_answers =
     \<lparr> ba_capture = \<lparr> an_value = no_state, an_err = None, an_ctx = None \<rparr>, ba_nonce = Inr (2 # zeros 31),
       ba_start = (\<lambda>p. \<lparr> an_value = CommitOwned p (3 # zeros 31) (4 # zeros 31), an_err = None, an_ctx = None \<rparr>),
       ba_detect = \<lparr> an_value = no_health, an_err = None, an_ctx = None \<rparr>,
       ba_rollback = \<lparr> an_value = (), an_err = None, an_ctx = None \<rparr> \<rparr>"

definition sample_outcome :: outcome where
  "sample_outcome = transact sample_answers sample_box"

lemma sample_rolled_back: "rl_Code (fst sample_outcome) = OutcomeRolledBack" "length (snd (snd sample_outcome)) = 4"
  by code_simp+


end
