(* ===== verification/RS_Manager.thy ===== *)
theory RS_Manager
  imports RS_Transaction Crypto
begin

text \<open>
  Starting a remote-access service, the concurrent part: the local confirmations of
  \<open>internal/remoteservice/confirmation.go\<close> and the admission and per-target locks of \<open>manager.go\<close>.
  Many calls of \<open>Confirm\<close> and \<open>EnsureRunning\<close> run at once; each section that runs under a mutex, each
  channel operation and each call out is one step, and a system interleaves the steps of all calls in
  any order. Clocks, contexts, random bytes and the user's answer are choices of the steps.
\<close>

section \<open>Confirmations\<close>

datatype confirmationState = confirmationPending | confirmationConsumed

record confirmationRecord =
  cn_target :: Target
  cn_expires :: time
  cn_state :: confirmationState

record Confirmer =
  co_config :: Config
  co_records :: "(bytes, confirmationRecord) gomap"
  co_inFlight :: int

definition newConfirmer :: "Config \<Rightarrow> Confirmer" where
  "newConfirmer config = \<lparr> co_config = cf_normalized config, co_records = [], co_inFlight = 0 \<rparr>"

definition pruneLocked :: "time \<Rightarrow> Confirmer \<Rightarrow> Confirmer" where
  "pruneLocked now c = c\<lparr>co_records := filter (\<lambda>(digest, r). now < cn_expires r) (co_records c)\<rparr>"

definition validateLocked :: "Target \<Rightarrow> bytes \<Rightarrow> time \<Rightarrow> Confirmer \<Rightarrow> (rs_error + confirmationRecord) \<times> Confirmer" where
  "validateLocked target digest now c =
     (case map_of (co_records c) digest of
        None \<Rightarrow> (Inl (rs_fail CodeConfirmationInvalid), pruneLocked now c)
      | Some r \<Rightarrow>
          if \<not> now < cn_expires r then (Inl (rs_fail CodeConfirmationExpired), c\<lparr>co_records := AList.delete digest (co_records c)\<rparr>)
          else if cn_state r = confirmationConsumed then (Inl (rs_fail CodeConfirmationReplay), c)
          else if cn_target r \<noteq> target then (Inl (rs_fail CodeConfirmationInvalid), c)
          else (Inr r, c))"

definition cn_validate :: "crypto \<Rightarrow> Target \<Rightarrow> bytes \<Rightarrow> time \<Rightarrow> Confirmer \<Rightarrow> rs_error option \<times> Confirmer" where
  "cn_validate C target token now c =
     (if token = zero32 then (Some (rs_fail CodeConfirmationInvalid), c)
      else case validateLocked target (sha256 C token) now c of (Inl e, c) \<Rightarrow> (Some e, c) | (Inr _, c) \<Rightarrow> (None, c))"

text \<open>\<open>consume\<close> is \<open>validate\<close> and then, under the lock again, this.\<close>

definition consumeLocked :: "crypto \<Rightarrow> Target \<Rightarrow> bytes \<Rightarrow> time \<Rightarrow> Confirmer \<Rightarrow> rs_error option \<times> Confirmer" where
  "consumeLocked C target token now c =
     (case validateLocked target (sha256 C token) now c of
        (Inl e, c) \<Rightarrow> (Some e, c)
      | (Inr r, c) \<Rightarrow> (None, c\<lparr>co_records := AList.update (sha256 C token) (r\<lparr>cn_state := confirmationConsumed\<rparr>) (co_records c)\<rparr>))"

text \<open>The sections of \<open>Confirm\<close>: reserve, give the reservation back, or mint a token.\<close>

definition begin_confirm :: "Target \<Rightarrow> time \<Rightarrow> Confirmer \<Rightarrow> rs_error option \<times> Confirmer" where
  "begin_confirm target now c =
     (case validateTarget target of Some e \<Rightarrow> (Some e, c) | None \<Rightarrow>
      let c = pruneLocked now c in
      if cf_MaxConfirmations (co_config c) \<le> int (length (co_records c)) + co_inFlight c
      then (Some (rs_fail CodeConfirmationCapacity), c)
      else (None, c\<lparr>co_inFlight := co_inFlight c + 1\<rparr>))"

definition abort_confirm :: "Confirmer \<Rightarrow> Confirmer" where
  "abort_confirm c = c\<lparr>co_inFlight := co_inFlight c - 1\<rparr>"

definition mint :: "crypto \<Rightarrow> Target \<Rightarrow> bytes \<Rightarrow> time \<Rightarrow> Confirmer \<Rightarrow> Confirmer option" where
  "mint C target token now c =
     (if map_has (co_records c) (sha256 C token) then None
      else Some (c\<lparr>co_records := AList.update (sha256 C token)
             \<lparr> cn_target = target, cn_expires = now + cf_ConfirmationTTL (co_config c), cn_state = confirmationPending \<rparr> (co_records c),
           co_inFlight := co_inFlight c - 1\<rparr>))"

text \<open>A call of \<open>Confirm\<close> past its reservation: waiting for the user, trying random tokens, or over.\<close>

datatype prompt_phase = Prompting | Minting nat | Refused | Minted bytes time

inductive confirm_step :: "crypto \<Rightarrow> Target \<Rightarrow> Confirmer \<Rightarrow> prompt_phase \<Rightarrow> Confirmer \<Rightarrow> prompt_phase \<Rightarrow> bool"
  for C target where
  denied: "confirm_step C target c Prompting (abort_confirm c) Refused"
| approved: "confirm_step C target c Prompting c (Minting 0)"
| no_random: "confirm_step C target c (Minting k) (abort_confirm c) Refused"
| collision: "mint C target token now c = None \<Longrightarrow> k < 7 \<Longrightarrow> confirm_step C target c (Minting k) c (Minting (Suc k))"
| collided: "mint C target token now c = None \<Longrightarrow> confirm_step C target c (Minting 7) (abort_confirm c) Refused"
| minted: "mint C target token now c = Some c' \<Longrightarrow>
    confirm_step C target c (Minting k) c' (Minted (sha256 C token) (now + cf_ConfirmationTTL (co_config c)))"

section \<open>Admission and locks\<close>

text \<open>A \<open>serviceLock\<close> is a heap object: a channel of capacity one and a reference count.\<close>

record serviceLock =
  sl_held :: bool
  sl_refs :: int

record Manager =
  mg_config :: Config
  mg_admission :: nat
  mg_locks :: "(Target, nat) gomap"
  mg_heap :: "serviceLock list"

definition NewManager :: "Config \<Rightarrow> Manager" where
  "NewManager config = \<lparr> mg_config = cf_normalized config, mg_admission = 0, mg_locks = [], mg_heap = [] \<rparr>"

definition acquireAdmission :: "go_err option \<Rightarrow> Manager \<Rightarrow> rs_error option \<times> Manager" where
  "acquireAdmission ctx m =
     (case ctx of Some e \<Rightarrow> (Some (rs_caused (contextCode ctx CodeCanceled) e), m)
      | None \<Rightarrow> if int (mg_admission m) < cf_MaxTransactions (mg_config m) then (None, m\<lparr>mg_admission := mg_admission m + 1\<rparr>)
          else (Some (rs_fail CodeTransactionCapacity), m))"

definition releaseAdmission :: "Manager \<Rightarrow> Manager" where
  "releaseAdmission m = m\<lparr>mg_admission := mg_admission m - 1\<rparr>"

definition referenceLock :: "Target \<Rightarrow> Manager \<Rightarrow> nat \<times> Manager" where
  "referenceLock target m =
     (let (l, m) = (case map_of (mg_locks m) target of
          Some l \<Rightarrow> (l, m)
        | None \<Rightarrow> (length (mg_heap m), m\<lparr>mg_heap := mg_heap m @ [\<lparr> sl_held = False, sl_refs = 0 \<rparr>],
            mg_locks := AList.update target (length (mg_heap m)) (mg_locks m)\<rparr>)) in
      (l, m\<lparr>mg_heap := (mg_heap m)[l := (mg_heap m ! l)\<lparr>sl_refs := sl_refs (mg_heap m ! l) + 1\<rparr>]\<rparr>))"

definition unreferenceLock :: "Target \<Rightarrow> nat \<Rightarrow> Manager \<Rightarrow> Manager" where
  "unreferenceLock target l m =
     (let refs = sl_refs (mg_heap m ! l) - 1; m = m\<lparr>mg_heap := (mg_heap m)[l := (mg_heap m ! l)\<lparr>sl_refs := refs\<rparr>]\<rparr> in
      if refs = 0 then m\<lparr>mg_locks := AList.delete target (mg_locks m)\<rparr> else m)"

definition set_held :: "bool \<Rightarrow> nat \<Rightarrow> Manager \<Rightarrow> Manager" where
  "set_held b l m = m\<lparr>mg_heap := (mg_heap m)[l := (mg_heap m ! l)\<lparr>sl_held := b\<rparr>]\<rparr>"

text \<open>\<open>waitForLock\<close> takes the channel when it is free, or gives up when the context ends.\<close>

definition waitForLock :: "go_err option \<Rightarrow> nat \<Rightarrow> Manager \<Rightarrow> (go_err option \<times> Manager) option" where
  "waitForLock ctx l m =
     (case ctx of Some e \<Rightarrow> Some (Some e, m)
      | None \<Rightarrow> if sl_held (mg_heap m ! l) then None else Some (None, set_held True l m))"

section \<open>A call of EnsureRunning\<close>

datatype tx_phase =
    Arrived
  | Admitted
  | Validated
  | Waiting nat
  | Holding nat
  | Rechecked nat
  | Consumed nat
  | Releasing nat outcome
  | Unreferencing nat outcome
  | Leaving outcome
  | Returned outcome

definition tx_error :: "rs_error \<Rightarrow> outcome" where
  "tx_error e = (no_result, Some e, [])"

record tx_state =
  xs_confirmer :: Confirmer
  xs_manager :: Manager
  xs_phase :: tx_phase
  xs_consumed :: "time option"

inductive tx_step :: "crypto \<Rightarrow> Request \<Rightarrow> tx_state \<Rightarrow> tx_state \<Rightarrow> bool" for C req where
  bad_operation: "xs_phase x = Arrived \<Longrightarrow> rq_Operation req \<noteq> OperationEnsureRunning \<Longrightarrow>
    tx_step C req x (x\<lparr>xs_phase := Returned (tx_error (rs_fail CodeInvalidRequest))\<rparr>)"
| bad_target: "xs_phase x = Arrived \<Longrightarrow> rq_Operation req = OperationEnsureRunning \<Longrightarrow> validateTarget (rq_Target req) = Some e \<Longrightarrow>
    tx_step C req x (x\<lparr>xs_phase := Returned (tx_error e)\<rparr>)"
| refused: "xs_phase x = Arrived \<Longrightarrow> rq_Operation req = OperationEnsureRunning \<Longrightarrow> validateTarget (rq_Target req) = None \<Longrightarrow>
    acquireAdmission ctx (xs_manager x) = (Some e, m) \<Longrightarrow>
    tx_step C req x (x\<lparr>xs_manager := m, xs_phase := Returned (tx_error e)\<rparr>)"
| admitted: "xs_phase x = Arrived \<Longrightarrow> rq_Operation req = OperationEnsureRunning \<Longrightarrow> validateTarget (rq_Target req) = None \<Longrightarrow>
    acquireAdmission ctx (xs_manager x) = (None, m) \<Longrightarrow>
    tx_step C req x (x\<lparr>xs_manager := m, xs_phase := Admitted\<rparr>)"
| invalid: "xs_phase x = Admitted \<Longrightarrow> cn_validate C (rq_Target req) (rq_Confirmation req) now (xs_confirmer x) = (Some e, c) \<Longrightarrow>
    tx_step C req x (x\<lparr>xs_confirmer := c, xs_phase := Leaving (tx_error e)\<rparr>)"
| validated: "xs_phase x = Admitted \<Longrightarrow> cn_validate C (rq_Target req) (rq_Confirmation req) now (xs_confirmer x) = (None, c) \<Longrightarrow>
    tx_step C req x (x\<lparr>xs_confirmer := c, xs_phase := Validated\<rparr>)"
| referenced: "xs_phase x = Validated \<Longrightarrow> referenceLock (rq_Target req) (xs_manager x) = (l, m) \<Longrightarrow>
    tx_step C req x (x\<lparr>xs_manager := m, xs_phase := Waiting l\<rparr>)"
| gave_up: "xs_phase x = Waiting l \<Longrightarrow> waitForLock ctx l (xs_manager x) = Some (Some e, m) \<Longrightarrow>
    tx_step C req x (x\<lparr>xs_manager := m, xs_phase := Unreferencing l (tx_error (rs_caused (contextCode ctx CodeCanceled) e))\<rparr>)"
| locked: "xs_phase x = Waiting l \<Longrightarrow> waitForLock ctx l (xs_manager x) = Some (None, m) \<Longrightarrow>
    tx_step C req x (x\<lparr>xs_manager := m, xs_phase := Holding l\<rparr>)"
| stale: "xs_phase x = Holding l \<Longrightarrow> cn_validate C (rq_Target req) (rq_Confirmation req) now (xs_confirmer x) = (Some e, c) \<Longrightarrow>
    tx_step C req x (x\<lparr>xs_confirmer := c, xs_phase := Releasing l (tx_error e)\<rparr>)"
| rechecked: "xs_phase x = Holding l \<Longrightarrow> cn_validate C (rq_Target req) (rq_Confirmation req) now (xs_confirmer x) = (None, c) \<Longrightarrow>
    tx_step C req x (x\<lparr>xs_confirmer := c, xs_phase := Rechecked l\<rparr>)"
| replayed: "xs_phase x = Rechecked l \<Longrightarrow> consumeLocked C (rq_Target req) (rq_Confirmation req) now (xs_confirmer x) = (Some e, c) \<Longrightarrow>
    tx_step C req x (x\<lparr>xs_confirmer := c, xs_phase := Releasing l (tx_error e)\<rparr>)"
| consumed: "xs_phase x = Rechecked l \<Longrightarrow> consumeLocked C (rq_Target req) (rq_Confirmation req) now (xs_confirmer x) = (None, c) \<Longrightarrow>
    tx_step C req x (x\<lparr>xs_confirmer := c, xs_phase := Consumed l, xs_consumed := Some now\<rparr>)"
| transacted: "xs_phase x = Consumed l \<Longrightarrow>
    tx_step C req x (x\<lparr>xs_phase := Releasing l (transact ans (rq_Target req))\<rparr>)"
| released: "xs_phase x = Releasing l out \<Longrightarrow>
    tx_step C req x (x\<lparr>xs_manager := set_held False l (xs_manager x), xs_phase := Unreferencing l out\<rparr>)"
| unreferenced: "xs_phase x = Unreferencing l out \<Longrightarrow>
    tx_step C req x (x\<lparr>xs_manager := unreferenceLock (rq_Target req) l (xs_manager x), xs_phase := Leaving out\<rparr>)"
| left: "xs_phase x = Leaving out \<Longrightarrow>
    tx_step C req x (x\<lparr>xs_manager := releaseAdmission (xs_manager x), xs_phase := Returned out\<rparr>)"

section \<open>The system\<close>

record tx =
  tx_request :: Request
  tx_phase :: tx_phase
  tx_consumed :: "time option"

record rs_system =
  sy_confirmer :: Confirmer
  sy_manager :: Manager
  sy_txs :: "tx list"
  sy_prompts :: "(Target \<times> prompt_phase) list"

definition new_system :: "Config \<Rightarrow> Config \<Rightarrow> rs_system" where
  "new_system cc mc = \<lparr> sy_confirmer = newConfirmer cc, sy_manager = NewManager mc, sy_txs = [], sy_prompts = [] \<rparr>"

inductive rs_step :: "crypto \<Rightarrow> rs_system \<Rightarrow> rs_system \<Rightarrow> bool" for C where
  call: "rs_step C s (s\<lparr>sy_txs := sy_txs s @ [\<lparr> tx_request = req, tx_phase = Arrived, tx_consumed = None \<rparr>]\<rparr>)"
| prompt: "begin_confirm target now (sy_confirmer s) = (None, c) \<Longrightarrow>
    rs_step C s (s\<lparr>sy_confirmer := c, sy_prompts := sy_prompts s @ [(target, Prompting)]\<rparr>)"
| no_prompt: "begin_confirm target now (sy_confirmer s) = (Some e, c) \<Longrightarrow> rs_step C s (s\<lparr>sy_confirmer := c\<rparr>)"
| answer: "j < length (sy_prompts s) \<Longrightarrow> sy_prompts s ! j = (target, ph) \<Longrightarrow> confirm_step C target (sy_confirmer s) ph c ph' \<Longrightarrow>
    rs_step C s (s\<lparr>sy_confirmer := c, sy_prompts := (sy_prompts s)[j := (target, ph')]\<rparr>)"
| run: "i < length (sy_txs s) \<Longrightarrow>
    tx_step C (tx_request (sy_txs s ! i))
      \<lparr> xs_confirmer = sy_confirmer s, xs_manager = sy_manager s, xs_phase = tx_phase (sy_txs s ! i), xs_consumed = tx_consumed (sy_txs s ! i) \<rparr> x \<Longrightarrow>
    rs_step C s (s\<lparr>sy_confirmer := xs_confirmer x, sy_manager := xs_manager x,
      sy_txs := (sy_txs s)[i := (sy_txs s ! i)\<lparr>tx_phase := xs_phase x, tx_consumed := xs_consumed x\<rparr>]\<rparr>)"

definition rs_reachable :: "crypto \<Rightarrow> rs_system \<Rightarrow> bool" where
  "rs_reachable C s \<longleftrightarrow> (\<exists>cc mc. (rs_step C)\<^sup>*\<^sup>* (new_system cc mc) s)"

section \<open>Confirmations are used once\<close>

definition prompt_pending :: "Target \<times> prompt_phase \<Rightarrow> bool" where
  "prompt_pending p = (case snd p of Prompting \<Rightarrow> True | Minting _ \<Rightarrow> True | _ \<Rightarrow> False)"

definition minted_as :: "bytes \<Rightarrow> Target \<Rightarrow> Target \<times> prompt_phase \<Rightarrow> bool" where
  "minted_as d t p = (case snd p of Minted d' _ \<Rightarrow> d' = d \<and> fst p = t | _ \<Rightarrow> False)"

definition used :: "crypto \<Rightarrow> bytes \<Rightarrow> Target \<Rightarrow> tx \<Rightarrow> bool" where
  "used C d t x \<longleftrightarrow> tx_consumed x \<noteq> None \<and> sha256 C (rq_Confirmation (tx_request x)) = d \<and> rq_Target (tx_request x) = t"

definition open_record :: "bytes \<Rightarrow> Target \<Rightarrow> Confirmer \<Rightarrow> bool" where
  "open_record d t c = (case map_of (co_records c) d of None \<Rightarrow> False | Some r \<Rightarrow> cn_state r = confirmationPending \<and> cn_target r = t)"

definition consumed_in_time :: "crypto \<Rightarrow> (Target \<times> prompt_phase) list \<Rightarrow> tx \<Rightarrow> bool" where
  "consumed_in_time C prompts x = (case tx_consumed x of None \<Rightarrow> True
     | Some now \<Rightarrow> \<exists>e. (rq_Target (tx_request x), Minted (sha256 C (rq_Confirmation (tx_request x))) e) \<in> set prompts \<and> now < e)"

definition book_inv :: "Confirmer \<Rightarrow> (Target \<times> prompt_phase) list \<Rightarrow> bool" where
  "book_inv c prompts \<longleftrightarrow> wf_map (co_records c) \<and> co_inFlight c = int (tally prompt_pending prompts) \<and>
     int (length (co_records c)) + co_inFlight c \<le> cf_MaxConfirmations (co_config c) \<and>
     cf_MaxConfirmations (co_config c) \<le> 4096 \<and>
     (\<forall>d r. map_of (co_records c) d = Some r \<longrightarrow> (cn_target r, Minted d (cn_expires r)) \<in> set prompts)"

definition once_inv :: "crypto \<Rightarrow> Confirmer \<Rightarrow> tx list \<Rightarrow> (Target \<times> prompt_phase) list \<Rightarrow> bool" where
  "once_inv C c txs prompts \<longleftrightarrow>
     (\<forall>d t. tally (used C d t) txs + (if open_record d t c then 1 else 0) \<le> tally (minted_as d t) prompts) \<and>
     (\<forall>x\<in>set txs. consumed_in_time C prompts x)"

text \<open>A validation may only forget records.\<close>

definition co_le :: "Confirmer \<Rightarrow> Confirmer \<Rightarrow> bool" where
  "co_le c' c \<longleftrightarrow> co_config c' = co_config c \<and> co_inFlight c' = co_inFlight c \<and>
     (wf_map (co_records c) \<longrightarrow> wf_map (co_records c') \<and> length (co_records c') \<le> length (co_records c) \<and>
       map_of (co_records c') \<subseteq>\<^sub>m map_of (co_records c))"

lemma co_le_refl [simp]: "co_le c c"
  by (simp add: co_le_def)

lemma prune_le: "co_le (pruneLocked now c) c"
proof -
  have "map_of (filter (\<lambda>(d, r). now < cn_expires r) m) \<subseteq>\<^sub>m map_of m \<and> wf_map (filter (\<lambda>(d, r). now < cn_expires r) m)" if "wf_map m" for m :: "(bytes, confirmationRecord) gomap"
    using that
    by (induction m) (auto simp: wf_map_def map_le_def dom_def image_iff split: if_splits option.splits dest: map_of_SomeD)
  then show ?thesis by (auto simp: co_le_def pruneLocked_def)
qed

lemma validateLocked_le: "validateLocked t d now c = (x, c') \<Longrightarrow> co_le c' c"
proof -
  have del: "co_le (c\<lparr>co_records := AList.delete d (co_records c)\<rparr>) c"
  proof -
    have "length (AList.delete d (co_records c)) \<le> length (co_records c)" by (simp add: AList.delete_eq)
    then show ?thesis by (auto simp: co_le_def map_le_def)
  qed
  show "validateLocked t d now c = (x, c') \<Longrightarrow> co_le c' c"
    using del prune_le by (auto simp: validateLocked_def split: option.splits if_splits)
qed

lemma validateLocked_ok:
  "validateLocked t d now c = (Inr r, c') \<Longrightarrow> c' = c \<and> map_of (co_records c) d = Some r \<and> now < cn_expires r \<and> cn_state r = confirmationPending \<and> cn_target r = t"
  by (auto simp: validateLocked_def split: option.splits if_splits) (metis confirmationState.exhaust)

lemma cn_validate_le: "cn_validate C t token now c = (x, c') \<Longrightarrow> co_le c' c"
  by (auto simp: cn_validate_def split: if_splits prod.splits sum.splits dest: validateLocked_le)

lemma consume_fails_le: "consumeLocked C t token now c = (Some e, c') \<Longrightarrow> co_le c' c"
  by (auto simp: consumeLocked_def split: prod.splits sum.splits dest: validateLocked_le)

lemma consume_ok:
  assumes "consumeLocked C t token now c = (None, c')"
  shows "\<exists>r. map_of (co_records c) (sha256 C token) = Some r \<and> now < cn_expires r \<and> cn_state r = confirmationPending \<and> cn_target r = t \<and>
    c' = c\<lparr>co_records := AList.update (sha256 C token) (r\<lparr>cn_state := confirmationConsumed\<rparr>) (co_records c)\<rparr>"
  using assms by (auto simp: consumeLocked_def split: prod.splits sum.splits dest!: validateLocked_ok)

lemma le_book: "co_le c' c \<Longrightarrow> book_inv c prompts \<Longrightarrow> book_inv c' prompts"
  by (fastforce simp: co_le_def book_inv_def map_le_def dom_def)

lemma le_open: "co_le c' c \<Longrightarrow> wf_map (co_records c) \<Longrightarrow> open_record d t c' \<Longrightarrow> open_record d t c"
  by (force simp: co_le_def open_record_def map_le_def dom_def split: option.splits)

lemma le_once:
  assumes "co_le c' c" "wf_map (co_records c)" "once_inv C c txs prompts"
  shows "once_inv C c' txs prompts"
proof -
  have "tally (used C d t) txs + (if open_record d t c' then 1 else 0) \<le> tally (minted_as d t) prompts" for d t
  proof -
    have "tally (used C d t) txs + (if open_record d t c then 1 else 0) \<le> tally (minted_as d t) prompts"
      using assms(3) unfolding once_inv_def by blast
    then show ?thesis using le_open[OF assms(1,2), of d t] by (auto split: if_splits)
  qed
  then show ?thesis using assms(3) unfolding once_inv_def by blast
qed

text \<open>The user's side: reserving, refusing and minting.\<close>

lemma begin_confirm_inv:
  assumes b: "begin_confirm t now c = (x, c')" and i: "book_inv c prompts" "once_inv C c txs prompts"
  shows "if x = None then book_inv c' (prompts @ [(t, Prompting)]) \<and> once_inv C c' txs (prompts @ [(t, Prompting)])
         else book_inv c' prompts \<and> once_inv C c' txs prompts"
proof -
  have wf: "wf_map (co_records c)" using i by (simp add: book_inv_def)
  note P = le_book[OF prune_le i(1)] le_once[OF prune_le wf i(2)]
  have m: "\<not> minted_as d u (t, Prompting)" for d u by (simp add: minted_as_def)
  show ?thesis
  proof (cases "validateTarget t = None \<and> \<not> cf_MaxConfirmations (co_config (pruneLocked now c)) \<le> int (length (co_records (pruneLocked now c))) + co_inFlight (pruneLocked now c)")
    case True
    then have "x = None" "c' = (pruneLocked now c)\<lparr>co_inFlight := co_inFlight (pruneLocked now c) + 1\<rparr>"
      using b by (auto simp: begin_confirm_def Let_def)
    then show ?thesis using P[of now] True m
      by (auto simp: book_inv_def once_inv_def open_record_def prompt_pending_def consumed_in_time_def split: option.splits)
  next
    case False
    then have "x \<noteq> None \<and> (c' = c \<or> c' = pruneLocked now c)"
      using b by (cases "validateTarget t"; cases x) (auto simp: begin_confirm_def Let_def split: if_splits)
    then show ?thesis using P i by auto
  qed
qed

lemma prompt_replaced:
  assumes j: "j < length prompts" "prompts ! j = (t, ph)" and p: "prompt_pending (t, ph)"
  shows "tally prompt_pending (prompts[j := q]) + 1 = tally prompt_pending prompts + (if prompt_pending q then 1 else 0)"
    and "tally (minted_as d u) (prompts[j := q]) = tally (minted_as d u) prompts + (if minted_as d u q then 1 else 0)"
    and "(u, Minted d e) \<in> set prompts \<Longrightarrow> (u, Minted d e) \<in> set (prompts[j := q])"
proof -
  have n: "\<not> minted_as d u (t, ph)" using p by (auto simp: minted_as_def prompt_pending_def split: prompt_phase.splits)
  show "tally prompt_pending (prompts[j := q]) + 1 = tally prompt_pending prompts + (if prompt_pending q then 1 else 0)"
    using tally_update[OF j(1), of prompt_pending q] j p by simp
  show "tally (minted_as d u) (prompts[j := q]) = tally (minted_as d u) prompts + (if minted_as d u q then 1 else 0)"
    using tally_update[OF j(1), of "minted_as d u" q] j n by simp
  assume "(u, Minted d e) \<in> set prompts"
  then obtain k where k: "k < length prompts" "prompts ! k = (u, Minted d e)" by (auto simp: in_set_conv_nth)
  then have "k \<noteq> j" using j p by (auto simp: prompt_pending_def)
  then show "(u, Minted d e) \<in> set (prompts[j := q])" using k by (auto simp: in_set_conv_nth intro!: exI[of _ k])
qed

lemma consumed_in_time_mono:
  "consumed_in_time C prompts x \<Longrightarrow> (\<And>u d e. (u, Minted d e) \<in> set prompts \<Longrightarrow> (u, Minted d e) \<in> set prompts') \<Longrightarrow> consumed_in_time C prompts' x"
  by (force simp: consumed_in_time_def split: option.splits)

text \<open>A prompt that moves on or is refused.\<close>

lemma moved_inv:
  assumes j: "j < length prompts" "prompts ! j = (t, ph)" and p: "prompt_pending (t, ph)"
    and i: "book_inv c prompts" "once_inv C c txs prompts"
    and q: "q = Refused \<and> c' = abort_confirm c \<or> prompt_pending (t, q) \<and> c' = c"
  shows "book_inv c' (prompts[j := (t, q)]) \<and> once_inv C c' txs (prompts[j := (t, q)])"
proof -
  have m: "\<not> minted_as d u (t, q)" for d u using q by (auto simp: minted_as_def prompt_pending_def split: prompt_phase.splits)
  note R = prompt_replaced[OF j p, where q = "(t, q)"]
  have fl: "co_inFlight c' = int (tally prompt_pending (prompts[j := (t, q)]))"
    using R(1) q i by (auto simp: book_inv_def abort_confirm_def prompt_pending_def)
  have c: "co_records c' = co_records c" "co_config c' = co_config c" "co_inFlight c' \<le> co_inFlight c"
    using q by (auto simp: abort_confirm_def)
  have "book_inv c' (prompts[j := (t, q)])" using i(1) fl c R(3) unfolding book_inv_def by auto
  moreover have "once_inv C c' txs (prompts[j := (t, q)])"
    using i(2) m consumed_in_time_mono[OF _ R(3)] unfolding once_inv_def R(2) open_record_def c by auto
  ultimately show ?thesis by blast
qed

lemma mint_inv:
  assumes j: "j < length prompts" "prompts ! j = (t, ph)" and p: "prompt_pending (t, ph)"
    and i: "book_inv c prompts" "once_inv C c txs prompts" and m: "mint C t token now c = Some c'"
    and q: "q = Minted (sha256 C token) (now + cf_ConfirmationTTL (co_config c))"
  shows "book_inv c' (prompts[j := (t, q)]) \<and> once_inv C c' txs (prompts[j := (t, q)])"
proof -
  let ?d = "sha256 C token"
  let ?r = "\<lparr> cn_target = t, cn_expires = now + cf_ConfirmationTTL (co_config c), cn_state = confirmationPending \<rparr>"
  have new: "map_of (co_records c) ?d = None" and c': "c' = c\<lparr>co_records := AList.update ?d ?r (co_records c), co_inFlight := co_inFlight c - 1\<rparr>"
    using m by (auto simp: mint_def map_has_def split: if_splits)
  note R = prompt_replaced[OF j p, where q = "(t, q)"]
  have np: "\<not> prompt_pending (t, q)" and mt: "minted_as d u (t, q) \<longleftrightarrow> d = ?d \<and> u = t" for d u
    by (auto simp: q prompt_pending_def minted_as_def)
  have memb: "(t, q) \<in> set (prompts[j := (t, q)])" using j(1) by (simp add: set_update_memI)
  have fl: "co_inFlight c' = int (tally prompt_pending (prompts[j := (t, q)]))"
    using R(1) np i by (simp add: book_inv_def c')
  have "book_inv c' (prompts[j := (t, q)])"
    using i(1) fl R(3) memb update_new_length[OF new] unfolding book_inv_def by (auto simp: c' q)
  moreover have "once_inv C c' txs (prompts[j := (t, q)])"
  proof -
    have op: "open_record d u c' \<longleftrightarrow> open_record d u c \<or> d = ?d \<and> u = t" "\<not> open_record ?d u c" for d u
      using new by (auto simp: open_record_def c' split: option.splits)
    have "tally (used C d u) txs + (if open_record d u c' then 1 else 0) \<le> tally (minted_as d u) (prompts[j := (t, q)])" for d u
    proof -
      have "tally (used C d u) txs + (if open_record d u c then 1 else 0) \<le> tally (minted_as d u) prompts"
        using i(2) unfolding once_inv_def by blast
      then show ?thesis unfolding R(2) mt op(1) using op(2) by auto
    qed
    then show ?thesis using i(2) consumed_in_time_mono[OF _ R(3)] unfolding once_inv_def by blast
  qed
  ultimately show ?thesis by blast
qed

lemma answer_inv:
  assumes st: "confirm_step C t c ph c' ph'" and j: "j < length prompts" "prompts ! j = (t, ph)"
    and i: "book_inv c prompts" "once_inv C c txs prompts"
  shows "book_inv c' (prompts[j := (t, ph')]) \<and> once_inv C c' txs (prompts[j := (t, ph')])"
  using st
proof cases
  case (minted token now k)
  show ?thesis by (rule mint_inv[OF j _ i minted(3) minted(2)]) (simp add: minted(1) prompt_pending_def)
qed (rule moved_inv[OF j _ i]; simp add: prompt_pending_def)+

section \<open>The caller's side\<close>

text \<open>What a phase says about the confirmation.\<close>

definition phase_inv :: "tx_phase \<Rightarrow> time option \<Rightarrow> bool" where
  "phase_inv ph consumed =
     (case ph of
        Consumed l \<Rightarrow> consumed \<noteq> None
      | Releasing l out \<Rightarrow> consumed \<noteq> None \<or> snd (snd out) = []
      | Unreferencing l out \<Rightarrow> consumed \<noteq> None \<or> snd (snd out) = []
      | Leaving out \<Rightarrow> consumed \<noteq> None \<or> snd (snd out) = []
      | Returned out \<Rightarrow> consumed \<noteq> None \<or> snd (snd out) = []
      | _ \<Rightarrow> consumed = None)"

lemma tx_phase_step: "tx_step C req x y \<Longrightarrow> phase_inv (xs_phase x) (xs_consumed x) \<Longrightarrow> phase_inv (xs_phase y) (xs_consumed y)"
  by (induction rule: tx_step.induct) (auto simp: phase_inv_def tx_error_def)

text \<open>A step of a call leaves the records, forgets some, or consumes the one of its token.\<close>

lemma tx_confirmer_step:
  assumes "tx_step C req x y" "phase_inv (xs_phase x) (xs_consumed x)"
  shows "co_le (xs_confirmer y) (xs_confirmer x) \<and> xs_consumed y = xs_consumed x \<or>
    (\<exists>now. xs_consumed x = None \<and> xs_consumed y = Some now \<and>
       consumeLocked C (rq_Target req) (rq_Confirmation req) now (xs_confirmer x) = (None, xs_confirmer y))"
  using assms by (induction rule: tx_step.induct) (auto simp: phase_inv_def dest: cn_validate_le consume_fails_le)

lemma run_inv:
  assumes st: "tx_step C (tx_request (txs ! i)) \<lparr> xs_confirmer = c, xs_manager = m, xs_phase = tx_phase (txs ! i), xs_consumed = tx_consumed (txs ! i) \<rparr> y"
    and i: "i < length txs" and ph: "phase_inv (tx_phase (txs ! i)) (tx_consumed (txs ! i))"
    and b: "book_inv c prompts" and o1: "once_inv C c txs prompts"
    and t': "txs' = txs[i := (txs ! i)\<lparr>tx_phase := xs_phase y, tx_consumed := xs_consumed y\<rparr>]"
  shows "book_inv (xs_confirmer y) prompts \<and> once_inv C (xs_confirmer y) txs' prompts"
proof -
  let ?t = "txs ! i" and ?t' = "(txs ! i)\<lparr>tx_phase := xs_phase y, tx_consumed := xs_consumed y\<rparr>"
  let ?d = "sha256 C (rq_Confirmation (tx_request ?t))" and ?u = "rq_Target (tx_request ?t)"
  have wf: "wf_map (co_records c)" using b by (simp add: book_inv_def)
  consider "co_le (xs_confirmer y) c" "xs_consumed y = tx_consumed ?t"
    | now where "tx_consumed ?t = None" "xs_consumed y = Some now"
        "consumeLocked C ?u (rq_Confirmation (tx_request ?t)) now c = (None, xs_confirmer y)"
    using tx_confirmer_step[OF st] ph by auto
  then show ?thesis
  proof cases
    case 1
    have us: "tally (used C d u) txs' = tally (used C d u) txs" for d u
      unfolding t' by (rule tally_same[OF i]) (simp add: used_def 1(2))
    have "consumed_in_time C prompts x" if "x \<in> set txs'" for x
    proof -
      have "x = ?t' \<or> x \<in> set txs" using set_update_subset_insert[of txs i ?t'] that unfolding t' by auto
      moreover have "consumed_in_time C prompts ?t' = consumed_in_time C prompts ?t" by (cases "tx_consumed ?t") (simp_all add: consumed_in_time_def 1(2))
      moreover have "consumed_in_time C prompts z" if "z \<in> set txs" for z using o1 that unfolding once_inv_def by blast
      ultimately show ?thesis using nth_mem[OF i] by blast
    qed
    then have "once_inv C c txs' prompts" using o1 unfolding once_inv_def us by blast
    then show ?thesis using le_book[OF 1(1) b] le_once[OF 1(1) wf] by blast
  next
    case 2
    obtain r where r: "map_of (co_records c) ?d = Some r" "now < cn_expires r" "cn_state r = confirmationPending" "cn_target r = ?u"
      and c': "xs_confirmer y = c\<lparr>co_records := AList.update ?d (r\<lparr>cn_state := confirmationConsumed\<rparr>) (co_records c)\<rparr>"
      using consume_ok[OF 2(3)] by blast
    have mem: "(?u, Minted ?d (cn_expires r)) \<in> set prompts" using b r(1,4) unfolding book_inv_def by metis
    have bk: "book_inv (xs_confirmer y) prompts"
      using b r update_existing_length[OF r(1)] mem unfolding book_inv_def by (auto simp: c')
    have us: "tally (used C d u) txs' = tally (used C d u) txs + (if d = ?d \<and> u = ?u then 1 else 0)" for d u
      using tally_update[OF i, of "used C d u" ?t'] 2(1,2) unfolding t' by (auto simp: used_def)
    have op: "open_record d u (xs_confirmer y) \<longleftrightarrow> open_record d u c \<and> d \<noteq> ?d" "open_record ?d ?u c" for d u
      using r by (auto simp: c' open_record_def)
    have "tally (used C d u) txs' + (if open_record d u (xs_confirmer y) then 1 else 0) \<le> tally (minted_as d u) prompts" for d u
    proof -
      have "tally (used C d u) txs + (if open_record d u c then 1 else 0) \<le> tally (minted_as d u) prompts"
        using o1 unfolding once_inv_def by blast
      then show ?thesis unfolding us op(1) using op(2) by auto
    qed
    moreover have "consumed_in_time C prompts x" if "x \<in> set txs'" for x
    proof -
      have "x = ?t' \<or> x \<in> set txs" using set_update_subset_insert[of txs i ?t'] that unfolding t' by auto
      moreover have "consumed_in_time C prompts ?t'" using mem r(2) 2(2) by (auto simp: consumed_in_time_def)
      ultimately show ?thesis using o1 unfolding once_inv_def by blast
    qed
    ultimately show ?thesis using bk unfolding once_inv_def by blast
  qed
qed

section \<open>Every reachable state\<close>

definition sys_inv :: "crypto \<Rightarrow> rs_system \<Rightarrow> bool" where
  "sys_inv C s \<longleftrightarrow> book_inv (sy_confirmer s) (sy_prompts s) \<and> once_inv C (sy_confirmer s) (sy_txs s) (sy_prompts s) \<and>
     (\<forall>x\<in>set (sy_txs s). phase_inv (tx_phase x) (tx_consumed x))"

lemma new_sys_inv: "sys_inv C (new_system cc mc)"
  using clamp_range[of 256 4096 "cf_MaxConfirmations cc"]
  by (simp add: sys_inv_def new_system_def newConfirmer_def book_inv_def once_inv_def open_record_def cf_normalized_def)

lemma sys_step_inv: "rs_step C s s' \<Longrightarrow> sys_inv C s \<Longrightarrow> sys_inv C s'"
proof (induction rule: rs_step.induct)
  case (call s req)
  have "\<not> used C d t \<lparr> tx_request = req, tx_phase = Arrived, tx_consumed = None \<rparr>" for d t by (simp add: used_def)
  then show ?case using call by (auto simp: sys_inv_def once_inv_def consumed_in_time_def phase_inv_def)
next
  case (prompt target now s c)
  then show ?case using begin_confirm_inv[OF prompt(1)] by (auto simp: sys_inv_def)
next
  case (no_prompt target now s e c)
  then show ?case using begin_confirm_inv[OF no_prompt(1)] by (auto simp: sys_inv_def)
next
  case (answer j s target ph c ph')
  then show ?case using answer_inv[OF answer(3,1,2)] by (auto simp: sys_inv_def)
next
  case (run i s x)
  let ?t = "sy_txs s ! i"
  have ph: "phase_inv (tx_phase ?t) (tx_consumed ?t)" using run nth_mem[OF run(1)] by (simp add: sys_inv_def)
  then have ph': "phase_inv (xs_phase x) (xs_consumed x)" using tx_phase_step[OF run(2)] by simp
  have "phase_inv (tx_phase z) (tx_consumed z)" if "z \<in> set ((sy_txs s)[i := ?t\<lparr>tx_phase := xs_phase x, tx_consumed := xs_consumed x\<rparr>])" for z
    using set_update_subset_insert[of "sy_txs s" i] that ph' run(3) by (fastforce simp: sys_inv_def)
  then show ?case using run_inv[OF run(2,1) ph _ _ refl] run(3) by (auto simp: sys_inv_def)
qed

lemma reachable_inv: "rs_reachable C s \<Longrightarrow> sys_inv C s"
proof -
  have "(rs_step C)\<^sup>*\<^sup>* (new_system cc mc) s \<Longrightarrow> sys_inv C s" for cc mc
    by (induction rule: rtranclp_induct) (auto intro: new_sys_inv sys_step_inv)
  then show "rs_reachable C s \<Longrightarrow> sys_inv C s" by (auto simp: rs_reachable_def)
qed

text \<open>
  C29: a local confirmation is good for one start. In every reachable state of any interleaving of
  confirmations and start requests, and for every digest and target, no more transactions have
  consumed a token with that digest for that target than the local user approved tokens with that
  digest for exactly that target; each consumption happened before the expiry of such an approval;
  and a transaction that made any backend call at all has consumed its token.
\<close>

theorem confirmation_single_use:
  assumes "rs_reachable C s"
  shows "tally (used C d t) (sy_txs s) \<le> tally (minted_as d t) (sy_prompts s) \<and>
    (\<forall>x\<in>set (sy_txs s). consumed_in_time C (sy_prompts s) x \<and>
       (\<forall>out. tx_phase x = Returned out \<and> snd (snd out) \<noteq> [] \<longrightarrow> tx_consumed x \<noteq> None))"
proof -
  note i = reachable_inv[OF assms]
  have "tally (used C d t) (sy_txs s) + (if open_record d t (sy_confirmer s) then 1 else 0) \<le> tally (minted_as d t) (sy_prompts s)"
    using i unfolding sys_inv_def once_inv_def by blast
  moreover have "consumed_in_time C (sy_prompts s) x" "phase_inv (tx_phase x) (tx_consumed x)" if "x \<in> set (sy_txs s)" for x
    using i that unfolding sys_inv_def once_inv_def by blast+
  ultimately show ?thesis by (fastforce simp: phase_inv_def split: if_splits)
qed

text \<open>
  Confirmations are bounded. In every reachable state the number of unexpired or not yet forgotten
  confirmations plus the prompts in flight is at most the configured maximum, which is at most 4096,
  and the count of prompts in flight is exact.
\<close>

theorem confirmations_bounded:
  assumes "rs_reachable C s"
  shows "int (length (co_records (sy_confirmer s))) + int (tally prompt_pending (sy_prompts s)) \<le> cf_MaxConfirmations (co_config (sy_confirmer s)) \<and>
    cf_MaxConfirmations (co_config (sy_confirmer s)) \<le> 4096 \<and> co_inFlight (sy_confirmer s) = int (tally prompt_pending (sy_prompts s))"
  using reachable_inv[OF assms] by (auto simp: sys_inv_def book_inv_def)

end
