(* ===== verification/RS_Locks.thy ===== *)
theory RS_Locks
  imports RS_Manager
begin

text \<open>
  Starting a remote-access service, the locks: in every interleaving of the calls modelled in
  \<open>RS_Manager\<close>, admission slots and lock references are counted exactly, at most one call holds the
  lock of a target, nothing is left behind when the calls are over, and no state is stuck.
\<close>

section \<open>What a phase holds\<close>

fun in_flight :: "tx_phase \<Rightarrow> bool" where
  "in_flight Arrived = False"
| "in_flight (Returned out) = False"
| "in_flight ph = True"

fun lock_ref :: "tx_phase \<Rightarrow> nat option" where
  "lock_ref (Waiting l) = Some l"
| "lock_ref (Holding l) = Some l"
| "lock_ref (Rechecked l) = Some l"
| "lock_ref (Consumed l) = Some l"
| "lock_ref (Releasing l out) = Some l"
| "lock_ref (Unreferencing l out) = Some l"
| "lock_ref ph = None"

fun lock_held :: "tx_phase \<Rightarrow> nat option" where
  "lock_held (Holding l) = Some l"
| "lock_held (Rechecked l) = Some l"
| "lock_held (Consumed l) = Some l"
| "lock_held (Releasing l out) = Some l"
| "lock_held ph = None"

abbreviation tx_target :: "tx \<Rightarrow> Target" where "tx_target x \<equiv> rq_Target (tx_request x)"

lemma held_is_ref: "lock_held ph = Some l \<Longrightarrow> lock_ref ph = Some l"
  by (cases ph) auto

lemma ref_in_flight: "lock_ref ph = Some l \<Longrightarrow> in_flight ph"
  by (cases ph) auto

definition refs_of :: "nat \<Rightarrow> tx list \<Rightarrow> nat" where
  "refs_of l txs = tally (\<lambda>x. lock_ref (tx_phase x) = Some l) txs"

definition holders_of :: "nat \<Rightarrow> tx list \<Rightarrow> nat" where
  "holders_of l txs = tally (\<lambda>x. lock_held (tx_phase x) = Some l) txs"

definition flights :: "tx list \<Rightarrow> nat" where
  "flights txs = tally (\<lambda>x. in_flight (tx_phase x)) txs"

definition lock_inv :: "Manager \<Rightarrow> tx list \<Rightarrow> bool" where
  "lock_inv m txs \<longleftrightarrow> wf_map (mg_locks m) \<and>
     (\<forall>x\<in>set txs. \<forall>l. lock_ref (tx_phase x) = Some l \<longrightarrow> map_of (mg_locks m) (tx_target x) = Some l) \<and>
     (\<forall>t l. map_of (mg_locks m) t = Some l \<longrightarrow> l < length (mg_heap m) \<and> sl_refs (mg_heap m ! l) = int (refs_of l txs) \<and> 0 < refs_of l txs) \<and>
     (\<forall>l<length (mg_heap m). holders_of l txs = (if sl_held (mg_heap m ! l) then 1 else 0)) \<and>
     (\<forall>t t' l. map_of (mg_locks m) t = Some l \<longrightarrow> map_of (mg_locks m) t' = Some l \<longrightarrow> t = t')"

definition slots_inv :: "Manager \<Rightarrow> tx list \<Rightarrow> bool" where
  "slots_inv m txs \<longleftrightarrow> mg_admission m = flights txs \<and> int (mg_admission m) \<le> cf_MaxTransactions (mg_config m) \<and>
     cf_MaxTransactions (mg_config m) \<le> 1024"

text \<open>The kinds of step, by what they do to the manager.\<close>

inductive manager_move :: "Target \<Rightarrow> Manager \<Rightarrow> tx_phase \<Rightarrow> Manager \<Rightarrow> tx_phase \<Rightarrow> bool" where
  stay: "in_flight ph' = in_flight ph \<Longrightarrow> lock_ref ph' = lock_ref ph \<Longrightarrow> lock_held ph' = lock_held ph \<Longrightarrow> manager_move t m ph m ph'"
| admit: "\<not> in_flight ph \<Longrightarrow> in_flight ph' \<Longrightarrow> lock_ref ph' = None \<Longrightarrow> int (mg_admission m) < cf_MaxTransactions (mg_config m) \<Longrightarrow>
    manager_move t m ph (m\<lparr>mg_admission := Suc (mg_admission m)\<rparr>) ph'"
| reference: "referenceLock t m = (l, m') \<Longrightarrow> in_flight ph \<Longrightarrow> lock_ref ph = None \<Longrightarrow> ph' = Waiting l \<Longrightarrow> manager_move t m ph m' ph'"
| take_lock: "\<not> sl_held (mg_heap m ! l) \<Longrightarrow> manager_move t m (Waiting l) (set_held True l m) (Holding l)"
| free_lock: "manager_move t m (Releasing l out) (set_held False l m) (Unreferencing l out)"
| unreference: "manager_move t m (Unreferencing l out) (unreferenceLock t l m) (Leaving out)"
| release: "manager_move t m (Leaving out) (releaseAdmission m) (Returned out)"

inductive_cases manager_moveE: "manager_move t m ph m' ph'"

lemma tx_move:
  "tx_step C req x y \<Longrightarrow> manager_move (rq_Target req) (xs_manager x) (xs_phase x) (xs_manager y) (xs_phase y)"
proof (induction rule: tx_step.induct)
  case (refused x ctx e m)
  then have "m = xs_manager x" by (auto simp: acquireAdmission_def split: option.splits if_splits)
  then show ?case using refused by (auto intro: manager_move.stay)
next
  case (admitted x ctx m)
  then have "m = (xs_manager x)\<lparr>mg_admission := mg_admission (xs_manager x) + 1\<rparr>"
    "int (mg_admission (xs_manager x)) < cf_MaxTransactions (mg_config (xs_manager x))"
    by (auto simp: acquireAdmission_def split: option.splits if_splits)
  then show ?case using admitted by (auto intro: manager_move.admit)
next
  case (gave_up x l ctx e m)
  then have "m = xs_manager x" by (auto simp: waitForLock_def split: option.splits if_splits)
  then show ?case using gave_up by (auto intro: manager_move.stay)
next
  case (locked x l ctx m)
  then have "m = set_held True l (xs_manager x)" "\<not> sl_held (mg_heap (xs_manager x) ! l)"
    by (auto simp: waitForLock_def split: option.splits if_splits)
  then show ?case using locked by (auto intro: manager_move.take_lock)
next
  case (referenced x l m)
  then show ?case by (auto intro: manager_move.reference)
next
  case (released x l out)
  then show ?case by (auto intro: manager_move.free_lock)
next
  case (unreferenced x l out)
  then show ?case by (auto intro: manager_move.unreference)
next
  case (left x out)
  then show ?case by (auto intro: manager_move.release)
qed (auto intro: manager_move.stay)

section \<open>One call moves\<close>

lemma phase_tally:
  assumes "i < length txs" "tx_phase z = ph'"
  shows "tally (\<lambda>x. P (tx_phase x)) (txs[i := z]) + (if P (tx_phase (txs ! i)) then 1 else 0) =
    tally (\<lambda>x. P (tx_phase x)) txs + (if P ph' then 1 else 0)"
  using tally_update[OF assms(1), of "\<lambda>x. P (tx_phase x)" z] assms(2) by simp

lemma refs_update: "i < length txs \<Longrightarrow>
    refs_of l (txs[i := z]) + (if lock_ref (tx_phase (txs ! i)) = Some l then 1 else 0) = refs_of l txs + (if lock_ref (tx_phase z) = Some l then 1 else 0)"
  unfolding refs_of_def by (rule phase_tally[where P = "\<lambda>ph. lock_ref ph = Some l"]) auto

lemma holders_update: "i < length txs \<Longrightarrow>
    holders_of l (txs[i := z]) + (if lock_held (tx_phase (txs ! i)) = Some l then 1 else 0) = holders_of l txs + (if lock_held (tx_phase z) = Some l then 1 else 0)"
  unfolding holders_of_def by (rule phase_tally[where P = "\<lambda>ph. lock_held ph = Some l"]) auto

lemma flights_update: "i < length txs \<Longrightarrow>
    flights (txs[i := z]) + (if in_flight (tx_phase (txs ! i)) then 1 else 0) = flights txs + (if in_flight (tx_phase z) then 1 else 0)"
  unfolding flights_def by (rule phase_tally) auto

lemma slots_step:
  assumes mv: "manager_move t m (tx_phase (txs ! i)) m' (tx_phase z)" and i: "i < length txs" and s: "slots_inv m txs"
  shows "slots_inv m' (txs[i := z])"
proof -
  note F = flights_update[OF i, of z]
  have pos: "in_flight (tx_phase (txs ! i)) \<Longrightarrow> 0 < flights txs"
    using tally_pos[OF i, of "\<lambda>x. in_flight (tx_phase x)"] by (simp add: flights_def)
  show ?thesis using mv
  proof cases
    case (reference l)
    then have "mg_admission m' = mg_admission m \<and> mg_config m' = mg_config m"
      by (auto simp: referenceLock_def Let_def split: option.splits)
    then show ?thesis using F s reference by (simp add: slots_inv_def)
  qed (use F s pos in \<open>auto simp: slots_inv_def set_held_def unreferenceLock_def releaseAdmission_def Let_def\<close>)
qed

section \<open>The locks\<close>

lemma refs_pos: "x \<in> set txs \<Longrightarrow> lock_ref (tx_phase x) = Some l \<Longrightarrow> 0 < refs_of l txs"
  by (auto simp: refs_of_def tally_def filter_empty_conv)

lemma no_holders: "(\<And>x. x \<in> set txs \<Longrightarrow> lock_ref (tx_phase x) \<noteq> Some l) \<Longrightarrow> holders_of l txs = 0 \<and> refs_of l txs = 0"
  using held_is_ref by (fastforce simp: holders_of_def refs_of_def tally_def filter_empty_conv)

lemma set_update_cases: "x \<in> set (xs[i := y]) \<Longrightarrow> x = y \<or> x \<in> set xs"
  using set_update_subset_insert[of xs i y] by blast

lemma lock_invI:
  "wf_map (mg_locks m) \<Longrightarrow>
   (\<And>x l. x \<in> set txs \<Longrightarrow> lock_ref (tx_phase x) = Some l \<Longrightarrow> map_of (mg_locks m) (tx_target x) = Some l) \<Longrightarrow>
   (\<And>t l. map_of (mg_locks m) t = Some l \<Longrightarrow> l < length (mg_heap m) \<and> sl_refs (mg_heap m ! l) = int (refs_of l txs) \<and> 0 < refs_of l txs) \<Longrightarrow>
   (\<And>l. l < length (mg_heap m) \<Longrightarrow> holders_of l txs = (if sl_held (mg_heap m ! l) then 1 else 0)) \<Longrightarrow>
   (\<And>t t' l. map_of (mg_locks m) t = Some l \<Longrightarrow> map_of (mg_locks m) t' = Some l \<Longrightarrow> t = t') \<Longrightarrow> lock_inv m txs"
  unfolding lock_inv_def by blast

lemma lock_invD:
  assumes "lock_inv m txs"
  shows "wf_map (mg_locks m)"
    "\<And>x l. x \<in> set txs \<Longrightarrow> lock_ref (tx_phase x) = Some l \<Longrightarrow> map_of (mg_locks m) (tx_target x) = Some l"
    "\<And>t l. map_of (mg_locks m) t = Some l \<Longrightarrow> l < length (mg_heap m) \<and> sl_refs (mg_heap m ! l) = int (refs_of l txs) \<and> 0 < refs_of l txs"
    "\<And>l. l < length (mg_heap m) \<Longrightarrow> holders_of l txs = (if sl_held (mg_heap m ! l) then 1 else 0)"
    "\<And>t t' l. map_of (mg_locks m) t = Some l \<Longrightarrow> map_of (mg_locks m) t' = Some l \<Longrightarrow> t = t'"
  using assms unfolding lock_inv_def by blast+

text \<open>Steps that keep the heap's shape and the map of locks.\<close>

lemma lock_frame:
  assumes inv: "lock_inv m txs" and i: "i < length txs"
    and same: "lock_ref (tx_phase z) = lock_ref (tx_phase (txs ! i))" "tx_target z = tx_target (txs ! i)"
    and m': "mg_locks m' = mg_locks m" "length (mg_heap m') = length (mg_heap m)"
      "\<And>l. l < length (mg_heap m) \<Longrightarrow> sl_refs (mg_heap m' ! l) = sl_refs (mg_heap m ! l)"
      "\<And>l. l < length (mg_heap m) \<Longrightarrow> holders_of l (txs[i := z]) = (if sl_held (mg_heap m' ! l) then 1 else 0)"
  shows "lock_inv m' (txs[i := z])"
proof -
  have r: "refs_of l (txs[i := z]) = refs_of l txs" for l using refs_update[OF i, of l z] same(1) by simp
  have mem: "map_of (mg_locks m) (tx_target x) = Some l" if "x \<in> set (txs[i := z])" "lock_ref (tx_phase x) = Some l" for x l
    using set_update_cases[OF that(1)] that(2) inv same nth_mem[OF i] unfolding lock_inv_def by metis
  show ?thesis
  proof (rule lock_invI)
    show "wf_map (mg_locks m')" using lock_invD(1)[OF inv] m'(1) by simp
    show "l < length (mg_heap m') \<and> sl_refs (mg_heap m' ! l) = int (refs_of l (txs[i := z])) \<and> 0 < refs_of l (txs[i := z])"
      if "map_of (mg_locks m') t = Some l" for t l
      using lock_invD(3)[OF inv, of t l] that m' r by simp
    show "holders_of l (txs[i := z]) = (if sl_held (mg_heap m' ! l) then 1 else 0)" if "l < length (mg_heap m')" for l
      using m'(4)[of l] that m'(2) by simp
    show "t = t'" if "map_of (mg_locks m') t = Some l" "map_of (mg_locks m') t' = Some l" for t t' l
      using lock_invD(5)[OF inv, of t l t'] that m'(1) by simp
  qed (use mem m'(1) in simp)
qed

lemma own_lock:
  assumes inv: "lock_inv m txs" and i: "i < length txs" and l: "lock_ref (tx_phase (txs ! i)) = Some l"
  shows "map_of (mg_locks m) (tx_target (txs ! i)) = Some l" "l < length (mg_heap m)"
    "sl_refs (mg_heap m ! l) = int (refs_of l txs)" "holders_of l txs = (if sl_held (mg_heap m ! l) then 1 else 0)"
proof -
  show 1: "map_of (mg_locks m) (tx_target (txs ! i)) = Some l" using inv l nth_mem[OF i] unfolding lock_inv_def by blast
  show 2: "l < length (mg_heap m)" using inv 1 unfolding lock_inv_def by blast
  show "sl_refs (mg_heap m ! l) = int (refs_of l txs)" using inv 1 unfolding lock_inv_def by blast
  show "holders_of l txs = (if sl_held (mg_heap m ! l) then 1 else 0)" using inv 2 unfolding lock_inv_def by blast
qed

lemma nth_update_with: "k < length xs \<Longrightarrow> xs[l := f (xs ! l)] ! k = (if k = l then f (xs ! k) else xs ! k)"
  by (cases "k = l") auto

lemma heap_set_held:
  "length (mg_heap (set_held b l m)) = length (mg_heap m)" "mg_locks (set_held b l m) = mg_locks m"
  "k < length (mg_heap m) \<Longrightarrow> sl_refs (mg_heap (set_held b l m) ! k) = sl_refs (mg_heap m ! k)"
  "k < length (mg_heap m) \<Longrightarrow> sl_held (mg_heap (set_held b l m) ! k) = (if k = l then b else sl_held (mg_heap m ! k))"
  by (simp_all add: set_held_def nth_update_with[where f = "\<lambda>x. x\<lparr>sl_held := b\<rparr>"])

lemma held_step:
  assumes inv: "lock_inv m txs" and i: "i < length txs" and tg: "tx_target z = tx_target (txs ! i)"
    and l: "lock_ref (tx_phase (txs ! i)) = Some l" "lock_ref (tx_phase z) = Some l"
    and h: "sl_held (mg_heap m ! l) = (lock_held (tx_phase (txs ! i)) = Some l)" "b = (lock_held (tx_phase z) = Some l)"
  shows "lock_inv (set_held b l m) (txs[i := z])"
proof (rule lock_frame[OF inv i _ tg heap_set_held(2,1)])
  show "lock_ref (tx_phase z) = lock_ref (tx_phase (txs ! i))" using l by simp
  note O = own_lock[OF inv i l(1)]
  fix k assume k: "k < length (mg_heap m)"
  show "sl_refs (mg_heap (set_held b l m) ! k) = sl_refs (mg_heap m ! k)" by (rule heap_set_held(3)[OF k])
  have n: "lock_held (tx_phase z) \<noteq> Some k" "lock_held (tx_phase (txs ! i)) \<noteq> Some k" if "k \<noteq> l"
    using held_is_ref l that by (metis option.inject)+
  have hk: "holders_of k txs = (if sl_held (mg_heap m ! k) then 1 else 0)" using inv k unfolding lock_inv_def by blast
  show "holders_of k (txs[i := z]) = (if sl_held (mg_heap (set_held b l m) ! k) then 1 else 0)"
  proof (cases "k = l")
    case True
    then show ?thesis unfolding heap_set_held(4)[OF k] using holders_update[OF i, of l z] hk h by (simp split: if_splits)
  next
    case False
    then show ?thesis unfolding heap_set_held(4)[OF k] using holders_update[OF i, of k z] hk n by simp
  qed
qed

lemma unreference_step:
  assumes inv: "lock_inv m txs" and i: "i < length txs" and tg: "tx_target z = tx_target (txs ! i)"
    and l: "lock_ref (tx_phase (txs ! i)) = Some l" "lock_held (tx_phase (txs ! i)) = None" and z: "lock_ref (tx_phase z) = None"
  shows "lock_inv (unreferenceLock (tx_target (txs ! i)) l m) (txs[i := z])"
proof -
  let ?t = "tx_target (txs ! i)" and ?m = "unreferenceLock (tx_target (txs ! i)) l m"
  note O = own_lock[OF inv i l(1)]
  have zh: "lock_held (tx_phase z) = None" using held_is_ref z by (cases "lock_held (tx_phase z)") auto
  have R: "refs_of k (txs[i := z]) = (if k = l then refs_of l txs - 1 else refs_of k txs)" for k
    using refs_update[OF i, of k z] l z by (auto split: if_splits)
  have H: "holders_of k (txs[i := z]) = holders_of k txs" for k
    using holders_update[OF i, of k z] l zh by simp
  have pos: "0 < refs_of l txs" using refs_pos[OF nth_mem[OF i] l(1)] .
  have heap: "mg_heap ?m = (mg_heap m)[l := (mg_heap m ! l)\<lparr>sl_refs := sl_refs (mg_heap m ! l) - 1\<rparr>]"
    by (simp add: unreferenceLock_def Let_def)
  have last: "sl_refs (mg_heap m ! l) - 1 = 0 \<longleftrightarrow> refs_of l txs = 1" using O(3) by simp
  have locks: "map_of (mg_locks ?m) u = (if refs_of l txs = 1 \<and> u = ?t then None else map_of (mg_locks m) u)" for u
    using last by (simp add: unreferenceLock_def Let_def)
  have wf: "wf_map (mg_locks ?m)" using inv by (simp add: unreferenceLock_def Let_def lock_inv_def)
  have inj: "map_of (mg_locks m) u = Some k \<Longrightarrow> map_of (mg_locks m) v = Some k \<Longrightarrow> u = v" for u v k
    using inv unfolding lock_inv_def by blast
  have A: "map_of (mg_locks ?m) (tx_target x) = Some k" if x: "x \<in> set (txs[i := z])" "lock_ref (tx_phase x) = Some k" for x k
  proof -
    have "x \<in> set txs" using set_update_cases[OF x(1)] x(2) z by auto
    then have mk: "map_of (mg_locks m) (tx_target x) = Some k" using inv x(2) unfolding lock_inv_def by blast
    have "0 < refs_of k (txs[i := z])" by (rule refs_pos[OF x])
    then have "\<not> (refs_of l txs = 1 \<and> k = l)" using R[of k] by auto
    then show ?thesis using mk O(1) unfolding locks by auto
  qed
  have B: "k < length (mg_heap ?m) \<and> sl_refs (mg_heap ?m ! k) = int (refs_of k (txs[i := z])) \<and> 0 < refs_of k (txs[i := z])"
    if u: "map_of (mg_locks ?m) u = Some k" for u k
  proof -
    have mk: "map_of (mg_locks m) u = Some k" and nl: "\<not> (refs_of l txs = 1 \<and> u = ?t)" using u unfolding locks by (auto split: if_splits)
    have k: "k < length (mg_heap m)" "sl_refs (mg_heap m ! k) = int (refs_of k txs)" "0 < refs_of k txs"
      using inv mk unfolding lock_inv_def by blast+
    show ?thesis
    proof (cases "k = l")
      case True
      then have "refs_of l txs \<noteq> 1" using nl inj mk O(1) by blast
      then show ?thesis using True k pos by (simp add: heap R)
    qed (use k in \<open>simp add: heap R\<close>)
  qed
  have D: "holders_of k (txs[i := z]) = (if sl_held (mg_heap ?m ! k) then 1 else 0)" if "k < length (mg_heap ?m)" for k
  proof -
    have k: "k < length (mg_heap m)" using that by (simp add: heap)
    then have "holders_of k txs = (if sl_held (mg_heap m ! k) then 1 else 0)" using inv unfolding lock_inv_def by blast
    then show ?thesis unfolding H heap using nth_update_with[OF k, of l "\<lambda>x. x\<lparr>sl_refs := sl_refs x - 1\<rparr>"] by simp
  qed
  have E: "u = v" if "map_of (mg_locks ?m) u = Some k" "map_of (mg_locks ?m) v = Some k" for u v k
    using that inj unfolding locks by (auto split: if_splits)
  show ?thesis by (rule lock_invI[OF wf A B D E])
qed

lemma reference_step:
  assumes inv: "lock_inv m txs" and i: "i < length txs" and tg: "tx_target z = tx_target (txs ! i)"
    and n: "lock_ref (tx_phase (txs ! i)) = None" and z: "tx_phase z = Waiting l"
    and ref: "referenceLock (tx_target (txs ! i)) m = (l, m')"
  shows "lock_inv m' (txs[i := z])"
proof -
  let ?t = "tx_target (txs ! i)"
  have nh: "lock_held (tx_phase (txs ! i)) = None" using held_is_ref n by (cases "lock_held (tx_phase (txs ! i))") auto
  have R: "refs_of k (txs[i := z]) = (if k = l then refs_of l txs + 1 else refs_of k txs)" for k
    using refs_update[OF i, of k z] n z by (auto split: if_splits)
  have H: "holders_of k (txs[i := z]) = holders_of k txs" for k
    using holders_update[OF i, of k z] nh z by simp
  have inj: "map_of (mg_locks m) u = Some k \<Longrightarrow> map_of (mg_locks m) v = Some k \<Longrightarrow> u = v" for u v k
    using inv unfolding lock_inv_def by blast
  have old: "k < length (mg_heap m) \<and> sl_refs (mg_heap m ! k) = int (refs_of k txs) \<and> 0 < refs_of k txs"
    if "map_of (mg_locks m) u = Some k" for u k using inv that unfolding lock_inv_def by blast
  have mem: "map_of (mg_locks m) (tx_target x) = Some k" if "x \<in> set txs" "lock_ref (tx_phase x) = Some k" for x k
    using inv that unfolding lock_inv_def by blast
  show ?thesis
  proof (cases "map_of (mg_locks m) ?t")
    case (Some k)
    then have l: "k = l" and m': "m' = m\<lparr>mg_heap := (mg_heap m)[l := (mg_heap m ! l)\<lparr>sl_refs := sl_refs (mg_heap m ! l) + 1\<rparr>]\<rparr>"
      using ref by (auto simp: referenceLock_def Let_def)
    have A: "map_of (mg_locks m') (tx_target x) = Some k'" if x: "x \<in> set (txs[i := z])" "lock_ref (tx_phase x) = Some k'" for x k'
      using set_update_cases[OF x(1)] x(2) z tg Some l mem by (auto simp: m')
    have B: "k' < length (mg_heap m') \<and> sl_refs (mg_heap m' ! k') = int (refs_of k' (txs[i := z])) \<and> 0 < refs_of k' (txs[i := z])"
      if "map_of (mg_locks m') u = Some k'" for u k'
      using old[of u k'] that unfolding R by (auto simp: m' nth_list_update)
    have D: "holders_of k' (txs[i := z]) = (if sl_held (mg_heap m' ! k') then 1 else 0)" if "k' < length (mg_heap m')" for k'
    proof -
      have k: "k' < length (mg_heap m)" using that by (simp add: m')
      then have "holders_of k' txs = (if sl_held (mg_heap m ! k') then 1 else 0)" using inv unfolding lock_inv_def by blast
      then show ?thesis unfolding H m' using nth_update_with[OF k, of l "\<lambda>x. x\<lparr>sl_refs := sl_refs x + 1\<rparr>"] by simp
    qed
    have W: "wf_map (mg_locks m')" using inv by (simp add: m' lock_inv_def)
    have E: "u = v" if "map_of (mg_locks m') u = Some k'" "map_of (mg_locks m') v = Some k'" for u v k'
      using that inj by (auto simp: m')
    show ?thesis by (rule lock_invI[OF W A B D E])
  next
    case None
    then have l: "l = length (mg_heap m)" and m': "m' = m\<lparr>mg_heap := mg_heap m @ [\<lparr> sl_held = False, sl_refs = 1 \<rparr>], mg_locks := AList.update ?t l (mg_locks m)\<rparr>"
      using ref by (auto simp: referenceLock_def Let_def)
    have fresh: "holders_of l txs = 0 \<and> refs_of l txs = 0"
    proof (rule no_holders)
      fix x assume x: "x \<in> set txs"
      show "lock_ref (tx_phase x) \<noteq> Some l" using mem[OF x, of l] old[of "tx_target x" l] l by auto
    qed
    have A: "map_of (mg_locks m') (tx_target x) = Some k'" if x: "x \<in> set (txs[i := z])" "lock_ref (tx_phase x) = Some k'" for x k'
    proof (cases "x = z")
      case True
      then show ?thesis using x z tg by (simp add: m')
    next
      case False
      then have "map_of (mg_locks m) (tx_target x) = Some k'" using set_update_cases[OF x(1)] x(2) mem by blast
      then show ?thesis using None by (auto simp: m')
    qed
    have B: "k' < length (mg_heap m') \<and> sl_refs (mg_heap m' ! k') = int (refs_of k' (txs[i := z])) \<and> 0 < refs_of k' (txs[i := z])"
      if "map_of (mg_locks m') u = Some k'" for u k'
    proof (cases "u = ?t")
      case True
      then have "k' = l" using that by (simp add: m')
      then show ?thesis using fresh unfolding R by (simp add: m' l)
    next
      case False
      then have "map_of (mg_locks m) u = Some k'" using that by (simp add: m')
      from old[OF this] show ?thesis using l unfolding R by (auto simp: m' nth_append)
    qed
    have D: "holders_of k' (txs[i := z]) = (if sl_held (mg_heap m' ! k') then 1 else 0)" if k: "k' < length (mg_heap m')" for k'
    proof (cases "k' = l")
      case True
      then show ?thesis using fresh unfolding H by (simp add: m' l)
    next
      case False
      then have "k' < length (mg_heap m)" using k l by (simp add: m')
      then have "holders_of k' txs = (if sl_held (mg_heap m ! k') then 1 else 0)" using inv unfolding lock_inv_def by blast
      then show ?thesis using \<open>k' < length (mg_heap m)\<close> unfolding H by (simp add: m' nth_append)
    qed
    have W: "wf_map (mg_locks m')" using inv by (simp add: m' lock_inv_def)
    have E: "u = v" if e: "map_of (mg_locks m') u = Some k'" "map_of (mg_locks m') v = Some k'" for u v k'
    proof (cases "k' = l")
      case True
      have "map_of (mg_locks m) w \<noteq> Some l" for w using old[of w l] l by auto
      then show ?thesis using e True by (auto simp: m' split: if_splits)
    next
      case False
      then show ?thesis using e inj by (auto simp: m' split: if_splits)
    qed
    show ?thesis by (rule lock_invI[OF W A B D E])
  qed
qed

lemma lock_step:
  assumes mv: "manager_move (tx_target (txs ! i)) m (tx_phase (txs ! i)) m' (tx_phase z)" and i: "i < length txs"
    and tg: "tx_target z = tx_target (txs ! i)" and inv: "lock_inv m txs"
  shows "lock_inv m' (txs[i := z])"
  using mv
proof cases
  case stay
  have "holders_of l (txs[i := z]) = holders_of l txs" for l using holders_update[OF i, of l z] stay(4) by simp
  then show ?thesis unfolding stay(1) by (intro lock_frame[OF inv i stay(3) tg]) (simp_all add: lock_invD(4)[OF inv])
next
  case admit
  have n: "lock_ref (tx_phase (txs ! i)) = None" using ref_in_flight admit(2) by (cases "lock_ref (tx_phase (txs ! i))") auto
  have "lock_held (tx_phase z) = lock_held (tx_phase (txs ! i))"
    using held_is_ref n admit(4) by (metis not_Some_eq option.distinct(1))
  then have "holders_of l (txs[i := z]) = holders_of l txs" for l using holders_update[OF i, of l z] by simp
  then show ?thesis unfolding admit(1) by (intro lock_frame[OF inv i _ tg]) (simp_all add: lock_invD(4)[OF inv] n admit(4))
next
  case (reference l)
  then show ?thesis using reference_step[OF inv i tg] by simp
next
  case (take_lock l)
  then show ?thesis using held_step[OF inv i tg, of l True] by simp
next
  case (free_lock l out)
  have p: "lock_ref (tx_phase (txs ! i)) = Some l" "lock_held (tx_phase (txs ! i)) = Some l"
    "lock_ref (tx_phase z) = Some l" "lock_held (tx_phase z) = None" using free_lock(1,3) by simp_all
  have "0 < holders_of l txs" unfolding holders_of_def using tally_pos[OF i, of "\<lambda>x. lock_held (tx_phase x) = Some l"] p(2) by simp
  then have "sl_held (mg_heap m ! l)" using own_lock(4)[OF inv i p(1)] by (simp split: if_splits)
  then show ?thesis unfolding free_lock(2) by (intro held_step[OF inv i tg p(1,3)]) (simp_all add: p)
next
  case (unreference l out)
  then show ?thesis using unreference_step[OF inv i tg, of l] by simp
next
  case (release out)
  have "holders_of l (txs[i := z]) = holders_of l txs" for l using holders_update[OF i, of l z] release by simp
  then show ?thesis unfolding release(2) releaseAdmission_def
    by (intro lock_frame[OF inv i _ tg]) (simp_all add: lock_invD(4)[OF inv] release(1,3))
qed

section \<open>Every reachable state\<close>

definition lock_sys_inv :: "rs_system \<Rightarrow> bool" where
  "lock_sys_inv s \<longleftrightarrow> lock_inv (sy_manager s) (sy_txs s) \<and> slots_inv (sy_manager s) (sy_txs s)"

lemma new_lock_inv: "lock_sys_inv (new_system cc mc)"
  using clamp_range[of 64 1024 "cf_MaxTransactions mc"]
  by (simp add: lock_sys_inv_def new_system_def NewManager_def lock_inv_def slots_inv_def flights_def cf_normalized_def)

lemma arrived_counts:
  "refs_of l (txs @ [\<lparr> tx_request = req, tx_phase = Arrived, tx_consumed = None \<rparr>]) = refs_of l txs"
  "holders_of l (txs @ [\<lparr> tx_request = req, tx_phase = Arrived, tx_consumed = None \<rparr>]) = holders_of l txs"
  "flights (txs @ [\<lparr> tx_request = req, tx_phase = Arrived, tx_consumed = None \<rparr>]) = flights txs"
  by (simp_all add: refs_of_def holders_of_def flights_def)

lemma lock_sys_step: "rs_step C s s' \<Longrightarrow> lock_sys_inv s \<Longrightarrow> lock_sys_inv s'"
proof (induction rule: rs_step.induct)
  case (call s req)
  have inv: "lock_inv (sy_manager s) (sy_txs s)" and sl: "slots_inv (sy_manager s) (sy_txs s)" using call by (simp_all add: lock_sys_inv_def)
  have "lock_inv (sy_manager s) (sy_txs s @ [\<lparr> tx_request = req, tx_phase = Arrived, tx_consumed = None \<rparr>])"
    by (rule lock_invI) (use lock_invD[OF inv] in \<open>auto simp only: arrived_counts set_append list.set lock_ref.simps tx.select_convs\<close>)
  then show ?case using sl by (simp add: lock_sys_inv_def slots_inv_def arrived_counts)
next
  case (run i s x)
  let ?z = "(sy_txs s ! i)\<lparr>tx_phase := xs_phase x, tx_consumed := xs_consumed x\<rparr>"
  have mv: "manager_move (tx_target (sy_txs s ! i)) (sy_manager s) (tx_phase (sy_txs s ! i)) (xs_manager x) (tx_phase ?z)"
    using tx_move[OF run(2)] by simp
  show ?case using lock_step[OF mv run(1)] slots_step[OF mv run(1)] run(3) by (simp add: lock_sys_inv_def)
qed (simp_all add: lock_sys_inv_def)

lemma reachable_lock_inv: "rs_reachable C s \<Longrightarrow> lock_sys_inv s"
proof -
  have "(rs_step C)\<^sup>*\<^sup>* (new_system cc mc) s \<Longrightarrow> lock_sys_inv s" for cc mc
    by (induction rule: rtranclp_induct) (auto intro: new_lock_inv lock_sys_step)
  then show "rs_reachable C s \<Longrightarrow> lock_sys_inv s" by (auto simp: rs_reachable_def)
qed

lemma held_lock_of:
  assumes "lock_inv m txs" "x \<in> set txs" "lock_held (tx_phase x) = Some l"
  shows "map_of (mg_locks m) (tx_target x) = Some l" "l < length (mg_heap m)"
  using lock_invD(2)[OF assms(1,2) held_is_ref[OF assms(3)]] lock_invD(3)[OF assms(1)] by auto

lemma holders_at_most_one:
  assumes inv: "lock_inv m txs"
  shows "tally (\<lambda>x. lock_held (tx_phase x) \<noteq> None \<and> tx_target x = t) txs \<le> 1"
proof (rule ccontr)
  assume "\<not> ?thesis"
  then have two: "2 \<le> length (filter (\<lambda>x. lock_held (tx_phase x) \<noteq> None \<and> tx_target x = t) txs)" by (simp add: tally_def)
  then obtain x xs where f: "filter (\<lambda>x. lock_held (tx_phase x) \<noteq> None \<and> tx_target x = t) txs = x # xs"
    by (cases "filter (\<lambda>x. lock_held (tx_phase x) \<noteq> None \<and> tx_target x = t) txs") auto
  then have "x \<in> set (filter (\<lambda>x. lock_held (tx_phase x) \<noteq> None \<and> tx_target x = t) txs)" by simp
  then obtain l where x: "x \<in> set txs" "lock_held (tx_phase x) = Some l" "tx_target x = t" by auto
  note L = held_lock_of[OF inv x(1,2)]
  have "filter (\<lambda>x. lock_held (tx_phase x) \<noteq> None \<and> tx_target x = t) txs = filter (\<lambda>x. (lock_held (tx_phase x) \<noteq> None \<and> tx_target x = t) \<and> lock_held (tx_phase x) = Some l) txs"
  proof (rule filter_cong[OF refl])
    fix y assume y: "y \<in> set txs"
    show "(lock_held (tx_phase y) \<noteq> None \<and> tx_target y = t) = ((lock_held (tx_phase y) \<noteq> None \<and> tx_target y = t) \<and> lock_held (tx_phase y) = Some l)"
      using held_lock_of(1)[OF inv y] L(1) x(3) by auto
  qed
  also have "\<dots> = filter (\<lambda>x. lock_held (tx_phase x) \<noteq> None \<and> tx_target x = t) (filter (\<lambda>x. lock_held (tx_phase x) = Some l) txs)"
    unfolding filter_filter by (rule filter_cong[OF refl]) blast
  finally have "length (filter (\<lambda>x. lock_held (tx_phase x) \<noteq> None \<and> tx_target x = t) txs) =
      length (filter (\<lambda>x. lock_held (tx_phase x) \<noteq> None \<and> tx_target x = t) (filter (\<lambda>x. lock_held (tx_phase x) = Some l) txs))"
    by (rule arg_cong)
  also have "\<dots> \<le> holders_of l txs" unfolding holders_of_def tally_def by (rule length_filter_le)
  finally have "length (filter (\<lambda>x. lock_held (tx_phase x) \<noteq> None \<and> tx_target x = t) txs) \<le> holders_of l txs" .
  moreover have "holders_of l txs \<le> 1" unfolding lock_invD(4)[OF inv L(2)] by simp
  ultimately show False using two by linarith
qed

text \<open>
  C30: starts on one target exclude each other. In every reachable state of any interleaving at most one
  call per target is between taking and giving back the target's lock, which is where it consumes the
  confirmation and calls the backend; and the admitted calls are counted exactly and number at most
  the configured maximum, which is at most 1024.
\<close>

theorem target_transactions_exclusive:
  assumes "rs_reachable C s"
  shows "tally (\<lambda>x. lock_held (tx_phase x) \<noteq> None \<and> tx_target x = t) (sy_txs s) \<le> 1 \<and>
    mg_admission (sy_manager s) = flights (sy_txs s) \<and>
    int (flights (sy_txs s)) \<le> cf_MaxTransactions (mg_config (sy_manager s)) \<and> cf_MaxTransactions (mg_config (sy_manager s)) \<le> 1024"
  using reachable_lock_inv[OF assms] holders_at_most_one unfolding lock_sys_inv_def slots_inv_def by metis

text \<open>
  Nothing is left behind. When every call that has arrived is over, however it ended, all admission
  slots are free and the map of target locks is empty.
\<close>

theorem finished_calls_release_everything:
  assumes "rs_reachable C s" "\<forall>x\<in>set (sy_txs s). \<exists>out. tx_phase x = Returned out"
  shows "mg_admission (sy_manager s) = 0 \<and> mg_locks (sy_manager s) = []"
proof -
  have li: "lock_inv (sy_manager s) (sy_txs s)" "slots_inv (sy_manager s) (sy_txs s)"
    using reachable_lock_inv[OF assms(1)] by (simp_all add: lock_sys_inv_def)
  have none: "lock_ref (tx_phase x) = None \<and> \<not> in_flight (tx_phase x)" if "x \<in> set (sy_txs s)" for x
    using assms(2) that by fastforce
  have "flights (sy_txs s) = 0" using none by (auto simp: flights_def tally_def filter_empty_conv)
  moreover have "map_of (mg_locks (sy_manager s)) t = None" for t
  proof (rule ccontr)
    assume "map_of (mg_locks (sy_manager s)) t \<noteq> None"
    then obtain l where "map_of (mg_locks (sy_manager s)) t = Some l" by blast
    from lock_invD(3)[OF li(1) this] show False using no_holders[of "sy_txs s" l] none by auto
  qed
  ultimately show ?thesis using li(2) by (cases "mg_locks (sy_manager s)") (auto simp: slots_inv_def, metis fun_upd_same option.distinct(1))
qed

section \<open>Progress\<close>

definition tx_at :: "rs_system \<Rightarrow> nat \<Rightarrow> tx_state" where
  "tx_at s i = \<lparr> xs_confirmer = sy_confirmer s, xs_manager = sy_manager s, xs_phase = tx_phase (sy_txs s ! i), xs_consumed = tx_consumed (sy_txs s ! i) \<rparr>"

text \<open>A step that is not giving up on a lock.\<close>

definition can_move :: "crypto \<Rightarrow> rs_system \<Rightarrow> nat \<Rightarrow> bool" where
  "can_move C s i \<longleftrightarrow> i < length (sy_txs s) \<and> (\<exists>y. tx_step C (tx_request (sy_txs s ! i)) (tx_at s i) y \<and>
     (\<forall>l out. xs_phase y \<noteq> Unreferencing l out \<or> (\<exists>out. tx_phase (sy_txs s ! i) = Releasing l out)))"

lemma step_exists:
  assumes i: "i < length (sy_txs s)" and r: "\<And>out. tx_phase (sy_txs s ! i) \<noteq> Returned out"
    and w: "\<And>l. tx_phase (sy_txs s ! i) = Waiting l \<Longrightarrow> \<not> sl_held (mg_heap (sy_manager s) ! l)"
  shows "can_move C s i"
proof -
  let ?x = "tx_at s i" and ?req = "tx_request (sy_txs s ! i)"
  have move: "can_move C s i" if "tx_step C ?req ?x y" "\<And>l out. xs_phase y \<noteq> Unreferencing l out \<or> (\<exists>out. tx_phase (sy_txs s ! i) = Releasing l out)" for y
    using that i unfolding can_move_def by blast
  show ?thesis
  proof (cases "tx_phase (sy_txs s ! i)")
    case Arrived
    then have p: "xs_phase ?x = Arrived" by (simp add: tx_at_def)
    obtain e m where a: "acquireAdmission None (xs_manager ?x) = (e, m)" by fastforce
    consider "rq_Operation ?req \<noteq> OperationEnsureRunning" | e' where "rq_Operation ?req = OperationEnsureRunning" "validateTarget (rq_Target ?req) = Some e'"
      | "rq_Operation ?req = OperationEnsureRunning" "validateTarget (rq_Target ?req) = None" by blast
    then show ?thesis
    proof cases
      case 1
      show ?thesis by (rule move[OF tx_step.bad_operation[OF p 1]]) simp
    next
      case 2
      show ?thesis by (rule move[OF tx_step.bad_target[OF p 2]]) simp
    next
      case 3
      show ?thesis
      proof (cases e)
        case None
        show ?thesis by (rule move[OF tx_step.admitted[OF p 3 a[unfolded None]]]) simp
      next
        case (Some e')
        show ?thesis by (rule move[OF tx_step.refused[OF p 3 a[unfolded Some]]]) simp
      qed
    qed
  next
    case Admitted
    then have p: "xs_phase ?x = Admitted" by (simp add: tx_at_def)
    obtain e c where v: "cn_validate C (rq_Target ?req) (rq_Confirmation ?req) 0 (xs_confirmer ?x) = (e, c)" by fastforce
    show ?thesis
    proof (cases e)
      case None
      show ?thesis by (rule move[OF tx_step.validated[OF p v[unfolded None]]]) simp
    next
      case (Some e')
      show ?thesis by (rule move[OF tx_step.invalid[OF p v[unfolded Some]]]) simp
    qed
  next
    case Validated
    then have p: "xs_phase ?x = Validated" by (simp add: tx_at_def)
    obtain l m where v: "referenceLock (rq_Target ?req) (xs_manager ?x) = (l, m)" by fastforce
    show ?thesis by (rule move[OF tx_step.referenced[OF p v]]) simp
  next
    case (Waiting l)
    then have p: "xs_phase ?x = Waiting l" by (simp add: tx_at_def)
    have v: "waitForLock None l (xs_manager ?x) = Some (None, set_held True l (xs_manager ?x))"
      using w[OF Waiting] by (simp add: waitForLock_def tx_at_def)
    show ?thesis by (rule move[OF tx_step.locked[OF p v]]) simp
  next
    case (Holding l)
    then have p: "xs_phase ?x = Holding l" by (simp add: tx_at_def)
    obtain e c where v: "cn_validate C (rq_Target ?req) (rq_Confirmation ?req) 0 (xs_confirmer ?x) = (e, c)" by fastforce
    show ?thesis
    proof (cases e)
      case None
      show ?thesis by (rule move[OF tx_step.rechecked[OF p v[unfolded None]]]) simp
    next
      case (Some e')
      show ?thesis by (rule move[OF tx_step.stale[OF p v[unfolded Some]]]) simp
    qed
  next
    case (Rechecked l)
    then have p: "xs_phase ?x = Rechecked l" by (simp add: tx_at_def)
    obtain e c where v: "consumeLocked C (rq_Target ?req) (rq_Confirmation ?req) 0 (xs_confirmer ?x) = (e, c)" by fastforce
    show ?thesis
    proof (cases e)
      case None
      show ?thesis by (rule move[OF tx_step.consumed[OF p v[unfolded None]]]) simp
    next
      case (Some e')
      show ?thesis by (rule move[OF tx_step.replayed[OF p v[unfolded Some]]]) simp
    qed
  next
    case (Consumed l)
    then have p: "xs_phase ?x = Consumed l" by (simp add: tx_at_def)
    show ?thesis by (rule move[OF tx_step.transacted[OF p, of _ _ undefined]]) simp
  next
    case (Releasing l out)
    then have p: "xs_phase ?x = Releasing l out" by (simp add: tx_at_def)
    show ?thesis by (rule move[OF tx_step.released[OF p]]) (use Releasing in auto)
  next
    case (Unreferencing l out)
    then have p: "xs_phase ?x = Unreferencing l out" by (simp add: tx_at_def)
    show ?thesis by (rule move[OF tx_step.unreferenced[OF p]]) simp
  next
    case (Leaving out)
    then have p: "xs_phase ?x = Leaving out" by (simp add: tx_at_def)
    show ?thesis by (rule move[OF tx_step.left[OF p]]) simp
  next
    case (Returned out)
    then show ?thesis using r by blast
  qed
qed

text \<open>
  C32: the locks never deadlock. In every reachable state with an unfinished call some unfinished call
  can take a step, without any context ending: if all of them wait for locks, the lock one waits for
  is free or its holder can move.
\<close>

theorem starts_never_deadlock:
  assumes "rs_reachable C s" "i < length (sy_txs s)" "\<And>out. tx_phase (sy_txs s ! i) \<noteq> Returned out"
  shows "\<exists>j. can_move C s j \<and> (\<forall>out. tx_phase (sy_txs s ! j) \<noteq> Returned out)"
proof (cases "\<exists>l. tx_phase (sy_txs s ! i) = Waiting l \<and> sl_held (mg_heap (sy_manager s) ! l)")
  case False
  then show ?thesis using step_exists[OF assms(2,3)] assms(3) by blast
next
  case True
  then obtain l where l: "tx_phase (sy_txs s ! i) = Waiting l" "sl_held (mg_heap (sy_manager s) ! l)" by blast
  have inv: "lock_inv (sy_manager s) (sy_txs s)" using reachable_lock_inv[OF assms(1)] by (simp add: lock_sys_inv_def)
  have "l < length (mg_heap (sy_manager s))" using own_lock(2)[OF inv assms(2)] l(1) by simp
  from lock_invD(4)[OF inv this] l(2) have "holders_of l (sy_txs s) = 1" by simp
  then have "filter (\<lambda>x. lock_held (tx_phase x) = Some l) (sy_txs s) \<noteq> []" by (auto simp: holders_of_def tally_def)
  then obtain x where "x \<in> set (sy_txs s)" "lock_held (tx_phase x) = Some l" by (auto simp: filter_empty_conv)
  then obtain j where j: "j < length (sy_txs s)" "lock_held (tx_phase (sy_txs s ! j)) = Some l" by (auto simp: in_set_conv_nth)
  then have "can_move C s j" by (intro step_exists) auto
  then show ?thesis using j by force
qed

section \<open>A run in small\<close>

text \<open>The successful step of a call in each phase, and a run of the system without refusals.\<close>

definition next_tx :: "crypto \<Rightarrow> answers \<Rightarrow> time \<Rightarrow> Request \<Rightarrow> tx_state \<Rightarrow> tx_state option" where
  "next_tx C ans now req x =
     (case xs_phase x of
        Arrived \<Rightarrow>
          if rq_Operation req = OperationEnsureRunning \<and> validateTarget (rq_Target req) = None
          then (case acquireAdmission None (xs_manager x) of (None, m) \<Rightarrow> Some (x\<lparr>xs_manager := m, xs_phase := Admitted\<rparr>) | _ \<Rightarrow> None)
          else None
      | Admitted \<Rightarrow> (case cn_validate C (rq_Target req) (rq_Confirmation req) now (xs_confirmer x) of
          (None, c) \<Rightarrow> Some (x\<lparr>xs_confirmer := c, xs_phase := Validated\<rparr>) | _ \<Rightarrow> None)
      | Validated \<Rightarrow> (case referenceLock (rq_Target req) (xs_manager x) of (l, m) \<Rightarrow> Some (x\<lparr>xs_manager := m, xs_phase := Waiting l\<rparr>))
      | Waiting l \<Rightarrow> (case waitForLock None l (xs_manager x) of
          Some (None, m) \<Rightarrow> Some (x\<lparr>xs_manager := m, xs_phase := Holding l\<rparr>) | _ \<Rightarrow> None)
      | Holding l \<Rightarrow> (case cn_validate C (rq_Target req) (rq_Confirmation req) now (xs_confirmer x) of
          (None, c) \<Rightarrow> Some (x\<lparr>xs_confirmer := c, xs_phase := Rechecked l\<rparr>) | _ \<Rightarrow> None)
      | Rechecked l \<Rightarrow> (case consumeLocked C (rq_Target req) (rq_Confirmation req) now (xs_confirmer x) of
          (None, c) \<Rightarrow> Some (x\<lparr>xs_confirmer := c, xs_phase := Consumed l, xs_consumed := Some now\<rparr>) | _ \<Rightarrow> None)
      | Consumed l \<Rightarrow> Some (x\<lparr>xs_phase := Releasing l (transact ans (rq_Target req))\<rparr>)
      | Releasing l out \<Rightarrow> Some (x\<lparr>xs_manager := set_held False l (xs_manager x), xs_phase := Unreferencing l out\<rparr>)
      | Unreferencing l out \<Rightarrow> Some (x\<lparr>xs_manager := unreferenceLock (rq_Target req) l (xs_manager x), xs_phase := Leaving out\<rparr>)
      | Leaving out \<Rightarrow> Some (x\<lparr>xs_manager := releaseAdmission (xs_manager x), xs_phase := Returned out\<rparr>)
      | Returned out \<Rightarrow> None)"

lemma next_tx_step: "next_tx C ans now req x = Some y \<Longrightarrow> tx_step C req x y"
  by (cases "xs_phase x") (auto simp: next_tx_def split: if_splits option.splits prod.splits intro: tx_step.intros)

definition next_system :: "crypto \<Rightarrow> answers \<Rightarrow> nat \<Rightarrow> rs_system \<Rightarrow> rs_system option" where
  "next_system C ans i s =
     (if i < length (sy_txs s)
      then map_option (\<lambda>x. s\<lparr>sy_confirmer := xs_confirmer x, sy_manager := xs_manager x,
        sy_txs := (sy_txs s)[i := (sy_txs s ! i)\<lparr>tx_phase := xs_phase x, tx_consumed := xs_consumed x\<rparr>]\<rparr>)
        (next_tx C ans 0 (tx_request (sy_txs s ! i)) (tx_at s i))
      else None)"

lemma next_system_step: "next_system C ans i s = Some s' \<Longrightarrow> rs_step C s s'"
  by (auto simp: next_system_def tx_at_def split: if_splits intro: rs_step.run dest!: next_tx_step)

fun run_call :: "crypto \<Rightarrow> answers \<Rightarrow> nat \<Rightarrow> nat \<Rightarrow> rs_system \<Rightarrow> rs_system option" where
  "run_call C ans i 0 s = Some s"
| "run_call C ans i (Suc n) s = (case next_system C ans i s of None \<Rightarrow> None | Some s \<Rightarrow> run_call C ans i n s)"

lemma reachable_step: "rs_reachable C s \<Longrightarrow> rs_step C s s' \<Longrightarrow> rs_reachable C s'"
  unfolding rs_reachable_def by (meson rtranclp.rtrancl_into_rtrancl)

lemma run_call_reachable: "run_call C ans i n s = Some s' \<Longrightarrow> rs_reachable C s \<Longrightarrow> rs_reachable C s'"
proof (induction n arbitrary: s)
  case (Suc n)
  then obtain s1 where n: "next_system C ans i s = Some s1" and r: "run_call C ans i n s1 = Some s'"
    by (auto split: option.splits)
  show ?case by (rule Suc.IH[OF r reachable_step[OF Suc.prems(2) next_system_step[OF n]]])
qed simp

text \<open>A user approves a start, and one request uses the approval.\<close>

definition sample_config :: Config where
  "sample_config = \<lparr> cf_ConfirmationTTL = 0, cf_ConfirmationTimeout = 0, cf_CaptureTimeout = 0, cf_StartTimeout = 0,
     cf_VerifyTimeout = 0, cf_RollbackTimeout = 0, cf_MaxConfirmations = 0, cf_MaxTransactions = 0 \<rparr>"

definition sample_token :: bytes where "sample_token = 9 # zeros 31"

definition sample_start :: Request where
  "sample_start = \<lparr> rq_Target = sample_box, rq_Operation = OperationEnsureRunning, rq_Confirmation = sample_token \<rparr>"

definition sample_prompted :: rs_system where
  "sample_prompted = (new_system sample_config sample_config)
     \<lparr>sy_confirmer := snd (begin_confirm sample_box 0 (newConfirmer sample_config)), sy_prompts := [(sample_box, Prompting)]\<rparr>"

definition sample_minted :: rs_system where
  "sample_minted = sample_prompted
     \<lparr>sy_confirmer := the (mint sample_crypto sample_box sample_token 0 (sy_confirmer sample_prompted)),
      sy_prompts := [(sample_box, Minted (sha256 sample_crypto sample_token) (0 + cf_ConfirmationTTL (co_config (sy_confirmer sample_prompted))))]\<rparr>"

definition sample_called :: rs_system where
  "sample_called = sample_minted\<lparr>sy_txs := [\<lparr> tx_request = sample_start, tx_phase = Arrived, tx_consumed = None \<rparr>]\<rparr>"

lemma sample_confirmed:
  "fst (begin_confirm sample_box 0 (newConfirmer sample_config)) = None"
  "mint sample_crypto sample_box sample_token 0 (sy_confirmer sample_prompted) \<noteq> None"
  by code_simp+

lemma sample_called_reachable: "rs_reachable sample_crypto sample_called"
proof -
  let ?c = "sy_confirmer sample_prompted"
  have "rs_reachable sample_crypto (new_system sample_config sample_config)" unfolding rs_reachable_def by blast
  moreover have "rs_step sample_crypto (new_system sample_config sample_config) sample_prompted"
  proof -
    have "begin_confirm sample_box 0 (sy_confirmer (new_system sample_config sample_config)) = (None, snd (begin_confirm sample_box 0 (newConfirmer sample_config)))"
      using sample_confirmed(1) by (metis new_system_def prod.collapse rs_system.select_convs(1))
    from rs_step.prompt[OF this, of sample_crypto] show ?thesis by (simp add: sample_prompted_def new_system_def)
  qed
  moreover have "rs_step sample_crypto sample_prompted (sample_prompted\<lparr>sy_prompts := [(sample_box, Minting 0)]\<rparr>)"
    using rs_step.answer[OF _ _ confirm_step.approved, of 0 sample_prompted sample_box sample_crypto]
    by (simp add: sample_prompted_def new_system_def)
  moreover have "rs_step sample_crypto (sample_prompted\<lparr>sy_prompts := [(sample_box, Minting 0)]\<rparr>) sample_minted"
  proof -
    obtain c where c: "mint sample_crypto sample_box sample_token 0 ?c = Some c" using sample_confirmed(2) by blast
    show ?thesis using rs_step.answer[where s = "sample_prompted\<lparr>sy_prompts := [(sample_box, Minting 0)]\<rparr>" and j = 0, OF _ _ confirm_step.minted, of sample_box 0 sample_crypto sample_token 0 c] c
      by (simp add: sample_minted_def)
  qed
  moreover have "rs_step sample_crypto sample_minted sample_called"
    using rs_step.call[of sample_crypto sample_minted sample_start]
    by (simp add: sample_called_def sample_minted_def sample_prompted_def new_system_def)
  ultimately show ?thesis using reachable_step by blast
qed

definition sample_over :: "rs_system option" where
  "sample_over = run_call sample_crypto sample_answers 0 10 sample_called"

lemma sample_over_facts:
  "case sample_over of None \<Rightarrow> False | Some s \<Rightarrow>
     (case sy_txs s of [x] \<Rightarrow> (case tx_phase x of Returned out \<Rightarrow> tx_consumed x = Some 0 \<and> snd (snd out) \<noteq> [] | _ \<Rightarrow> False) | _ \<Rightarrow> False)"
  by code_simp

lemma sample_over_state:
  obtains s x out where "rs_reachable sample_crypto s" "sy_txs s = [x]" "tx_phase x = Returned out" "tx_consumed x = Some 0" "snd (snd out) \<noteq> []"
proof -
  obtain s where s: "run_call sample_crypto sample_answers 0 10 sample_called = Some s"
    using sample_over_facts unfolding sample_over_def by (auto split: option.splits)
  obtain x out where "sy_txs s = [x]" "tx_phase x = Returned out" "tx_consumed x = Some 0" "snd (snd out) \<noteq> []"
    using sample_over_facts unfolding sample_over_def s by (auto split: list.splits tx_phase.splits)
  then show thesis using that run_call_reachable[OF s sample_called_reachable] by blast
qed

lemma target_transactions_exclusive_witness:
  "\<exists>s. rs_reachable sample_crypto s \<and> sy_txs s \<noteq> [] \<and>
     tally (\<lambda>x. lock_held (tx_phase x) \<noteq> None \<and> tx_target x = sample_box) (sy_txs s) \<le> 1"
proof (rule sample_over_state)
  fix s x out assume s: "rs_reachable sample_crypto s" "sy_txs s = [x]"
  show ?thesis using target_transactions_exclusive[OF s(1), of sample_box] s by (intro exI[of _ s]) simp
qed

lemma finished_calls_release_everything_witness:
  "\<exists>s. rs_reachable sample_crypto s \<and> sy_txs s \<noteq> [] \<and> mg_admission (sy_manager s) = 0 \<and> mg_locks (sy_manager s) = []"
proof (rule sample_over_state)
  fix s x out assume s: "rs_reachable sample_crypto s" "sy_txs s = [x]" "tx_phase x = Returned out"
  have "\<forall>x\<in>set (sy_txs s). \<exists>out. tx_phase x = Returned out" using s(2,3) by (intro ballI exI[of _ out]) simp
  from finished_calls_release_everything[OF s(1) this] show ?thesis using s by (intro exI[of _ s]) simp
qed

lemma starts_never_deadlock_witness:
  "\<exists>j. can_move sample_crypto sample_called j \<and> (\<forall>out. tx_phase (sy_txs sample_called ! j) \<noteq> Returned out)"
  by (rule starts_never_deadlock[OF sample_called_reachable, of 0]) (simp_all add: sample_called_def)

lemma confirmation_single_use_witness:
  "\<exists>s x. rs_reachable sample_crypto s \<and> sy_txs s = [x] \<and> tx_consumed x = Some 0 \<and> consumed_in_time sample_crypto (sy_prompts s) x"
proof (rule sample_over_state)
  fix s x out assume s: "rs_reachable sample_crypto s" "sy_txs s = [x]" "tx_consumed x = Some 0"
  show ?thesis using confirmation_single_use[OF s(1)] s by auto
qed

lemma confirmations_bounded_witness:
  "rs_reachable sample_crypto sample_called \<and> int (length (co_records (sy_confirmer sample_called))) \<le> 4096"
  using confirmations_bounded[OF sample_called_reachable] sample_called_reachable by simp

end
