(* ===== verification/Netip.thy ===== *)
theory Netip
  imports GoStrings
begin

text \<open>
  Go's \<open>net/netip\<close>, as far as the modelled files use it: addresses, prefixes, address-port pairs,
  their textual forms (RFC 5952 for IPv6) and \<open>ParseAddr\<close>, \<open>ParsePrefix\<close>, \<open>Contains\<close>,
  \<open>Masked\<close>, \<open>Compare\<close>. \<open>NoAddr\<close> is the zero \<open>Addr\<close>; \<open>V6\<close> carries the zone.
\<close>

section \<open>Addresses\<close>

datatype addr = NoAddr | V4 u32 | V6 "128 word" string

fun is4 :: "addr \<Rightarrow> bool" where
  "is4 (V4 _) = True" | "is4 _ = False"

fun is6 :: "addr \<Rightarrow> bool" where
  "is6 (V6 _ _) = True" | "is6 _ = False"

fun addr_valid :: "addr \<Rightarrow> bool" where
  "addr_valid NoAddr = False" | "addr_valid _ = True"

fun bit_len :: "addr \<Rightarrow> nat" where
  "bit_len NoAddr = 0" | "bit_len (V4 _) = 32" | "bit_len (V6 _ _) = 128"

fun zone :: "addr \<Rightarrow> string" where
  "zone (V6 _ z) = z" | "zone _ = []"

definition is4in6 :: "128 word \<Rightarrow> bool" where
  "is4in6 w \<longleftrightarrow> drop_bit 32 w = 65535"

definition is_unspecified :: "addr \<Rightarrow> bool" where
  "is_unspecified a \<longleftrightarrow> a = V4 0 \<or> a = V6 0 []"

fun is_multicast :: "addr \<Rightarrow> bool" where
  "is_multicast NoAddr = False"
| "is_multicast (V4 w) = (drop_bit 28 w = 14)"
| "is_multicast (V6 w z) =
     (if is4in6 w then drop_bit 28 (ucast w :: u32) = 14 else drop_bit 120 w = 255)"

text \<open>\<open>Addr.Compare\<close>: bit length, then value, then zone.\<close>

fun addr_less :: "addr \<Rightarrow> addr \<Rightarrow> bool" where
  "addr_less (V4 a) (V4 b) = (a < b)"
| "addr_less (V6 a z) (V6 b y) = (a < b \<or> a = b \<and> z < y)"
| "addr_less a b = (bit_len a < bit_len b)"

lemma addr_less_irrefl [simp]: "\<not> addr_less a a"
  by (cases a) auto

lemma addr_less_trans: "addr_less a b \<Longrightarrow> addr_less b c \<Longrightarrow> addr_less a c"
  by (cases a; cases b; cases c) auto

lemma addr_less_linear: "a \<noteq> b \<Longrightarrow> addr_less a b \<or> addr_less b a"
  by (cases a; cases b) auto

section \<open>Prefixes\<close>

text \<open>An invalid \<open>Prefix\<close> has \<open>Bits() = -1\<close>.\<close>

datatype prefix = Pfx (pfx_addr: addr) (pfx_bits: int)

definition pfx_valid :: "prefix \<Rightarrow> bool" where
  "pfx_valid p \<longleftrightarrow> 0 \<le> pfx_bits p \<and> pfx_bits p \<le> int (bit_len (pfx_addr p)) \<and> addr_valid (pfx_addr p)"

fun pfx_masked :: "prefix \<Rightarrow> prefix" where
  "pfx_masked (Pfx (V4 w) n) = Pfx (V4 (push_bit (nat (32 - n)) (drop_bit (nat (32 - n)) w))) n"
| "pfx_masked (Pfx (V6 w z) n) = Pfx (V6 (push_bit (nat (128 - n)) (drop_bit (nat (128 - n)) w)) []) n"
| "pfx_masked p = p"

fun pfx_contains :: "prefix \<Rightarrow> addr \<Rightarrow> bool" where
  "pfx_contains (Pfx (V4 w) n) (V4 a) =
     (pfx_valid (Pfx (V4 w) n) \<and> drop_bit (nat (32 - n)) a = drop_bit (nat (32 - n)) w)"
| "pfx_contains (Pfx (V6 w z) n) (V6 a y) =
     (pfx_valid (Pfx (V6 w z) n) \<and> y = [] \<and> drop_bit (nat (128 - n)) a = drop_bit (nat (128 - n)) w)"
| "pfx_contains _ _ = False"

lemma pfx_contains_bit_len: "pfx_contains p a \<Longrightarrow> bit_len a = bit_len (pfx_addr p)"
  by (cases "(p, a)" rule: pfx_contains.cases) auto

lemma pfx_contains_valid: "pfx_contains p a \<Longrightarrow> pfx_valid p"
  by (cases "(p, a)" rule: pfx_contains.cases) auto

lemma pfx_contains_no_zone: "pfx_contains p a \<Longrightarrow> zone a = []"
  by (cases "(p, a)" rule: pfx_contains.cases) auto

section \<open>Address-port pairs\<close>

type_synonym addr_port = "addr \<times> u16"

definition no_addr_port :: addr_port where "no_addr_port = (NoAddr, 0)"

section \<open>Textual forms\<close>

fun hex_nat :: "nat \<Rightarrow> string" where
  "hex_nat n = (if n < 16 then [hex_char n] else hex_nat (n div 16) @ [hex_char (n mod 16)])"

declare hex_nat.simps [simp del]

definition v4_string :: "u32 \<Rightarrow> string" where
  "v4_string w =
     (let n = unat w in
      itoa (n div 16777216) @ ''.'' @ itoa (n div 65536 mod 256) @ ''.'' @
      itoa (n div 256 mod 256) @ ''.'' @ itoa (n mod 256))"

definition v6_groups :: "128 word \<Rightarrow> nat list" where
  "v6_groups w = map (\<lambda>i. unat w div 65536 ^ (7 - i) mod 65536) [0..<8]"

fun zero_run :: "nat list \<Rightarrow> nat" where
  "zero_run (0 # gs) = Suc (zero_run gs)"
| "zero_run _ = 0"

text \<open>The first longest run of at least two zero groups, as start and end.\<close>

definition longest_zero :: "nat list \<Rightarrow> (nat \<times> nat) option" where
  "longest_zero gs =
     foldl (\<lambda>best i. let l = zero_run (drop i gs);
                        cur = (case best of None \<Rightarrow> 0 | Some (s, e) \<Rightarrow> e - s)
                    in if 2 \<le> l \<and> cur < l then Some (i, i + l) else best) None [0..<length gs]"

fun join_colon :: "string list \<Rightarrow> string" where
  "join_colon [] = []"
| "join_colon [g] = g"
| "join_colon (g # gs) = g @ '':'' @ join_colon gs"

definition v6_plain :: "128 word \<Rightarrow> string" where
  "v6_plain w =
     (if is4in6 w then ''::ffff:'' @ v4_string (ucast w)
      else let gs = v6_groups w in
        case longest_zero gs of
          None \<Rightarrow> join_colon (map hex_nat gs)
        | Some (s, e) \<Rightarrow> join_colon (map hex_nat (take s gs)) @ ''::'' @ join_colon (map hex_nat (drop e gs)))"

fun addr_string :: "addr \<Rightarrow> string" where
  "addr_string NoAddr = ''invalid IP''"
| "addr_string (V4 w) = v4_string w"
| "addr_string (V6 w z) = v6_plain w @ (if z = [] then [] else ''%'' @ z)"

definition prefix_string :: "prefix \<Rightarrow> string" where
  "prefix_string p =
     (if pfx_valid p then addr_string (pfx_addr p) @ ''/'' @ itoa (nat (pfx_bits p)) else ''invalid Prefix'')"

fun addr_port_string :: "addr_port \<Rightarrow> string" where
  "addr_port_string (NoAddr, p) = ''invalid AddrPort''"
| "addr_port_string (V4 w, p) = v4_string w @ '':'' @ itoa (unat p)"
| "addr_port_string (V6 w z, p) = ''['' @ addr_string (V6 w z) @ '']:'' @ itoa (unat p)"

section \<open>Parsing\<close>

text \<open>
  \<open>parseIPv4Fields\<close>: state is the value and digit count of the current octet, the octets read,
  and whether the previous character was a dot (or the start).
\<close>

fun parse_v4_fields :: "nat \<Rightarrow> nat \<Rightarrow> nat list \<Rightarrow> string \<Rightarrow> nat list option" where
  "parse_v4_fields val dl fs [] = (if length fs < 3 then None else Some (fs @ [val]))"
| "parse_v4_fields val dl fs (c # cs) =
     (if is_digit c then
        (if dl = 1 \<and> val = 0 then None
         else let v = val * 10 + (code c - 48) in
           if v > 255 then None else parse_v4_fields v (Suc dl) fs cs)
      else if c = CHR ''.'' then
        (if dl = 0 \<or> cs = [] then None
         else if length fs = 3 then None
         else parse_v4_fields 0 0 (fs @ [val]) cs)
      else None)"

definition octets_word :: "nat list \<Rightarrow> 'a::len word" where
  "octets_word fs = foldl (\<lambda>a b. a * 256 + word_of_nat b) 0 fs"

definition parse_v4 :: "string \<Rightarrow> addr option" where
  "parse_v4 s = map_option (\<lambda>fs. V4 (octets_word fs)) (parse_v4_fields 0 0 [] s)"

text \<open>The hex digits of one IPv6 group: value, digit count and the rest.\<close>

fun hex_group :: "nat \<Rightarrow> nat \<Rightarrow> string \<Rightarrow> (nat \<times> nat \<times> string) option" where
  "hex_group acc off [] = Some (acc, off, [])"
| "hex_group acc off (c # cs) =
     (case hex_val c of
        None \<Rightarrow> Some (acc, off, c # cs)
      | Some d \<Rightarrow> if off > 3 then None else hex_group (acc * 16 + d) (Suc off) cs)"

text \<open>
  The main loop of \<open>parseIPv6\<close>: the octets read so far, the position of the ellipsis, the rest of
  the input; fuel 8 is the number of groups an address can have (\<open>i < 16\<close> in steps of 2).
\<close>

fun v6_loop :: "nat \<Rightarrow> nat list \<Rightarrow> nat option \<Rightarrow> string \<Rightarrow> (nat list \<times> nat option \<times> string) option" where
  "v6_loop 0 ip el s = Some (ip, el, s)"
| "v6_loop (Suc n) ip el s =
     (case hex_group 0 0 s of
        None \<Rightarrow> None
      | Some (acc, off, rest) \<Rightarrow>
          if off = 0 then None
          else if rest \<noteq> [] \<and> hd rest = CHR ''.'' then
            (if el = None \<and> length ip \<noteq> 12 then None
             else if length ip + 4 > 16 then None
             else (case parse_v4_fields 0 0 [] s of
                     None \<Rightarrow> None
                   | Some fs \<Rightarrow> Some (ip @ fs, el, [])))
          else let ip = ip @ [acc div 256, acc mod 256] in
            (case rest of
               [] \<Rightarrow> Some (ip, el, [])
             | c # cs \<Rightarrow>
                 if c \<noteq> CHR '':'' then None
                 else (case cs of
                    [] \<Rightarrow> None
                  | d # ds \<Rightarrow>
                      if d = CHR '':'' then
                        (if el \<noteq> None then None
                         else if ds = [] then Some (ip, Some (length ip), [])
                         else v6_loop n ip (Some (length ip)) ds)
                      else v6_loop n ip el (d # ds))))"

text \<open>The end of \<open>parseIPv6\<close>: the ellipsis expands to at least one zero field.\<close>

definition v6_finish :: "nat list \<Rightarrow> nat option \<Rightarrow> string \<Rightarrow> addr option" where
  "v6_finish ip el z =
     (if length ip < 16 then
        (case el of
           None \<Rightarrow> None
         | Some e \<Rightarrow> Some (V6 (octets_word (take e ip @ replicate (16 - length ip) 0 @ drop e ip)) z))
      else if el \<noteq> None then None
      else Some (V6 (octets_word ip) z))"

fun v6_result :: "string \<Rightarrow> (nat list \<times> nat option \<times> string) option \<Rightarrow> addr option" where
  "v6_result z None = None"
| "v6_result z (Some (ip, el, rest)) = (if rest \<noteq> [] then None else v6_finish ip el z)"

definition parse_v6 :: "string \<Rightarrow> addr option" where
  "parse_v6 s0 =
     (let s = takeWhile (\<lambda>c. c \<noteq> CHR ''%'') s0;
          hasz = list_ex (\<lambda>c. c = CHR ''%'') s0;
          z = (if hasz then drop (Suc (length s)) s0 else []) in
      if hasz \<and> z = [] then None
      else if has_prefix s ''::'' then
        (if length s = 2 then Some (V6 0 z) else v6_result z (v6_loop 8 [] (Some 0) (drop 2 s)))
      else v6_result z (v6_loop 8 [] None s))"

text \<open>\<open>netip.ParseAddr\<close>: the first of \<open>.\<close>, \<open>:\<close>, \<open>%\<close> decides.\<close>

definition parse_addr :: "string \<Rightarrow> addr option" where
  "parse_addr s =
     (case dropWhile (\<lambda>c. c \<notin> set ''.:%'') s of
        [] \<Rightarrow> None
      | c # _ \<Rightarrow> if c = CHR ''.'' then parse_v4 s
                 else if c = CHR '':'' then parse_v6 s
                 else None)"

fun atoi_digits :: "nat \<Rightarrow> string \<Rightarrow> nat option" where
  "atoi_digits n [] = Some n"
| "atoi_digits n (c # cs) = (if is_digit c then atoi_digits (n * 10 + (code c - 48)) cs else None)"

definition parse_prefix :: "string \<Rightarrow> prefix option" where
  "parse_prefix s =
     (case last_index_of (CHR ''/'') s of
        None \<Rightarrow> None
      | Some i \<Rightarrow>
          (case parse_addr (take i s) of
             None \<Rightarrow> None
           | Some a \<Rightarrow>
               if zone a \<noteq> [] then None
               else let b = drop (Suc i) s in
                 if b = [] then None
                 else if length b > 1 \<and> \<not> (49 \<le> code (hd b) \<and> code (hd b) \<le> 57) then None
                 else (case atoi_digits 0 b of
                         None \<Rightarrow> None
                       | Some n \<Rightarrow> if n > bit_len a then None else Some (Pfx a (int n)))))"

text \<open>\<open>Unmap\<close> turns an IPv4-mapped address into its IPv4 address.\<close>

fun unmap :: "addr \<Rightarrow> addr" where
  "unmap (V6 w z) = (if is4in6 w then V4 (ucast w) else V6 w z)"
| "unmap a = a"

lemma parse_v4_valid: "parse_v4 s = Some a \<Longrightarrow> addr_valid a"
  by (auto simp: parse_v4_def)

lemma v6_finish_valid: "v6_finish ip el z = Some a \<Longrightarrow> addr_valid a"
  by (auto simp: v6_finish_def split: if_splits option.splits)

lemma v6_result_valid: "v6_result z r = Some a \<Longrightarrow> addr_valid a"
  by (cases "(z, r)" rule: v6_result.cases) (auto simp: v6_finish_valid split: if_splits)

lemma parse_v6_valid: "parse_v6 s = Some a \<Longrightarrow> addr_valid a"
  unfolding parse_v6_def Let_def
  by (drule sym) (simp split: if_splits; metis addr_valid.simps(3) v6_result_valid)

lemma parse_addr_valid: "parse_addr s = Some a \<Longrightarrow> addr_valid a"
  unfolding parse_addr_def
  by (simp split: list.split_asm if_split_asm add: parse_v4_valid parse_v6_valid)

lemma parse_prefix_valid: "parse_prefix s = Some p \<Longrightarrow> pfx_valid p \<and> zone (pfx_addr p) = []"
  by (auto simp: parse_prefix_def pfx_valid_def Let_def parse_addr_valid split: option.splits if_splits)

end
