(* ===== verification/Go_Sort.thy ===== *)
theory Go_Sort
  imports Main "HOL-Library.Multiset"
begin

text \<open>
  \<open>sort.Slice\<close> with a less function. Go's algorithm is not stable. Where the elements have distinct
  keys every sorting algorithm gives the same result, and \<open>sort_slice\<close> stands for it; where ties
  matter the sorting function is a parameter that satisfies \<open>sorts\<close>.
\<close>

fun insert_by :: "('a \<Rightarrow> 'a \<Rightarrow> bool) \<Rightarrow> 'a \<Rightarrow> 'a list \<Rightarrow> 'a list" where
  "insert_by lt x [] = [x]"
| "insert_by lt x (y # ys) = (if lt y x then y # insert_by lt x ys else x # y # ys)"

definition sort_slice :: "('a \<Rightarrow> 'a \<Rightarrow> bool) \<Rightarrow> 'a list \<Rightarrow> 'a list" where
  "sort_slice lt xs = foldr (insert_by lt) xs []"

lemma set_insert_by [simp]: "set (insert_by lt x xs) = insert x (set xs)"
  by (induction xs) auto

lemma set_sort_slice [simp]: "set (sort_slice lt xs) = set xs"
  by (induction xs) (auto simp: sort_slice_def)

lemma distinct_insert_by: "distinct (insert_by lt x xs) \<longleftrightarrow> x \<notin> set xs \<and> distinct xs"
  by (induction xs) auto

lemma distinct_sort_slice [simp]: "distinct (sort_slice lt xs) = distinct xs"
  by (induction xs) (auto simp: sort_slice_def distinct_insert_by set_sort_slice[unfolded sort_slice_def])

text \<open>A list with a strict linear order on its elements is sorted in only one way.\<close>

definition strict_on :: "('a \<Rightarrow> 'a \<Rightarrow> bool) \<Rightarrow> 'a set \<Rightarrow> bool" where
  "strict_on lt A \<longleftrightarrow> (\<forall>x\<in>A. \<not> lt x x) \<and> (\<forall>x\<in>A. \<forall>y\<in>A. \<forall>z\<in>A. lt x y \<longrightarrow> lt y z \<longrightarrow> lt x z) \<and>
     (\<forall>x\<in>A. \<forall>y\<in>A. x \<noteq> y \<longrightarrow> lt x y \<or> lt y x)"

lemma strict_on_subset: "strict_on lt A \<Longrightarrow> B \<subseteq> A \<Longrightarrow> strict_on lt B"
  unfolding strict_on_def by blast

lemma sorted_insert_by:
  "strict_on lt (insert x (set xs)) \<Longrightarrow> x \<notin> set xs \<Longrightarrow> sorted_wrt lt xs \<Longrightarrow> sorted_wrt lt (insert_by lt x xs)"
proof (induction xs)
  case (Cons y ys)
  show ?case
  proof (cases "lt y x")
    case True
    have "sorted_wrt lt (insert_by lt x ys)"
      using Cons strict_on_subset[OF Cons.prems(1)] by auto
    then show ?thesis using True Cons.prems by auto
  next
    case False
    then have "lt x y" using Cons.prems unfolding strict_on_def by auto
    moreover have "lt x z" if "z \<in> set ys" for z
    proof -
      have "lt y z" using Cons.prems(3) that by simp
      then show ?thesis using \<open>lt x y\<close> Cons.prems(1) that unfolding strict_on_def
        by (meson insertI1 insertI2 list.set_intros)
    qed
    ultimately show ?thesis using False Cons.prems by auto
  qed
qed simp

lemma sorted_sort_slice: "strict_on lt (set xs) \<Longrightarrow> distinct xs \<Longrightarrow> sorted_wrt lt (sort_slice lt xs)"
proof (induction xs)
  case (Cons x xs)
  have "sorted_wrt lt (insert_by lt x (sort_slice lt xs))"
    by (rule sorted_insert_by) (use Cons strict_on_subset[OF Cons.prems(1), of "set xs"] in auto)
  then show ?case by (simp add: sort_slice_def)
qed (simp add: sort_slice_def)

lemma sorted_wrt_unique:
  assumes "strict_on lt (set xs)" "sorted_wrt lt xs" "sorted_wrt lt ys" "set xs = set ys"
  shows "xs = ys"
  using assms
proof (induction xs arbitrary: ys)
  case (Cons x xs)
  then obtain y zs where ys: "ys = y # zs" by (cases ys) auto
  have irr: "\<not> lt a a" if "a \<in> set (x # xs)" for a using Cons.prems(1) that unfolding strict_on_def by blast
  have tr: "lt a b \<Longrightarrow> lt b a \<Longrightarrow> False" if "a \<in> set (x # xs)" "b \<in> set (x # xs)" for a b
    using Cons.prems(1) that unfolding strict_on_def by blast
  have "x = y"
  proof (rule ccontr)
    assume "x \<noteq> y"
    then have "x \<in> set zs" "y \<in> set xs" using Cons.prems(4) ys by auto
    then have "lt y x" "lt x y" using Cons.prems(2,3) ys by auto
    then show False using tr[of x y] \<open>y \<in> set xs\<close> by auto
  qed
  moreover have "x \<notin> set xs" "y \<notin> set zs"
    using irr Cons.prems(2,3,4) ys by auto
  ultimately have "set xs = set zs" using Cons.prems(4) ys by (simp add: insert_ident)
  then have "xs = zs"
    using Cons.IH[of zs] Cons.prems(2,3) ys strict_on_subset[OF Cons.prems(1), of "set xs"] by auto
  then show ?case using \<open>x = y\<close> ys by simp
qed simp

text \<open>What \<open>sort.Slice\<close> promises for a strict weak order: a permutation without inversions.\<close>

definition strict_weak :: "('a \<Rightarrow> 'a \<Rightarrow> bool) \<Rightarrow> bool" where
  "strict_weak lt \<longleftrightarrow> (\<forall>x y z. lt x z \<longrightarrow> lt x y \<or> lt y z) \<and> (\<forall>x y. lt x y \<longrightarrow> \<not> lt y x)"

definition sorts :: "(('a \<Rightarrow> 'a \<Rightarrow> bool) \<Rightarrow> 'a list \<Rightarrow> 'a list) \<Rightarrow> bool" where
  "sorts srt \<longleftrightarrow> (\<forall>lt xs. strict_weak lt \<longrightarrow> mset (srt lt xs) = mset xs \<and> sorted_wrt (\<lambda>x y. \<not> lt y x) (srt lt xs))"

lemma strict_weak_key: "strict_weak (\<lambda>x y. (f x :: 'b :: linorder) > f y)"
  by (auto simp: strict_weak_def)

lemma mset_insert_by [simp]: "mset (insert_by lt x xs) = add_mset x (mset xs)"
  by (induction xs) auto

lemma mset_sort_slice [simp]: "mset (sort_slice lt xs) = mset xs"
  by (induction xs) (auto simp: sort_slice_def)

lemma weak_sorted_insert_by:
  "strict_weak lt \<Longrightarrow> sorted_wrt (\<lambda>x y. \<not> lt y x) xs \<Longrightarrow> sorted_wrt (\<lambda>x y. \<not> lt y x) (insert_by lt x xs)"
proof (induction xs)
  case (Cons y ys)
  have asym: "\<not> (lt a b \<and> lt b a)" for a b using Cons.prems(1) unfolding strict_weak_def by blast
  have trans: "\<not> lt a b \<Longrightarrow> \<not> lt b c \<Longrightarrow> \<not> lt a c" for a b c using Cons.prems(1) unfolding strict_weak_def by blast
  show ?case
  proof (cases "lt y x")
    case True
    have "\<not> lt z y" if "z \<in> set (insert_by lt x ys)" for z using that True asym Cons.prems(2) by auto
    then show ?thesis using True Cons by auto
  next
    case False
    then show ?thesis using Cons.prems(2) trans by auto
  qed
qed simp

lemma sort_slice_sorts: "sorts sort_slice"
proof -
  have "strict_weak lt \<Longrightarrow> sorted_wrt (\<lambda>x y. \<not> lt y x) (sort_slice lt xs)" for lt :: "'a \<Rightarrow> 'a \<Rightarrow> bool" and xs
    by (induction xs) (simp_all add: sort_slice_def weak_sorted_insert_by)
  then show ?thesis by (simp add: sorts_def)
qed

end
