(* ===== verification/NG_Firewall.thy ===== *)
theory NG_Firewall
  imports Netip Go_Sort
begin

text \<open>
  The kill switch and the remote-access boundary: \<open>internal/netguard/netguard.go\<close> (the policy, its
  validation and its renderings for nftables and pf) and \<open>enforcer.go\<close>. A rendering is a list of
  rules and the text of each rule; what a host firewall does with a rule list is written out as a
  verdict on packets, following the documented semantics of nftables (first match, then the chain's
  policy) and pf (last match, \<open>quick\<close> rules first, \<open>set skip\<close>).
\<close>

section \<open>Policies\<close>

record ManagedService =
  ms_TargetMeshIP :: addr
  ms_TCPPort :: u16

record RemoteAccessRule =
  rr_SourceMeshIP :: addr
  rr_TargetMeshIP :: addr
  rr_TCPPort :: u16

record Policy =
  po_Enabled :: bool
  po_TunnelEndpoints :: "addr_port list"
  po_RelayEndpoints :: "addr_port list"
  po_ControlEndpoints :: "addr_port list"
  po_AllowCIDRs :: "prefix list"
  po_TunnelInterface :: string
  po_RemoteEnforcement :: bool
  po_ManagedServices :: "ManagedService list"
  po_RemoteAccessRules :: "RemoteAccessRule list"
  po_RemoteMeshPrefixes :: "prefix list"

definition no_policy :: Policy where
  "no_policy = \<lparr> po_Enabled = False, po_TunnelEndpoints = [], po_RelayEndpoints = [], po_ControlEndpoints = [],
     po_AllowCIDRs = [], po_TunnelInterface = [], po_RemoteEnforcement = False, po_ManagedServices = [],
     po_RemoteAccessRules = [], po_RemoteMeshPrefixes = [] \<rparr>"

datatype ng_error =
  RemoteFieldsWithoutEnforcement | InvalidTunnelInterface | InvalidEndpoint | InvalidAllowedPrefix |
  EnforcementNeedsInterface | EnforcementOnLoopback | EnforcementNeedsServices | InvalidRemotePrefix |
  InvalidManagedService | DuplicateManagedService | InvalidRemoteRule | RuleWithoutService | DuplicateRemoteRule |
  EnforcementUnsupported

definition meshIPv4 :: prefix where "meshIPv4 = Pfx (V4 0x64400000) 10"
definition meshIPv6 :: prefix where "meshIPv6 = Pfx (V6 (push_bit 120 0xfc) []) 7"

definition DefaultAllowCIDRs :: "prefix list" where
  "DefaultAllowCIDRs = [Pfx (V4 0x7F000000) 8, Pfx (V6 1 []) 128, Pfx (V4 0x0A000000) 8, Pfx (V4 0xAC100000) 12,
     Pfx (V4 0xC0A80000) 16, Pfx (V6 (push_bit 112 0xfe80) []) 10]"

definition Active :: "Policy \<Rightarrow> bool" where
  "Active p \<longleftrightarrow> po_Enabled p \<or> po_RemoteEnforcement p"

definition validAddr :: "addr \<Rightarrow> bool" where
  "validAddr a \<longleftrightarrow> addr_valid a \<and> \<not> is_unspecified a \<and> \<not> is_multicast a \<and> zone a = []"

definition validEndpoint :: "addr_port \<Rightarrow> bool" where
  "validEndpoint ep \<longleftrightarrow> addr_valid (fst ep) \<and> snd ep \<noteq> 0 \<and> validAddr (fst ep)"

definition validPrefix :: "prefix \<Rightarrow> bool" where
  "validPrefix p \<longleftrightarrow> pfx_valid p \<and> p = pfx_masked p \<and> validAddr (pfx_addr p)"

definition validRemotePrefix :: "prefix \<Rightarrow> bool" where
  "validRemotePrefix p \<longleftrightarrow> validPrefix p \<and>
     (if is4 (pfx_addr p) then pfx_bits meshIPv4 \<le> pfx_bits p \<and> pfx_contains meshIPv4 (pfx_addr p)
      else pfx_bits meshIPv6 \<le> pfx_bits p \<and> pfx_contains meshIPv6 (pfx_addr p))"

definition validMeshAddr :: "addr \<Rightarrow> prefix list \<Rightarrow> bool" where
  "validMeshAddr a prefixes \<longleftrightarrow> validAddr a \<and> list_ex (\<lambda>p. pfx_contains p a) prefixes"

definition interface_rune :: "nat \<Rightarrow> bool" where
  "interface_rune r \<longleftrightarrow> 97 \<le> r \<and> r \<le> 122 \<or> 65 \<le> r \<and> r \<le> 90 \<or> 48 \<le> r \<and> r \<le> 57 \<or> r = 95 \<or> r = 45 \<or> r = 46 \<or> r = 58"

definition validInterface :: "string \<Rightarrow> bool" where
  "validInterface name \<longleftrightarrow> \<not> (length name = 0 \<or> 64 < length name) \<and> list_all interface_rune (runes name)"

definition prefix_before :: "prefix \<Rightarrow> prefix \<Rightarrow> bool" where
  "prefix_before a b \<longleftrightarrow> prefix_string a < prefix_string b"

definition endpoint_before :: "addr_port \<Rightarrow> addr_port \<Rightarrow> bool" where
  "endpoint_before a b \<longleftrightarrow> addr_port_string a < addr_port_string b"

definition service_before :: "ManagedService \<Rightarrow> ManagedService \<Rightarrow> bool" where
  "service_before a b =
     (if ms_TargetMeshIP a \<noteq> ms_TargetMeshIP b then addr_less (ms_TargetMeshIP a) (ms_TargetMeshIP b)
      else ms_TCPPort a < ms_TCPPort b)"

definition rule_before :: "RemoteAccessRule \<Rightarrow> RemoteAccessRule \<Rightarrow> bool" where
  "rule_before a b =
     (if rr_TargetMeshIP a \<noteq> rr_TargetMeshIP b then addr_less (rr_TargetMeshIP a) (rr_TargetMeshIP b)
      else if rr_TCPPort a \<noteq> rr_TCPPort b then rr_TCPPort a < rr_TCPPort b
      else addr_less (rr_SourceMeshIP a) (rr_SourceMeshIP b))"

definition sortedPrefixes :: "prefix list \<Rightarrow> prefix list" where "sortedPrefixes = sort_slice prefix_before"
definition sortedEndpoints :: "addr_port list \<Rightarrow> addr_port list" where "sortedEndpoints = sort_slice endpoint_before"
definition sortedServices :: "ManagedService list \<Rightarrow> ManagedService list" where "sortedServices = sort_slice service_before"
definition sortedRules :: "RemoteAccessRule list \<Rightarrow> RemoteAccessRule list" where "sortedRules = sort_slice rule_before"

definition remotePrefixes :: "Policy \<Rightarrow> prefix list" where
  "remotePrefixes p = (if po_RemoteMeshPrefixes p = [] then [meshIPv4] else sortedPrefixes (po_RemoteMeshPrefixes p))"

fun validate_services :: "prefix list \<Rightarrow> ManagedService list \<Rightarrow> ManagedService list \<Rightarrow> ng_error option" where
  "validate_services prefixes seen [] = None"
| "validate_services prefixes seen (s # ss) =
     (if \<not> validMeshAddr (ms_TargetMeshIP s) prefixes \<or> ms_TCPPort s = 0 then Some InvalidManagedService
      else if s \<in> set seen then Some DuplicateManagedService
      else validate_services prefixes (s # seen) ss)"

fun validate_rules :: "prefix list \<Rightarrow> ManagedService list \<Rightarrow> RemoteAccessRule list \<Rightarrow> RemoteAccessRule list \<Rightarrow> ng_error option" where
  "validate_rules prefixes managed seen [] = None"
| "validate_rules prefixes managed seen (r # rs) =
     (if \<not> validMeshAddr (rr_SourceMeshIP r) prefixes \<or> \<not> validMeshAddr (rr_TargetMeshIP r) prefixes \<or>
         bit_len (rr_SourceMeshIP r) \<noteq> bit_len (rr_TargetMeshIP r) \<or> rr_SourceMeshIP r = rr_TargetMeshIP r \<or> rr_TCPPort r = 0
      then Some InvalidRemoteRule
      else if \<lparr> ms_TargetMeshIP = rr_TargetMeshIP r, ms_TCPPort = rr_TCPPort r \<rparr> \<notin> set managed then Some RuleWithoutService
      else if r \<in> set seen then Some DuplicateRemoteRule
      else validate_rules prefixes managed (r # seen) rs)"

definition remote_fields_empty :: "Policy \<Rightarrow> bool" where
  "remote_fields_empty p \<longleftrightarrow> po_ManagedServices p = [] \<and> po_RemoteAccessRules p = [] \<and> po_RemoteMeshPrefixes p = []"

definition Validate :: "Policy \<Rightarrow> ng_error option" where
  "Validate p =
     (if \<not> Active p then (if \<not> remote_fields_empty p then Some RemoteFieldsWithoutEnforcement else None)
      else if po_TunnelInterface p \<noteq> [] \<and> \<not> validInterface (po_TunnelInterface p) then Some InvalidTunnelInterface
      else if \<not> list_all validEndpoint (po_TunnelEndpoints p @ po_RelayEndpoints p @ po_ControlEndpoints p) then Some InvalidEndpoint
      else if \<not> list_all validPrefix (po_AllowCIDRs p) then Some InvalidAllowedPrefix
      else if \<not> po_RemoteEnforcement p then (if \<not> remote_fields_empty p then Some RemoteFieldsWithoutEnforcement else None)
      else if po_TunnelInterface p = [] then Some EnforcementNeedsInterface
      else if po_TunnelInterface p = ''lo'' \<or> po_TunnelInterface p = ''lo0'' then Some EnforcementOnLoopback
      else if po_ManagedServices p = [] then Some EnforcementNeedsServices
      else if \<not> list_all validRemotePrefix (remotePrefixes p) then Some InvalidRemotePrefix
      else case validate_services (remotePrefixes p) [] (po_ManagedServices p) of Some e \<Rightarrow> Some e
      | None \<Rightarrow> validate_rules (remotePrefixes p) (po_ManagedServices p) [] (po_RemoteAccessRules p))"

section \<open>Rules and their texts\<close>

datatype fw_rule =
    AllowGrant RemoteAccessRule
  | DropService ManagedService
  | AllowLoopback
  | AllowInterface
  | AllowPrefix prefix
  | AllowUDP addr_port
  | AllowTCP addr_port

definition port_text :: "u16 \<Rightarrow> string" where "port_text p = itoa (unat p)"

definition addressFamily :: "addr \<Rightarrow> string" where
  "addressFamily a = (if is6 a then ''ip6'' else ''ip'')"

text \<open>\<open>%q\<close> of a validated interface name, which has no character that needs an escape.\<close>

definition quoted :: "string \<Rightarrow> string" where
  "quoted name = [CHR 0x22] @ name @ [CHR 0x22]"

definition newline :: string where "newline = [CHR 0x0A]"

fun nft_text :: "string \<Rightarrow> fw_rule \<Rightarrow> string" where
  "nft_text ifc (AllowGrant r) = ''    iif '' @ quoted ifc @ '' '' @ addressFamily (rr_TargetMeshIP r) @ '' saddr '' @
     addr_string (rr_SourceMeshIP r) @ '' '' @ addressFamily (rr_TargetMeshIP r) @ '' daddr '' @ addr_string (rr_TargetMeshIP r) @
     '' tcp dport '' @ port_text (rr_TCPPort r) @ '' accept'' @ newline"
| "nft_text ifc (DropService s) = ''    iif '' @ quoted ifc @ '' '' @ addressFamily (ms_TargetMeshIP s) @ '' daddr '' @
     addr_string (ms_TargetMeshIP s) @ '' tcp dport '' @ port_text (ms_TCPPort s) @ '' drop'' @ newline"
| "nft_text ifc AllowLoopback = ''    oif '' @ quoted ''lo'' @ '' accept'' @ newline"
| "nft_text ifc AllowInterface = ''    oif '' @ quoted ifc @ '' accept'' @ newline"
| "nft_text ifc (AllowPrefix c) = ''    '' @ addressFamily (pfx_addr c) @ '' daddr '' @ prefix_string c @ '' accept'' @ newline"
| "nft_text ifc (AllowUDP ep) = ''    '' @ addressFamily (fst ep) @ '' daddr '' @ addr_string (fst ep) @ '' udp dport '' @
     port_text (snd ep) @ '' accept'' @ newline"
| "nft_text ifc (AllowTCP ep) = ''    '' @ addressFamily (fst ep) @ '' daddr '' @ addr_string (fst ep) @ '' tcp dport '' @
     port_text (snd ep) @ '' accept'' @ newline"

fun pf_text :: "string \<Rightarrow> fw_rule \<Rightarrow> string" where
  "pf_text ifc (AllowGrant r) = ''pass in quick on '' @ ifc @ '' proto tcp from '' @ addr_string (rr_SourceMeshIP r) @ '' to '' @
     addr_string (rr_TargetMeshIP r) @ '' port = '' @ port_text (rr_TCPPort r) @ '' no state'' @ newline"
| "pf_text ifc (DropService s) = ''block in quick on '' @ ifc @ '' proto tcp from any to '' @ addr_string (ms_TargetMeshIP s) @
     '' port = '' @ port_text (ms_TCPPort s) @ newline"
| "pf_text ifc AllowLoopback = ''set skip on lo0'' @ newline"
| "pf_text ifc AllowInterface = ''pass out on '' @ ifc @ '' all no state'' @ newline"
| "pf_text ifc (AllowPrefix c) = ''pass out to '' @ prefix_string c @ '' no state'' @ newline"
| "pf_text ifc (AllowUDP ep) = ''pass out proto udp to '' @ addr_string (fst ep) @ '' port '' @ port_text (snd ep) @ '' no state'' @ newline"
| "pf_text ifc (AllowTCP ep) = ''pass out proto tcp to '' @ addr_string (fst ep) @ '' port '' @ port_text (snd ep) @ '' no state'' @ newline"

definition input_rules :: "Policy \<Rightarrow> fw_rule list" where
  "input_rules p = map AllowGrant (sortedRules (po_RemoteAccessRules p)) @ map DropService (sortedServices (po_ManagedServices p))"

definition output_rules :: "Policy \<Rightarrow> fw_rule list" where
  "output_rules p = (if po_TunnelInterface p \<noteq> [] then [AllowInterface] else []) @ map AllowPrefix (sortedPrefixes (po_AllowCIDRs p)) @
     map AllowUDP (sortedEndpoints (po_TunnelEndpoints p)) @ map AllowTCP (sortedEndpoints (po_RelayEndpoints p)) @
     map AllowTCP (sortedEndpoints (po_ControlEndpoints p))"

definition disabled_text :: string where "disabled_text = ''# ratelmesh firewall disabled'' @ newline"

definition nft_document :: "string \<Rightarrow> fw_rule list option \<Rightarrow> fw_rule list option \<Rightarrow> string" where
  "nft_document ifc inputs outputs =
     ''table inet ratelmesh_killswitch {'' @ newline @
     (case inputs of None \<Rightarrow> [] | Some rs \<Rightarrow>
        ''  chain input {'' @ newline @ ''    type filter hook input priority 0; policy accept;'' @ newline @
        concat (map (nft_text ifc) rs) @ ''  }'' @ newline) @
     (case outputs of None \<Rightarrow> ''}'' @ newline | Some rs \<Rightarrow>
        ''  chain output {'' @ newline @ ''    type filter hook output priority 0; policy drop;'' @ newline @
        concat (map (nft_text ifc) rs) @ ''  }'' @ newline @ ''}'' @ newline)"

definition RenderNFT :: "Policy \<Rightarrow> ng_error + string" where
  "RenderNFT p =
     (case Validate p of Some e \<Rightarrow> Inl e | None \<Rightarrow>
      if \<not> Active p then Inr disabled_text
      else Inr (nft_document (po_TunnelInterface p)
        (if po_RemoteEnforcement p then Some (input_rules p) else None)
        (if po_Enabled p then Some (AllowLoopback # output_rules p) else None)))"

definition pf_document :: "string \<Rightarrow> fw_rule list option \<Rightarrow> fw_rule list option \<Rightarrow> string" where
  "pf_document ifc inputs outputs =
     ''# RatelMesh managed firewall (fail-closed)'' @ newline @ ''set block-policy drop'' @ newline @ pf_text ifc AllowLoopback @
     (case inputs of None \<Rightarrow> [] | Some rs \<Rightarrow> concat (map (pf_text ifc) rs)) @
     (case outputs of None \<Rightarrow> [] | Some rs \<Rightarrow> ''block out all'' @ newline @ concat (map (pf_text ifc) rs))"

definition RenderPF :: "Policy \<Rightarrow> ng_error + string" where
  "RenderPF p =
     (case Validate p of Some e \<Rightarrow> Inl e | None \<Rightarrow>
      if \<not> Active p then Inr disabled_text
      else Inr (pf_document (po_TunnelInterface p)
        (if po_RemoteEnforcement p then Some (input_rules p) else None)
        (if po_Enabled p then Some (output_rules p) else None)))"

section \<open>Enforcers\<close>

definition clonePolicy :: "Policy \<Rightarrow> Policy" where "clonePolicy p = p"

text \<open>The state of a \<open>StubEnforcer\<close> is the policy it recorded last.\<close>

definition stub_Apply :: "Policy \<Rightarrow> Policy \<Rightarrow> ng_error option \<times> Policy" where
  "stub_Apply p cur = (case Validate (clonePolicy p) of Some e \<Rightarrow> (Some e, cur) | None \<Rightarrow> (None, clonePolicy p))"

definition stub_Clear :: "Policy \<Rightarrow> Policy" where "stub_Clear cur = no_policy"

definition stub_Current :: "Policy \<Rightarrow> Policy" where "stub_Current cur = clonePolicy cur"

definition unsupported_Apply :: "Policy \<Rightarrow> ng_error option" where
  "unsupported_Apply p = (case Validate p of Some e \<Rightarrow> Some e | None \<Rightarrow> if Active p then Some EnforcementUnsupported else None)"

section \<open>What the rules do to a packet\<close>

datatype protocol = Tcp | Udp | OtherProtocol

text \<open>\<open>pk_iface\<close> is \<open>None\<close> on the loopback interface.\<close>

record packet =
  pk_iface :: "string option"
  pk_protocol :: protocol
  pk_src :: addr
  pk_dst :: addr
  pk_port :: u16

fun matches :: "string \<Rightarrow> packet \<Rightarrow> fw_rule \<Rightarrow> bool" where
  "matches ifc pk (AllowGrant r) = (pk_iface pk = Some ifc \<and> pk_protocol pk = Tcp \<and> pk_src pk = rr_SourceMeshIP r \<and>
     pk_dst pk = rr_TargetMeshIP r \<and> pk_port pk = rr_TCPPort r)"
| "matches ifc pk (DropService s) = (pk_iface pk = Some ifc \<and> pk_protocol pk = Tcp \<and> pk_dst pk = ms_TargetMeshIP s \<and> pk_port pk = ms_TCPPort s)"
| "matches ifc pk AllowLoopback = (pk_iface pk = None)"
| "matches ifc pk AllowInterface = (pk_iface pk = Some ifc)"
| "matches ifc pk (AllowPrefix c) = pfx_contains c (pk_dst pk)"
| "matches ifc pk (AllowUDP ep) = (pk_protocol pk = Udp \<and> pk_dst pk = fst ep \<and> pk_port pk = snd ep)"
| "matches ifc pk (AllowTCP ep) = (pk_protocol pk = Tcp \<and> pk_dst pk = fst ep \<and> pk_port pk = snd ep)"

fun accepts :: "fw_rule \<Rightarrow> bool" where
  "accepts (DropService s) = False" | "accepts r = True"

text \<open>First match, as in an nftables chain and among the \<open>quick\<close> rules of pf.\<close>

fun first_match :: "string \<Rightarrow> packet \<Rightarrow> bool \<Rightarrow> fw_rule list \<Rightarrow> bool" where
  "first_match ifc pk otherwise [] = otherwise"
| "first_match ifc pk otherwise (r # rs) = (if matches ifc pk r then accepts r else first_match ifc pk otherwise rs)"

text \<open>Last match, as among the other rules of pf.\<close>

definition last_match :: "string \<Rightarrow> packet \<Rightarrow> bool \<Rightarrow> fw_rule list \<Rightarrow> bool" where
  "last_match ifc pk otherwise rs = foldl (\<lambda>v r. if matches ifc pk r then accepts r else v) otherwise rs"

definition nft_input :: "string \<Rightarrow> fw_rule list option \<Rightarrow> packet \<Rightarrow> bool" where
  "nft_input ifc inputs pk = (case inputs of None \<Rightarrow> True | Some rs \<Rightarrow> first_match ifc pk True rs)"

definition nft_output :: "string \<Rightarrow> fw_rule list option \<Rightarrow> packet \<Rightarrow> bool" where
  "nft_output ifc outputs pk = (case outputs of None \<Rightarrow> True | Some rs \<Rightarrow> first_match ifc pk False rs)"

definition pf_input :: "string \<Rightarrow> fw_rule list option \<Rightarrow> packet \<Rightarrow> bool" where
  "pf_input ifc inputs pk = (if matches ifc pk AllowLoopback then True else case inputs of None \<Rightarrow> True | Some rs \<Rightarrow> first_match ifc pk True rs)"

definition pf_output :: "string \<Rightarrow> fw_rule list option \<Rightarrow> packet \<Rightarrow> bool" where
  "pf_output ifc outputs pk = (if matches ifc pk AllowLoopback then True else case outputs of None \<Rightarrow> True | Some rs \<Rightarrow> last_match ifc pk False rs)"

lemma first_match_accepting:
  "(\<And>r. r \<in> set rs \<Longrightarrow> accepts r) \<Longrightarrow> first_match ifc pk False rs \<longleftrightarrow> (\<exists>r\<in>set rs. matches ifc pk r)"
  by (induction rs) auto

lemma last_match_accepting:
  "(\<And>r. r \<in> set rs \<Longrightarrow> accepts r) \<Longrightarrow> last_match ifc pk b rs \<longleftrightarrow> b \<or> (\<exists>r\<in>set rs. matches ifc pk r)"
  unfolding last_match_def by (induction rs arbitrary: b) auto

lemma first_match_append:
  "first_match ifc pk b (rs @ ss) = (if \<exists>r\<in>set rs. matches ifc pk r then first_match ifc pk b rs else first_match ifc pk b ss)"
  by (induction rs) auto

lemma first_match_all:
  "(\<And>r. r \<in> set rs \<Longrightarrow> accepts r = v) \<Longrightarrow> first_match ifc pk b rs = (if \<exists>r\<in>set rs. matches ifc pk r then v else b)"
  by (induction rs) auto

lemma output_accepting: "r \<in> set (output_rules p) \<Longrightarrow> accepts r"
  by (auto simp: output_rules_def split: if_splits)

lemma endpoint_match: "(\<exists>ep\<in>A. d = fst ep \<and> q = snd ep) \<longleftrightarrow> (d, q) \<in> A"
  by force

lemma output_match:
  "(\<exists>r\<in>set (output_rules p). matches (po_TunnelInterface p) pk r) \<longleftrightarrow>
     po_TunnelInterface p \<noteq> [] \<and> pk_iface pk = Some (po_TunnelInterface p) \<or> (\<exists>c\<in>set (po_AllowCIDRs p). pfx_contains c (pk_dst pk)) \<or>
     pk_protocol pk = Udp \<and> (pk_dst pk, pk_port pk) \<in> set (po_TunnelEndpoints p) \<or>
     pk_protocol pk = Tcp \<and> (pk_dst pk, pk_port pk) \<in> set (po_RelayEndpoints p) \<union> set (po_ControlEndpoints p)"
  by (cases "po_TunnelInterface p = []")
    (simp_all add: output_rules_def sortedPrefixes_def sortedEndpoints_def bex_Un endpoint_match conj_disj_distribL)

lemma nft_output_match:
  "nft_output (po_TunnelInterface p) (Some (AllowLoopback # output_rules p)) pk \<longleftrightarrow>
     pk_iface pk = None \<or> (\<exists>r\<in>set (output_rules p). matches (po_TunnelInterface p) pk r)"
  by (cases "pk_iface pk") (simp_all add: nft_output_def first_match_accepting[OF output_accepting])

lemma pf_output_match:
  "pf_output (po_TunnelInterface p) (Some (output_rules p)) pk \<longleftrightarrow>
     pk_iface pk = None \<or> (\<exists>r\<in>set (output_rules p). matches (po_TunnelInterface p) pk r)"
  by (cases "pk_iface pk") (simp_all add: pf_output_def last_match_accepting[OF output_accepting])

lemma rule_eq_iff:
  "(s = rr_SourceMeshIP r \<and> d = rr_TargetMeshIP r \<and> q = rr_TCPPort r) \<longleftrightarrow>
     r = \<lparr> rr_SourceMeshIP = s, rr_TargetMeshIP = d, rr_TCPPort = q \<rparr>"
  by (cases r) auto

lemma service_eq_iff:
  "(d = ms_TargetMeshIP r \<and> q = ms_TCPPort r) \<longleftrightarrow> r = \<lparr> ms_TargetMeshIP = d, ms_TCPPort = q \<rparr>"
  by (cases r) auto

lemma grant_match:
  "(\<exists>r\<in>set (map AllowGrant (sortedRules rs)). matches ifc pk r) \<longleftrightarrow> pk_iface pk = Some ifc \<and> pk_protocol pk = Tcp \<and>
     \<lparr> rr_SourceMeshIP = pk_src pk, rr_TargetMeshIP = pk_dst pk, rr_TCPPort = pk_port pk \<rparr> \<in> set rs"
  by (simp add: sortedRules_def rule_eq_iff)

lemma drop_match:
  "(\<exists>r\<in>set (map DropService (sortedServices ss)). matches ifc pk r) \<longleftrightarrow> pk_iface pk = Some ifc \<and> pk_protocol pk = Tcp \<and>
     \<lparr> ms_TargetMeshIP = pk_dst pk, ms_TCPPort = pk_port pk \<rparr> \<in> set ss"
  by (simp add: sortedServices_def service_eq_iff)

lemma input_verdict:
  "first_match ifc pk True (input_rules p) \<longleftrightarrow>
     \<not> (pk_iface pk = Some ifc \<and> pk_protocol pk = Tcp \<and>
        \<lparr> ms_TargetMeshIP = pk_dst pk, ms_TCPPort = pk_port pk \<rparr> \<in> set (po_ManagedServices p)) \<or>
     \<lparr> rr_SourceMeshIP = pk_src pk, rr_TargetMeshIP = pk_dst pk, rr_TCPPort = pk_port pk \<rparr> \<in> set (po_RemoteAccessRules p)"
proof -
  have g: "first_match ifc pk True (map AllowGrant (sortedRules (po_RemoteAccessRules p))) = True"
    by (subst first_match_all[where v = True]) auto
  have d: "first_match ifc pk True (map DropService (sortedServices (po_ManagedServices p))) \<longleftrightarrow>
      \<not> (\<exists>r\<in>set (map DropService (sortedServices (po_ManagedServices p))). matches ifc pk r)"
    by (subst first_match_all[where v = False]) auto
  show ?thesis
    unfolding input_rules_def first_match_append g d grant_match drop_match by auto
qed

lemma input_loopback: "pk_iface pk = None \<Longrightarrow> first_match ifc pk True (input_rules p)"
  by (simp add: input_verdict)

section \<open>Rendering is canonical\<close>

text \<open>\<open>Addr.Compare\<close> is a linear order, so the sorted services and rules do not depend on the order given.\<close>

instantiation addr :: linorder
begin

definition less_addr :: "addr \<Rightarrow> addr \<Rightarrow> bool" where "less_addr a b = addr_less a b"

definition less_eq_addr :: "addr \<Rightarrow> addr \<Rightarrow> bool" where "less_eq_addr a b = (a = b \<or> addr_less a b)"

instance
proof
  fix a b c :: addr
  show "a < b \<longleftrightarrow> a \<le> b \<and> \<not> b \<le> a"
    unfolding less_addr_def less_eq_addr_def using addr_less_trans[of a b a] addr_less_irrefl[of a] by blast
  show "a \<le> a" by (simp add: less_eq_addr_def)
  show "a \<le> b \<Longrightarrow> b \<le> c \<Longrightarrow> a \<le> c" unfolding less_eq_addr_def using addr_less_trans[of a b c] by blast
  show "a \<le> b \<Longrightarrow> b \<le> a \<Longrightarrow> a = b"
    unfolding less_eq_addr_def using addr_less_trans[of a b a] addr_less_irrefl[of a] by blast
  show "a \<le> b \<or> b \<le> a" unfolding less_eq_addr_def using addr_less_linear[of a b] by blast
qed

end

lemma service_before_iff:
  "service_before a b \<longleftrightarrow> ms_TargetMeshIP a < ms_TargetMeshIP b \<or> ms_TargetMeshIP a = ms_TargetMeshIP b \<and> ms_TCPPort a < ms_TCPPort b"
  by (auto simp: service_before_def less_addr_def)

lemma rule_before_iff:
  "rule_before a b \<longleftrightarrow> rr_TargetMeshIP a < rr_TargetMeshIP b \<or> rr_TargetMeshIP a = rr_TargetMeshIP b \<and>
     (rr_TCPPort a < rr_TCPPort b \<or> rr_TCPPort a = rr_TCPPort b \<and> rr_SourceMeshIP a < rr_SourceMeshIP b)"
  by (auto simp: rule_before_def less_addr_def)

lemma strict_services: "strict_on service_before A"
  unfolding strict_on_def service_before_iff by (fastforce intro: ManagedService.equality)

lemma strict_rules: "strict_on rule_before A"
  unfolding strict_on_def rule_before_iff by (fastforce intro: RemoteAccessRule.equality)

lemma sorted_inputs_canonical:
  assumes "distinct ss" "distinct ss'" "set ss = set ss'" "distinct rs" "distinct rs'" "set rs = set rs'"
  shows "sortedServices ss = sortedServices ss'" "sortedRules rs = sortedRules rs'"
proof -
  show "sortedServices ss = sortedServices ss'" unfolding sortedServices_def
    by (rule sorted_wrt_unique[OF strict_services]) (simp_all add: sorted_sort_slice strict_services assms)
  show "sortedRules rs = sortedRules rs'" unfolding sortedRules_def
    by (rule sorted_wrt_unique[OF strict_rules]) (simp_all add: sorted_sort_slice strict_rules assms)
qed

section \<open>Properties\<close>

text \<open>
  C16: the kill switch fails closed. For every policy that validates with the switch on, the nftables
  rendering succeeds and has an output chain that lets a packet leave exactly when it goes out on
  loopback or on the tunnel interface, or its destination lies in an allowed prefix, or it is a UDP
  packet to a tunnel endpoint or a TCP packet to a relay or control endpoint; nothing else leaves.
\<close>

theorem killswitch_fails_closed:
  assumes "Validate p = None" "po_Enabled p"
  shows "\<exists>inputs outputs. RenderNFT p = Inr (nft_document (po_TunnelInterface p) inputs (Some outputs)) \<and>
    (\<forall>pk. nft_output (po_TunnelInterface p) (Some outputs) pk \<longleftrightarrow>
      pk_iface pk = None \<or> po_TunnelInterface p \<noteq> [] \<and> pk_iface pk = Some (po_TunnelInterface p) \<or>
      (\<exists>c\<in>set (po_AllowCIDRs p). pfx_contains c (pk_dst pk)) \<or>
      pk_protocol pk = Udp \<and> (pk_dst pk, pk_port pk) \<in> set (po_TunnelEndpoints p) \<or>
      pk_protocol pk = Tcp \<and> (pk_dst pk, pk_port pk) \<in> set (po_RelayEndpoints p) \<union> set (po_ControlEndpoints p))"
proof (intro exI conjI allI)
  show "RenderNFT p = Inr (nft_document (po_TunnelInterface p) (if po_RemoteEnforcement p then Some (input_rules p) else None)
      (Some (AllowLoopback # output_rules p)))"
    using assms by (simp add: RenderNFT_def Active_def)
qed (simp only: nft_output_match output_match)

definition sample_policy :: Policy where
  "sample_policy = no_policy\<lparr> po_Enabled := True, po_RelayEndpoints := [(V4 0x05060708, 443)], po_TunnelInterface := ''rm0'',
     po_RemoteEnforcement := True, po_ManagedServices := [\<lparr> ms_TargetMeshIP = V4 0x64400001, ms_TCPPort = 22 \<rparr>],
     po_RemoteAccessRules := [\<lparr> rr_SourceMeshIP = V4 0x64400002, rr_TargetMeshIP = V4 0x64400001, rr_TCPPort = 22 \<rparr>] \<rparr>"

lemma sample_policy_valid: "Validate sample_policy = None"
  by code_simp

lemma sample_policy_sel:
  "po_Enabled sample_policy" "po_RemoteEnforcement sample_policy" "po_TunnelInterface sample_policy = ''rm0''"
  by (simp_all add: sample_policy_def)

theorem killswitch_fails_closed_witness:
  "\<exists>inputs outputs. RenderNFT sample_policy = Inr (nft_document ''rm0'' inputs (Some outputs)) \<and>
    \<not> nft_output ''rm0'' (Some outputs) \<lparr> pk_iface = Some ''eth0'', pk_protocol = Tcp, pk_src = V4 1, pk_dst = V4 0x05060708, pk_port = 80 \<rparr>"
proof -
  obtain inputs outputs where r: "RenderNFT sample_policy = Inr (nft_document ''rm0'' inputs (Some outputs))"
    and v: "\<forall>pk. nft_output ''rm0'' (Some outputs) pk \<longleftrightarrow>
      pk_iface pk = None \<or> ''rm0'' \<noteq> [] \<and> pk_iface pk = Some ''rm0'' \<or>
      (\<exists>c\<in>set (po_AllowCIDRs sample_policy). pfx_contains c (pk_dst pk)) \<or>
      pk_protocol pk = Udp \<and> (pk_dst pk, pk_port pk) \<in> set (po_TunnelEndpoints sample_policy) \<or>
      pk_protocol pk = Tcp \<and> (pk_dst pk, pk_port pk) \<in> set (po_RelayEndpoints sample_policy) \<union> set (po_ControlEndpoints sample_policy)"
    using killswitch_fails_closed[OF sample_policy_valid sample_policy_sel(1)] unfolding sample_policy_sel(3) by blast
  show ?thesis
    by (intro exI conjI, rule r) (simp add: v, simp add: sample_policy_def no_policy_def)
qed

text \<open>
  C17: remote access is denied by default. For every policy that validates with remote enforcement, the
  nftables rendering has an input chain that drops a packet exactly when it is a TCP packet arriving
  on the tunnel interface for the address and port of a managed service from a source that has no
  rule for exactly that address and port; every other packet is left alone.
\<close>

theorem remote_access_denied_by_default:
  assumes "Validate p = None" "po_RemoteEnforcement p"
  shows "\<exists>inputs outputs. RenderNFT p = Inr (nft_document (po_TunnelInterface p) (Some inputs) outputs) \<and>
    (\<forall>pk. nft_input (po_TunnelInterface p) (Some inputs) pk \<longleftrightarrow>
      \<not> (pk_iface pk = Some (po_TunnelInterface p) \<and> pk_protocol pk = Tcp \<and>
         \<lparr> ms_TargetMeshIP = pk_dst pk, ms_TCPPort = pk_port pk \<rparr> \<in> set (po_ManagedServices p)) \<or>
      \<lparr> rr_SourceMeshIP = pk_src pk, rr_TargetMeshIP = pk_dst pk, rr_TCPPort = pk_port pk \<rparr> \<in> set (po_RemoteAccessRules p))"
proof (intro exI conjI allI)
  show "RenderNFT p = Inr (nft_document (po_TunnelInterface p) (Some (input_rules p))
      (if po_Enabled p then Some (AllowLoopback # output_rules p) else None))"
    using assms by (simp add: RenderNFT_def Active_def)
qed (simp add: nft_input_def input_verdict)

theorem remote_access_denied_by_default_witness:
  "\<exists>inputs outputs. RenderNFT sample_policy = Inr (nft_document ''rm0'' (Some inputs) outputs) \<and>
    \<not> nft_input ''rm0'' (Some inputs) \<lparr> pk_iface = Some ''rm0'', pk_protocol = Tcp, pk_src = V4 3, pk_dst = V4 0x64400001, pk_port = 22 \<rparr>"
proof -
  obtain inputs outputs where r: "RenderNFT sample_policy = Inr (nft_document ''rm0'' (Some inputs) outputs)"
    and v: "\<forall>pk. nft_input ''rm0'' (Some inputs) pk \<longleftrightarrow>
      \<not> (pk_iface pk = Some ''rm0'' \<and> pk_protocol pk = Tcp \<and>
         \<lparr> ms_TargetMeshIP = pk_dst pk, ms_TCPPort = pk_port pk \<rparr> \<in> set (po_ManagedServices sample_policy)) \<or>
      \<lparr> rr_SourceMeshIP = pk_src pk, rr_TargetMeshIP = pk_dst pk, rr_TCPPort = pk_port pk \<rparr> \<in> set (po_RemoteAccessRules sample_policy)"
    using remote_access_denied_by_default[OF sample_policy_valid sample_policy_sel(2)] unfolding sample_policy_sel(3) by blast
  show ?thesis
    by (intro exI conjI, rule r) (simp add: v, simp add: sample_policy_def no_policy_def)
qed

text \<open>
  The two renderings mean the same. For every policy that validates and is active, the nftables and
  the pf documents are both produced, from rule lists that decide every incoming and every outgoing
  packet the same way, although nftables stops at the first match and pf at the last.
\<close>

theorem pf_agrees_with_nft:
  assumes "Validate p = None" "Active p"
  shows "\<exists>inputs nft_outputs pf_outputs.
    RenderNFT p = Inr (nft_document (po_TunnelInterface p) inputs nft_outputs) \<and>
    RenderPF p = Inr (pf_document (po_TunnelInterface p) inputs pf_outputs) \<and>
    (\<forall>pk. nft_input (po_TunnelInterface p) inputs pk = pf_input (po_TunnelInterface p) inputs pk \<and>
          nft_output (po_TunnelInterface p) nft_outputs pk = pf_output (po_TunnelInterface p) pf_outputs pk)"
proof (intro exI conjI allI)
  show "RenderNFT p = Inr (nft_document (po_TunnelInterface p) (if po_RemoteEnforcement p then Some (input_rules p) else None)
      (if po_Enabled p then Some (AllowLoopback # output_rules p) else None))"
    using assms by (simp add: RenderNFT_def)
  show "RenderPF p = Inr (pf_document (po_TunnelInterface p) (if po_RemoteEnforcement p then Some (input_rules p) else None)
      (if po_Enabled p then Some (output_rules p) else None))"
    using assms by (simp add: RenderPF_def)
  fix pk
  show "nft_input (po_TunnelInterface p) (if po_RemoteEnforcement p then Some (input_rules p) else None) pk =
      pf_input (po_TunnelInterface p) (if po_RemoteEnforcement p then Some (input_rules p) else None) pk"
    by (simp add: nft_input_def pf_input_def input_loopback)
  show "nft_output (po_TunnelInterface p) (if po_Enabled p then Some (AllowLoopback # output_rules p) else None) pk =
      pf_output (po_TunnelInterface p) (if po_Enabled p then Some (output_rules p) else None) pk"
    by (cases "po_Enabled p") (simp_all only: if_True if_False nft_output_match pf_output_match, simp add: nft_output_def pf_output_def)
qed

theorem pf_agrees_with_nft_witness:
  "\<exists>inputs nft_outputs pf_outputs.
    RenderNFT sample_policy = Inr (nft_document ''rm0'' inputs nft_outputs) \<and>
    RenderPF sample_policy = Inr (pf_document ''rm0'' inputs pf_outputs) \<and>
    (\<forall>pk. nft_output ''rm0'' nft_outputs pk = pf_output ''rm0'' pf_outputs pk)"
  using pf_agrees_with_nft[OF sample_policy_valid] sample_policy_sel unfolding Active_def by metis

end
