(* ===== verification/NG_Enforcer.thy ===== *)
theory NG_Enforcer
  imports NG_Firewall
begin

text \<open>
  The firewall enforcers as their clients see them, and the one for Linux: \<open>enforcer.go\<close> and the
  nftables half of \<open>enforcer_real.go\<close> in \<open>internal/netguard\<close>. The host is a state: the content of the
  two tables the program owns, the other lines of \<open>nft list tables\<close>, and which of the next commands
  fail. \<open>nft -f\<close> runs a script as one transaction, as documented; a load adds to a table that exists.
\<close>

section \<open>The contract\<close>

text \<open>
  \<open>good\<close> says that \<open>Current\<close> describes what the host enforces. A successful \<open>Apply\<close> leaves the policy in
  force, a failed one the old policy, the new one, or none, and \<open>Current\<close> says which.
\<close>

locale enforcer =
  fixes install :: "Policy \<Rightarrow> 'g \<Rightarrow> 'e option \<times> 'g" and current :: "'g \<Rightarrow> Policy" and good :: "'g \<Rightarrow> bool"
  assumes install_ok: "good g \<Longrightarrow> install p g = (None, g') \<Longrightarrow>
      good g' \<and> Validate p = None \<and> (current g' = p \<or> \<not> Active p \<and> current g' = no_policy)"
    and install_fail: "good g \<Longrightarrow> install p g = (Some e, g') \<Longrightarrow> good g' \<and> current g' \<in> {current g, p, no_policy}"
begin

lemma install_good: "good g \<Longrightarrow> good (snd (install p g))"
  using install_ok[of g p "snd (install p g)"] install_fail[of g p _ "snd (install p g)"]
  by (cases "install p g"; cases "fst (install p g)") auto

lemma install_current: "good g \<Longrightarrow> current (snd (install p g)) \<in> {current g, p, no_policy}"
  using install_ok[of g p "snd (install p g)"] install_fail[of g p _ "snd (install p g)"]
  by (cases "install p g"; cases "fst (install p g)") auto

text \<open>Any number of calls: the policy in force is the first one, one of those applied, or none.\<close>

lemma runs_current: "good g \<Longrightarrow> good (fold (\<lambda>p g. snd (install p g)) ps g) \<and>
    current (fold (\<lambda>p g. snd (install p g)) ps g) \<in> {current g, no_policy} \<union> set ps"
proof (induction ps arbitrary: g)
  case (Cons p ps)
  show ?case using Cons.IH[OF install_good[OF Cons.prems, of p]] install_current[OF Cons.prems, of p] by auto
qed simp

end

interpretation stub: enforcer stub_Apply stub_Current "\<lambda>_. True"
  by unfold_locales (auto simp: stub_Apply_def stub_Current_def clonePolicy_def split: option.splits)

interpretation unsupported: enforcer "\<lambda>p (g :: unit). (unsupported_Apply p, g)" "\<lambda>_. no_policy" "\<lambda>_. True"
  by unfold_locales (auto simp: unsupported_Apply_def split: option.splits if_splits)

section \<open>nftables\<close>

datatype lx_error = LxPolicy ng_error | LxInspectForClear | LxClear | LxInspect | LxLoad

definition killTable :: string where "killTable = ''ratelmesh_killswitch''"
definition legacyKillTable :: string where "legacyKillTable = ''hbm_killswitch''"

record nft_host =
  nh_kill :: "string option"
  nh_legacy :: "string option"
  nh_rest :: "string list"
  nh_faults :: "bool list"

record LinuxEnforcer =
  lx_cur :: Policy
  lx_host :: nft_host

definition table_line :: "string \<Rightarrow> string" where "table_line name = ''table inet '' @ name"

text \<open>The lines of \<open>nft list tables\<close>.\<close>

definition nft_tables :: "nft_host \<Rightarrow> string list" where
  "nft_tables h = (case nh_kill h of None \<Rightarrow> [] | Some _ \<Rightarrow> [table_line killTable]) @
     (case nh_legacy h of None \<Rightarrow> [] | Some _ \<Rightarrow> [table_line legacyKillTable]) @ nh_rest h"

definition nftTableListed :: "string list \<Rightarrow> string \<Rightarrow> bool" where
  "nftTableListed out name = list_ex (\<lambda>line. trim_space line = table_line name) out"

datatype nft_statement = DeleteTable string | LoadTable string

definition statement_text :: "nft_statement \<Rightarrow> string" where
  "statement_text st = (case st of DeleteTable name \<Rightarrow> ''delete table inet '' @ name @ newline | LoadTable ruleset \<Rightarrow> ruleset)"

text \<open>What a statement does; deleting a table that does not exist is an error.\<close>

definition run_statement :: "nft_statement \<Rightarrow> nft_host \<Rightarrow> nft_host option" where
  "run_statement st h =
     (case st of
        DeleteTable name \<Rightarrow>
          if name = killTable then (if nh_kill h = None then None else Some (h\<lparr>nh_kill := None\<rparr>))
          else if name = legacyKillTable then (if nh_legacy h = None then None else Some (h\<lparr>nh_legacy := None\<rparr>))
          else None
      | LoadTable ruleset \<Rightarrow> Some (h\<lparr>nh_kill := Some ((case nh_kill h of None \<Rightarrow> [] | Some old \<Rightarrow> old) @ ruleset)\<rparr>))"

fun run_script :: "nft_statement list \<Rightarrow> nft_host \<Rightarrow> nft_host option" where
  "run_script [] h = Some h"
| "run_script (st # sts) h = (case run_statement st h of None \<Rightarrow> None | Some h \<Rightarrow> run_script sts h)"

definition next_fault :: "nft_host \<Rightarrow> bool \<times> nft_host" where
  "next_fault h = (case nh_faults h of [] \<Rightarrow> (False, h) | b # bs \<Rightarrow> (b, h\<lparr>nh_faults := bs\<rparr>))"

definition run_list :: "nft_host \<Rightarrow> string list option \<times> nft_host" where
  "run_list h = (case next_fault h of (b, h) \<Rightarrow> (if b then None else Some (nft_tables h), h))"

definition run_nft :: "nft_statement list \<Rightarrow> nft_host \<Rightarrow> bool \<times> nft_host" where
  "run_nft sts h = (case next_fault h of (b, h) \<Rightarrow>
     if b then (False, h) else (case run_script sts h of None \<Rightarrow> (False, h) | Some h' \<Rightarrow> (True, h')))"

definition clearLinuxKillTables :: "nft_host \<Rightarrow> lx_error option \<times> nft_host" where
  "clearLinuxKillTables h =
     (case run_list h of
        (None, h) \<Rightarrow> (Some LxInspectForClear, h)
      | (Some tables, h) \<Rightarrow>
          (let transaction = map DeleteTable (filter (nftTableListed tables) [killTable, legacyKillTable]) in
           if transaction = [] then (None, h)
           else case run_nft transaction h of (ok, h) \<Rightarrow> (if ok then None else Some LxClear, h)))"

definition linux_Apply :: "Policy \<Rightarrow> LinuxEnforcer \<Rightarrow> lx_error option \<times> LinuxEnforcer" where
  "linux_Apply p0 e =
    (let p = clonePolicy p0 in
     case Validate p of Some err \<Rightarrow> (Some (LxPolicy err), e) | None \<Rightarrow>
     if \<not> Active p then
       (case clearLinuxKillTables (lx_host e) of
          (Some err, h) \<Rightarrow> (Some err, e\<lparr>lx_host := h\<rparr>)
        | (None, h) \<Rightarrow> (None, \<lparr> lx_cur = p, lx_host = h \<rparr>))
     else case RenderNFT p of Inl err \<Rightarrow> (Some (LxPolicy err), e) | Inr ruleset \<Rightarrow>
       (case run_list (lx_host e) of
          (None, h) \<Rightarrow> (Some LxInspect, e\<lparr>lx_host := h\<rparr>)
        | (Some tables, h) \<Rightarrow>
            (case run_nft ((if nftTableListed tables killTable then [DeleteTable killTable] else []) @ [LoadTable ruleset]) h of
               (False, h) \<Rightarrow> (Some LxLoad, e\<lparr>lx_host := h\<rparr>)
             | (True, h) \<Rightarrow> (None, \<lparr> lx_cur = p, lx_host = snd (run_nft [DeleteTable legacyKillTable] h) \<rparr>))))"

definition linux_Clear :: "LinuxEnforcer \<Rightarrow> lx_error option \<times> LinuxEnforcer" where
  "linux_Clear e =
     (case clearLinuxKillTables (lx_host e) of
        (Some err, h) \<Rightarrow> (Some err, e\<lparr>lx_host := h\<rparr>)
      | (None, h) \<Rightarrow> (None, \<lparr> lx_cur = no_policy, lx_host = h \<rparr>))"

definition linux_Current :: "LinuxEnforcer \<Rightarrow> Policy" where "linux_Current e = clonePolicy (lx_cur e)"

text \<open>No other line of the listing reads as one of the program's tables.\<close>

definition rest_ok :: "nft_host \<Rightarrow> bool" where
  "rest_ok h \<longleftrightarrow> (\<forall>line\<in>set (nh_rest h). trim_space line \<noteq> table_line killTable \<and> trim_space line \<noteq> table_line legacyKillTable)"

text \<open>The host enforces a policy: its table is exactly the rendering, or there is none.\<close>

definition enforces :: "nft_host \<Rightarrow> Policy \<Rightarrow> bool" where
  "enforces h p \<longleftrightarrow> (if Active p then (\<exists>ruleset. RenderNFT p = Inr ruleset \<and> nh_kill h = Some ruleset) else nh_kill h = None)"

definition linux_good :: "LinuxEnforcer \<Rightarrow> bool" where
  "linux_good e \<longleftrightarrow> rest_ok (lx_host e) \<and> enforces (lx_host e) (lx_cur e)"

lemma listed_lines: "trim_space (table_line killTable) = table_line killTable" "trim_space (table_line legacyKillTable) = table_line legacyKillTable"
  "table_line killTable \<noteq> table_line legacyKillTable" "killTable \<noteq> legacyKillTable"
  by code_simp+

lemma listed:
  assumes "rest_ok h"
  shows "nftTableListed (nft_tables h) killTable \<longleftrightarrow> nh_kill h \<noteq> None"
    "nftTableListed (nft_tables h) legacyKillTable \<longleftrightarrow> nh_legacy h \<noteq> None"
  using assms listed_lines
  by (cases "nh_kill h"; cases "nh_legacy h"; auto simp: nftTableListed_def nft_tables_def rest_ok_def list_ex_iff)+

lemma next_fault_keeps: "next_fault h = (b, h') \<Longrightarrow> nh_kill h' = nh_kill h \<and> nh_legacy h' = nh_legacy h \<and> nh_rest h' = nh_rest h"
  by (auto simp: next_fault_def split: list.splits)

lemma run_statement_rest: "run_statement st h = Some h' \<Longrightarrow> nh_rest h' = nh_rest h"
  by (auto simp: run_statement_def split: nft_statement.splits if_splits)

lemma run_script_rest: "run_script sts h = Some h' \<Longrightarrow> nh_rest h' = nh_rest h"
  by (induction sts h rule: run_script.induct) (auto split: option.splits dest: run_statement_rest)

lemma run_list_keeps:
  "run_list h = (r, h') \<Longrightarrow> nh_kill h' = nh_kill h \<and> nh_legacy h' = nh_legacy h \<and> nh_rest h' = nh_rest h \<and> (\<forall>ts. r = Some ts \<longrightarrow> ts = nft_tables h')"
  by (auto simp: run_list_def split: prod.splits if_splits dest: next_fault_keeps)

lemma run_nft_rest: "run_nft sts h = (ok, h') \<Longrightarrow> nh_rest h' = nh_rest h"
  by (auto simp: run_nft_def split: prod.splits if_splits option.splits dest!: next_fault_keeps run_script_rest)

lemma run_nft_failed: "run_nft sts h = (False, h') \<Longrightarrow> nh_kill h' = nh_kill h \<and> nh_legacy h' = nh_legacy h"
  by (auto simp: run_nft_def split: prod.splits if_splits option.splits dest!: next_fault_keeps)

lemma run_nft_ok: "run_nft sts h = (True, h') \<Longrightarrow> \<exists>h0. nh_kill h0 = nh_kill h \<and> nh_legacy h0 = nh_legacy h \<and> run_script sts h0 = Some h'"
  by (auto simp: run_nft_def split: prod.splits if_splits option.splits dest!: next_fault_keeps)

section \<open>The Linux enforcer keeps the contract\<close>

lemma clear_ok:
  assumes "clearLinuxKillTables h = (None, h')" "rest_ok h"
  shows "nh_kill h' = None \<and> nh_legacy h' = None \<and> rest_ok h'"
proof -
  obtain ts h1 where l: "run_list h = (Some ts, h1)"
    using assms(1) by (cases "run_list h"; cases "fst (run_list h)") (auto simp: clearLinuxKillTables_def)
  note k = run_list_keeps[OF l]
  have r1: "rest_ok h1" using k assms(2) by (simp add: rest_ok_def)
  have ts: "nftTableListed ts killTable \<longleftrightarrow> nh_kill h1 \<noteq> None" "nftTableListed ts legacyKillTable \<longleftrightarrow> nh_legacy h1 \<noteq> None"
    using k listed[OF r1] by simp_all
  let ?tr = "map DeleteTable (filter (nftTableListed ts) [killTable, legacyKillTable])"
  show ?thesis
  proof (cases "?tr = []")
    case True
    then have "\<not> nftTableListed ts killTable" "\<not> nftTableListed ts legacyKillTable" by (simp_all split: if_splits)
    moreover have "h' = h1" using assms(1) l True by (simp add: clearLinuxKillTables_def)
    ultimately show ?thesis using ts r1 by simp
  next
    case False
    then have n: "run_nft ?tr h1 = (True, h')"
      using assms(1) l by (cases "run_nft ?tr h1"; cases "fst (run_nft ?tr h1)") (auto simp: clearLinuxKillTables_def Let_def)
    obtain h0 where h0: "nh_kill h0 = nh_kill h1" "nh_legacy h0 = nh_legacy h1" "run_script ?tr h0 = Some h'" using run_nft_ok[OF n] by blast
    have "rest_ok h'" using run_nft_rest[OF n] r1 by (simp add: rest_ok_def)
    moreover have "nh_kill h' = None \<and> nh_legacy h' = None"
      using h0 ts listed_lines(4) by (auto simp: run_statement_def split: if_splits option.splits)
    ultimately show ?thesis by blast
  qed
qed

lemma clear_failed:
  assumes "clearLinuxKillTables h = (Some e, h')"
  shows "nh_kill h' = nh_kill h \<and> nh_legacy h' = nh_legacy h \<and> nh_rest h' = nh_rest h"
proof (cases "run_list h")
  case (Pair r h1)
  note k = run_list_keeps[OF Pair]
  show ?thesis
  proof (cases r)
    case None
    then show ?thesis using assms Pair k by (simp add: clearLinuxKillTables_def)
  next
    case (Some ts)
    let ?tr = "map DeleteTable (filter (nftTableListed ts) [killTable, legacyKillTable])"
    have "run_nft ?tr h1 = (False, h')"
      using assms Pair Some by (cases "run_nft ?tr h1"; cases "fst (run_nft ?tr h1)") (auto simp: clearLinuxKillTables_def Let_def split: if_splits)
    then show ?thesis using run_nft_failed run_nft_rest k by metis
  qed
qed

lemma replace_ok:
  assumes "run_nft ((if nftTableListed (nft_tables h) killTable then [DeleteTable killTable] else []) @ [LoadTable ruleset]) h = (True, h')" "rest_ok h"
  shows "nh_kill h' = Some ruleset"
  using run_nft_ok[OF assms(1)] listed(1)[OF assms(2)] by (auto simp: run_statement_def split: if_splits option.splits)

lemma drop_legacy: "nh_kill (snd (run_nft [DeleteTable legacyKillTable] h)) = nh_kill h" "nh_rest (snd (run_nft [DeleteTable legacyKillTable] h)) = nh_rest h"
  using listed_lines(4)
  by (auto simp: run_nft_def run_statement_def split: prod.splits if_splits option.splits dest!: next_fault_keeps)

lemma linux_Apply_ok:
  assumes "linux_Apply p e = (None, e')" "rest_ok (lx_host e)"
  shows "linux_good e' \<and> Validate p = None \<and> lx_cur e' = p"
proof -
  have v: "Validate p = None" using assms(1) by (auto simp: linux_Apply_def clonePolicy_def split: option.splits)
  show ?thesis
  proof (cases "Active p")
    case False
    then obtain h where h: "clearLinuxKillTables (lx_host e) = (None, h)" "e' = \<lparr> lx_cur = p, lx_host = h \<rparr>"
      using assms(1) v by (cases "clearLinuxKillTables (lx_host e)"; cases "fst (clearLinuxKillTables (lx_host e))")
        (auto simp: linux_Apply_def clonePolicy_def)
    then show ?thesis using clear_ok[OF h(1) assms(2)] v False by (simp add: linux_good_def enforces_def)
  next
    case True
    obtain ruleset where rs: "RenderNFT p = Inr ruleset" using v True by (simp add: RenderNFT_def)
    obtain ts h1 where l: "run_list (lx_host e) = (Some ts, h1)"
      using assms(1) v True rs by (cases "run_list (lx_host e)"; cases "fst (run_list (lx_host e))") (auto simp: linux_Apply_def clonePolicy_def)
    note k = run_list_keeps[OF l]
    have r1: "rest_ok h1" using k assms(2) by (simp add: rest_ok_def)
    let ?s = "(if nftTableListed ts killTable then [DeleteTable killTable] else []) @ [LoadTable ruleset]"
    obtain h2 where n: "run_nft ?s h1 = (True, h2)" and e': "e' = \<lparr> lx_cur = p, lx_host = snd (run_nft [DeleteTable legacyKillTable] h2) \<rparr>"
      using assms(1) v True rs l by (cases "run_nft ?s h1"; cases "fst (run_nft ?s h1)") (auto simp: linux_Apply_def clonePolicy_def)
    have "nh_kill h2 = Some ruleset" using replace_ok[of h1 ruleset h2] n k r1 by simp
    moreover have "rest_ok (lx_host e')" using run_nft_rest[OF n] r1 by (simp add: e' rest_ok_def drop_legacy)
    ultimately show ?thesis using v True rs by (simp add: linux_good_def enforces_def e' drop_legacy)
  qed
qed

lemma linux_Apply_failed:
  assumes "linux_Apply p e = (Some err, e')"
  shows "lx_cur e' = lx_cur e \<and> nh_kill (lx_host e') = nh_kill (lx_host e) \<and> nh_rest (lx_host e') = nh_rest (lx_host e)"
proof (cases "Validate p")
  case (Some x)
  then show ?thesis using assms by (simp add: linux_Apply_def clonePolicy_def)
next
  case None
  show ?thesis
  proof (cases "Active p")
    case False
    then show ?thesis using assms None
      by (cases "clearLinuxKillTables (lx_host e)"; cases "fst (clearLinuxKillTables (lx_host e))")
        (auto simp: linux_Apply_def clonePolicy_def dest!: clear_failed)
  next
    case True
    obtain ruleset where rs: "RenderNFT p = Inr ruleset" using None True by (simp add: RenderNFT_def)
    obtain r h1 where l: "run_list (lx_host e) = (r, h1)" by fastforce
    note k = run_list_keeps[OF l]
    show ?thesis
    proof (cases r)
      case None
      then show ?thesis using assms \<open>Validate p = None\<close> True rs l k by (auto simp: linux_Apply_def clonePolicy_def)
    next
      case (Some ts)
      let ?s = "(if nftTableListed ts killTable then [DeleteTable killTable] else []) @ [LoadTable ruleset]"
      obtain ok h2 where n: "run_nft ?s h1 = (ok, h2)" by fastforce
      have "\<not> ok" using assms \<open>Validate p = None\<close> True rs l Some n by (auto simp: linux_Apply_def clonePolicy_def split: bool.splits)
      then show ?thesis using assms \<open>Validate p = None\<close> True rs l Some n k run_nft_failed[of ?s h1 h2] run_nft_rest[OF n]
        by (auto simp: linux_Apply_def clonePolicy_def)
    qed
  qed
qed

lemma linux_good_current: "linux_good e \<Longrightarrow> lx_cur e' = lx_cur e \<Longrightarrow> nh_kill (lx_host e') = nh_kill (lx_host e) \<Longrightarrow>
    nh_rest (lx_host e') = nh_rest (lx_host e) \<Longrightarrow> linux_good e'"
  by (simp add: linux_good_def enforces_def rest_ok_def)

interpretation linux: enforcer linux_Apply linux_Current linux_good
proof unfold_locales
  fix g p g' assume "linux_good g" "linux_Apply p g = (None, g')"
  then show "linux_good g' \<and> Validate p = None \<and> (linux_Current g' = p \<or> \<not> Active p \<and> linux_Current g' = no_policy)"
    using linux_Apply_ok[of p g g'] by (auto simp: linux_good_def linux_Current_def clonePolicy_def)
next
  fix g p e g' assume g: "linux_good g" and a: "linux_Apply p g = (Some e, g')"
  note f = linux_Apply_failed[OF a]
  show "linux_good g' \<and> linux_Current g' \<in> {linux_Current g, p, no_policy}"
    using linux_good_current[OF g] f by (simp add: linux_Current_def clonePolicy_def)
qed

section \<open>Properties\<close>


definition lx_policy :: Policy where "lx_policy = no_policy\<lparr>po_Enabled := True, po_TunnelInterface := ''u''\<rparr>"

text \<open>A predecessor's table is on the host.\<close>

definition lx_start :: LinuxEnforcer where
  "lx_start = \<lparr> lx_cur = no_policy, lx_host = \<lparr> nh_kill = Some ''old'', nh_legacy = None, nh_rest = [], nh_faults = [] \<rparr> \<rparr>"

lemma lx_applied: "fst (linux_Apply lx_policy lx_start) = None"
  by code_simp


end
