(* ===== verification/NG_Darwin.thy ===== *)
theory NG_Darwin
  imports NG_Enforcer
begin

text \<open>
  The pf enforcer, the macOS half of \<open>internal/netguard/enforcer_real.go\<close>. Its state is the process
  (\<open>cur\<close>, \<open>weEnabledPf\<close>, \<open>quarantined\<close>) and the host: the rules pf has loaded, whether pf is on, and
  the files of \<open>/var/run\<close>. Every command and file call takes the next outcome: it works, it fails
  without effect, it fails after its effect, or the process is killed before it. A load that fails
  leaves the rules alone (pf swaps rule sets in one transaction) and a file that is not there is
  reported as such.
\<close>

section \<open>The host\<close>

datatype outcome = Done | Failed | FailedAfter | Killed

datatype pf_path = KillSwitchMarker | LegacyMarker | EnabledMarker | EmergencyMarker | QuarantineJournal | TempFile string

record DarwinEnforcer =
  de_cur :: Policy
  de_weEnabledPf :: bool
  de_quarantined :: bool
  de_rules :: "string option"
  de_enabled :: bool
  de_files :: "(pf_path, string) gomap"
  de_fresh :: nat
  de_outcomes :: "outcome list"

text \<open>An operation gives a value, or \<open>None\<close> if the process was killed.\<close>

type_synonym 'a pf_op = "DarwinEnforcer \<Rightarrow> 'a option \<times> DarwinEnforcer"

definition pf_ret :: "'a \<Rightarrow> 'a pf_op" where "pf_ret a s = (Some a, s)"

definition pf_bind :: "'a pf_op \<Rightarrow> ('a \<Rightarrow> 'b pf_op) \<Rightarrow> 'b pf_op" where
  "pf_bind m k s = (case m s of (None, s') \<Rightarrow> (None, s') | (Some a, s') \<Rightarrow> k a s')"

definition pf_modify :: "(DarwinEnforcer \<Rightarrow> DarwinEnforcer) \<Rightarrow> unit pf_op" where "pf_modify f s = (Some (), f s)"

definition pf_read :: "(DarwinEnforcer \<Rightarrow> 'a) \<Rightarrow> 'a pf_op" where "pf_read f s = (Some (f s), s)"

definition pf_outcome :: "outcome pf_op" where
  "pf_outcome s =
     (case de_outcomes s of [] \<Rightarrow> (Some Done, s)
      | out # rest \<Rightarrow> (if out = Killed then None else Some out, s\<lparr>de_outcomes := rest\<rparr>))"

text \<open>A call without an effect the model tracks.\<close>

definition pf_step :: "bool pf_op" where
  "pf_step = pf_bind pf_outcome (\<lambda>out. pf_ret (out = Done))"

text \<open>A call with an effect: it happens when the call works, and when it fails after it.\<close>

definition pf_effect :: "bool \<Rightarrow> (DarwinEnforcer \<Rightarrow> DarwinEnforcer) \<Rightarrow> bool pf_op" where
  "pf_effect may_fail_after f = pf_bind pf_outcome (\<lambda>out.
     if out = Done then pf_bind (pf_modify f) (\<lambda>_. pf_ret True)
     else if out = FailedAfter \<and> may_fail_after then pf_bind (pf_modify f) (\<lambda>_. pf_ret False)
     else pf_ret False)"

section \<open>Commands\<close>

datatype pf_status = PfDisabled | PfEnabled | PfUnrecognized

definition pfctl_info :: "pf_status option pf_op" where
  "pfctl_info = pf_bind pf_outcome (\<lambda>out. pf_bind (pf_read de_enabled) (\<lambda>on.
     pf_ret (case out of Done \<Rightarrow> Some (if on then PfEnabled else PfDisabled) | FailedAfter \<Rightarrow> Some PfUnrecognized | _ \<Rightarrow> None)))"

definition pfctl_enable :: "bool pf_op" where "pfctl_enable = pf_effect True (\<lambda>s. s\<lparr>de_enabled := True\<rparr>)"
definition pfctl_disable :: "bool pf_op" where "pfctl_disable = pf_effect True (\<lambda>s. s\<lparr>de_enabled := False\<rparr>)"
definition pfctl_load_system :: "bool pf_op" where "pfctl_load_system = pf_effect False (\<lambda>s. s\<lparr>de_rules := None\<rparr>)"

text \<open>The rules of a temporary file.\<close>

definition pfctl_load :: "string \<Rightarrow> bool pf_op" where
  "pfctl_load temp = pf_bind (pf_read (\<lambda>s. map_of (de_files s) (TempFile temp))) (\<lambda>text.
     case text of None \<Rightarrow> pf_ret False | Some rules \<Rightarrow> pf_effect False (\<lambda>s. s\<lparr>de_rules := Some rules\<rparr>))"

section \<open>Files\<close>

definition file_put :: "pf_path \<Rightarrow> string \<Rightarrow> DarwinEnforcer \<Rightarrow> DarwinEnforcer" where
  "file_put path text s = s\<lparr>de_files := AList.update path text (de_files s)\<rparr>"

definition file_drop :: "pf_path \<Rightarrow> DarwinEnforcer \<Rightarrow> DarwinEnforcer" where
  "file_drop path s = s\<lparr>de_files := AList.delete path (de_files s)\<rparr>"

definition temp_name :: "nat \<Rightarrow> string" where "temp_name n = ''.ratelmesh-netguard-'' @ itoa n"

definition create_temp :: "string option pf_op" where
  "create_temp = pf_bind pf_step (\<lambda>ok.
     if \<not> ok then pf_ret None
     else pf_bind (pf_read (\<lambda>s. temp_name (de_fresh s))) (\<lambda>temp.
       pf_bind (pf_modify (\<lambda>s. file_put (TempFile temp) [] (s\<lparr>de_fresh := Suc (de_fresh s)\<rparr>))) (\<lambda>_. pf_ret (Some temp))))"

definition removeIfExists :: "pf_path \<Rightarrow> bool pf_op" where
  "removeIfExists path = pf_effect False (file_drop path)"

text \<open>After a failure the temporary file is closed and removed, the outcome of that is ignored.\<close>

definition give_up :: "string \<Rightarrow> string option pf_op" where
  "give_up temp = pf_bind (removeIfExists (TempFile temp)) (\<lambda>_. pf_ret None)"

definition writeCandidateFile :: "string \<Rightarrow> string option pf_op" where
  "writeCandidateFile data = pf_bind create_temp (\<lambda>temp.
     case temp of None \<Rightarrow> pf_ret None | Some temp \<Rightarrow>
     pf_bind pf_step (\<lambda>chmod. if \<not> chmod then give_up temp else
     pf_bind (pf_effect False (file_put (TempFile temp) data)) (\<lambda>wrote. if \<not> wrote then give_up temp else
     pf_bind pf_step (\<lambda>synced. if \<not> synced then give_up temp else
     pf_bind pf_step (\<lambda>closed. if \<not> closed then give_up temp else pf_ret (Some temp))))))"

text \<open>\<open>Commit\<close>: whether the candidate replaced the path, and whether all of it worked.\<close>

definition Commit :: "string \<Rightarrow> pf_path \<Rightarrow> (bool \<times> bool) pf_op" where
  "Commit candidate path = pf_bind (pf_read (\<lambda>s. map_of (de_files s) (TempFile candidate))) (\<lambda>text.
     case text of None \<Rightarrow> pf_ret (False, False) | Some text \<Rightarrow>
     pf_bind (pf_effect False (\<lambda>s. file_put path text (file_drop (TempFile candidate) s))) (\<lambda>renamed.
     if \<not> renamed then pf_ret (False, False)
     else pf_bind pf_step (\<lambda>opened. if \<not> opened then pf_ret (True, False)
     else pf_bind pf_step (\<lambda>synced. pf_ret (True, synced)))))"

definition writeFileAtomic :: "pf_path \<Rightarrow> string \<Rightarrow> (bool \<times> bool) pf_op" where
  "writeFileAtomic path data = pf_bind (writeCandidateFile data) (\<lambda>candidate.
     case candidate of None \<Rightarrow> pf_ret (False, False) | Some candidate \<Rightarrow>
     pf_bind (Commit candidate path) (\<lambda>result. pf_bind (removeIfExists (TempFile candidate)) (\<lambda>_. pf_ret result)))"

datatype read_result = NotExist | ReadFailed | Content string

definition read_file :: "pf_path \<Rightarrow> read_result pf_op" where
  "read_file path = pf_bind pf_outcome (\<lambda>out. pf_bind (pf_read (\<lambda>s. map_of (de_files s) path)) (\<lambda>text.
     pf_ret (case text of None \<Rightarrow> NotExist | Some t \<Rightarrow> if out = Done then Content t else ReadFailed)))"

definition file_exists :: "pf_path \<Rightarrow> bool pf_op" where
  "file_exists path = pf_bind (read_file path) (\<lambda>r. pf_ret (case r of Content _ \<Rightarrow> True | _ \<Rightarrow> False))"

text \<open>\<open>backupMarkerFile\<close>: an error, no marker, or a copy of it.\<close>

definition backupMarkerFile :: "pf_path \<Rightarrow> (unit + string option) pf_op" where
  "backupMarkerFile path = pf_bind (read_file path) (\<lambda>info.
     case info of NotExist \<Rightarrow> pf_ret (Inr None) | ReadFailed \<Rightarrow> pf_ret (Inl ()) | Content c \<Rightarrow>
     if 2 ^ 20 < length c then pf_ret (Inl ())
     else pf_bind (read_file path) (\<lambda>data.
       case data of Content d \<Rightarrow> pf_bind (writeCandidateFile d) (\<lambda>copy.
          pf_ret (case copy of None \<Rightarrow> Inl () | Some b \<Rightarrow> Inr (Some b)))
       | _ \<Rightarrow> pf_ret (Inl ())))"

definition writeMarkerInPlace :: "pf_path \<Rightarrow> string \<Rightarrow> bool pf_op" where
  "writeMarkerInPlace path phase = pf_bind (pf_read (\<lambda>s. map_has (de_files s) path)) (\<lambda>there.
     if \<not> there then pf_ret False
     else pf_bind (pf_effect False (file_put path [])) (\<lambda>opened. if \<not> opened then pf_ret False
     else pf_bind (pf_effect False (file_put path phase)) (\<lambda>wrote. if \<not> wrote then pf_ret False
     else pf_bind pf_step (\<lambda>synced. if \<not> synced then pf_ret False else pf_step))))"

section \<open>Ownership\<close>

definition pfOwnershipIntent :: string where "pfOwnershipIntent = ''intent'' @ newline"
definition pfOwnershipEnabled :: string where "pfOwnershipEnabled = ''enabled'' @ newline"
definition pfOwnershipCancelled :: string where "pfOwnershipCancelled = ''cancelled'' @ newline"

definition pfOwnershipPhase :: "string pf_op" where
  "pfOwnershipPhase = pf_bind (read_file EnabledMarker) (\<lambda>r.
     pf_ret (case r of NotExist \<Rightarrow> [] | ReadFailed \<Rightarrow> pfOwnershipEnabled
       | Content c \<Rightarrow> if c = pfOwnershipIntent then pfOwnershipIntent
           else if c = pfOwnershipCancelled then pfOwnershipCancelled else pfOwnershipEnabled))"

definition pfEnabledByUsPreviously :: "bool pf_op" where
  "pfEnabledByUsPreviously = pf_bind pfOwnershipPhase (\<lambda>phase. pf_ret (phase = pfOwnershipEnabled \<or> phase = pfOwnershipIntent))"

text \<open>The journal names a quarantined candidate.\<close>

definition quarantinedCandidate :: "string option pf_op" where
  "quarantinedCandidate = pf_bind (read_file QuarantineJournal) (\<lambda>r.
     pf_ret (case r of Content data \<Rightarrow>
        (let base = trim_suffix data newline in
         if length data = 0 \<or> 256 < length data then None
         else if \<not> has_prefix base ''.ratelmesh-netguard-'' \<or> path_base base \<noteq> base then None else Some base)
       | _ \<Rightarrow> None))"

definition writeQuarantineJournal :: "string \<Rightarrow> bool pf_op" where
  "writeQuarantineJournal base =
     (if \<not> has_prefix base ''.ratelmesh-netguard-'' \<or> contains_any base [CHR ''/'', CHR 0x5C] then pf_ret False
      else pf_bind pf_step (\<lambda>inspected. if \<not> inspected then pf_ret False
      else pf_bind (pf_effect False (file_put QuarantineJournal [])) (\<lambda>opened. if \<not> opened then pf_ret False
      else pf_bind (pf_effect False (file_put QuarantineJournal (base @ newline))) (\<lambda>wrote. if \<not> wrote then pf_ret False
      else pf_bind pf_step (\<lambda>synced. if \<not> synced then pf_ret False
      else pf_bind pf_step (\<lambda>closed. if \<not> closed then pf_ret False
      else pf_bind pf_step (\<lambda>dir. if \<not> dir then pf_ret False else pf_step)))))))"

section \<open>Clearing\<close>

datatype de_error =
    DePolicy ng_error | DeCandidate | DeSnapshot | DeStatus | DeUnrecognizedStatus | DeIntent | DeEnable | DeEnableAndDisable
  | DeEnablePersistence | DeEnableCleanup | DeOwnership | DeOwnershipAndDisable | DeOwnershipCleanup | DeLoad | DeCommit
  | DeRollbackMarker | DeRollbackRemove | DeQuarantineJournaled | DeQuarantined
  | DeRestoreRules | DeDisableOwned | DeRemoveMarker | DeRemoveQuarantined | DeRemoveJournal

text \<open>The tests of \<open>needsRestoreLocked\<close> are evaluated from left to right until one holds.\<close>

fun first_true :: "bool pf_op list \<Rightarrow> bool pf_op" where
  "first_true [] = pf_ret False"
| "first_true (m # ms) = pf_bind m (\<lambda>b. if b then pf_ret True else first_true ms)"

definition needsRestoreLocked :: "bool pf_op" where
  "needsRestoreLocked = first_true
     [pf_read (\<lambda>s. Active (de_cur s)), file_exists KillSwitchMarker, file_exists LegacyMarker, pf_read de_weEnabledPf,
      file_exists EnabledMarker, file_exists EmergencyMarker, file_exists QuarantineJournal, pf_read de_quarantined]"

fun remove_markers :: "pf_path list \<Rightarrow> bool pf_op" where
  "remove_markers [] = pf_ret True"
| "remove_markers (p # ps) = pf_bind (removeIfExists p) (\<lambda>ok. if ok then remove_markers ps else pf_ret False)"

definition set_cur :: "Policy \<Rightarrow> unit pf_op" where "set_cur p = pf_modify (\<lambda>s. s\<lparr>de_cur := p\<rparr>)"
definition set_owned :: "bool \<Rightarrow> unit pf_op" where "set_owned b = pf_modify (\<lambda>s. s\<lparr>de_weEnabledPf := b\<rparr>)"
definition set_quarantined :: "bool \<Rightarrow> unit pf_op" where "set_quarantined b = pf_modify (\<lambda>s. s\<lparr>de_quarantined := b\<rparr>)"

text \<open>Turn pf off if it is owned; \<open>False\<close> if that fails.\<close>

definition release_pf :: "bool pf_op" where
  "release_pf = pf_bind (pf_read de_weEnabledPf) (\<lambda>mine. pf_bind (if mine then pf_ret True else pfEnabledByUsPreviously) (\<lambda>owned.
     if \<not> owned then pf_ret True
     else pf_bind pfctl_disable (\<lambda>ok. if \<not> ok then pf_ret False else pf_bind (set_owned False) (\<lambda>_. pf_ret True))))"

definition restoreLocked :: "de_error option pf_op" where
  "restoreLocked = pf_bind pfctl_load_system (\<lambda>restored. if \<not> restored then pf_ret (Some DeRestoreRules)
     else pf_bind (set_cur no_policy) (\<lambda>_. pf_bind release_pf (\<lambda>released. if \<not> released then pf_ret (Some DeDisableOwned)
     else pf_bind (remove_markers [EnabledMarker, KillSwitchMarker, LegacyMarker, EmergencyMarker]) (\<lambda>removed.
       if \<not> removed then pf_ret (Some DeRemoveMarker)
     else pf_bind quarantinedCandidate (\<lambda>candidate.
       pf_bind (case candidate of None \<Rightarrow> pf_ret True | Some c \<Rightarrow> removeIfExists (TempFile c)) (\<lambda>dropped.
       if \<not> dropped then pf_ret (Some DeRemoveQuarantined)
     else pf_bind (removeIfExists QuarantineJournal) (\<lambda>journal. if \<not> journal then pf_ret (Some DeRemoveJournal)
     else pf_bind (set_quarantined False) (\<lambda>_. pf_ret None))))))))"

definition darwin_Clear :: "de_error option pf_op" where
  "darwin_Clear = pf_bind needsRestoreLocked (\<lambda>needed. pf_bind (if needed then restoreLocked else pf_ret None) (\<lambda>err.
     case err of Some e \<Rightarrow> pf_ret (Some e) | None \<Rightarrow> pf_bind (set_cur no_policy) (\<lambda>_. pf_ret None)))"

section \<open>Applying\<close>

text \<open>After a failed \<open>pfctl -E\<close>: switch pf off again, whatever it did.\<close>

definition compensate_enable :: "de_error pf_op" where
  "compensate_enable = pf_bind pfctl_disable (\<lambda>disabled.
     if \<not> disabled then
       pf_bind (set_owned True) (\<lambda>_. pf_bind (writeMarkerInPlace EnabledMarker pfOwnershipEnabled) (\<lambda>written.
       pf_ret (if written then DeEnableAndDisable else DeEnablePersistence)))
     else pf_bind (set_owned False) (\<lambda>_. pf_bind (writeMarkerInPlace EnabledMarker pfOwnershipCancelled) (\<lambda>_.
       pf_bind (removeIfExists EnabledMarker) (\<lambda>removed. pf_ret (if removed then DeEnable else DeEnableCleanup)))))"

text \<open>After \<open>pfctl -E\<close> worked but the ownership could not be recorded.\<close>

definition compensate_ownership :: "bool \<Rightarrow> de_error pf_op" where
  "compensate_ownership renamed = pf_bind pfctl_disable (\<lambda>disabled.
     if \<not> disabled then
       pf_bind (if renamed then pf_ret True else writeMarkerInPlace EnabledMarker pfOwnershipEnabled) (\<lambda>_. pf_ret DeOwnershipAndDisable)
     else pf_bind (set_owned False) (\<lambda>_.
       pf_bind (if renamed then writeMarkerInPlace EnabledMarker pfOwnershipCancelled else pf_ret True) (\<lambda>_.
       pf_bind (removeIfExists EnabledMarker) (\<lambda>removed. pf_ret (if removed then DeOwnership else DeOwnershipCleanup)))))"

definition cancel_intent :: "unit pf_op" where
  "cancel_intent = pf_bind (writeMarkerInPlace EnabledMarker pfOwnershipCancelled) (\<lambda>_.
     pf_bind (removeIfExists EnabledMarker) (\<lambda>_. pf_ret ()))"

definition enable_pf :: "de_error option pf_op" where
  "enable_pf = pf_bind (writeFileAtomic EnabledMarker pfOwnershipIntent) (\<lambda>(intentRenamed, intentOk).
     if \<not> intentOk then pf_bind (if intentRenamed then cancel_intent else pf_ret ()) (\<lambda>_. pf_ret (Some DeIntent))
     else pf_bind pfctl_enable (\<lambda>on.
       if \<not> on then pf_bind compensate_enable (\<lambda>e. pf_ret (Some e))
       else pf_bind (set_owned True) (\<lambda>_. pf_bind (writeFileAtomic EnabledMarker pfOwnershipEnabled) (\<lambda>(renamed, ok).
         if \<not> ok then pf_bind (compensate_ownership renamed) (\<lambda>e. pf_ret (Some e)) else pf_ret None))))"

text \<open>The marker commit failed: roll back, or keep what is live and own it. The flag keeps the candidate.\<close>

definition roll_back :: "Policy \<Rightarrow> string \<Rightarrow> string option \<Rightarrow> bool \<Rightarrow> (de_error option \<times> bool) pf_op" where
  "roll_back p candidate backup renamed =
     pf_bind (case backup of Some b \<Rightarrow> pfctl_load b | None \<Rightarrow> pfctl_load_system) (\<lambda>rolledBack.
     if rolledBack then
       (case backup of
          Some b \<Rightarrow>
            if renamed then pf_bind (Commit b KillSwitchMarker) (\<lambda>(again, ok).
              pf_ret (Some (if \<not> ok \<and> \<not> again then DeRollbackMarker else DeCommit), False))
            else pf_ret (Some DeCommit, False)
        | None \<Rightarrow>
            if renamed then pf_bind (removeIfExists KillSwitchMarker) (\<lambda>removed.
              if \<not> removed then pf_bind (set_cur no_policy) (\<lambda>_. pf_ret (Some DeRollbackRemove, False))
              else pf_ret (Some DeCommit, False))
            else pf_ret (Some DeCommit, False))
     else if renamed then pf_bind (set_cur p) (\<lambda>_. pf_ret (None, False))
     else pf_bind (Commit candidate EmergencyMarker) (\<lambda>(emergencyRenamed, emergencyOk).
       pf_bind (set_cur p) (\<lambda>_.
       if emergencyOk \<or> emergencyRenamed then pf_ret (None, False)
       else pf_bind (writeQuarantineJournal candidate) (\<lambda>journaled.
         pf_bind (set_quarantined True) (\<lambda>_.
         if journaled then pf_ret (Some DeQuarantineJournaled, True) else pf_ret (Some DeQuarantined, False))))))"

definition load_rules :: "Policy \<Rightarrow> string \<Rightarrow> string option \<Rightarrow> (de_error option \<times> bool) pf_op" where
  "load_rules p candidate backup = pf_bind (pfctl_load candidate) (\<lambda>loaded.
     if \<not> loaded then pf_ret (Some DeLoad, False)
     else pf_bind (Commit candidate KillSwitchMarker) (\<lambda>(renamed, ok).
       if \<not> ok then roll_back p candidate backup renamed
       else pf_bind (removeIfExists LegacyMarker) (\<lambda>_. pf_bind (set_cur p) (\<lambda>_. pf_ret (None, False)))))"

definition install_rules :: "Policy \<Rightarrow> string \<Rightarrow> string option \<Rightarrow> (de_error option \<times> bool) pf_op" where
  "install_rules p candidate backup = pf_bind pfctl_info (\<lambda>status.
     case status of
       None \<Rightarrow> pf_ret (Some DeStatus, False)
     | Some PfUnrecognized \<Rightarrow> pf_ret (Some DeUnrecognizedStatus, False)
     | Some PfEnabled \<Rightarrow> load_rules p candidate backup
     | Some PfDisabled \<Rightarrow> pf_bind enable_pf (\<lambda>err. case err of Some e \<Rightarrow> pf_ret (Some e, False) | None \<Rightarrow> load_rules p candidate backup))"

text \<open>With the deferred removals of the backup and of the candidate.\<close>

definition darwin_Apply :: "Policy \<Rightarrow> de_error option pf_op" where
  "darwin_Apply p0 =
    (let p = clonePolicy p0 in
     case Validate p of Some e \<Rightarrow> pf_ret (Some (DePolicy e)) | None \<Rightarrow>
     if \<not> Active p then
       pf_bind needsRestoreLocked (\<lambda>needed. pf_bind (if needed then restoreLocked else pf_ret None) (\<lambda>err.
       case err of Some e \<Rightarrow> pf_ret (Some e) | None \<Rightarrow> pf_bind (set_cur p) (\<lambda>_. pf_ret None)))
     else case RenderPF p of Inl e \<Rightarrow> pf_ret (Some (DePolicy e)) | Inr ruleset \<Rightarrow>
     pf_bind (writeCandidateFile ruleset) (\<lambda>candidate.
     case candidate of None \<Rightarrow> pf_ret (Some DeCandidate) | Some candidate \<Rightarrow>
     pf_bind (backupMarkerFile KillSwitchMarker) (\<lambda>backup.
     case backup of
       Inl _ \<Rightarrow> pf_bind (removeIfExists (TempFile candidate)) (\<lambda>_. pf_ret (Some DeSnapshot))
     | Inr backup \<Rightarrow>
         pf_bind (install_rules p candidate backup) (\<lambda>(err, keep).
         pf_bind (case backup of Some b \<Rightarrow> removeIfExists (TempFile b) | None \<Rightarrow> pf_ret True) (\<lambda>_.
         pf_bind (if keep then pf_ret True else removeIfExists (TempFile candidate)) (\<lambda>_. pf_ret err))))))"

definition darwin_Current :: "DarwinEnforcer \<Rightarrow> Policy" where "darwin_Current s = clonePolicy (de_cur s)"

text \<open>A new process starts with no memory of the old one.\<close>

definition darwin_restart :: "DarwinEnforcer \<Rightarrow> DarwinEnforcer" where
  "darwin_restart s = s\<lparr>de_cur := no_policy, de_weEnabledPf := False, de_quarantined := False\<rparr>"

section \<open>Reasoning about calls that may be cut short\<close>

text \<open>From \<open>P\<close>, the operation ends in \<open>Q\<close>, or the process is killed in \<open>R\<close>.\<close>

definition triple :: "(DarwinEnforcer \<Rightarrow> bool) \<Rightarrow> 'a pf_op \<Rightarrow> ('a \<Rightarrow> DarwinEnforcer \<Rightarrow> bool) \<Rightarrow> (DarwinEnforcer \<Rightarrow> bool) \<Rightarrow> bool" where
  "triple P m Q R \<longleftrightarrow> (\<forall>s. P s \<longrightarrow> (case m s of (None, s') \<Rightarrow> R s' | (Some a, s') \<Rightarrow> Q a s'))"

named_theorems pf_intros \<open>rules that take an operation apart\<close>

lemma triple_ret: "(\<And>s. P s \<Longrightarrow> Q a s) \<Longrightarrow> triple P (pf_ret a) Q R"
  by (simp add: triple_def pf_ret_def)

lemma triple_bind: "triple P m Q R \<Longrightarrow> (\<And>a. triple (Q a) (k a) Q' R) \<Longrightarrow> triple P (pf_bind m k) Q' R"
  by (fastforce simp: triple_def pf_bind_def split: prod.splits option.splits)

text \<open>For an invariant the rules leave nothing open.\<close>

lemma keep_ret [pf_intros]: "triple I (pf_ret a) (\<lambda>_. I) R"
  by (rule triple_ret)

lemma keep_bind [pf_intros]: "triple I m (\<lambda>_. I) I \<Longrightarrow> (\<And>a. triple I (k a) (\<lambda>_. I) I) \<Longrightarrow> triple I (pf_bind m k) (\<lambda>_. I) I"
  by (rule triple_bind)

lemma triple_pre: "triple P m Q R \<Longrightarrow> (\<And>s. P' s \<Longrightarrow> P s) \<Longrightarrow> triple P' m Q R"
  by (simp add: triple_def)

lemma triple_post: "triple P m Q R \<Longrightarrow> (\<And>a s. Q a s \<Longrightarrow> Q' a s) \<Longrightarrow> triple P m Q' R"
  by (fastforce simp: triple_def split: prod.splits option.splits)

lemma triple_conseq:
  "triple P m Q R \<Longrightarrow> (\<And>s. P' s \<Longrightarrow> P s) \<Longrightarrow> (\<And>a s. Q a s \<Longrightarrow> Q' a s) \<Longrightarrow> (\<And>s. R s \<Longrightarrow> R' s) \<Longrightarrow> triple P' m Q' R'"
  by (fastforce simp: triple_def split: prod.splits option.splits)

lemma triple_if [pf_intros]: "(b \<Longrightarrow> triple P m Q R) \<Longrightarrow> (\<not> b \<Longrightarrow> triple P n Q R) \<Longrightarrow> triple P (if b then m else n) Q R"
  by simp

lemma triple_option [pf_intros]:
  "(x = None \<Longrightarrow> triple P m Q R) \<Longrightarrow> (\<And>a. x = Some a \<Longrightarrow> triple P (k a) Q R) \<Longrightarrow> triple P (case x of None \<Rightarrow> m | Some a \<Rightarrow> k a) Q R"
  by (cases x) simp_all

lemma triple_pair [pf_intros]: "(\<And>a b. x = (a, b) \<Longrightarrow> triple P (k a b) Q R) \<Longrightarrow> triple P (case x of (a, b) \<Rightarrow> k a b) Q R"
  by (cases x) simp

text \<open>What the ownership of pf depends on.\<close>

locale pf_frame =
  fixes J :: "bool \<Rightarrow> bool \<Rightarrow> string option \<Rightarrow> string option \<Rightarrow> bool"
begin

definition inv :: "DarwinEnforcer \<Rightarrow> bool" where
  "inv s \<longleftrightarrow> J (de_enabled s) (de_weEnabledPf s) (map_of (de_files s) EnabledMarker) (de_rules s)"

abbreviation keeps :: "'a pf_op \<Rightarrow> bool" where "keeps m \<equiv> triple inv m (\<lambda>_. inv) inv"

lemma keeps_outcome [pf_intros]: "keeps pf_outcome"
  unfolding triple_def by (simp add: pf_outcome_def inv_def split: list.splits)

lemma keeps_read [pf_intros]: "keeps (pf_read f)"
  by (simp add: triple_def pf_read_def)

lemma keeps_modify: "(\<And>s. inv s \<Longrightarrow> inv (f s)) \<Longrightarrow> keeps (pf_modify f)"
  by (simp add: triple_def pf_modify_def)

lemma keeps_step [pf_intros]: "keeps pf_step"
  unfolding pf_step_def by (rule pf_intros | assumption)+

lemma keeps_effect: "(\<And>s. inv s \<Longrightarrow> inv (f s)) \<Longrightarrow> keeps (pf_effect b f)"
  unfolding pf_effect_def by (rule pf_intros keeps_modify | assumption | simp)+

lemma inv_put: "p \<noteq> EnabledMarker \<Longrightarrow> inv (file_put p c s) = inv s"
  by (simp add: inv_def file_put_def)

lemma inv_drop: "p \<noteq> EnabledMarker \<Longrightarrow> inv (file_drop p s) = inv s"
  by (simp add: inv_def file_drop_def)

lemma inv_fresh: "inv (s\<lparr>de_fresh := n\<rparr>) = inv s"
  by (simp add: inv_def)

lemma keeps_put [pf_intros]: "p \<noteq> EnabledMarker \<Longrightarrow> keeps (pf_effect b (file_put p c))"
  by (rule keeps_effect) (simp add: inv_put)

lemma keeps_remove [pf_intros]: "p \<noteq> EnabledMarker \<Longrightarrow> keeps (removeIfExists p)"
  unfolding removeIfExists_def by (rule keeps_effect) (simp add: inv_drop)

lemma keeps_cur [pf_intros]: "keeps (set_cur p)" "keeps (set_quarantined b)"
  unfolding set_cur_def set_quarantined_def by (rule keeps_modify; simp add: inv_def)+

lemma keeps_create [pf_intros]: "keeps create_temp"
  unfolding create_temp_def by (rule pf_intros keeps_modify | assumption | simp add: inv_put inv_fresh)+

lemma keeps_give_up [pf_intros]: "keeps (give_up t)"
  unfolding give_up_def by (rule pf_intros | assumption | simp)+

lemma keeps_candidate [pf_intros]: "keeps (writeCandidateFile data)"
  unfolding writeCandidateFile_def by (rule pf_intros | assumption | simp)+

lemma keeps_commit [pf_intros]: "p \<noteq> EnabledMarker \<Longrightarrow> keeps (Commit candidate p)"
  unfolding Commit_def by (rule pf_intros keeps_effect | assumption | simp add: inv_put inv_drop)+

lemma keeps_read_file [pf_intros]: "keeps (read_file p)"
  unfolding read_file_def by (rule pf_intros | assumption)+

lemma keeps_exists [pf_intros]: "keeps (file_exists p)"
  unfolding file_exists_def by (rule pf_intros | assumption)+

lemma keeps_first_true: "(\<And>m. m \<in> set ms \<Longrightarrow> keeps m) \<Longrightarrow> keeps (first_true ms)"
proof (induction ms)
  case Nil
  show ?case unfolding first_true.simps by (rule pf_intros | assumption)+
next
  case (Cons m ms)
  have k: "keeps m" "keeps (first_true ms)" by (rule Cons.prems, simp) (rule Cons.IH, simp add: Cons.prems)
  show ?case unfolding first_true.simps by (rule k pf_intros | assumption)+
qed

lemma keeps_remove_markers:
  "(\<And>p. p \<in> set ps \<Longrightarrow> keeps (removeIfExists p)) \<Longrightarrow> keeps (remove_markers ps)"
proof (induction ps)
  case Nil
  show ?case unfolding remove_markers.simps by (rule pf_intros | assumption)+
next
  case (Cons p ps)
  have k: "keeps (removeIfExists p)" "keeps (remove_markers ps)" by (rule Cons.prems, simp) (rule Cons.IH, simp add: Cons.prems)
  show ?case unfolding remove_markers.simps by (rule k pf_intros | assumption)+
qed

lemma keeps_needs_restore [pf_intros]: "keeps needsRestoreLocked"
  unfolding needsRestoreLocked_def
  by (rule keeps_first_true) (auto intro: keeps_read keeps_exists)

lemma keeps_quarantined [pf_intros]: "keeps quarantinedCandidate"
  unfolding quarantinedCandidate_def by (rule pf_intros | assumption)+

lemma keeps_backup [pf_intros]: "keeps (backupMarkerFile path)"
proof -
  have r: "(x = NotExist \<Longrightarrow> triple P a Q R) \<Longrightarrow> (x = ReadFailed \<Longrightarrow> triple P b Q R) \<Longrightarrow> (\<And>c. x = Content c \<Longrightarrow> triple P (k c) Q R) \<Longrightarrow>
      triple P (case x of NotExist \<Rightarrow> a | ReadFailed \<Rightarrow> b | Content c \<Rightarrow> k c) Q R" for x P Q R and a b :: "'b pf_op" and k
    by (cases x) simp_all
  show ?thesis
    unfolding backupMarkerFile_def by (rule pf_intros r | assumption)+
qed

text \<open>Writing the ownership marker, for invariants that allow the new content.\<close>

lemma keeps_mark:
  "(\<And>e w m r. J e w m r \<Longrightarrow> J e w (Some c) r) \<Longrightarrow> keeps (pf_effect b (file_put EnabledMarker c))"
  by (rule keeps_effect) (simp add: inv_def file_put_def)

lemma keeps_mark_in_place:
  assumes "\<And>e w m r. J e w m r \<Longrightarrow> J e w (Some []) r" "\<And>e w m r. J e w m r \<Longrightarrow> J e w (Some c) r"
  shows "keeps (writeMarkerInPlace EnabledMarker c)"
  unfolding writeMarkerInPlace_def by (rule pf_intros keeps_mark[OF assms(1)] keeps_mark[OF assms(2)] | assumption)+

lemma keeps_unmark: "(\<And>e w m r. J e w m r \<Longrightarrow> J e w None r) \<Longrightarrow> keeps (removeIfExists EnabledMarker)"
  unfolding removeIfExists_def by (rule keeps_effect) (simp add: inv_def file_drop_def)

lemma keeps_owned: "(\<And>e w m r. J e w m r \<Longrightarrow> J e b m r) \<Longrightarrow> keeps (set_owned b)"
  unfolding set_owned_def by (rule keeps_modify) (simp add: inv_def)

text \<open>A finished candidate holds the data.\<close>

definition holds :: "string \<Rightarrow> string option \<Rightarrow> DarwinEnforcer \<Rightarrow> bool" where
  "holds data c s \<longleftrightarrow> inv s \<and> (\<forall>temp. c = Some temp \<longrightarrow> map_of (de_files s) (TempFile temp) = Some data)"

lemma candidate_holds: "triple inv (writeCandidateFile data) (holds data) inv"
proof -
  have out: "triple (holds data c) pf_step (\<lambda>_. holds data c) inv" for c
    by (auto simp: triple_def pf_step_def pf_bind_def pf_outcome_def pf_ret_def holds_def inv_def split: list.splits)
  have wr: "triple inv (pf_effect False (file_put (TempFile t) data)) (\<lambda>ok. if ok then holds data (Some t) else inv) inv" for t
    by (auto simp: triple_def pf_effect_def pf_bind_def pf_outcome_def pf_ret_def pf_modify_def holds_def inv_def file_put_def split: list.splits)
  have none': "triple inv (give_up t) (\<lambda>r. holds data r) inv" for t
    by (auto simp: give_up_def triple_def pf_bind_def removeIfExists_def pf_effect_def pf_outcome_def pf_ret_def pf_modify_def inv_def holds_def
        file_drop_def split: list.splits)
  have none: "triple (holds data c) (give_up t) (\<lambda>r. holds data r) inv" for t c
    by (rule triple_pre[OF none']) (simp add: holds_def)
  show ?thesis
    unfolding writeCandidateFile_def
    apply (rule triple_bind[OF keeps_create])
    apply (rule triple_option)
     apply (rule triple_ret, simp add: holds_def)
    apply (rule triple_bind[OF keeps_step], rule triple_if[OF none'])
    apply (rule triple_bind[OF wr], rule triple_if)
     apply (rule triple_pre[OF none'], simp)
    apply (simp only: not_not if_True)
    apply (rule triple_bind[OF out], rule triple_if[OF none])
    apply (rule triple_bind[OF out], rule triple_if[OF none])
    apply (rule triple_ret, simp)
    done
qed

lemma commit_mark:
  assumes "\<And>e w m r. J e w m r \<Longrightarrow> J e w (Some data) r"
  shows "triple (holds data (Some temp)) (Commit temp EnabledMarker) (\<lambda>(renamed, ok) s. inv s \<and> (ok \<longrightarrow> map_of (de_files s) EnabledMarker = Some data)) inv"
  using assms
  by (auto simp: triple_def Commit_def pf_bind_def pf_read_def pf_effect_def pf_outcome_def pf_ret_def pf_modify_def pf_step_def holds_def inv_def
      file_drop_def file_put_def split: list.splits if_splits)

lemma mark_atomic:
  assumes "\<And>e w m r. J e w m r \<Longrightarrow> J e w (Some data) r"
  shows "triple inv (writeFileAtomic EnabledMarker data) (\<lambda>(renamed, ok) s. inv s \<and> (ok \<longrightarrow> map_of (de_files s) EnabledMarker = Some data)) inv"
proof -
  have rm: "triple (\<lambda>s. inv s \<and> (ok \<longrightarrow> map_of (de_files s) EnabledMarker = Some data)) (removeIfExists (TempFile c))
      (\<lambda>_ s. inv s \<and> (ok \<longrightarrow> map_of (de_files s) EnabledMarker = Some data)) inv" for c ok
    by (auto simp: triple_def pf_bind_def removeIfExists_def pf_effect_def pf_outcome_def pf_ret_def pf_modify_def inv_def
        file_drop_def split: list.splits)
  show ?thesis
    unfolding writeFileAtomic_def
    apply (rule triple_bind[OF candidate_holds], rule triple_option)
     apply (rule triple_ret, simp add: holds_def)
    apply (rule triple_bind, simp, rule commit_mark[OF assms], assumption)
    apply (rename_tac temp result, case_tac result, simp only: prod.case)
    apply (rule triple_bind[OF rm])
    apply (rule triple_ret, simp)
    done
qed

end

text \<open>Loading rules, for invariants that do not depend on them.\<close>

locale pf_loading = pf_frame +
  assumes any_rules: "J e w m r \<Longrightarrow> J e w m r'"
begin

lemma keeps_load [pf_intros]: "keeps (pfctl_load temp)" "keeps pfctl_load_system"
  unfolding pfctl_load_def pfctl_load_system_def
  by (rule pf_intros keeps_effect | assumption | simp add: inv_def, erule any_rules)+

lemma keeps_journal [pf_intros]: "keeps (writeQuarantineJournal base)"
  unfolding writeQuarantineJournal_def by (rule pf_intros | assumption | simp)+

lemma keeps_roll_back [pf_intros]: "keeps (roll_back p candidate backup renamed)"
  unfolding roll_back_def by (rule pf_intros | assumption | simp)+

lemma keeps_load_rules [pf_intros]: "keeps (load_rules p candidate backup)"
  unfolding load_rules_def by (rule pf_intros | assumption | simp)+

end

section \<open>Who turns pf off\<close>

definition owned_phase :: "string option \<Rightarrow> bool" where
  "owned_phase m \<longleftrightarrow> (\<exists>c. m = Some c \<and> c \<noteq> pfOwnershipCancelled)"

lemma owned_texts [simp]: "owned_phase (Some [])" "owned_phase (Some pfOwnershipEnabled)" "owned_phase (Some pfOwnershipIntent)" "\<not> owned_phase None"
  by (simp_all add: owned_phase_def pfOwnershipCancelled_def pfOwnershipEnabled_def pfOwnershipIntent_def)

definition J_user :: "bool \<Rightarrow> bool \<Rightarrow> string option \<Rightarrow> string option \<Rightarrow> bool" where "J_user e w m r \<longleftrightarrow> e \<and> \<not> w \<and> m = None"
definition J_ours :: "bool \<Rightarrow> bool \<Rightarrow> string option \<Rightarrow> string option \<Rightarrow> bool" where "J_ours e w m r \<longleftrightarrow> (e \<longrightarrow> owned_phase m) \<and> (r \<noteq> None \<longrightarrow> e)"
definition J_off :: "bool \<Rightarrow> bool \<Rightarrow> string option \<Rightarrow> string option \<Rightarrow> bool" where "J_off e w m r \<longleftrightarrow> \<not> e \<and> r = None"
definition J_idle :: "bool \<Rightarrow> bool \<Rightarrow> string option \<Rightarrow> string option \<Rightarrow> bool" where "J_idle e w m r \<longleftrightarrow> owned_phase m \<and> r = None"
definition J_on :: "bool \<Rightarrow> bool \<Rightarrow> string option \<Rightarrow> string option \<Rightarrow> bool" where "J_on e w m r \<longleftrightarrow> e \<and> owned_phase m"

lemmas J_defs = J_user_def J_ours_def J_off_def J_idle_def J_on_def

interpretation user: pf_loading J_user by unfold_locales (simp add: J_defs)
interpretation on: pf_loading J_on by unfold_locales (simp add: J_defs)
interpretation ours: pf_frame J_ours .
interpretation off: pf_frame J_off .
interpretation idle: pf_frame J_idle .

lemmas inv_defs = user.inv_def on.inv_def ours.inv_def off.inv_def idle.inv_def J_defs

text \<open>One call, worked out on the state.\<close>

lemmas call_defs = triple_def pf_bind_def pf_read_def pf_effect_def pf_outcome_def pf_ret_def pf_modify_def

lemma user_status: "triple user.inv pfctl_info (\<lambda>st s. user.inv s \<and> st \<noteq> Some PfDisabled) user.inv"
  by (auto simp: pfctl_info_def call_defs inv_defs split: list.splits outcome.splits)

lemma ours_status: "triple ours.inv pfctl_info (\<lambda>st s. ours.inv s \<and> (st = Some PfEnabled \<longrightarrow> on.inv s) \<and> (st = Some PfDisabled \<longrightarrow> off.inv s)) ours.inv"
  by (auto simp: pfctl_info_def call_defs inv_defs split: list.splits outcome.splits if_splits)

lemma user_release: "user.keeps release_pf"
  by (auto simp: release_pf_def pfEnabledByUsPreviously_def pfOwnershipPhase_def read_file_def call_defs inv_defs pfOwnershipEnabled_def
      pfOwnershipIntent_def split: list.splits)

lemma ours_release:
  "triple (\<lambda>s. ours.inv s \<and> de_rules s = None) release_pf (\<lambda>ok s. if ok then off.inv s else ours.inv s) ours.inv"
  unfolding release_pf_def pfEnabledByUsPreviously_def pfOwnershipPhase_def read_file_def
  by (auto simp: call_defs inv_defs pfctl_disable_def set_owned_def owned_phase_def pfOwnershipEnabled_def pfOwnershipIntent_def
      split: list.splits option.splits if_splits)

lemma user_remove: "user.keeps (removeIfExists p)"
  by (cases "p = EnabledMarker") (auto intro: user.keeps_remove user.keeps_unmark simp: J_defs)

lemma off_remove: "off.keeps (removeIfExists p)"
  by (cases "p = EnabledMarker") (auto intro: off.keeps_remove off.keeps_unmark simp: J_defs)

lemmas user_markers = user.keeps_remove_markers[OF user_remove]
lemmas off_markers = off.keeps_remove_markers[OF off_remove]

lemma user_system: "user.keeps pfctl_load_system"
  by (rule user.keeps_load)

lemma user_restore: "user.keeps restoreLocked"
  unfolding restoreLocked_def by (rule user_system user_release user_remove user_markers pf_intros | assumption)+

lemma ours_system: "triple ours.inv pfctl_load_system (\<lambda>ok s. ours.inv s \<and> (ok \<longrightarrow> de_rules s = None)) ours.inv"
  by (auto simp: pfctl_load_system_def call_defs inv_defs split: list.splits if_splits)

lemma off_ours: "off.inv s \<Longrightarrow> ours.inv s" and idle_ours: "idle.inv s \<Longrightarrow> ours.inv s" and on_ours: "on.inv s \<Longrightarrow> ours.inv s"
  by (auto simp: inv_defs)

lemma off_tail:
  "off.keeps (pf_bind (remove_markers [EnabledMarker, KillSwitchMarker, LegacyMarker, EmergencyMarker]) (\<lambda>removed.
       if \<not> removed then pf_ret (Some DeRemoveMarker)
     else pf_bind quarantinedCandidate (\<lambda>candidate.
       pf_bind (case candidate of None \<Rightarrow> pf_ret True | Some c \<Rightarrow> removeIfExists (TempFile c)) (\<lambda>dropped.
       if \<not> dropped then pf_ret (Some DeRemoveQuarantined)
     else pf_bind (removeIfExists QuarantineJournal) (\<lambda>journal. if \<not> journal then pf_ret (Some DeRemoveJournal)
     else pf_bind (set_quarantined False) (\<lambda>_. pf_ret None))))))"
  by (rule off_remove off_markers pf_intros | assumption)+

lemma ours_restore: "ours.keeps restoreLocked"
proof -
  have cur: "triple (\<lambda>s. ours.inv s \<and> de_rules s = None) (set_cur p) (\<lambda>_ s. ours.inv s \<and> de_rules s = None) ours.inv" for p
    by (auto simp: set_cur_def call_defs inv_defs)
  show ?thesis
    unfolding restoreLocked_def
    apply (rule triple_bind[OF ours_system], rule triple_if)
     apply (rule triple_ret, simp)
    apply (rule triple_bind[OF triple_pre[OF cur]], simp)
    apply (rule triple_bind[OF ours_release], rule triple_if)
     apply (rule triple_ret, simp)
    apply (rule triple_conseq[OF off_tail], simp_all add: off_ours)
    done
qed

lemma user_install: "user.keeps (install_rules p candidate backup)"
proof -
  have c: "(x = None \<Longrightarrow> triple P a Q R) \<Longrightarrow> (x = Some PfUnrecognized \<Longrightarrow> triple P b Q R) \<Longrightarrow> (x = Some PfEnabled \<Longrightarrow> triple P c Q R) \<Longrightarrow>
      (x = Some PfDisabled \<Longrightarrow> triple P d Q R) \<Longrightarrow>
      triple P (case x of None \<Rightarrow> a | Some PfUnrecognized \<Rightarrow> b | Some PfEnabled \<Rightarrow> c | Some PfDisabled \<Rightarrow> d) Q R" for x P Q R and a b c d :: "'x pf_op"
    by (cases x; cases "the x") simp_all
  have imp: "triple (\<lambda>s. False) m Q R" for m :: "'x pf_op" and Q R by (simp add: triple_def)
  show ?thesis
    unfolding install_rules_def
    apply (rule triple_bind[OF user_status])
    apply (rule c)
       apply (rule triple_ret, simp)
      apply (rule triple_ret, simp)
     apply (rule triple_pre[OF user.keeps_load_rules], simp)
    apply (rule triple_pre[OF imp], simp)
    done
qed

lemma in_place:
  "off.keeps (writeMarkerInPlace EnabledMarker c)" "idle.keeps (writeMarkerInPlace EnabledMarker pfOwnershipEnabled)"
  by (rule off.keeps_mark_in_place; simp add: J_defs) (rule idle.keeps_mark_in_place; simp add: J_defs)

lemma set_owned_keeps: "off.keeps (set_owned b)" "idle.keeps (set_owned b)"
  by (rule off.keeps_owned; simp add: J_defs) (rule idle.keeps_owned; simp add: J_defs)

lemma idle_disable: "triple idle.inv pfctl_disable (\<lambda>ok s. if ok then off.inv s else idle.inv s) ours.inv"
  by (auto simp: pfctl_disable_def call_defs inv_defs split: list.splits if_splits)

lemma idle_enable: "triple idle.inv pfctl_enable (\<lambda>ok s. idle.inv s \<and> (ok \<longrightarrow> de_enabled s)) ours.inv"
  by (auto simp: pfctl_enable_def call_defs inv_defs split: list.splits if_splits)

lemma idle_split:
  assumes "idle.keeps m" "off.keeps n"
  shows "triple idle.inv (pf_bind pfctl_disable (\<lambda>disabled. if \<not> disabled then m else n)) (\<lambda>_. ours.inv) ours.inv"
proof (rule triple_bind[OF idle_disable])
  fix disabled
  show "triple (\<lambda>s. if disabled then off.inv s else idle.inv s) (if \<not> disabled then m else n) (\<lambda>_. ours.inv) ours.inv"
  proof (cases disabled)
    case True
    then show ?thesis using triple_conseq[OF assms(2), of off.inv "\<lambda>_. ours.inv" ours.inv] off_ours by simp
  next
    case False
    then show ?thesis using triple_conseq[OF assms(1), of idle.inv "\<lambda>_. ours.inv" ours.inv] idle_ours by simp
  qed
qed

lemma idle_compensate: "triple idle.inv compensate_enable (\<lambda>_. ours.inv) ours.inv"
  unfolding compensate_enable_def
  by (rule idle_split set_owned_keeps in_place off_remove pf_intros | assumption)+

lemma idle_compensate_ownership: "triple idle.inv (compensate_ownership renamed) (\<lambda>_. ours.inv) ours.inv"
  unfolding compensate_ownership_def
  by (rule idle_split set_owned_keeps in_place off_remove pf_intros | assumption)+

text \<open>With pf on and idle, recording the ownership keeps both.\<close>

definition J_running :: "bool \<Rightarrow> bool \<Rightarrow> string option \<Rightarrow> string option \<Rightarrow> bool" where
  "J_running e w m r \<longleftrightarrow> e \<and> owned_phase m \<and> r = None"

interpretation running: pf_frame J_running .

lemma enable_keeps: "triple off.inv enable_pf (\<lambda>err s. ours.inv s \<and> (err = None \<longrightarrow> on.inv s)) ours.inv"
proof -
  have mark: "triple off.inv (writeFileAtomic EnabledMarker pfOwnershipIntent)
      (\<lambda>(renamed, ok) s. off.inv s \<and> (ok \<longrightarrow> map_of (de_files s) EnabledMarker = Some pfOwnershipIntent)) off.inv"
    by (rule off.mark_atomic) (simp add: J_defs)
  have mark2: "triple running.inv (writeFileAtomic EnabledMarker pfOwnershipEnabled)
      (\<lambda>(renamed, ok) s. running.inv s \<and> (ok \<longrightarrow> map_of (de_files s) EnabledMarker = Some pfOwnershipEnabled)) running.inv"
    by (rule running.mark_atomic) (simp add: J_running_def)
  have own: "running.keeps (set_owned True)" by (rule running.keeps_owned) (simp add: J_running_def)
  have run: "running.inv s \<Longrightarrow> on.inv s \<and> idle.inv s \<and> ours.inv s" for s
    by (auto simp: inv_defs running.inv_def J_running_def)
  have cancel: "off.keeps (if renamed then cancel_intent else pf_ret ())" for renamed
    unfolding cancel_intent_def by (rule in_place off_remove pf_intros | assumption)+
  have off_on: "off.inv s \<and> map_of (de_files s) EnabledMarker = Some pfOwnershipIntent \<Longrightarrow> idle.inv s" for s
    by (auto simp: inv_defs)
  have rest: "triple running.inv (pf_bind (writeFileAtomic EnabledMarker pfOwnershipEnabled) (\<lambda>(renamed, ok).
         if \<not> ok then pf_bind (compensate_ownership renamed) (\<lambda>e. pf_ret (Some e)) else pf_ret None))
      (\<lambda>err s. ours.inv s \<and> (err = None \<longrightarrow> on.inv s)) ours.inv"
    apply (rule triple_bind[OF triple_conseq[OF mark2]], assumption, assumption)
     apply (simp add: run)
    apply (rename_tac r, case_tac r, simp only: prod.case)
    apply (rule triple_if)
     apply (rule triple_bind[OF triple_pre[OF idle_compensate_ownership]], simp add: run)
     apply (rule triple_ret, simp)
    apply (rule triple_ret, simp add: run)
    done
  show ?thesis
    unfolding enable_pf_def
    apply (rule triple_bind[OF triple_conseq[OF mark]], assumption, assumption, rule off_ours, assumption)
    apply (rename_tac r, case_tac r, simp only: prod.case)
    apply (rule triple_if)
     apply (rule triple_bind[where Q = "\<lambda>_. off.inv"])
      apply (rule triple_conseq[OF cancel], simp, assumption, rule off_ours, assumption)
     apply (rule triple_ret, simp add: off_ours)
    apply (rule triple_bind[OF triple_pre[OF idle_enable]], rule off_on, simp)
    apply (rule triple_if)
     apply (rule triple_bind[OF triple_pre[OF idle_compensate]], simp, rule triple_ret, simp)
    apply (rule triple_bind[where Q = "\<lambda>_. running.inv"])
     apply (rule triple_conseq[OF own], simp add: inv_defs running.inv_def J_running_def, assumption, simp add: run)
    apply (rule rest)
    done
qed

lemma ours_install: "ours.keeps (install_rules p candidate backup)"
proof -
  have c: "(x = None \<Longrightarrow> triple P a Q R) \<Longrightarrow> (x = Some PfUnrecognized \<Longrightarrow> triple P b Q R) \<Longrightarrow> (x = Some PfEnabled \<Longrightarrow> triple P c Q R) \<Longrightarrow>
      (x = Some PfDisabled \<Longrightarrow> triple P d Q R) \<Longrightarrow>
      triple P (case x of None \<Rightarrow> a | Some PfUnrecognized \<Rightarrow> b | Some PfEnabled \<Rightarrow> c | Some PfDisabled \<Rightarrow> d) Q R" for x P Q R and a b c d :: "'x pf_op"
    by (cases x; cases "the x") simp_all
  have load: "triple on.inv (load_rules p candidate backup) (\<lambda>_. ours.inv) ours.inv"
    by (rule triple_conseq[OF on.keeps_load_rules]) (simp_all add: on_ours)
  show ?thesis
    unfolding install_rules_def
    apply (rule triple_bind[OF ours_status], rule c)
       apply (rule triple_ret, simp)
      apply (rule triple_ret, simp)
     apply (rule triple_pre[OF load], simp)
    apply (rule triple_bind[OF triple_pre[OF enable_keeps]], simp)
    apply (rule triple_option)
     apply (rule triple_pre[OF load], simp)
    apply (rule triple_ret, simp)
    done
qed

lemma ours_remove_temp: "ours.keeps (removeIfExists (TempFile t))"
  by (rule ours.keeps_remove) simp

text \<open>The rest of \<open>Apply\<close> and \<open>Clear\<close> only moves files.\<close>

lemma apply_keeps:
  assumes k: "triple I restoreLocked (\<lambda>_. I) I" "\<And>q c b. triple I (install_rules q c b) (\<lambda>_. I) I" "\<And>t. triple I (removeIfExists (TempFile t)) (\<lambda>_. I) I"
    and b: "triple I needsRestoreLocked (\<lambda>_. I) I" "\<And>q. triple I (set_cur q) (\<lambda>_. I) I" "\<And>d. triple I (writeCandidateFile d) (\<lambda>_. I) I"
      "triple I (backupMarkerFile KillSwitchMarker) (\<lambda>_. I) I"
  shows "triple I (darwin_Apply p) (\<lambda>_. I) I" "triple I darwin_Clear (\<lambda>_. I) I"
proof -
  have s: "(\<And>e. x = Inl e \<Longrightarrow> triple P (f e) Q R) \<Longrightarrow> (\<And>v. x = Inr v \<Longrightarrow> triple P (g v) Q R) \<Longrightarrow> triple P (case x of Inl e \<Rightarrow> f e | Inr v \<Rightarrow> g v) Q R"
    for x :: "'x + 'y" and P Q R and f :: "'x \<Rightarrow> 'z pf_op" and g by (cases x) simp_all
  show "triple I (darwin_Apply p) (\<lambda>_. I) I"
    unfolding darwin_Apply_def Let_def by (rule k b s pf_intros | assumption)+
  show "triple I darwin_Clear (\<lambda>_. I) I"
    unfolding darwin_Clear_def by (rule k b pf_intros | assumption)+
qed

lemmas user_calls = apply_keeps[OF user_restore user_install user_remove user.keeps_needs_restore user.keeps_cur(1) user.keeps_candidate user.keeps_backup]
lemmas ours_calls = apply_keeps[OF ours_restore ours_install ours_remove_temp ours.keeps_needs_restore ours.keeps_cur(1) ours.keeps_candidate ours.keeps_backup]

text \<open>A life of the enforcer: calls, and processes that are killed and started again.\<close>

datatype darwin_call = DApply Policy | DClear | DRestart

definition finish_call :: "'a option \<times> DarwinEnforcer \<Rightarrow> DarwinEnforcer" where
  "finish_call r = (case r of (None, s) \<Rightarrow> darwin_restart s | (Some _, s) \<Rightarrow> s)"

fun darwin_run :: "darwin_call list \<Rightarrow> DarwinEnforcer \<Rightarrow> DarwinEnforcer" where
  "darwin_run [] s = s"
| "darwin_run (DApply p # cs) s = darwin_run cs (finish_call (darwin_Apply p s))"
| "darwin_run (DClear # cs) s = darwin_run cs (finish_call (darwin_Clear s))"
| "darwin_run (DRestart # cs) s = darwin_run cs (darwin_restart s)"

lemma finish_keeps: "triple I m (\<lambda>_. I) I \<Longrightarrow> (\<And>s. I s \<Longrightarrow> I (darwin_restart s)) \<Longrightarrow> I s \<Longrightarrow> I (finish_call (m s))"
  by (fastforce simp: triple_def finish_call_def split: prod.splits option.splits)

lemma run_keeps:
  assumes "\<And>p. triple I (darwin_Apply p) (\<lambda>_. I) I" "triple I darwin_Clear (\<lambda>_. I) I" "\<And>s. I s \<Longrightarrow> I (darwin_restart s)"
  shows "I s \<Longrightarrow> I (darwin_run cs s)"
  by (induction cs s rule: darwin_run.induct) (simp_all add: finish_keeps[OF assms(1) assms(3)] finish_keeps[OF assms(2) assms(3)] assms(3))

lemma user_run: "user.inv s \<Longrightarrow> user.inv (darwin_run cs s)"
  by (rule run_keeps[OF user_calls]) (auto simp: inv_defs darwin_restart_def)

lemma ours_run: "ours.inv s \<Longrightarrow> ours.inv (darwin_run cs s)"
  by (rule run_keeps[OF ours_calls]) (auto simp: inv_defs darwin_restart_def)

section \<open>When nothing fails\<close>

lemma quiet_outcome: "de_outcomes s = [] \<Longrightarrow> pf_outcome s = (Some Done, s)"
  by (simp add: pf_outcome_def)

lemma quiet_effect: "de_outcomes s = [] \<Longrightarrow> pf_effect b f s = (Some True, f s)"
  by (simp add: pf_effect_def pf_bind_def quiet_outcome pf_modify_def pf_ret_def)

lemma quiet_exists: "de_outcomes s = [] \<Longrightarrow> file_exists p s = (Some (map_has (de_files s) p), s)"
  by (simp add: file_exists_def read_file_def pf_bind_def quiet_outcome pf_read_def pf_ret_def map_has_def split: option.split)

lemma quiet_needs: "de_outcomes s = [] \<Longrightarrow> needsRestoreLocked s = (Some (Active (de_cur s) \<or> map_has (de_files s) KillSwitchMarker \<or>
    map_has (de_files s) LegacyMarker \<or> de_weEnabledPf s \<or> map_has (de_files s) EnabledMarker \<or> map_has (de_files s) EmergencyMarker \<or>
    map_has (de_files s) QuarantineJournal \<or> de_quarantined s), s)"
  by (simp add: needsRestoreLocked_def pf_bind_def pf_read_def pf_ret_def quiet_exists)

lemma quiet_markers: "de_outcomes s = [] \<Longrightarrow> remove_markers ps s = (Some True, fold file_drop ps s)"
proof (induction ps arbitrary: s)
  case (Cons p ps)
  have "de_outcomes (file_drop p s) = []" using Cons.prems by (simp add: file_drop_def)
  then show ?case using Cons by (simp add: pf_bind_def removeIfExists_def quiet_effect)
qed (simp add: pf_ret_def)

lemma quiet_release:
  assumes "de_outcomes s = []" "ours.inv s"
  shows "\<exists>s'. release_pf s = (Some True, s') \<and> \<not> de_enabled s' \<and> de_rules s' = de_rules s \<and> de_outcomes s' = [] \<and> de_files s' = de_files s"
  using assms
  by (cases "de_weEnabledPf s"; cases "map_of (de_files s) EnabledMarker")
    (auto simp: release_pf_def pf_bind_def pf_read_def pf_ret_def pfctl_disable_def quiet_effect set_owned_def pf_modify_def
      pfEnabledByUsPreviously_def pfOwnershipPhase_def read_file_def quiet_outcome inv_defs owned_phase_def pfOwnershipEnabled_def
      pfOwnershipIntent_def)

lemma quiet_candidate: "de_outcomes s = [] \<Longrightarrow> \<exists>c. quarantinedCandidate s = (Some c, s)"
  by (simp add: quarantinedCandidate_def read_file_def pf_bind_def quiet_outcome pf_read_def pf_ret_def)

lemma fold_drop: "de_enabled (fold file_drop ps s) = de_enabled s" "de_rules (fold file_drop ps s) = de_rules s"
  "de_outcomes (fold file_drop ps s) = de_outcomes s" "map_has (de_files (fold file_drop ps s)) q \<longleftrightarrow> q \<notin> set ps \<and> map_has (de_files s) q"
  by (induction ps arbitrary: s) (auto simp: file_drop_def)

lemma quiet_restore:
  assumes q: "de_outcomes s = []" and inv: "ours.inv s"
  shows "\<exists>s'. restoreLocked s = (Some None, s') \<and> \<not> de_enabled s' \<and> de_rules s' = None \<and>
    (\<forall>m\<in>{EnabledMarker, KillSwitchMarker, LegacyMarker, EmergencyMarker, QuarantineJournal}. \<not> map_has (de_files s') m)"
proof -
  let ?s1 = "s\<lparr>de_rules := None, de_cur := no_policy\<rparr>"
  have "de_outcomes ?s1 = []" "ours.inv ?s1" using q inv by (auto simp: inv_defs)
  from quiet_release[OF this] obtain s2 where r: "release_pf ?s1 = (Some True, s2)" and s2: "\<not> de_enabled s2" "de_rules s2 = None" "de_outcomes s2 = []"
    by auto
  let ?s3 = "fold file_drop [EnabledMarker, KillSwitchMarker, LegacyMarker, EmergencyMarker] s2"
  have m: "remove_markers [EnabledMarker, KillSwitchMarker, LegacyMarker, EmergencyMarker] s2 = (Some True, ?s3)" by (rule quiet_markers[OF s2(3)])
  have o3: "de_outcomes ?s3 = []" using s2(3) by (simp only: fold_drop)
  obtain c where c: "quarantinedCandidate ?s3 = (Some c, ?s3)" using quiet_candidate[OF o3] by blast
  let ?s4 = "case c of None \<Rightarrow> ?s3 | Some b \<Rightarrow> file_drop (TempFile b) ?s3"
  have d: "(case c of None \<Rightarrow> pf_ret True | Some b \<Rightarrow> removeIfExists (TempFile b)) ?s3 = (Some True, ?s4)"
    by (cases c) (simp_all only: option.case pf_ret_def removeIfExists_def quiet_effect[OF o3])
  have s4: "\<not> de_enabled ?s4" "de_rules ?s4 = None" "de_outcomes ?s4 = []"
      "\<forall>m\<in>{EnabledMarker, KillSwitchMarker, LegacyMarker, EmergencyMarker}. \<not> map_has (de_files ?s4) m"
    using s2 by (cases c; simp add: file_drop_def)+
  have "restoreLocked s = (Some None, (file_drop QuarantineJournal ?s4)\<lparr>de_quarantined := False\<rparr>)"
    unfolding restoreLocked_def pf_bind_def pfctl_load_system_def quiet_effect[OF q] set_cur_def pf_modify_def
    using r m c d s4(3) by (simp add: pf_bind_def removeIfExists_def quiet_effect set_quarantined_def pf_modify_def pf_ret_def)
  then show ?thesis using s4 by (auto simp: file_drop_def)
qed

lemma quiet_Clear:
  assumes q: "de_outcomes s = []" and inv: "ours.inv s"
  shows "\<exists>s'. darwin_Clear s = (Some None, s') \<and> \<not> de_enabled s' \<and> de_rules s' = None \<and> \<not> map_has (de_files s') EnabledMarker"
proof (cases "fst (needsRestoreLocked s) = Some True")
  case True
  then have n: "needsRestoreLocked s = (Some True, s)" by (simp add: quiet_needs[OF q])
  obtain s' where s': "restoreLocked s = (Some None, s')" "\<not> de_enabled s'" "de_rules s' = None" "\<not> map_has (de_files s') EnabledMarker"
    using quiet_restore[OF q inv] by auto
  have "darwin_Clear s = (Some None, s'\<lparr>de_cur := no_policy\<rparr>)"
    unfolding darwin_Clear_def pf_bind_def n using s'(1) by (simp add: pf_bind_def set_cur_def pf_modify_def pf_ret_def)
  then show ?thesis using s' by simp
next
  case False
  then have n: "needsRestoreLocked s = (Some False, s)" and m: "\<not> map_has (de_files s) EnabledMarker"
    by (simp_all add: quiet_needs[OF q])
  have e: "\<not> de_enabled s" "de_rules s = None" using inv m by (auto simp: inv_defs map_has_def)
  have "darwin_Clear s = (Some None, s\<lparr>de_cur := no_policy\<rparr>)"
    unfolding darwin_Clear_def pf_bind_def n by (simp add: pf_bind_def set_cur_def pf_modify_def pf_ret_def)
  then show ?thesis using e m by simp
qed

section \<open>What is loaded\<close>

text \<open>The policy in memory, the rules, the marker and the temporary files created so far stay as they are.\<close>

definition pinned :: "Policy \<Rightarrow> string option \<Rightarrow> string option \<Rightarrow> nat \<Rightarrow> (nat \<Rightarrow> string option) \<Rightarrow> DarwinEnforcer \<Rightarrow> bool" where
  "pinned c r k n F s \<longleftrightarrow> de_cur s = c \<and> de_rules s = r \<and> map_of (de_files s) KillSwitchMarker = k \<and> n \<le> de_fresh s \<and>
     (\<forall>i<n. map_of (de_files s) (TempFile (temp_name i)) = F i)"

abbreviation pins :: "Policy \<Rightarrow> string option \<Rightarrow> string option \<Rightarrow> nat \<Rightarrow> (nat \<Rightarrow> string option) \<Rightarrow> 'a pf_op \<Rightarrow> bool" where
  "pins c r k n F m \<equiv> triple (pinned c r k n F) m (\<lambda>_. pinned c r k n F) (\<lambda>_. True)"

lemma pin_ret: "pins c r k n F (pf_ret a)" by (rule triple_ret)

lemma pin_bind: "pins c r k n F m \<Longrightarrow> (\<And>a. pins c r k n F (f a)) \<Longrightarrow> pins c r k n F (pf_bind m f)"
  by (rule triple_bind)

lemma pin_read: "pins c r k n F (pf_read f)" by (simp add: triple_def pf_read_def)

lemma pin_outcome: "pins c r k n F pf_outcome"
  unfolding triple_def by (simp add: pf_outcome_def pinned_def split: list.splits)

named_theorems pin_intros \<open>operations that leave the loaded policy alone\<close>

lemmas [pin_intros] = pin_ret pin_bind pin_read pin_outcome triple_if triple_option triple_pair

lemma pin_step [pin_intros]: "pins c r k n F pf_step"
  unfolding pf_step_def by (rule pin_intros)+

lemma pin_modify: "(\<And>s. pinned c r k n F s \<Longrightarrow> pinned c r k n F (f s)) \<Longrightarrow> pins c r k n F (pf_modify f)"
  by (simp add: triple_def pf_modify_def)

lemma pin_effect: "(\<And>s. pinned c r k n F s \<Longrightarrow> pinned c r k n F (f s)) \<Longrightarrow> pins c r k n F (pf_effect b f)"
  unfolding pf_effect_def by (rule pin_intros pin_modify | assumption | simp)+

definition free_path :: "nat \<Rightarrow> pf_path \<Rightarrow> bool" where
  "free_path n p \<longleftrightarrow> p \<noteq> KillSwitchMarker \<and> (\<forall>i<n. p \<noteq> TempFile (temp_name i))"

lemma pinned_put: "free_path n p \<Longrightarrow> pinned c r k n F (file_put p x s) = pinned c r k n F s"
  by (auto simp: pinned_def file_put_def free_path_def)

lemma pinned_drop: "free_path n p \<Longrightarrow> pinned c r k n F (file_drop p s) = pinned c r k n F s"
  by (auto simp: pinned_def file_drop_def free_path_def)

lemma pin_put [pin_intros]: "free_path n p \<Longrightarrow> pins c r k n F (pf_effect b (file_put p x))"
  by (rule pin_effect) (simp add: pinned_put)

lemma pin_remove [pin_intros]: "free_path n p \<Longrightarrow> pins c r k n F (removeIfExists p)"
  unfolding removeIfExists_def by (rule pin_effect) (simp add: pinned_drop)

lemma free_markers [simp]: "free_path n EnabledMarker" "free_path n LegacyMarker" "free_path n EmergencyMarker" "free_path n QuarantineJournal"
  by (simp_all add: free_path_def)

lemma temp_name_inject [simp]: "temp_name i = temp_name j \<longleftrightarrow> i = j"
  by (simp add: temp_name_def itoa_inject)

lemma free_temp: "n \<le> m \<Longrightarrow> free_path n (TempFile (temp_name m))"
  by (auto simp: free_path_def)

text \<open>A new candidate has a new name and holds its data.\<close>

definition fresh_with :: "string \<Rightarrow> nat \<Rightarrow> string \<Rightarrow> DarwinEnforcer \<Rightarrow> bool" where
  "fresh_with data n temp s \<longleftrightarrow> (\<exists>m. n \<le> m \<and> m < de_fresh s \<and> temp = temp_name m \<and> map_of (de_files s) (TempFile temp) = Some data)"

lemma pin_candidate:
  "triple (pinned c r k n F) (writeCandidateFile data)
     (\<lambda>res s. pinned c r k n F s \<and> (\<forall>temp. res = Some temp \<longrightarrow> fresh_with data n temp s)) (\<lambda>_. True)"
proof -
  let ?named = "\<lambda>temp s. pinned c r k n F s \<and> (\<exists>m. n \<le> m \<and> m < de_fresh s \<and> temp = temp_name m)"
  let ?full = "\<lambda>temp s. pinned c r k n F s \<and> fresh_with data n temp s"
  have cr: "triple (pinned c r k n F) create_temp (\<lambda>res s. pinned c r k n F s \<and> (\<forall>temp. res = Some temp \<longrightarrow> ?named temp s)) (\<lambda>_. True)"
    by (auto simp: create_temp_def pf_step_def call_defs pinned_def file_put_def split: list.splits if_splits)
  have st: "triple (?named temp) pf_step (\<lambda>_. ?named temp) (\<lambda>_. True)" for temp
    by (auto simp: pf_step_def call_defs pinned_def split: list.splits)
  have sf: "triple (?full temp) pf_step (\<lambda>_. ?full temp) (\<lambda>_. True)" for temp
    by (auto simp: pf_step_def call_defs pinned_def fresh_with_def split: list.splits)
  have wr: "triple (?named temp) (pf_effect False (file_put (TempFile temp) data)) (\<lambda>ok. if ok then ?full temp else ?named temp) (\<lambda>_. True)" for temp
    by (auto simp: call_defs pinned_def file_put_def fresh_with_def split: list.splits)
  have gu: "triple (?named temp) (give_up temp) (\<lambda>res s. pinned c r k n F s \<and> (\<forall>t. res = Some t \<longrightarrow> fresh_with data n t s)) (\<lambda>_. True)" for temp
    by (auto simp: give_up_def removeIfExists_def call_defs pinned_def file_drop_def split: list.splits)
  have gf: "triple (?full temp) (give_up temp) (\<lambda>res s. pinned c r k n F s \<and> (\<forall>t. res = Some t \<longrightarrow> fresh_with data n t s)) (\<lambda>_. True)" for temp
    by (rule triple_pre[OF gu]) (auto simp: fresh_with_def)
  let ?Q = "\<lambda>res s. pinned c r k n F s \<and> (\<forall>t. res = Some t \<longrightarrow> fresh_with data n t s)"
  have body: "triple (?named temp) (pf_bind pf_step (\<lambda>chmod. if \<not> chmod then give_up temp else
     pf_bind (pf_effect False (file_put (TempFile temp) data)) (\<lambda>wrote. if \<not> wrote then give_up temp else
     pf_bind pf_step (\<lambda>synced. if \<not> synced then give_up temp else
     pf_bind pf_step (\<lambda>closed. if \<not> closed then give_up temp else pf_ret (Some temp)))))) ?Q (\<lambda>_. True)" for temp
    apply (rule triple_bind[OF st], rule triple_if[OF gu])
    apply (rule triple_bind[OF wr], rule triple_if)
     apply (rule triple_pre[OF gu], simp)
    apply (simp only: not_not if_True)
    apply (rule triple_bind[OF sf], rule triple_if[OF gf])
    apply (rule triple_bind[OF sf], rule triple_if[OF gf])
    apply (rule triple_ret, simp)
    done
  show ?thesis
    unfolding writeCandidateFile_def
    apply (rule triple_bind[OF cr], rule triple_option)
     apply (rule triple_ret, simp)
    apply (rule triple_pre[OF body], simp)
    done
qed

lemma pin_atomic [pin_intros]:
  assumes "path \<noteq> KillSwitchMarker" "\<forall>t. path \<noteq> TempFile t"
  shows "pins c r k n F (writeFileAtomic path data)"
proof -
  have fp: "free_path n path" using assms by (simp add: free_path_def)
  have cm: "triple (\<lambda>s. pinned c r k n F s \<and> fresh_with data n temp s) (Commit temp path)
      (\<lambda>_ s. pinned c r k n F s \<and> (\<exists>m. n \<le> m \<and> temp = temp_name m)) (\<lambda>_. True)" for temp
    using assms by (auto simp: Commit_def pf_step_def call_defs pinned_def file_put_def file_drop_def fresh_with_def split: list.splits if_splits)
  have rm: "triple (\<lambda>s. pinned c r k n F s \<and> (\<exists>m. n \<le> m \<and> temp = temp_name m)) (removeIfExists (TempFile temp)) (\<lambda>_. pinned c r k n F) (\<lambda>_. True)" for temp
    using pin_remove[OF free_temp] by (fastforce simp: triple_def)
  have tail: "triple (\<lambda>s. pinned c r k n F s \<and> fresh_with data n temp s)
      (pf_bind (Commit temp path) (\<lambda>result. pf_bind (removeIfExists (TempFile temp)) (\<lambda>_. pf_ret result))) (\<lambda>_. pinned c r k n F) (\<lambda>_. True)" for temp
    by (rule triple_bind[OF cm], rule triple_bind[OF rm], rule triple_ret)
  show ?thesis
    unfolding writeFileAtomic_def
    apply (rule triple_bind[OF pin_candidate], rule triple_option)
     apply (rule triple_ret, simp)
    apply (rule triple_pre[OF tail], simp)
    done
qed

lemma pin_in_place [pin_intros]: "pins c r k n F (writeMarkerInPlace EnabledMarker text)"
  unfolding writeMarkerInPlace_def by (rule pin_intros free_markers | assumption)+

lemma pin_pf [pin_intros]: "pins c r k n F pfctl_enable" "pins c r k n F pfctl_disable" "pins c r k n F (set_owned b)"
  unfolding pfctl_enable_def pfctl_disable_def set_owned_def by (rule pin_effect pin_modify; simp add: pinned_def)+

lemma pin_enable: "pins c r k n F enable_pf"
  unfolding enable_pf_def compensate_enable_def compensate_ownership_def cancel_intent_def
  by (rule pin_intros free_markers | assumption | simp)+

text \<open>The policy in memory and the rules in pf, whatever happens to files.\<close>

definition core :: "Policy \<Rightarrow> string option \<Rightarrow> DarwinEnforcer \<Rightarrow> bool" where
  "core c r s \<longleftrightarrow> de_cur s = c \<and> de_rules s = r"

lemma core_calls:
  "triple (core c r) (Commit temp path) (\<lambda>_. core c r) (\<lambda>_. True)"
  "triple (core c r) (removeIfExists path) (\<lambda>_. core c r) (\<lambda>_. True)"
  "triple (core c r) (writeQuarantineJournal base) (\<lambda>_. core c r) (\<lambda>_. True)"
  "triple (core c r) (set_quarantined b) (\<lambda>_. core c r) (\<lambda>_. True)"
  "triple (core c r) (set_cur p) (\<lambda>_. core p r) (\<lambda>_. True)"
proof -
  have e: "(\<And>s. core c r s \<Longrightarrow> core c r (f s)) \<Longrightarrow> triple (core c r) (pf_effect b f) (\<lambda>_. core c r) (\<lambda>_. True)" for b f
    by (fastforce simp: call_defs core_def split: list.splits if_splits)
  have st: "triple (core c r) pf_step (\<lambda>_. core c r) (\<lambda>_. True)"
    by (auto simp: pf_step_def call_defs core_def split: list.splits if_splits)
  have rd: "triple (core c r) (pf_read f) (\<lambda>_. core c r) (\<lambda>_. True)" for f :: "DarwinEnforcer \<Rightarrow> 'x" by (simp add: call_defs)
  have f: "core c r (file_put p x s) = core c r s" "core c r (file_drop p s) = core c r s" for p x s by (simp_all add: core_def file_put_def file_drop_def)
  note rules = triple_ret triple_if triple_option st rd
  have bind: "triple (core c r) m (\<lambda>_. core c r) (\<lambda>_. True) \<Longrightarrow> (\<And>a. triple (core c r) (k a) (\<lambda>_. core c r) (\<lambda>_. True)) \<Longrightarrow>
      triple (core c r) (pf_bind m k) (\<lambda>_. core c r) (\<lambda>_. True)" for m :: "'x pf_op" and k :: "'x \<Rightarrow> 'y pf_op"
    by (rule triple_bind)
  show "triple (core c r) (Commit temp path) (\<lambda>_. core c r) (\<lambda>_. True)"
    unfolding Commit_def
    by (rule triple_bind[OF rd], rule triple_option, rule triple_ret, assumption, rule triple_bind[OF e], simp add: f, rule triple_if, rule triple_ret, assumption,
        rule triple_bind[OF st], rule triple_if, rule triple_ret, assumption, rule triple_bind[OF st], rule triple_ret, assumption)
  show "triple (core c r) (removeIfExists path) (\<lambda>_. core c r) (\<lambda>_. True)"
    unfolding removeIfExists_def by (rule e) (simp add: f)
  show "triple (core c r) (writeQuarantineJournal base) (\<lambda>_. core c r) (\<lambda>_. True)"
    unfolding writeQuarantineJournal_def
    by (rule triple_if, rule triple_ret, assumption, rule triple_bind[OF st], rule triple_if, rule triple_ret, assumption,
        (rule triple_bind[OF e], simp add: f, rule triple_if, rule triple_ret, assumption)+,
        (rule triple_bind[OF st], rule triple_if, rule triple_ret, assumption)+, rule st)
  show "triple (core c r) (set_quarantined b) (\<lambda>_. core c r) (\<lambda>_. True)" by (simp add: set_quarantined_def call_defs core_def)
  show "triple (core c r) (set_cur p) (\<lambda>_. core p r) (\<lambda>_. True)" by (simp add: set_cur_def call_defs core_def)
qed

text \<open>\<open>Current\<close> describes the rules that pf has.\<close>

definition live :: "Policy \<Rightarrow> string option \<Rightarrow> bool" where
  "live c r \<longleftrightarrow> (if Active c then \<exists>ruleset. RenderPF c = Inr ruleset \<and> r = Some ruleset else r = None)"

definition told :: "Policy \<Rightarrow> (de_error option \<times> bool) \<Rightarrow> DarwinEnforcer \<Rightarrow> bool" where
  "told p res s \<longleftrightarrow> live (de_cur s) (de_rules s) \<and> (fst res = None \<longrightarrow> de_cur s = p)"

lemma core_told: "live c r \<Longrightarrow> (fst res = None \<Longrightarrow> c = p) \<Longrightarrow> core c r s \<Longrightarrow> told p res s"
  by (simp add: told_def core_def)

lemma roll_back_told:
  assumes p: "Active p" "RenderPF p = Inr ruleset" and c: "live c k" and b: "backup = None \<longrightarrow> k = None"
  shows "triple (\<lambda>s. core c (Some ruleset) s \<and> (\<forall>b. backup = Some b \<longrightarrow> map_of (de_files s) (TempFile b) = k))
    (roll_back p candidate backup renamed) (told p) (\<lambda>_. True)"
proof -
  let ?P = "\<lambda>s. core c (Some ruleset) s \<and> (\<forall>b. backup = Some b \<longrightarrow> map_of (de_files s) (TempFile b) = k)"
  have lp: "live p (Some ruleset)" using p by (simp add: live_def)
  have ld: "triple ?P (case backup of Some b \<Rightarrow> pfctl_load b | None \<Rightarrow> pfctl_load_system) (\<lambda>ok s. if ok then core c k s else core c (Some ruleset) s) (\<lambda>_. True)"
    using b by (cases backup) (auto simp: pfctl_load_def pfctl_load_system_def call_defs core_def split: list.splits if_splits option.splits)
  have t: "fst res \<noteq> None \<Longrightarrow> core c k s \<Longrightarrow> told p res s" for res s by (rule core_told[OF c]) simp_all
  have tp: "core p (Some ruleset) s \<Longrightarrow> told p res s" for res s by (rule core_told[OF lp]) simp_all
  have rolled: "triple (core c k) (case backup of
          Some b \<Rightarrow> if renamed then pf_bind (Commit b KillSwitchMarker) (\<lambda>(again, ok).
              pf_ret (Some (if \<not> ok \<and> \<not> again then DeRollbackMarker else DeCommit), False)) else pf_ret (Some DeCommit, False)
        | None \<Rightarrow> if renamed then pf_bind (removeIfExists KillSwitchMarker) (\<lambda>removed.
              if \<not> removed then pf_bind (set_cur no_policy) (\<lambda>_. pf_ret (Some DeRollbackRemove, False)) else pf_ret (Some DeCommit, False))
            else pf_ret (Some DeCommit, False)) (told p) (\<lambda>_. True)"
  proof (cases backup)
    case None
    have "k = None" using b None by simp
    then have n: "live no_policy k" by (simp add: live_def Active_def no_policy_def)
    show ?thesis unfolding None option.case
      apply (rule triple_if, rule triple_bind[OF core_calls(2)], rule triple_if)
        apply (rule triple_bind[OF core_calls(5)], rule triple_ret, rule core_told[OF n], simp, assumption)
       apply (rule triple_ret, rule t, simp, assumption)+
      done
  next
    case (Some b)
    show ?thesis unfolding Some option.case
      apply (rule triple_if, rule triple_bind[OF core_calls(1)], rule triple_pair)
       apply (rule triple_ret, rule t, simp, assumption)+
      done
  qed
  show ?thesis
    unfolding roll_back_def
    apply (rule triple_bind[OF ld], rule triple_if)
     apply (rule triple_pre[OF rolled], simp)
    apply (simp only: if_False)
    apply (rule triple_if)
     apply (rule triple_bind[OF core_calls(5)], rule triple_ret, rule tp, assumption)
    apply (rule triple_bind[OF core_calls(1)], rule triple_pair, rule triple_bind[OF core_calls(5)], rule triple_if)
     apply (rule triple_ret, rule tp, assumption)
    apply (rule triple_bind[OF core_calls(3)], rule triple_bind[OF core_calls(4)], rule triple_if)
     apply (rule triple_ret, rule tp, assumption)+
    done
qed

lemma load_rules_told:
  assumes p: "Active p" "RenderPF p = Inr ruleset" and c: "live c k" and i: "i < n" "F i = Some ruleset"
    and b: "case backup of None \<Rightarrow> k = None | Some b \<Rightarrow> (\<exists>j<n. j \<noteq> i \<and> b = temp_name j \<and> F j = k)"
  shows "triple (pinned c k k n F) (load_rules p (temp_name i) backup) (told p) (\<lambda>_. True)"
proof -
  have ld: "triple (pinned c k k n F) (pfctl_load (temp_name i)) (\<lambda>ok s. if ok then pinned c (Some ruleset) k n F s else pinned c k k n F s) (\<lambda>_. True)"
    using i by (auto simp: pfctl_load_def call_defs pinned_def split: list.splits if_splits option.splits)
  have cm: "triple (pinned c (Some ruleset) k n F) (Commit (temp_name i) KillSwitchMarker)
      (\<lambda>_ s. core c (Some ruleset) s \<and> (\<forall>b. backup = Some b \<longrightarrow> map_of (de_files s) (TempFile b) = k)) (\<lambda>_. True)"
    using b by (cases backup)
      (auto simp: Commit_def pf_step_def call_defs pinned_def core_def file_put_def file_drop_def split: list.splits if_splits option.splits)
  have lp: "live p (Some ruleset)" using p by (simp add: live_def)
  have bk: "backup = None \<longrightarrow> k = None" using b by (auto split: option.splits)
  show ?thesis
    unfolding load_rules_def
    apply (rule triple_bind[OF ld], rule triple_if)
     apply (rule triple_ret, rule core_told[OF c], simp, simp add: core_def pinned_def)
    apply (simp only: not_not if_True)
    apply (rule triple_bind[OF cm], rule triple_pair, rule triple_if)
     apply (rule roll_back_told[OF p c bk])
    apply (rule triple_bind[OF triple_pre[OF core_calls(2)]], erule conjunct1)
    apply (rule triple_bind[OF core_calls(5)], rule triple_ret, rule core_told[OF lp], simp, assumption)
    done
qed

lemma pin_told: "live c k \<Longrightarrow> pinned c k k n F s \<Longrightarrow> told p (Some e, keep) s"
  by (simp add: told_def pinned_def)

lemma install_told:
  assumes p: "Active p" "RenderPF p = Inr ruleset" and c: "live c k" and i: "i < n" "F i = Some ruleset"
    and b: "case backup of None \<Rightarrow> k = None | Some b \<Rightarrow> (\<exists>j<n. j \<noteq> i \<and> b = temp_name j \<and> F j = k)"
  shows "triple (pinned c k k n F) (install_rules p (temp_name i) backup) (told p) (\<lambda>_. True)"
proof -
  have cs: "(x = None \<Longrightarrow> triple P a Q R) \<Longrightarrow> (x = Some PfUnrecognized \<Longrightarrow> triple P b Q R) \<Longrightarrow> (x = Some PfEnabled \<Longrightarrow> triple P c Q R) \<Longrightarrow>
      (x = Some PfDisabled \<Longrightarrow> triple P d Q R) \<Longrightarrow>
      triple P (case x of None \<Rightarrow> a | Some PfUnrecognized \<Rightarrow> b | Some PfEnabled \<Rightarrow> c | Some PfDisabled \<Rightarrow> d) Q R" for x P Q R and a b c d :: "'x pf_op"
    by (cases x; cases "the x") simp_all
  have st: "pins c k k n F pfctl_info" unfolding pfctl_info_def by (rule pin_intros)+
  note ld = load_rules_told[OF p c i b]
  show ?thesis
    unfolding install_rules_def
    apply (rule triple_bind[OF st], rule cs)
       apply (rule triple_ret, erule pin_told[OF c])
      apply (rule triple_ret, erule pin_told[OF c])
     apply (rule ld)
    apply (rule triple_bind[OF pin_enable], rule triple_option, rule ld)
    apply (rule triple_ret, erule pin_told[OF c])
    done
qed

lemma pin_backup:
  "triple (pinned c r k n F) (backupMarkerFile KillSwitchMarker)
     (\<lambda>res s. pinned c r k n F s \<and> (res = Inr None \<longrightarrow> k = None) \<and> (\<forall>b. res = Inr (Some b) \<longrightarrow> (\<exists>d. k = Some d \<and> fresh_with d n b s))) (\<lambda>_. True)"
proof -
  have rd: "triple (pinned c r k n F) (read_file KillSwitchMarker)
      (\<lambda>res s. pinned c r k n F s \<and> (res = NotExist \<longrightarrow> k = None) \<and> (\<forall>d. res = Content d \<longrightarrow> k = Some d)) (\<lambda>_. True)"
    by (auto simp: read_file_def call_defs pinned_def split: list.splits if_splits option.splits)
  have cs: "(x = NotExist \<Longrightarrow> triple P a Q R) \<Longrightarrow> (x = ReadFailed \<Longrightarrow> triple P b Q R) \<Longrightarrow> (\<And>c. x = Content c \<Longrightarrow> triple P (k c) Q R) \<Longrightarrow>
      triple P (case x of NotExist \<Rightarrow> a | ReadFailed \<Rightarrow> b | Content c \<Rightarrow> k c) Q R" for x P Q R and a b :: "'b pf_op" and k
    by (cases x) simp_all
  have copy: "triple (\<lambda>s. pinned c r k n F s \<and> k = Some d) (pf_bind (writeCandidateFile d) (\<lambda>copy.
          pf_ret (case copy of None \<Rightarrow> Inl () | Some b \<Rightarrow> Inr (Some b))))
     (\<lambda>res s. pinned c r k n F s \<and> (res = Inr None \<longrightarrow> k = None) \<and> (\<forall>b. res = Inr (Some b) \<longrightarrow> (\<exists>d. k = Some d \<and> fresh_with d n b s))) (\<lambda>_. True)" for d
  proof (cases "k = Some d")
    case True
    show ?thesis
      by (rule triple_bind[OF triple_pre[OF pin_candidate]], erule conjunct1, rule triple_ret) (use True in \<open>auto split: option.splits\<close>)
  qed (simp add: triple_def)
  show ?thesis
    unfolding backupMarkerFile_def
    apply (rule triple_bind[OF rd], rule cs)
      apply (rule triple_ret, blast)
     apply (rule triple_ret, blast)
    apply (rule triple_if, rule triple_ret, blast)
    apply (rule triple_bind[OF triple_pre[OF rd]], blast, rule cs)
      apply (rule triple_ret, blast)
     apply (rule triple_ret, blast)
    apply (rule triple_pre[OF copy], blast)
    done
qed

text \<open>The state an enforcer is in between calls, if no commit went wrong twice.\<close>

definition consistent :: "DarwinEnforcer \<Rightarrow> bool" where
  "consistent s \<longleftrightarrow> live (de_cur s) (de_rules s) \<and> map_of (de_files s) KillSwitchMarker = de_rules s"

lemma triple_exact: "(\<And>s0. P s0 \<Longrightarrow> triple (\<lambda>s. s = s0) m Q R) \<Longrightarrow> triple P m Q R"
  by (simp add: triple_def)

lemma repin: "pinned (de_cur s) (de_rules s) (map_of (de_files s) KillSwitchMarker) (de_fresh s) (\<lambda>i. map_of (de_files s) (TempFile (temp_name i))) s"
  by (simp add: pinned_def)

lemma fresh_index: "fresh_with d n b s \<Longrightarrow> \<exists>i. n \<le> i \<and> i < de_fresh s \<and> b = temp_name i \<and> map_of (de_files s) (TempFile (temp_name i)) = Some d"
  by (auto simp: fresh_with_def)

lemma told_drop: "triple (told p res) (removeIfExists path) (\<lambda>_. told p res) (\<lambda>_. True)"
  by (auto simp: removeIfExists_def call_defs told_def file_drop_def split: list.splits if_splits)

lemma candidate_told:
  assumes p: "Active p" "RenderPF p = Inr ruleset" and c: "live c k"
  shows "triple (\<lambda>s. pinned c k k n F s \<and> fresh_with ruleset n candidate s)
    (pf_bind (backupMarkerFile KillSwitchMarker) (\<lambda>backup.
     case backup of
       Inl _ \<Rightarrow> pf_bind (removeIfExists (TempFile candidate)) (\<lambda>_. pf_ret (Some DeSnapshot))
     | Inr backup \<Rightarrow>
         pf_bind (install_rules p candidate backup) (\<lambda>(err, keep).
         pf_bind (case backup of Some b \<Rightarrow> removeIfExists (TempFile b) | None \<Rightarrow> pf_ret True) (\<lambda>_.
         pf_bind (if keep then pf_ret True else removeIfExists (TempFile candidate)) (\<lambda>_. pf_ret err)))))
    (\<lambda>err s. told p (err, False) s) (\<lambda>_. True)"
proof (rule triple_exact)
  fix s0 assume s0: "pinned c k k n F s0 \<and> fresh_with ruleset n candidate s0"
  let ?n = "de_fresh s0" and ?F = "\<lambda>i. map_of (de_files s0) (TempFile (temp_name i))"
  obtain i where i: "i < ?n" "candidate = temp_name i" "?F i = Some ruleset" using fresh_index s0 by blast
  have pin0: "pinned c k k ?n ?F s0" using s0 repin[of s0] by (simp add: pinned_def)
  have tail: "triple (told p res) (pf_bind (case backup of Some b \<Rightarrow> removeIfExists (TempFile b) | None \<Rightarrow> pf_ret True) (\<lambda>_.
         pf_bind (if keep then pf_ret True else removeIfExists (TempFile candidate)) (\<lambda>_. pf_ret (fst res))))
      (\<lambda>err s. told p (err, False) s) (\<lambda>_. True)" for res backup keep
    apply (rule triple_bind[where Q = "\<lambda>_. told p res"])
     apply (rule triple_option, rule triple_ret, assumption, rule told_drop)
    apply (rule triple_bind[where Q = "\<lambda>_. told p res"])
     apply (rule triple_if, rule triple_ret, assumption, rule told_drop)
    apply (rule triple_ret, simp add: told_def)
    done
  have bk: "triple (\<lambda>s. s = s0) (backupMarkerFile KillSwitchMarker)
      (\<lambda>res s. pinned c k k ?n ?F s \<and> (res = Inr None \<longrightarrow> k = None) \<and> (\<forall>b. res = Inr (Some b) \<longrightarrow> (\<exists>d. k = Some d \<and> fresh_with d ?n b s))) (\<lambda>_. True)"
    by (rule triple_pre[OF pin_backup]) (use pin0 in simp)
  have inst: "triple (\<lambda>s. pinned c k k ?n ?F s \<and> (backup = None \<longrightarrow> k = None) \<and> (\<forall>b. backup = Some b \<longrightarrow> (\<exists>d. k = Some d \<and> fresh_with d ?n b s)))
      (install_rules p candidate backup) (told p) (\<lambda>_. True)" for backup
  proof (rule triple_exact)
    fix s1 assume s1: "pinned c k k ?n ?F s1 \<and> (backup = None \<longrightarrow> k = None) \<and> (\<forall>b. backup = Some b \<longrightarrow> (\<exists>d. k = Some d \<and> fresh_with d ?n b s1))"
    let ?m = "de_fresh s1" and ?G = "\<lambda>i. map_of (de_files s1) (TempFile (temp_name i))"
    have pin1: "pinned c k k ?m ?G s1" using s1 repin[of s1] by (simp add: pinned_def)
    have i1: "i < ?m" "?G i = Some ruleset" using i s1 by (auto simp: pinned_def)
    have b1: "case backup of None \<Rightarrow> k = None | Some b \<Rightarrow> (\<exists>j<?m. j \<noteq> i \<and> b = temp_name j \<and> ?G j = k)"
    proof (cases backup)
      case (Some b)
      then obtain d where d: "k = Some d" "fresh_with d ?n b s1" using s1 by blast
      from fresh_index[OF d(2)] show ?thesis using Some d(1) i(1) by auto
    qed (use s1 in simp)
    show "triple (\<lambda>s. s = s1) (install_rules p candidate backup) (told p) (\<lambda>_. True)"
      unfolding i(2) by (rule triple_pre[OF install_told[OF p c i1 b1]]) (use pin1 in simp)
  qed
  have cs: "(\<And>e. x = Inl e \<Longrightarrow> triple P (f e) Q R) \<Longrightarrow> (\<And>v. x = Inr v \<Longrightarrow> triple P (g v) Q R) \<Longrightarrow> triple P (case x of Inl e \<Rightarrow> f e | Inr v \<Rightarrow> g v) Q R"
    for x :: "'x + 'y" and P Q R and f :: "'x \<Rightarrow> 'z pf_op" and g by (cases x) simp_all
  show "triple (\<lambda>s. s = s0) (pf_bind (backupMarkerFile KillSwitchMarker) (\<lambda>backup.
     case backup of
       Inl _ \<Rightarrow> pf_bind (removeIfExists (TempFile candidate)) (\<lambda>_. pf_ret (Some DeSnapshot))
     | Inr backup \<Rightarrow>
         pf_bind (install_rules p candidate backup) (\<lambda>(err, keep).
         pf_bind (case backup of Some b \<Rightarrow> removeIfExists (TempFile b) | None \<Rightarrow> pf_ret True) (\<lambda>_.
         pf_bind (if keep then pf_ret True else removeIfExists (TempFile candidate)) (\<lambda>_. pf_ret err)))))
    (\<lambda>err s. told p (err, False) s) (\<lambda>_. True)"
    apply (rule triple_bind[OF bk], rule cs)
     apply (rule triple_bind[OF triple_pre[OF told_drop[where res = "(Some DeSnapshot, False)"]]])
      apply (rule pin_told[OF c], erule conjunct1)
     apply (rule triple_ret, assumption)
    apply (rule triple_bind[OF triple_pre[OF inst]], simp, rule triple_pair)
    apply (rename_tac res err keep, rule triple_pre[OF tail[where res = "(err, keep)" for err keep, unfolded fst_conv]], simp)
    done
qed

text \<open>Clearing ends without rules, or changes nothing.\<close>

abbreviation stays :: "Policy \<Rightarrow> string option \<Rightarrow> 'a pf_op \<Rightarrow> bool" where
  "stays c r m \<equiv> triple (core c r) m (\<lambda>_. core c r) (\<lambda>_. True)"

named_theorems core_intros \<open>operations that leave the policy and the rules alone\<close>

lemma core_bind [core_intros]: "stays c r m \<Longrightarrow> (\<And>a. stays c r (k a)) \<Longrightarrow> stays c r (pf_bind m k)"
  by (rule triple_bind)

lemma core_basic [core_intros]: "stays c r (pf_ret a)" "stays c r (pf_read f)" "stays c r pf_outcome"
  by (auto simp: call_defs core_def split: list.splits if_splits)

lemma core_effect: "(\<And>s. core c r s \<Longrightarrow> core c r (f s)) \<Longrightarrow> stays c r (pf_effect b f)"
  by (fastforce simp: call_defs core_def split: list.splits if_splits)

lemma core_pf [core_intros]: "stays c r pfctl_disable" "stays c r (set_owned b)"
  by (simp add: pfctl_disable_def, rule core_effect, simp add: core_def) (simp add: set_owned_def call_defs core_def)

lemmas [core_intros] = core_calls(1-4) triple_if triple_option triple_pair

lemma core_markers [core_intros]: "stays c r (remove_markers ps)"
proof (induction ps)
  case Nil
  show ?case unfolding remove_markers.simps by (rule core_intros)
next
  case (Cons p ps)
  show ?case unfolding remove_markers.simps by (rule core_intros Cons.IH)+
qed

lemma core_release: "stays c r release_pf"
  unfolding release_pf_def pfEnabledByUsPreviously_def pfOwnershipPhase_def read_file_def by (rule core_intros)+

lemma core_quarantined: "stays c r quarantinedCandidate"
  unfolding quarantinedCandidate_def read_file_def by (rule core_intros)+

lemma restore_core:
  "triple (core c r) restoreLocked (\<lambda>err s. core no_policy None s \<or> err \<noteq> None \<and> core c r s) (\<lambda>_. True)"
proof -
  have ld: "triple (core c r) pfctl_load_system (\<lambda>ok s. if ok then core c None s else core c r s) (\<lambda>_. True)"
    by (auto simp: pfctl_load_system_def call_defs core_def split: list.splits if_splits)
  have rest: "stays no_policy None (pf_bind release_pf (\<lambda>released. if \<not> released then pf_ret (Some DeDisableOwned)
     else pf_bind (remove_markers [EnabledMarker, KillSwitchMarker, LegacyMarker, EmergencyMarker]) (\<lambda>removed.
       if \<not> removed then pf_ret (Some DeRemoveMarker)
     else pf_bind quarantinedCandidate (\<lambda>candidate.
       pf_bind (case candidate of None \<Rightarrow> pf_ret True | Some c \<Rightarrow> removeIfExists (TempFile c)) (\<lambda>dropped.
       if \<not> dropped then pf_ret (Some DeRemoveQuarantined)
     else pf_bind (removeIfExists QuarantineJournal) (\<lambda>journal. if \<not> journal then pf_ret (Some DeRemoveJournal)
     else pf_bind (set_quarantined False) (\<lambda>_. pf_ret None)))))))"
    by (rule core_intros core_release core_quarantined)+
  show ?thesis
    unfolding restoreLocked_def
    apply (rule triple_bind[OF ld], rule triple_if)
     apply (rule triple_ret, simp)
    apply (simp only: not_not if_True)
    apply (rule triple_bind[OF core_calls(5)])
    apply (rule triple_post[OF rest], simp)
    done
qed

lemma needs_core: "triple (core c r) needsRestoreLocked (\<lambda>b s. core c r s \<and> (\<not> b \<longrightarrow> \<not> Active c)) (\<lambda>_. True)"
proof (cases "Active c")
  case True
  have "triple (core c r) (pf_read (\<lambda>s. Active (de_cur s))) (\<lambda>b s. core c r s \<and> b) (\<lambda>_. True)"
    using True by (simp add: call_defs core_def)
  then show ?thesis
    unfolding needsRestoreLocked_def first_true.simps(2)
    by (rule triple_bind) (rule triple_if, rule triple_ret, simp, rule triple_pre[where P = "\<lambda>_. False"], simp add: triple_def, simp)
next
  case False
  have st: "stays c r (first_true ms)" if "\<And>m. m \<in> set ms \<Longrightarrow> stays c r m" for ms
    using that
  proof (induction ms)
    case Nil
    show ?case unfolding first_true.simps by (rule core_intros)
  next
    case (Cons m ms)
    have k: "stays c r m" "stays c r (first_true ms)" by (rule Cons.prems, simp) (rule Cons.IH, simp add: Cons.prems)
    show ?case unfolding first_true.simps by (rule k core_intros)+
  qed
  have ex: "stays c r (file_exists q)" for q
    unfolding file_exists_def read_file_def by (rule core_intros)+
  show ?thesis
    by (rule triple_post[where Q = "\<lambda>_. core c r"])
      (unfold needsRestoreLocked_def, rule st, auto intro: ex core_intros simp: False)
qed

lemma darwin_Apply_told:
  "triple consistent (darwin_Apply p) (\<lambda>err s. live (de_cur s) (de_rules s) \<and> (err = None \<longrightarrow> de_cur s = p)) (\<lambda>_. True)"
proof (rule triple_exact)
  fix s0 assume s0: "consistent s0"
  let ?c = "de_cur s0" and ?r = "de_rules s0"
  let ?Q = "\<lambda>(err :: de_error option) s. live (de_cur s) (de_rules s) \<and> (err = None \<longrightarrow> de_cur s = p)"
  have c: "live ?c ?r" and k: "map_of (de_files s0) KillSwitchMarker = ?r" using s0 by (simp_all add: consistent_def)
  have cp: "clonePolicy p = p" by (simp add: clonePolicy_def)
  have none: "live no_policy None" by (simp add: live_def Active_def no_policy_def)
  have start: "core ?c ?r s0" by (simp add: core_def)
  consider e where "Validate p = Some e" | "Validate p = None" "\<not> Active p" | ruleset where "Validate p = None" "Active p" "RenderPF p = Inr ruleset"
    by (cases "Validate p") (auto simp: RenderPF_def)
  then show "triple (\<lambda>s. s = s0) (darwin_Apply p) ?Q (\<lambda>_. True)"
  proof cases
    case 1
    then show ?thesis using c by (simp add: darwin_Apply_def cp triple_def pf_ret_def)
  next
    case 2
    have lp: "live p None" using 2 by (simp add: live_def)
    have err: "triple (\<lambda>s. (core no_policy None s \<or> err \<noteq> None \<and> core ?c ?r s) \<or> err = None \<and> core ?c ?r s \<and> \<not> Active ?c)
        (case err of Some e \<Rightarrow> pf_ret (Some e) | None \<Rightarrow> pf_bind (set_cur p) (\<lambda>_. pf_ret None)) ?Q (\<lambda>_. True)" for err
      using c lp none by (cases err) (auto simp: call_defs set_cur_def core_def live_def)
    have body: "triple (core ?c ?r) (pf_bind needsRestoreLocked (\<lambda>needed. pf_bind (if needed then restoreLocked else pf_ret None) (\<lambda>err.
       case err of Some e \<Rightarrow> pf_ret (Some e) | None \<Rightarrow> pf_bind (set_cur p) (\<lambda>_. pf_ret None)))) ?Q (\<lambda>_. True)"
      apply (rule triple_bind[OF needs_core], rule triple_bind[OF _ err], rule triple_if)
       apply (rule triple_conseq[OF restore_core], erule conjunct1, blast, assumption)
      apply (rule triple_ret, simp)
      done
    show ?thesis
      unfolding darwin_Apply_def Let_def cp 2(1) option.case if_P[OF 2(2)]
      by (rule triple_pre[OF body]) (use start in simp)
  next
    case 3
    let ?n = "de_fresh s0" and ?F = "\<lambda>i. map_of (de_files s0) (TempFile (temp_name i))"
    have pin0: "pinned ?c ?r ?r ?n ?F s0" using repin[of s0] k by simp
    have na: "\<not> \<not> Active p" using 3 by simp
    show ?thesis
      unfolding darwin_Apply_def Let_def cp 3(1,3) option.case sum.case if_not_P[OF na]
      apply (rule triple_bind[OF triple_pre[OF pin_candidate[where c = ?c and r = ?r and k = ?r and n = ?n and F = ?F]]])
       apply (simp add: pin0)
      apply (rule triple_option)
       apply (rule triple_ret, simp add: pinned_def c)
      apply (rule triple_conseq[OF candidate_told[OF 3(2,3) c]], simp, simp add: told_def, assumption)
      done
  qed
qed

section \<open>Properties\<close>


definition darwin_start :: "bool \<Rightarrow> outcome list \<Rightarrow> DarwinEnforcer" where
  "darwin_start on outcomes = \<lparr> de_cur = no_policy, de_weEnabledPf = False, de_quarantined = False, de_rules = None,
     de_enabled = on, de_files = [], de_fresh = 0, de_outcomes = outcomes \<rparr>"

definition darwin_policy :: "string \<Rightarrow> Policy" where
  "darwin_policy ifc = no_policy\<lparr>po_Enabled := True, po_TunnelInterface := ifc\<rparr>"


text \<open>
  C19: a pf the enforcer turned on is always recorded, and can be given back. From a host with pf off and
  no rules of its own, after any sequence of calls, failures, kills and restarts: if pf is on, its
  ownership marker is on disk and is not the cancelled one; rules are loaded only while pf is on;
  and a \<open>Clear\<close> in a new process in which nothing fails turns pf off, unloads the rules and removes
  the ownership marker.
\<close>

theorem own_pf_always_recorded:
  assumes "\<not> de_enabled s" "de_rules s = None"
  shows "(de_enabled (darwin_run calls s) \<longrightarrow>
      (\<exists>c. map_of (de_files (darwin_run calls s)) EnabledMarker = Some c \<and> c \<noteq> pfOwnershipCancelled)) \<and>
    (de_rules (darwin_run calls s) \<noteq> None \<longrightarrow> de_enabled (darwin_run calls s)) \<and>
    (\<exists>s'. darwin_Clear (darwin_restart (darwin_run calls s\<lparr>de_outcomes := []\<rparr>)) = (Some None, s') \<and> \<not> de_enabled s' \<and> de_rules s' = None \<and>
       \<not> map_has (de_files s') EnabledMarker)"
proof -
  have r: "ours.inv (darwin_run calls s)" using ours_run[of s calls] assms by (simp add: inv_defs)
  have "ours.inv (darwin_restart (darwin_run calls s\<lparr>de_outcomes := []\<rparr>))" "de_outcomes (darwin_restart (darwin_run calls s\<lparr>de_outcomes := []\<rparr>)) = []"
    using r by (simp_all add: inv_defs darwin_restart_def)
  from quiet_Clear[OF this(2,1)] show ?thesis using r by (auto simp: inv_defs owned_phase_def)
qed

theorem own_pf_always_recorded_witness:
  "\<exists>s'. darwin_Clear (darwin_restart (darwin_run [DApply (darwin_policy ''u'')] (darwin_start False [Done, Done])\<lparr>de_outcomes := []\<rparr>)) = (Some None, s') \<and>
     \<not> de_enabled s'"
  using own_pf_always_recorded[of "darwin_start False [Done, Done]" "[DApply (darwin_policy ''u'')]"] by (auto simp: darwin_start_def)


definition darwin_applied :: "de_error option option \<times> DarwinEnforcer" where
  "darwin_applied = darwin_Apply (darwin_policy ''u'') (darwin_start False [])"

lemma darwin_applied_ok: "fst darwin_applied = Some None"
  by code_simp


section \<open>What goes wrong\<close>

text \<open>
  The marker commit and the rollback fail, so the policy is kept under the emergency marker. The next
  commit fails too: its rollback restores the system's rules, and \<open>Current\<close> still names the first
  policy.
\<close>

definition twice_failed :: DarwinEnforcer where
  "twice_failed = darwin_run [DApply (darwin_policy ''u''), DApply (darwin_policy ''v'')]
     (darwin_start True ([Done, Done, Done, Done, Done, Done, Done, Done, Failed, Failed, Done, Done, Done, Done] @
        [Done, Done, Done, Done, Done, Done, Done, Done, Failed, Done, Done]))"

lemma twice_failed_untruthful: "de_rules twice_failed = None \<and> po_Enabled (de_cur twice_failed)"
  by code_simp

text \<open>Killed between loading the rules and committing the marker, with pf turned on by the user: nothing is left to clear them by.\<close>

definition killed_after_load :: DarwinEnforcer where
  "killed_after_load = darwin_run [DApply (darwin_policy ''u''), DClear]
     (darwin_start True [Done, Done, Done, Done, Done, Done, Done, Done, Killed])"

lemma killed_after_load_stranded: "de_rules killed_after_load \<noteq> None \<and> \<not> Active (de_cur killed_after_load)"
  by code_simp

text \<open>Killed after the intent and before \<open>pfctl -E\<close>: a pf the user turns on later is turned off.\<close>

lemma intent_alone_disables:
  "\<not> de_enabled (snd (darwin_Clear ((darwin_start True [])\<lparr>de_files := [(EnabledMarker, pfOwnershipIntent)]\<rparr>)))"
  by code_simp

end
