(* ===== verification/RL_Frames.thy ===== *)
theory RL_Frames
  imports Crypto
begin

text \<open>
  The relay client: \<open>internal/relay/proto.go\<close> (length-prefixed frames, their writer and reader, the
  keyed payloads), \<open>auth_client.go\<close> (the proofs) and \<open>client.go\<close> (the bind handshake, \<open>Send\<close>,
  \<open>Receive\<close>, \<open>Close\<close>). A connection is what the calls see of it: an answer of the \<open>io.Writer\<close> for every
  write, with the bytes that have reached the peer, and the bytes the peer sends until the
  connection fails.
\<close>

section \<open>Frames\<close>

type_synonym key = bytes

datatype rl_error =
  FrameTooLarge | ShortPayload | NoProgress | UnexpectedEOF | ReadError nat | WriteError nat | SliceOutOfRange |
  ExpectedChallenge u8 | UnexpectedBindReply u8 | BadSharedSecret | ConnClosed

definition FrameBind :: u8 where "FrameBind = 1"
definition FrameForward :: u8 where "FrameForward = 2"
definition FrameRecv :: u8 where "FrameRecv = 3"
definition FrameBindOK :: u8 where "FrameBindOK = 4"
definition FrameRelayHello :: u8 where "FrameRelayHello = 5"
definition FrameRelayDeliver :: u8 where "FrameRelayDeliver = 6"
definition FrameChallenge :: u8 where "FrameChallenge = 7"
definition FrameProof :: u8 where "FrameProof = 8"

definition keyLen :: nat where "keyLen = 32"
definition nonceLen :: nat where "nonceLen = 16"
definition maxFrameSize :: nat where "maxFrameSize = 2 ^ 20"

section \<open>Writing\<close>

text \<open>
  An \<open>io.Writer\<close>: the answer to the \<open>k\<close>-th call is the number of bytes it took and its error. The
  contract of the interface is \<open>0 \<le> n \<le> len(p)\<close>; \<open>data[n:]\<close> panics on a larger \<open>n\<close>.
\<close>

record sink =
  sk_answer :: "nat \<Rightarrow> bytes \<Rightarrow> nat \<times> nat option"
  sk_calls :: nat
  sk_out :: bytes

definition Write :: "sink \<Rightarrow> bytes \<Rightarrow> nat \<times> nat option \<times> sink" where
  "Write w data = (let (n, e) = sk_answer w (sk_calls w) data in
     (n, e, w\<lparr> sk_calls := Suc (sk_calls w), sk_out := sk_out w @ take n data \<rparr>))"

function writeAll :: "sink \<Rightarrow> bytes \<Rightarrow> rl_error option \<times> sink" where
  "writeAll w data =
     (if data = [] then (None, w)
      else let (n, e, w') = Write w data in
        if length data < n then (Some SliceOutOfRange, w')
        else (case e of
            Some c \<Rightarrow> (Some (WriteError c), w')
          | None \<Rightarrow> if n = 0 then (Some NoProgress, w') else writeAll w' (drop n data)))"
  by pat_completeness auto
termination by (relation "measure (\<lambda>(w, data). length data)") auto

declare writeAll.simps [simp del]

definition frame_header :: "u8 \<Rightarrow> bytes \<Rightarrow> bytes" where
  "frame_header t payload = be_enc 4 (length payload + 1) @ [t]"

definition writeFrame :: "sink \<Rightarrow> u8 \<Rightarrow> bytes \<Rightarrow> rl_error option \<times> sink" where
  "writeFrame w t payload =
     (if maxFrameSize < length payload + 1 then (Some FrameTooLarge, w)
      else case writeAll w (frame_header t payload) of
        (Some e, w1) \<Rightarrow> (Some e, w1)
      | (None, w1) \<Rightarrow> if payload \<noteq> [] then writeAll w1 payload else (None, w1))"

section \<open>Reading\<close>

text \<open>
  The reading end: the bytes the peer sends, then the error every later read returns (\<open>None\<close> is
  \<open>io.EOF\<close>). \<open>io.ReadFull\<close> reads across the boundaries of packets.
\<close>

record source =
  sr_bytes :: bytes
  sr_end :: "nat option"

definition eof_error :: nat where "eof_error = 0"

definition readFull :: "source \<Rightarrow> nat \<Rightarrow> (rl_error + bytes) \<times> source" where
  "readFull r n =
     (if n \<le> length (sr_bytes r) then (Inr (take n (sr_bytes r)), r\<lparr> sr_bytes := drop n (sr_bytes r) \<rparr>)
      else (Inl (case sr_end r of Some c \<Rightarrow> ReadError c
                 | None \<Rightarrow> if sr_bytes r = [] then ReadError eof_error else UnexpectedEOF), r\<lparr> sr_bytes := [] \<rparr>))"

definition readFrame :: "source \<Rightarrow> (rl_error + u8 \<times> bytes) \<times> source" where
  "readFrame r =
     (case readFull r 5 of
        (Inl e, r1) \<Rightarrow> (Inl e, r1)
      | (Inr hdr, r1) \<Rightarrow>
          let n = unat (be32 (take 4 hdr)) in
          if n < 1 \<or> maxFrameSize < n then (Inl FrameTooLarge, r1)
          else (case readFull r1 (n - 1) of
              (Inl e, r2) \<Rightarrow> (Inl e, r2)
            | (Inr payload, r2) \<Rightarrow> (Inr (hdr ! 4, payload), r2)))"

section \<open>Payloads\<close>

text \<open>\<open>copy(buf[k:], src)\<close>.\<close>

definition copy_at :: "nat \<Rightarrow> bytes \<Rightarrow> bytes \<Rightarrow> bytes" where
  "copy_at k src buf = take k buf @ copy_into (drop k buf) src"

definition encodeForward :: "key \<Rightarrow> bytes \<Rightarrow> bytes" where
  "encodeForward dst data = copy_at keyLen data (copy_at 0 dst (zeros (keyLen + length data)))"

definition decodeKeyed :: "bytes \<Rightarrow> rl_error + key \<times> bytes" where
  "decodeKeyed payload = (if length payload < keyLen then Inl ShortPayload
     else Inr (copy_into (zeros 32) (take keyLen payload), drop keyLen payload))"

definition encodeRelayDeliver :: "key \<Rightarrow> key \<Rightarrow> bytes \<Rightarrow> bytes" where
  "encodeRelayDeliver dst src data =
     copy_at (keyLen * 2) data (copy_at keyLen src (copy_at 0 dst (zeros (keyLen * 2 + length data))))"

definition decodeRelayDeliver :: "bytes \<Rightarrow> rl_error + key \<times> key \<times> bytes" where
  "decodeRelayDeliver payload = (if length payload < keyLen * 2 then Inl ShortPayload
     else Inr (copy_into (zeros 32) (take keyLen payload), copy_into (zeros 32) (drop keyLen (take (keyLen * 2) payload)),
               drop (keyLen * 2) payload))"

section \<open>The client\<close>

text \<open>
  \<open>golang.org/x/crypto/curve25519\<close>: \<open>ScalarBaseMult\<close> and \<open>X25519\<close>, which refuses a low-order point.
\<close>

record curve =
  cv_base :: "key \<Rightarrow> key"
  cv_x25519 :: "key \<Rightarrow> key \<Rightarrow> bytes option"

definition proofFor :: "curve \<Rightarrow> crypto \<Rightarrow> key \<Rightarrow> key \<Rightarrow> bytes \<Rightarrow> rl_error + bytes" where
  "proofFor cv C nodePriv ephPub nonce =
     (case cv_x25519 cv nodePriv ephPub of None \<Rightarrow> Inl BadSharedSecret | Some shared \<Rightarrow> Inr (hmac_sha256 C shared nonce))"

definition admissionProof :: "crypto \<Rightarrow> bytes \<Rightarrow> key \<Rightarrow> bytes \<Rightarrow> bytes" where
  "admissionProof C secret nodePub nonce = hmac_sha256 C secret (nodePub @ nonce)"

record conn =
  cn_sink :: sink
  cn_source :: source
  cn_closed :: bool

record Client =
  cl_self :: key
  cl_nc :: conn
  cl_closed :: bool

definition conn_write :: "conn \<Rightarrow> u8 \<Rightarrow> bytes \<Rightarrow> rl_error option \<times> conn" where
  "conn_write nc t payload = (case writeFrame (cn_sink nc) t payload of (e, w) \<Rightarrow> (e, nc\<lparr> cn_sink := w \<rparr>))"

definition conn_read :: "conn \<Rightarrow> (rl_error + u8 \<times> bytes) \<times> conn" where
  "conn_read nc = (case readFrame (cn_source nc) of (f, r) \<Rightarrow> (f, nc\<lparr> cn_source := r \<rparr>))"

definition conn_close :: "conn \<Rightarrow> conn" where "conn_close nc = nc\<lparr> cn_closed := True \<rparr>"

text \<open>
  \<open>DialWithAdmission\<close> once the transport has wrapped the TCP connection: bind, answer the challenge,
  wait for the acknowledgement. Every failure closes the connection.
\<close>

definition await_BindOK :: "key \<Rightarrow> conn \<Rightarrow> (rl_error + Client) \<times> conn" where
  "await_BindOK pub nc =
     (case conn_read nc of
        (Inl e, nc) \<Rightarrow> (Inl e, conn_close nc)
      | (Inr (t, _), nc) \<Rightarrow>
          if t \<noteq> FrameBindOK then (Inl (UnexpectedBindReply t), conn_close nc)
          else (Inr \<lparr> cl_self = pub, cl_nc = nc, cl_closed = False \<rparr>, nc))"

definition answer_challenge :: "curve \<Rightarrow> crypto \<Rightarrow> key \<Rightarrow> key \<Rightarrow> bytes \<Rightarrow> bytes \<Rightarrow> conn \<Rightarrow> (rl_error + Client) \<times> conn" where
  "answer_challenge cv C priv pub clientSecret chal nc =
     (case proofFor cv C priv (copy_into (zeros 32) (take 32 chal)) (drop 32 chal) of
        Inl e \<Rightarrow> (Inl e, conn_close nc)
      | Inr proof0 \<Rightarrow>
          let proof1 = (if clientSecret \<noteq> [] then proof0 @ admissionProof C clientSecret pub (drop 32 chal) else proof0) in
          case conn_write nc FrameProof proof1 of
            (Some e, nc) \<Rightarrow> (Inl e, conn_close nc)
          | (None, nc) \<Rightarrow> await_BindOK pub nc)"

definition bind_client :: "curve \<Rightarrow> crypto \<Rightarrow> key \<Rightarrow> bytes \<Rightarrow> conn \<Rightarrow> (rl_error + Client) \<times> conn" where
  "bind_client cv C priv clientSecret nc =
     (let pub = cv_base cv priv in
      case conn_write nc FrameBind pub of
        (Some e, nc) \<Rightarrow> (Inl e, conn_close nc)
      | (None, nc) \<Rightarrow>
          (case conn_read nc of
            (Inl e, nc) \<Rightarrow> (Inl e, conn_close nc)
          | (Inr (ct, chal), nc) \<Rightarrow>
              if ct \<noteq> FrameChallenge \<or> length chal \<noteq> 32 + nonceLen then (Inl (ExpectedChallenge ct), conn_close nc)
              else answer_challenge cv C priv pub clientSecret chal nc))"

text \<open>The dial and the camouflage handshake answer with a connection or an error.\<close>

definition DialWithAdmission :: "curve \<Rightarrow> crypto \<Rightarrow> key \<Rightarrow> bytes \<Rightarrow> rl_error + conn \<Rightarrow> rl_error + Client" where
  "DialWithAdmission cv C priv clientSecret dialed =
     (case dialed of Inl e \<Rightarrow> Inl e | Inr nc \<Rightarrow> fst (bind_client cv C priv clientSecret nc))"

definition DialWithTransport :: "curve \<Rightarrow> crypto \<Rightarrow> key \<Rightarrow> rl_error + conn \<Rightarrow> rl_error + Client" where
  "DialWithTransport cv C priv dialed = DialWithAdmission cv C priv [] dialed"

definition Send :: "Client \<Rightarrow> key \<Rightarrow> bytes \<Rightarrow> rl_error option \<times> Client" where
  "Send c dst data =
     (if cl_closed c then (Some ConnClosed, c)
      else case conn_write (cl_nc c) FrameForward (encodeForward dst data) of (e, nc) \<Rightarrow> (e, c\<lparr> cl_nc := nc \<rparr>))"

definition Client_Close :: "Client \<Rightarrow> Client" where
  "Client_Close c = (if cl_closed c then c else c\<lparr> cl_closed := True, cl_nc := conn_close (cl_nc c) \<rparr>)"

section \<open>What the writer delivers\<close>

lemma writeAll_effect:
  assumes "writeAll w data = (e, w')"
  shows "sk_answer w' = sk_answer w \<and> sk_calls w \<le> sk_calls w' \<and> sk_calls w' \<le> sk_calls w + length data \<and>
    (\<exists>k\<le>length data. sk_out w' = sk_out w @ take k data \<and> (e = None \<longrightarrow> k = length data))"
  using assms
proof (induction w data rule: writeAll.induct)
  case (1 w data)
  obtain n a where a: "sk_answer w (sk_calls w) data = (n, a)" by fastforce
  define v where "v = w\<lparr> sk_calls := Suc (sk_calls w), sk_out := sk_out w @ take n data \<rparr>"
  have wr: "Write w data = (n, a, v)" by (simp add: Write_def a v_def)
  consider "data = []" | "data \<noteq> []" "length data < n \<or> a \<noteq> None \<or> n = 0"
    | "data \<noteq> []" "n \<le> length data" "a = None" "0 < n" by force
  then show ?case
  proof cases
    case 1
    then show ?thesis using "1.prems" by (simp add: writeAll.simps)
  next
    case 2
    then have "w' = v" "e \<noteq> None" using "1.prems" wr by (auto simp: writeAll.simps[of w data] split: option.splits if_splits)
    moreover have "1 \<le> length data" using 2 by (simp add: Suc_le_eq)
    moreover have "take n data = take (min n (length data)) data" by (simp add: min_def)
    ultimately show ?thesis unfolding v_def by (intro conjI exI[of _ "min n (length data)"]) auto
  next
    case 3
    then have "writeAll v (drop n data) = (e, w')" using "1.prems" wr by (simp add: writeAll.simps[of w data])
    from "1.IH"[OF 3(1) wr[symmetric] refl refl _ 3(3) _ this] 3
    obtain k where ih: "sk_answer w' = sk_answer v" "sk_calls v \<le> sk_calls w'" "sk_calls w' \<le> sk_calls v + length (drop n data)"
      "k \<le> length (drop n data)" "sk_out w' = sk_out v @ take k (drop n data)" "e = None \<longrightarrow> k = length (drop n data)" by auto
    have out: "sk_out w' = sk_out w @ take (n + k) data" using ih(5) by (simp add: v_def take_add)
    show ?thesis
    proof (intro conjI exI[of _ "n + k"])
      show "n + k \<le> length data" using ih(4) 3(2) by simp
      show "e = None \<longrightarrow> n + k = length data" using ih(6) 3(2) by simp
    qed (use ih 3 out in \<open>auto simp: v_def\<close>)
  qed
qed

lemma writeAll_delivered: "writeAll w data = (None, w') \<Longrightarrow> sk_out w' = sk_out w @ data"
  using writeAll_effect by fastforce

lemma writeAll_answer: "writeAll w data = (e, w') \<Longrightarrow> sk_answer w' = sk_answer w"
  using writeAll_effect by blast

text \<open>A writer that makes progress takes at least one byte of every write and never fails.\<close>

definition progressing :: "sink \<Rightarrow> bool" where
  "progressing w \<longleftrightarrow> (\<forall>k d. d \<noteq> [] \<longrightarrow> 0 < fst (sk_answer w k d) \<and> fst (sk_answer w k d) \<le> length d \<and> snd (sk_answer w k d) = None)"

lemma writeAll_progressing: "progressing w \<Longrightarrow> fst (writeAll w data) = None"
proof (induction w data rule: writeAll.induct)
  case (1 w data)
  show ?case
  proof (cases "data = []")
    case False
    obtain n a where a: "sk_answer w (sk_calls w) data = (n, a)" by fastforce
    define v where "v = w\<lparr> sk_calls := Suc (sk_calls w), sk_out := sk_out w @ take n data \<rparr>"
    have wr: "Write w data = (n, a, v)" by (simp add: Write_def a v_def)
    have n: "0 < n" "n \<le> length data" "a = None"
      using "1.prems" False a unfolding progressing_def by (metis fst_conv snd_conv)+
    have "progressing v" using "1.prems" by (simp add: progressing_def v_def)
    then have "fst (writeAll v (drop n data)) = None"
      using "1.IH"[OF False wr[symmetric] refl refl _ n(3)] n by simp
    then show ?thesis using False wr n by (simp add: writeAll.simps[of w data])
  qed (simp add: writeAll.simps)
qed

definition frame_bytes :: "u8 \<times> bytes \<Rightarrow> bytes" where
  "frame_bytes f = frame_header (fst f) (snd f) @ snd f"

lemma writeFrame_delivered:
  assumes "writeFrame w t payload = (None, w')"
  shows "sk_out w' = sk_out w @ frame_bytes (t, payload) \<and> sk_answer w' = sk_answer w \<and> length payload + 1 \<le> maxFrameSize"
proof -
  obtain e w1 where 1: "writeAll w (frame_header t payload) = (e, w1)" by fastforce
  with assms have e: "e = None" and fits: "length payload + 1 \<le> maxFrameSize" 
    by (auto simp: writeFrame_def split: if_splits option.splits)
  show ?thesis
  proof (cases "payload = []")
    case True
    then show ?thesis using assms 1 e fits writeAll_delivered[of w] writeAll_answer[of w]
      by (simp add: writeFrame_def frame_bytes_def)
  next
    case False
    then have 2: "writeAll w1 payload = (None, w')" using assms 1 e fits by (simp add: writeFrame_def)
    then show ?thesis using 1 e fits writeAll_delivered[OF 2] writeAll_answer[OF 2] writeAll_delivered[of w] writeAll_answer[of w]
      by (simp add: frame_bytes_def)
  qed
qed

lemma writeFrame_progressing:
  assumes "progressing w" "length payload + 1 \<le> maxFrameSize"
  shows "fst (writeFrame w t payload) = None"
proof -
  obtain e w1 where 1: "writeAll w (frame_header t payload) = (e, w1)" by fastforce
  then have "e = None" using writeAll_progressing[OF assms(1)] by (metis fst_conv)
  moreover have "progressing w1" using assms(1) writeAll_answer[OF 1] by (simp add: progressing_def)
  ultimately show ?thesis using 1 assms(2) writeAll_progressing[of w1 payload]
    by (simp add: writeFrame_def)
qed

section \<open>What the reader returns\<close>

lemma length_frame_header [simp]: "length (frame_header t p) = 5"
  by (simp add: frame_header_def)

lemma frame_header_size:
  "length p + 1 \<le> maxFrameSize \<Longrightarrow> unat (be32 (take 4 (frame_header t p))) = length p + 1"
  by (simp add: frame_header_def be32_def be_dec_enc maxFrameSize_def unat_of_nat flip: of_nat_Suc)

lemma frame_header_type: "frame_header t p ! 4 = t"
  by (simp add: frame_header_def nth_append)

lemma readFull_exact [simp]:
  "readFull \<lparr> sr_bytes = b @ rest, sr_end = e \<rparr> (length b) = (Inr b, \<lparr> sr_bytes = rest, sr_end = e \<rparr>)"
  by (simp add: readFull_def)

lemma readFrame_frame_bytes:
  assumes "length (snd f) + 1 \<le> maxFrameSize"
  shows "readFrame \<lparr> sr_bytes = frame_bytes f @ rest, sr_end = e \<rparr> = (Inr f, \<lparr> sr_bytes = rest, sr_end = e \<rparr>)"
proof -
  obtain t p where f: "f = (t, p)" by fastforce
  have "readFull \<lparr> sr_bytes = frame_bytes f @ rest, sr_end = e \<rparr> 5 = (Inr (frame_header t p), \<lparr> sr_bytes = p @ rest, sr_end = e \<rparr>)"
    using readFull_exact[of "frame_header t p" "p @ rest" e] by (simp add: f frame_bytes_def)
  then show ?thesis
    using assms by (simp add: readFrame_def frame_header_size frame_header_type f)
qed

lemma readFull_length: "readFull r n = (Inr b, r') \<Longrightarrow> length (sr_bytes r) = n + length (sr_bytes r') \<and> length b = n \<and> sr_end r' = sr_end r"
  by (auto simp: readFull_def split: if_splits)

lemma readFull_bytes: "readFull r n = (Inr b, r') \<Longrightarrow> sr_bytes r = b @ sr_bytes r'"
  by (auto simp: readFull_def split: if_splits)

lemma readFrame_consumes:
  assumes "readFrame r = (Inr f, r')"
  shows "length (sr_bytes r') < length (sr_bytes r)"
proof -
  obtain hdr r1 where 1: "readFull r 5 = (Inr hdr, r1)"
    using assms by (auto simp: readFrame_def split: prod.splits sum.splits)
  then obtain payload r2 where 2: "readFull r1 (unat (be32 (take 4 hdr)) - 1) = (Inr payload, r2)" "r' = r2"
    using assms by (auto simp: readFrame_def Let_def split: prod.splits sum.splits if_splits)
  show ?thesis using readFull_length[OF 1] readFull_length[OF 2(1)] 2(2) by simp
qed

text \<open>
  \<open>Receive\<close>: the calls of the callback, then the error that ends it. Cancellation closes the connection,
  which is one of the ways a source ends.
\<close>

function Receive_from :: "source \<Rightarrow> (key \<times> bytes) list \<times> rl_error" where
  "Receive_from r =
     (case readFrame r of
        (Inl e, r') \<Rightarrow> ([], e)
      | (Inr (t, payload), r') \<Rightarrow>
          if t \<noteq> FrameRecv then Receive_from r'
          else (case decodeKeyed payload of
              Inl e \<Rightarrow> Receive_from r'
            | Inr delivery \<Rightarrow> (case Receive_from r' of (ds, e) \<Rightarrow> (delivery # ds, e))))"
  by pat_completeness auto
termination by (relation "measure (\<lambda>r. length (sr_bytes r))") (auto dest: readFrame_consumes[OF sym])

declare Receive_from.simps [simp del]

definition Receive :: "Client \<Rightarrow> (key \<times> bytes) list \<times> rl_error" where
  "Receive c = Receive_from (cn_source (cl_nc c))"

lemma unat_be32: "length b = 4 \<Longrightarrow> unat (be32 b) = be_dec b"
  using be_dec_less[of b] by (simp add: be32_def unat_of_nat)

lemma readFrame_inverse:
  assumes "readFrame r = (Inr f, r')"
  shows "sr_bytes r = frame_bytes f @ sr_bytes r' \<and> sr_end r' = sr_end r \<and> length (snd f) + 1 \<le> maxFrameSize"
proof -
  obtain hdr r1 where 1: "readFull r 5 = (Inr hdr, r1)"
    using assms by (auto simp: readFrame_def split: prod.splits sum.splits)
  define n where "n = unat (be32 (take 4 hdr))"
  obtain p r2 where 2: "readFull r1 (n - 1) = (Inr p, r2)" "r' = r2" "f = (hdr ! 4, p)" "1 \<le> n" "n \<le> maxFrameSize"
    using assms 1 by (auto simp: readFrame_def n_def Let_def Suc_le_eq unat_gt_0 split: prod.splits sum.splits if_splits)
  have h: "length hdr = 5" and p: "length p + 1 = n" using readFull_length[OF 1] readFull_length[OF 2(1)] 2(4) by auto
  have "hdr = take 4 hdr @ [hdr ! 4]"
    using h take_Suc_conv_app_nth[of 4 hdr] by simp
  moreover have "be_enc 4 n = take 4 hdr"
    using be_enc_dec[of "take 4 hdr"] h by (simp add: n_def unat_be32)
  ultimately have "frame_header (hdr ! 4) p = hdr" using p by (simp add: frame_header_def)
  moreover have "sr_bytes r = hdr @ p @ sr_bytes r2"
    using readFull_bytes[OF 1] readFull_bytes[OF 2(1)] by simp
  ultimately show ?thesis using 2 p readFull_length[OF 1] readFull_length[OF 2(1)] by (simp add: frame_bytes_def)
qed

section \<open>Properties\<close>

text \<open>A sequence of \<open>writeFrame\<close> calls and the matching sequence of \<open>readFrame\<close> calls.\<close>

fun write_frames :: "sink \<Rightarrow> (u8 \<times> bytes) list \<Rightarrow> rl_error option \<times> sink" where
  "write_frames w [] = (None, w)"
| "write_frames w (f # fs) = (case writeFrame w (fst f) (snd f) of (Some e, w1) \<Rightarrow> (Some e, w1) | (None, w1) \<Rightarrow> write_frames w1 fs)"

fun read_frames :: "nat \<Rightarrow> source \<Rightarrow> rl_error + (u8 \<times> bytes) list \<times> source" where
  "read_frames 0 r = Inr ([], r)"
| "read_frames (Suc n) r = (case readFrame r of (Inl e, r1) \<Rightarrow> Inl e
    | (Inr f, r1) \<Rightarrow> (case read_frames n r1 of Inl e \<Rightarrow> Inl e | Inr (fs, r2) \<Rightarrow> Inr (f # fs, r2)))"

lemma write_frames_progressing:
  "progressing w \<Longrightarrow> (\<And>f. f \<in> set fs \<Longrightarrow> length (snd f) + 1 \<le> maxFrameSize) \<Longrightarrow>
     \<exists>w'. write_frames w fs = (None, w') \<and> sk_out w' = sk_out w @ concat (map frame_bytes fs)"
proof (induction fs arbitrary: w)
  case (Cons f fs)
  obtain w1 where 1: "writeFrame w (fst f) (snd f) = (None, w1)"
    using writeFrame_progressing[OF Cons.prems(1), of "snd f" "fst f"] Cons.prems(2) by (metis list.set_intros(1) prod.collapse)
  note d = writeFrame_delivered[OF 1]
  have "progressing w1" using Cons.prems(1) d by (simp add: progressing_def)
  with Cons.IH[of w1] Cons.prems(2) 1 d show ?case by auto
qed simp

lemma read_frames_bytes:
  "(\<And>f. f \<in> set fs \<Longrightarrow> length (snd f) + 1 \<le> maxFrameSize) \<Longrightarrow>
     read_frames (length fs) \<lparr> sr_bytes = concat (map frame_bytes fs) @ rest, sr_end = e \<rparr> = Inr (fs, \<lparr> sr_bytes = rest, sr_end = e \<rparr>)"
  by (induction fs) (simp_all add: readFrame_frame_bytes)

text \<open>
  C36: frames survive the connection. For every list of frames within the size limit and every writer
  that takes at least one byte per call, however it cuts the writes, writing the frames succeeds and
  reading as many frames from the bytes that arrived gives exactly those frames, leaving what follows.
\<close>

theorem frames_round_trip:
  assumes "progressing w" "sk_out w = []" "\<And>f. f \<in> set fs \<Longrightarrow> length (snd f) + 1 \<le> maxFrameSize"
  shows "\<exists>w'. write_frames w fs = (None, w') \<and>
    read_frames (length fs) \<lparr> sr_bytes = sk_out w' @ rest, sr_end = e \<rparr> = Inr (fs, \<lparr> sr_bytes = rest, sr_end = e \<rparr>)"
proof -
  obtain w' where "write_frames w fs = (None, w')" "sk_out w' = concat (map frame_bytes fs)"
    using write_frames_progressing[OF assms(1,3)] assms(2) by auto
  then show ?thesis using read_frames_bytes[OF assms(3)] by simp
qed

definition three_bytes :: sink where
  "three_bytes = \<lparr> sk_answer = (\<lambda>k d. (min 3 (length d), None)), sk_calls = 0, sk_out = [] \<rparr>"

definition sample_frames :: "(u8 \<times> bytes) list" where
  "sample_frames = [(FrameForward, replicate 40 7), (FrameProof, [])]"

lemma three_bytes_progressing: "progressing three_bytes" "sk_out three_bytes = []"
  by (simp_all add: three_bytes_def progressing_def)

lemma sample_frames_fit: "f \<in> set sample_frames \<Longrightarrow> length (snd f) + 1 \<le> maxFrameSize"
  by (auto simp: sample_frames_def maxFrameSize_def)

theorem frames_round_trip_witness:
  "\<exists>w'. write_frames three_bytes sample_frames = (None, w') \<and>
    read_frames (length sample_frames) \<lparr> sr_bytes = sk_out w' @ [1], sr_end = None \<rparr> =
      Inr (sample_frames, \<lparr> sr_bytes = [1], sr_end = None \<rparr>)"
  by (rule frames_round_trip[OF three_bytes_progressing sample_frames_fit])

lemma writeAll_no_panic:
  assumes "\<And>k d. fst (sk_answer w k d) \<le> length d"
  shows "fst (writeAll w data) \<noteq> Some SliceOutOfRange"
  using assms
proof (induction w data rule: writeAll.induct)
  case (1 w data)
  show ?case
  proof (cases "data = []")
    case False
    obtain n a where a: "sk_answer w (sk_calls w) data = (n, a)" by fastforce
    define v where "v = w\<lparr> sk_calls := Suc (sk_calls w), sk_out := sk_out w @ take n data \<rparr>"
    have wr: "Write w data = (n, a, v)" by (simp add: Write_def a v_def)
    have n: "n \<le> length data" using "1.prems"[of "sk_calls w" data] a by simp
    have "fst (writeAll v (drop n data)) \<noteq> Some SliceOutOfRange" if "a = None" "n \<noteq> 0"
      using "1.IH"[OF False wr[symmetric] refl refl _ that] n "1.prems" by (simp add: v_def)
    then show ?thesis using False wr n by (cases a) (auto simp: writeAll.simps[of w data])
  qed (simp add: writeAll.simps)
qed

text \<open>
  C39: \<open>writeAll\<close> always returns. For every writer that keeps the contract \<open>n \<le> len(p)\<close>, even one that
  makes no progress or fails half way, it returns after at most one call per byte, never panics, has
  delivered a prefix of the data, and reports success only for the whole of it; a writer that takes
  nothing ends the loop with an error.
\<close>

theorem writeAll_returns:
  assumes "\<And>k d. fst (sk_answer w k d) \<le> length d"
  shows "\<exists>e w' k. writeAll w data = (e, w') \<and> sk_calls w' \<le> sk_calls w + length data \<and> e \<noteq> Some SliceOutOfRange \<and>
    k \<le> length data \<and> sk_out w' = sk_out w @ take k data \<and> (e = None \<longrightarrow> k = length data)"
proof -
  obtain e w' where w: "writeAll w data = (e, w')" by fastforce
  then show ?thesis using writeAll_effect[OF w] writeAll_no_panic[OF assms, of data] by auto
qed

theorem writeAll_returns_witness:
  "\<exists>e w' k. writeAll three_bytes [1, 2, 3, 4] = (e, w') \<and> sk_calls w' \<le> Suc (Suc (Suc (Suc 0))) \<and> e \<noteq> Some SliceOutOfRange \<and>
    k \<le> Suc (Suc (Suc (Suc 0))) \<and> sk_out w' = take k [1, 2, 3, 4] \<and> (e = None \<longrightarrow> k = Suc (Suc (Suc (Suc 0))))"
proof -
  have "fst (sk_answer three_bytes k d) \<le> length d" for k d by (simp add: three_bytes_def)
  from writeAll_returns[OF this, of "[1, 2, 3, 4]"] show ?thesis by (simp add: three_bytes_def)
qed

definition received :: "(u8 \<times> bytes) list \<Rightarrow> (key \<times> bytes) list" where
  "received fs = map (\<lambda>f. (take 32 (snd f), drop 32 (snd f))) (filter (\<lambda>f. fst f = FrameRecv \<and> 32 \<le> length (snd f)) fs)"

lemma Receive_from_frames:
  "(\<And>f. f \<in> set fs \<Longrightarrow> length (snd f) + 1 \<le> maxFrameSize) \<Longrightarrow>
     Receive_from \<lparr> sr_bytes = concat (map frame_bytes fs), sr_end = e \<rparr> =
       (received fs, ReadError (case e of Some c \<Rightarrow> c | None \<Rightarrow> eof_error))"
proof (induction fs)
  case Nil
  then show ?case by (subst Receive_from.simps) (simp add: readFrame_def readFull_def received_def split: option.splits)
next
  case (Cons f fs)
  obtain t p where f: "f = (t, p)" by fastforce
  have "readFrame \<lparr> sr_bytes = frame_bytes f @ concat (map frame_bytes fs), sr_end = e \<rparr> =
      (Inr f, \<lparr> sr_bytes = concat (map frame_bytes fs), sr_end = e \<rparr>)"
    by (rule readFrame_frame_bytes) (use Cons.prems in auto)
  then show ?case
    using Cons by (subst Receive_from.simps) (auto simp: f received_def decodeKeyed_def keyLen_def)
qed

text \<open>
  \<open>Receive\<close> hands over exactly what the relay sent, in order. On a connection carrying any list of
  frames within the size limit, the callback runs once for every \<open>FrameRecv\<close> frame with at least 32
  bytes, in the order of the frames, with the first 32 bytes as the source key and the rest as data;
  other frames and short payloads are skipped, and the call ends with the error of the connection.
\<close>

theorem Receive_delivers_in_order:
  assumes "cn_source (cl_nc c) = \<lparr> sr_bytes = concat (map frame_bytes fs), sr_end = e \<rparr>"
    and "\<And>f. f \<in> set fs \<Longrightarrow> length (snd f) + 1 \<le> maxFrameSize"
  shows "Receive c = (map (\<lambda>f. (take 32 (snd f), drop 32 (snd f))) (filter (\<lambda>f. fst f = FrameRecv \<and> 32 \<le> length (snd f)) fs),
    ReadError (case e of Some c \<Rightarrow> c | None \<Rightarrow> eof_error))"
  using Receive_from_frames[OF assms(2)] assms(1) by (simp add: Receive_def received_def)

definition sample_conn :: conn where
  "sample_conn = \<lparr> cn_sink = three_bytes,
     cn_source = \<lparr> sr_bytes = concat (map frame_bytes [(FrameChallenge, replicate 48 9), (FrameBindOK, [])]), sr_end = None \<rparr>,
     cn_closed = False \<rparr>"

theorem Receive_delivers_in_order_witness:
  "Receive \<lparr> cl_self = [], cl_nc = sample_conn\<lparr> cn_source :=
       \<lparr> sr_bytes = concat (map frame_bytes [(FrameRecv, replicate 33 5), (FrameBindOK, []), (FrameRecv, [1])]), sr_end = Some 7 \<rparr> \<rparr>,
       cl_closed = False \<rparr>
     = ([(replicate 32 5, [5])], ReadError 7)"
  by (subst Receive_delivers_in_order[where fs = "[(FrameRecv, replicate 33 5), (FrameBindOK, []), (FrameRecv, [1])]" and e = "Some 7"])
    (auto simp: maxFrameSize_def FrameRecv_def FrameBindOK_def)

lemma conn_read_inverse:
  "conn_read nc = (Inr f, nc') \<Longrightarrow> sr_bytes (cn_source nc) = frame_bytes f @ sr_bytes (cn_source nc') \<and> cn_sink nc' = cn_sink nc"
  by (auto simp: conn_read_def dest: readFrame_inverse split: prod.splits)

lemma conn_write_delivered:
  "conn_write nc t p = (None, nc') \<Longrightarrow> sk_out (cn_sink nc') = sk_out (cn_sink nc) @ frame_bytes (t, p) \<and> cn_source nc' = cn_source nc"
  by (auto simp: conn_write_def dest: writeFrame_delivered split: prod.splits)

lemma await_BindOK_Inr:
  assumes "await_BindOK pub nc = (Inr c, nc')"
  shows "\<exists>ack. sr_bytes (cn_source nc) = frame_bytes (FrameBindOK, ack) @ sr_bytes (cn_source (cl_nc c)) \<and>
    cn_sink (cl_nc c) = cn_sink nc \<and> cl_self c = pub \<and> \<not> cl_closed c"
proof -
  obtain ack where "conn_read nc = (Inr (FrameBindOK, ack), cl_nc c)" "cl_self c = pub" "\<not> cl_closed c"
    using assms by (auto simp: await_BindOK_def split: prod.splits sum.splits if_splits)
  then show ?thesis using conn_read_inverse by blast
qed

lemma answer_challenge_Inr:
  assumes "answer_challenge cv C priv pub secret chal nc = (Inr c, nc')" "length chal = 48"
  shows "\<exists>shared ack. cv_x25519 cv priv (take 32 chal) = Some shared \<and>
    sk_out (cn_sink (cl_nc c)) = sk_out (cn_sink nc) @ frame_bytes (FrameProof, hmac_sha256 C shared (drop 32 chal) @
      (if secret \<noteq> [] then hmac_sha256 C secret (pub @ drop 32 chal) else [])) \<and>
    sr_bytes (cn_source nc) = frame_bytes (FrameBindOK, ack) @ sr_bytes (cn_source (cl_nc c)) \<and> cl_self c = pub \<and> \<not> cl_closed c"
proof -
  have k: "copy_into (zeros 32) (take 32 chal) = take 32 chal" using assms(2) by simp
  obtain shared where sh: "cv_x25519 cv priv (take 32 chal) = Some shared"
    using assms(1) by (auto simp: answer_challenge_def proofFor_def k split: option.splits)
  define pf where "pf = hmac_sha256 C shared (drop 32 chal) @ (if secret \<noteq> [] then hmac_sha256 C secret (pub @ drop 32 chal) else [])"
  obtain e nc1 where w: "conn_write nc FrameProof pf = (e, nc1)" by fastforce
  have "answer_challenge cv C priv pub secret chal nc =
      (case conn_write nc FrameProof pf of (Some e, nc) \<Rightarrow> (Inl e, conn_close nc) | (None, nc) \<Rightarrow> await_BindOK pub nc)"
    by (cases "secret = []") (simp_all add: answer_challenge_def proofFor_def admissionProof_def k sh pf_def)
  with assms(1) w have e: "e = None" and b: "await_BindOK pub nc1 = (Inr c, nc')" by (cases e; simp)+
  obtain ack where ack: "sr_bytes (cn_source nc1) = frame_bytes (FrameBindOK, ack) @ sr_bytes (cn_source (cl_nc c))"
    "cn_sink (cl_nc c) = cn_sink nc1" "cl_self c = pub" "\<not> cl_closed c" using await_BindOK_Inr[OF b] by blast
  show ?thesis
    by (rule exI[of _ shared], rule exI[of _ ack])
      (use conn_write_delivered[OF w[unfolded e]] ack sh in \<open>simp add: pf_def\<close>)
qed

text \<open>
  C38: a bound client has proved possession. When the dial succeeds the relay has sent a challenge of a
  32-byte ephemeral key and a 16-byte nonce and then the acknowledgement, and the client has sent
  exactly two frames: its public key, and the proof HMAC(X25519(private key, ephemeral key), nonce),
  followed by the fleet proof over its public key and the same nonce when it holds the fleet secret.
\<close>

theorem dial_proves_possession:
  assumes "DialWithAdmission cv C priv secret (Inr nc) = Inr c" "sk_out (cn_sink nc) = []"
  shows "\<exists>eph nonce shared ack. length eph = 32 \<and> length nonce = 16 \<and> cv_x25519 cv priv eph = Some shared \<and>
    sr_bytes (cn_source nc) = frame_bytes (FrameChallenge, eph @ nonce) @ frame_bytes (FrameBindOK, ack) @ sr_bytes (cn_source (cl_nc c)) \<and>
    sk_out (cn_sink (cl_nc c)) = frame_bytes (FrameBind, cv_base cv priv) @
      frame_bytes (FrameProof, hmac_sha256 C shared nonce @ (if secret \<noteq> [] then hmac_sha256 C secret (cv_base cv priv @ nonce) else [])) \<and>
    cl_self c = cv_base cv priv \<and> \<not> cl_closed c"
proof -
  obtain nc' where b: "bind_client cv C priv secret nc = (Inr c, nc')"
    using assms(1) by (cases "bind_client cv C priv secret nc") (simp add: DialWithAdmission_def)
  then obtain nc1 where 1: "conn_write nc FrameBind (cv_base cv priv) = (None, nc1)"
    by (auto simp: bind_client_def Let_def split: prod.splits option.splits)
  with b obtain chal nc2 where 2: "conn_read nc1 = (Inr (FrameChallenge, chal), nc2)" "length chal = 48"
    "answer_challenge cv C priv (cv_base cv priv) secret chal nc2 = (Inr c, nc')"
    by (auto simp: bind_client_def Let_def nonceLen_def split: prod.splits option.splits sum.splits if_splits)
  obtain eph nonce where chal: "chal = eph @ nonce" "length eph = 32" "length nonce = 16"
    using that[of "take 32 chal" "drop 32 chal"] 2(2) by simp
  have cut: "take 32 chal = eph" "drop 32 chal = nonce" using chal by simp_all
  obtain shared ack where a: "cv_x25519 cv priv eph = Some shared"
    "sk_out (cn_sink (cl_nc c)) = sk_out (cn_sink nc2) @ frame_bytes (FrameProof, hmac_sha256 C shared nonce @
      (if secret \<noteq> [] then hmac_sha256 C secret (cv_base cv priv @ nonce) else []))"
    "sr_bytes (cn_source nc2) = frame_bytes (FrameBindOK, ack) @ sr_bytes (cn_source (cl_nc c))"
    "cl_self c = cv_base cv priv" "\<not> cl_closed c"
    using answer_challenge_Inr[OF 2(3,2)] unfolding cut by blast
  show ?thesis
    by (rule exI[of _ eph], rule exI[of _ nonce], rule exI[of _ shared], rule exI[of _ ack])
      (use a conn_write_delivered[OF 1] conn_read_inverse[OF 2(1)] assms(2) chal in simp)
qed

definition sample_curve :: curve where
  "sample_curve = \<lparr> cv_base = (\<lambda>k. k), cv_x25519 = (\<lambda>k p. Some (map2 (+) k p)) \<rparr>"

definition sample_client :: Client where
  "sample_client = projr (DialWithAdmission sample_curve sample_crypto (replicate 32 1) [] (Inr sample_conn))"

theorem dial_proves_possession_witness:
  "\<exists>eph nonce shared. length eph = 32 \<and> length nonce = 16 \<and> cv_x25519 sample_curve (replicate 32 1) eph = Some shared \<and>
    sk_out (cn_sink (cl_nc sample_client)) = frame_bytes (FrameBind, replicate 32 1) @ frame_bytes (FrameProof, hmac_sha256 sample_crypto shared nonce)"
proof -
  have "DialWithAdmission sample_curve sample_crypto (replicate 32 1) [] (Inr sample_conn) = Inr sample_client"
  proof -
    have "\<not> isl (DialWithAdmission sample_curve sample_crypto (replicate 32 1) [] (Inr sample_conn))" by code_simp
    then show ?thesis by (simp add: sample_client_def)
  qed
  from dial_proves_possession[OF this] show ?thesis
    by (simp add: sample_conn_def three_bytes_def sample_curve_def) blast
qed

end
