(* ===== verification/RT_Routing.thy ===== *)
theory RT_Routing
  imports Netip Go_Sort
begin

text \<open>
  The split-tunnel decision engine, \<open>internal/routing/routing.go\<close>. \<open>encoding/json\<close> is a parameter of
  \<open>Parse\<close>, \<open>strings.ToLower\<close> and the two uses of \<open>sort.Slice\<close> are parameters of \<open>build\<close>. The
  sort is unstable: all that is used of it is that it permutes its input into an order without inversions.
\<close>

section \<open>Rule sets\<close>

type_synonym Action = string

definition ActionDirect :: Action where "ActionDirect = ''direct''"
definition ActionTunnel :: Action where "ActionTunnel = ''tunnel''"
definition ActionBlock :: Action where "ActionBlock = ''block''"

text \<open>\<open>ri_GeoIP\<close> lists the country map in the order in which \<open>range\<close> visits it.\<close>

record ruleItem =
  ri_Domains :: "string list"
  ri_Suffixes :: "string list"
  ri_CIDRs :: "string list"
  ri_GeoIP :: "(string \<times> string list) list"
  ri_Action :: Action

record ruleDoc =
  rd_Default :: Action
  rd_Rules :: "ruleItem list"

record Engine =
  en_exact :: "(string, Action) gomap"
  en_suffixes :: "(string \<times> Action) list"
  en_cidrs :: "(prefix \<times> Action) list"
  en_def :: Action

datatype rt_error = ErrRulesJSON | ErrInvalidAction nat | ErrBadCIDR nat | ErrBadGeoIP nat

definition DefaultEngine :: Engine where
  "DefaultEngine = \<lparr> en_exact = [], en_suffixes = [], en_cidrs = [], en_def = ActionTunnel \<rparr>"

definition validAction :: "Action \<Rightarrow> bool" where
  "validAction a \<longleftrightarrow> a = ActionDirect \<or> a = ActionTunnel \<or> a = ActionBlock"

definition normalizeHost :: "(string \<Rightarrow> string) \<Rightarrow> string \<Rightarrow> string" where
  "normalizeHost lower h = trim_suffix (lower (trim_space h)) ''.''"

fun add_cidrs :: "rt_error \<Rightarrow> Action \<Rightarrow> string list \<Rightarrow> (prefix \<times> Action) list \<Rightarrow> rt_error + (prefix \<times> Action) list" where
  "add_cidrs err a [] acc = Inr acc"
| "add_cidrs err a (c # cs) acc = (case parse_prefix c of None \<Rightarrow> Inl err | Some p \<Rightarrow> add_cidrs err a cs (acc @ [(p, a)]))"

definition add_rule :: "(string \<Rightarrow> string) \<Rightarrow> nat \<Rightarrow> ruleItem \<Rightarrow> Engine \<Rightarrow> rt_error + Engine" where
  "add_rule lower i r e =
     (if \<not> validAction (ri_Action r) then Inl (ErrInvalidAction i)
      else
        let e1 = e\<lparr> en_exact := fold (\<lambda>d. AList.update (normalizeHost lower d) (ri_Action r)) (ri_Domains r) (en_exact e),
                    en_suffixes := en_suffixes e @ map (\<lambda>s. (normalizeHost lower s, ri_Action r)) (ri_Suffixes r) \<rparr> in
        bind_r (add_cidrs (ErrBadCIDR i) (ri_Action r) (ri_CIDRs r) (en_cidrs e1)) (\<lambda>cs.
        bind_r (add_cidrs (ErrBadGeoIP i) (ri_Action r) (concat (map snd (ri_GeoIP r))) cs) (\<lambda>cs'.
          Inr (e1\<lparr> en_cidrs := cs' \<rparr>))))"

fun add_rules :: "(string \<Rightarrow> string) \<Rightarrow> nat \<Rightarrow> ruleItem list \<Rightarrow> Engine \<Rightarrow> rt_error + Engine" where
  "add_rules lower i [] e = Inr e"
| "add_rules lower i (r # rs) e = bind_r (add_rule lower i r e) (add_rules lower (Suc i) rs)"

definition longer_suffix :: "string \<times> Action \<Rightarrow> string \<times> Action \<Rightarrow> bool" where
  "longer_suffix x y \<longleftrightarrow> length (fst x) > length (fst y)"

definition longer_prefix :: "prefix \<times> Action \<Rightarrow> prefix \<times> Action \<Rightarrow> bool" where
  "longer_prefix x y \<longleftrightarrow> pfx_bits (fst x) > pfx_bits (fst y)"

type_synonym 'a sorter = "('a \<Rightarrow> 'a \<Rightarrow> bool) \<Rightarrow> 'a list \<Rightarrow> 'a list"

definition build :: "(string \<Rightarrow> string) \<Rightarrow> (string \<times> Action) sorter \<Rightarrow> (prefix \<times> Action) sorter \<Rightarrow> ruleDoc \<Rightarrow> rt_error + Engine" where
  "build lower sortS sortC doc =
     (let e = DefaultEngine\<lparr> en_def := (if rd_Default doc = [] then ActionTunnel else rd_Default doc) \<rparr> in
      bind_r (add_rules lower 0 (rd_Rules doc) e) (\<lambda>e.
        Inr (e\<lparr> en_suffixes := sortS longer_suffix (en_suffixes e), en_cidrs := sortC longer_prefix (en_cidrs e) \<rparr>)))"

definition Parse :: "('j \<Rightarrow> ruleDoc option) \<Rightarrow> (string \<Rightarrow> string) \<Rightarrow> (string \<times> Action) sorter \<Rightarrow> (prefix \<times> Action) sorter \<Rightarrow>
    'j \<Rightarrow> rt_error + Engine" where
  "Parse unmarshal lower sortS sortC data = or_fail ErrRulesJSON (unmarshal data) (build lower sortS sortC)"

section \<open>Decisions\<close>

definition suffix_matches :: "string \<Rightarrow> string \<Rightarrow> bool" where
  "suffix_matches name s \<longleftrightarrow> name = s \<or> has_suffix name (''.'' @ s)"

definition DecideDomain :: "(string \<Rightarrow> string) \<Rightarrow> Engine \<Rightarrow> string \<Rightarrow> Action" where
  "DecideDomain lower e name0 =
     (let name = normalizeHost lower name0 in
      case map_of (en_exact e) name of Some a \<Rightarrow> a
      | None \<Rightarrow> (case find (\<lambda>s. suffix_matches name (fst s)) (en_suffixes e) of Some s \<Rightarrow> snd s | None \<Rightarrow> en_def e))"

definition DecideIP :: "Engine \<Rightarrow> addr \<Rightarrow> Action" where
  "DecideIP e a = (case find (\<lambda>c. pfx_contains (fst c) a) (en_cidrs e) of Some c \<Rightarrow> snd c | None \<Rightarrow> en_def e)"

definition isPort :: "string \<Rightarrow> bool" where
  "isPort s \<longleftrightarrow> s \<noteq> [] \<and> list_all (\<lambda>r. \<not> (r < 48 \<or> 57 < r)) (runes s)"

definition strip_numeric_port :: "string \<Rightarrow> string" where
  "strip_numeric_port host =
     (case last_index_of (CHR '':'') host of
        None \<Rightarrow> host
      | Some i \<Rightarrow> if isPort (drop (Suc i) host) \<and> count_char (CHR '':'') host = 1 then take i host else host)"

definition stripPort :: "string \<Rightarrow> string" where
  "stripPort host =
     (if has_prefix host ''['' then
        (case last_index_of (CHR '']'') host of
           Some i \<Rightarrow> drop 1 (take i host)
         | None \<Rightarrow> strip_numeric_port host)
      else strip_numeric_port host)"

definition Decide :: "(string \<Rightarrow> string) \<Rightarrow> Engine \<Rightarrow> string \<Rightarrow> Action" where
  "Decide lower e host =
     (case parse_addr (stripPort host) of Some a \<Rightarrow> DecideIP e a | None \<Rightarrow> DecideDomain lower e (stripPort host))"

definition prefixesFor :: "Action \<Rightarrow> Engine \<Rightarrow> prefix list" where
  "prefixesFor a e = map fst (filter (\<lambda>c. snd c = a) (en_cidrs e))"

definition DirectPrefixes :: "Engine \<Rightarrow> prefix list" where "DirectPrefixes = prefixesFor ActionDirect"
definition BlockPrefixes :: "Engine \<Rightarrow> prefix list" where "BlockPrefixes = prefixesFor ActionBlock"

section \<open>What a document says\<close>

definition rule_domains :: "(string \<Rightarrow> string) \<Rightarrow> ruleItem list \<Rightarrow> (string \<times> Action) list" where
  "rule_domains lower rs = concat (map (\<lambda>r. map (\<lambda>d. (normalizeHost lower d, ri_Action r)) (ri_Domains r)) rs)"

definition rule_suffixes :: "(string \<Rightarrow> string) \<Rightarrow> ruleItem list \<Rightarrow> (string \<times> Action) list" where
  "rule_suffixes lower rs = concat (map (\<lambda>r. map (\<lambda>s. (normalizeHost lower s, ri_Action r)) (ri_Suffixes r)) rs)"

definition rule_cidrs :: "ruleItem list \<Rightarrow> (prefix \<times> Action) list" where
  "rule_cidrs rs = concat (map (\<lambda>r. map (\<lambda>c. (the (parse_prefix c), ri_Action r)) (ri_CIDRs r @ concat (map snd (ri_GeoIP r)))) rs)"

lemma add_cidrs_Inr:
  "add_cidrs err a cs acc = Inr out \<Longrightarrow> out = acc @ map (\<lambda>c. (the (parse_prefix c), a)) cs"
proof (induction cs arbitrary: acc)
  case (Cons c cs)
  then obtain p where p: "parse_prefix c = Some p" "add_cidrs err a cs (acc @ [(p, a)]) = Inr out" by (auto split: option.splits)
  show ?case using Cons.IH[OF p(2)] p(1) by simp
qed simp

lemma map_of_updates:
  "map_of (fold (\<lambda>d. AList.update (f d) a) ds m) x = (if x \<in> f ` set ds then Some a else map_of m x)"
  by (induction ds arbitrary: m) (auto simp: update_conv')

lemma map_of_rev_const: "map_of (rev (map (\<lambda>d. (f d, a)) ds)) x = (if x \<in> f ` set ds then Some a else None)"
  by (induction ds) (auto simp: map_add_def split: option.splits)

lemma add_rule_Inr:
  assumes "add_rule lower i r e = Inr e'"
  shows "en_def e' = en_def e \<and> en_suffixes e' = en_suffixes e @ rule_suffixes lower [r] \<and>
    en_cidrs e' = en_cidrs e @ rule_cidrs [r] \<and>
    map_of (en_exact e') x = (case map_of (rev (rule_domains lower [r])) x of Some a \<Rightarrow> Some a | None \<Rightarrow> map_of (en_exact e) x)"
  using assms
  by (auto simp: add_rule_def Let_def bind_r_Inr rule_suffixes_def rule_cidrs_def rule_domains_def map_of_rev_const map_of_updates
      dest!: add_cidrs_Inr split: if_splits)

lemma add_rules_Inr:
  assumes "add_rules lower i rs e = Inr e'"
  shows "en_def e' = en_def e \<and> en_suffixes e' = en_suffixes e @ rule_suffixes lower rs \<and>
    en_cidrs e' = en_cidrs e @ rule_cidrs rs \<and>
    map_of (en_exact e') x = (case map_of (rev (rule_domains lower rs)) x of Some a \<Rightarrow> Some a | None \<Rightarrow> map_of (en_exact e) x)"
  using assms
proof (induction rs arbitrary: i e)
  case Nil
  then show ?case by (simp add: rule_suffixes_def rule_cidrs_def rule_domains_def)
next
  case (Cons r rs)
  then obtain e1 where 1: "add_rule lower i r e = Inr e1" and 2: "add_rules lower (Suc i) rs e1 = Inr e'"
    by (auto simp: bind_r_Inr)
  show ?case
    using add_rule_Inr[OF 1, of x] Cons.IH[OF 2]
    by (auto simp: rule_suffixes_def rule_cidrs_def rule_domains_def map_add_def split: option.splits)
qed

text \<open>The reference: an action of a matching rule whose key no matching rule exceeds, else the default.\<close>

definition most_specific :: "('a \<Rightarrow> bool) \<Rightarrow> ('a \<Rightarrow> 'k :: linorder) \<Rightarrow> ('a \<times> Action) list \<Rightarrow> Action \<Rightarrow> Action \<Rightarrow> bool" where
  "most_specific m key rules dflt act \<longleftrightarrow>
     (\<exists>r\<in>set rules. m (fst r) \<and> act = snd r \<and> (\<forall>q\<in>set rules. m (fst q) \<longrightarrow> key (fst q) \<le> key (fst r))) \<or>
     (\<forall>q\<in>set rules. \<not> m (fst q)) \<and> act = dflt"

lemma find_in_sorted:
  assumes "sorted_wrt (\<lambda>x y. \<not> key (fst x) < key (fst y)) xs" "find (\<lambda>x. m (fst x)) xs = Some x"
  shows "x \<in> set xs \<and> m (fst x) \<and> (\<forall>y\<in>set xs. m (fst y) \<longrightarrow> (key (fst y) :: 'k :: linorder) \<le> key (fst x))"
  using assms
proof (induction xs)
  case (Cons y ys)
  then show ?case by (cases "m (fst y)") (auto simp: not_less)
qed simp

lemma find_most_specific:
  assumes "sorted_wrt (\<lambda>x y. \<not> key (fst x) < key (fst y)) xs" "mset xs = mset rules"
  shows "most_specific m (key :: 'a \<Rightarrow> 'k :: linorder) rules dflt (case find (\<lambda>x. m (fst x)) xs of Some x \<Rightarrow> snd x | None \<Rightarrow> dflt)"
proof (cases "find (\<lambda>x. m (fst x)) xs")
  case None
  then have "\<forall>q\<in>set rules. \<not> m (fst q)" using mset_eq_setD[OF assms(2)] by (auto simp: find_None_iff)
  then show ?thesis using None by (simp add: most_specific_def)
next
  case (Some x)
  from find_in_sorted[OF assms(1) Some] show ?thesis
    unfolding most_specific_def Some mset_eq_setD[OF assms(2)] by auto
qed

lemma build_Inr:
  assumes "build lower sortS sortC doc = Inr e" "sorts sortS" "sorts sortC"
  shows "en_def e = (if rd_Default doc = [] then ActionTunnel else rd_Default doc)"
    and "mset (en_suffixes e) = mset (rule_suffixes lower (rd_Rules doc))"
    and "sorted_wrt (\<lambda>x y. \<not> length (fst x) < length (fst y)) (en_suffixes e)"
    and "mset (en_cidrs e) = mset (rule_cidrs (rd_Rules doc))"
    and "sorted_wrt (\<lambda>x y. \<not> pfx_bits (fst x) < pfx_bits (fst y)) (en_cidrs e)"
    and "map_of (en_exact e) x = map_of (rev (rule_domains lower (rd_Rules doc))) x"
proof -
  obtain e1 where 1: "add_rules lower 0 (rd_Rules doc)
        (DefaultEngine\<lparr> en_def := (if rd_Default doc = [] then ActionTunnel else rd_Default doc) \<rparr>) = Inr e1"
    and e: "e = e1\<lparr> en_suffixes := sortS longer_suffix (en_suffixes e1), en_cidrs := sortC longer_prefix (en_cidrs e1) \<rparr>"
    using assms(1) by (auto simp: build_def Let_def bind_r_Inr)
  note r = add_rules_Inr[OF 1, of x]
  have w: "strict_weak longer_suffix" "strict_weak longer_prefix"
    using strict_weak_key[of "\<lambda>x. length (fst x)"] strict_weak_key[of "\<lambda>x. pfx_bits (fst x)"]
    by (auto simp: longer_suffix_def longer_prefix_def strict_weak_def)
  show "en_def e = (if rd_Default doc = [] then ActionTunnel else rd_Default doc)" using r e by simp
  show "mset (en_suffixes e) = mset (rule_suffixes lower (rd_Rules doc))"
    using assms(2) w(1) r e unfolding sorts_def by (simp add: DefaultEngine_def)
  show "mset (en_cidrs e) = mset (rule_cidrs (rd_Rules doc))"
    using assms(3) w(2) r e unfolding sorts_def by (simp add: DefaultEngine_def)
  show "sorted_wrt (\<lambda>x y. \<not> length (fst x) < length (fst y)) (en_suffixes e)"
    using assms(2) w(1) unfolding sorts_def longer_suffix_def[abs_def] e by simp
  show "sorted_wrt (\<lambda>x y. \<not> pfx_bits (fst x) < pfx_bits (fst y)) (en_cidrs e)"
    using assms(3) w(2) unfolding sorts_def longer_prefix_def[abs_def] e by simp
  show "map_of (en_exact e) x = map_of (rev (rule_domains lower (rd_Rules doc))) x"
    using r e by (simp add: DefaultEngine_def split: option.splits)
qed

section \<open>Properties\<close>

text \<open>
  C37: the most specific rule decides. For every rule set that builds, whatever the order in which the
  sort leaves equal keys, an address gets the action of a rule whose prefix contains it and is at least
  as long as that of any other rule containing it, and the default when no prefix contains it; a name
  gets the action of the last exact rule for it, else that of a suffix rule matching it at least as long
  as any other matching one, else the default.
\<close>

theorem most_specific_rule_decides:
  assumes "build lower sortS sortC doc = Inr e" "sorts sortS" "sorts sortC"
  shows "most_specific (\<lambda>p. pfx_contains p a) pfx_bits (rule_cidrs (rd_Rules doc))
        (if rd_Default doc = [] then ActionTunnel else rd_Default doc) (DecideIP e a) \<and>
      (case map_of (rev (rule_domains lower (rd_Rules doc))) (normalizeHost lower name) of
         Some act \<Rightarrow> DecideDomain lower e name = act
       | None \<Rightarrow> most_specific (suffix_matches (normalizeHost lower name)) length (rule_suffixes lower (rd_Rules doc))
           (if rd_Default doc = [] then ActionTunnel else rd_Default doc) (DecideDomain lower e name))"
proof
  note b = build_Inr[OF assms]
  show "most_specific (\<lambda>p. pfx_contains p a) pfx_bits (rule_cidrs (rd_Rules doc))
      (if rd_Default doc = [] then ActionTunnel else rd_Default doc) (DecideIP e a)"
    unfolding DecideIP_def b(1)[symmetric] by (rule find_most_specific[OF b(5,4)])
  show "case map_of (rev (rule_domains lower (rd_Rules doc))) (normalizeHost lower name) of
         Some act \<Rightarrow> DecideDomain lower e name = act
       | None \<Rightarrow> most_specific (suffix_matches (normalizeHost lower name)) length (rule_suffixes lower (rd_Rules doc))
           (if rd_Default doc = [] then ActionTunnel else rd_Default doc) (DecideDomain lower e name)"
    using find_most_specific[OF b(3,2), of "suffix_matches (normalizeHost lower name)" "en_def e"]
    unfolding b(1)[symmetric]
    by (cases "map_of (rev (rule_domains lower (rd_Rules doc))) (normalizeHost lower name)") (simp_all add: DecideDomain_def Let_def b(6))
qed

definition sample_rules :: ruleDoc where
  "sample_rules = \<lparr> rd_Default = [],
     rd_Rules = [\<lparr> ri_Domains = [''Example.org.''], ri_Suffixes = [''cn''], ri_CIDRs = [''10.0.0.0/8''], ri_GeoIP = [], ri_Action = ActionDirect \<rparr>,
                 \<lparr> ri_Domains = [], ri_Suffixes = [''ads.cn''], ri_CIDRs = [''10.1.0.0/16''], ri_GeoIP = [(''CN'', [''1.0.1.0/24''])], ri_Action = ActionBlock \<rparr>] \<rparr>"

lemma build_sample_rules: "build to_lower sort_slice sort_slice sample_rules = Inr (projr (build to_lower sort_slice sort_slice sample_rules))"
proof -
  have "\<not> isl (build to_lower sort_slice sort_slice sample_rules)" by code_simp
  then show ?thesis by simp
qed

theorem most_specific_rule_decides_witness:
  "most_specific (\<lambda>p. pfx_contains p (V4 0x0A010203)) pfx_bits (rule_cidrs (rd_Rules sample_rules)) ActionTunnel
     (DecideIP (projr (build to_lower sort_slice sort_slice sample_rules)) (V4 0x0A010203))"
  using most_specific_rule_decides[OF build_sample_rules sort_slice_sorts sort_slice_sorts, of "V4 0x0A010203" "''x''"]
  by (simp add: sample_rules_def)

text \<open>The default action is the one field of a rule set that is not checked.\<close>

lemma default_action_unchecked:
  "case build to_lower sort_slice sort_slice \<lparr> rd_Default = ''blok'', rd_Rules = [] \<rparr> of Inr e \<Rightarrow> DecideIP e (V4 1) = ''blok'' | Inl _ \<Rightarrow> False"
  by code_simp

end
