(* ===== verification/MS_Stun.thy ===== *)
theory MS_Stun
  imports Netip Go_Sort
begin

text \<open>
  Path discovery, \<open>internal/magicsock\<close>: the STUN messages (\<open>stun.go\<close>), the STUN server's request check
  and rate limit (\<open>stun_server.go\<close>) and the path state machine of a peer (\<open>path.go\<close>). A slice expression
  that is out of range is a panic of the program and an error value here.
\<close>

unbundle bit_operations_syntax

section \<open>STUN messages\<close>

type_synonym TxID = bytes

datatype ms_error = ErrNotSTUN | TxMismatch | NoMappedAddress | UnknownFamily | SlicePanic

definition stunMagicCookie :: nat where "stunMagicCookie = 0x2112A442"
definition stunBindingRequest :: nat where "stunBindingRequest = 0x0001"
definition stunBindingSuccess :: nat where "stunBindingSuccess = 0x0101"
definition attrXORMappedAddress :: nat where "attrXORMappedAddress = 0x0020"
definition stunHeaderLen :: nat where "stunHeaderLen = 20"

definition xor_bytes :: "bytes \<Rightarrow> bytes \<Rightarrow> bytes" where
  "xor_bytes a b = map2 (XOR) a b"

definition cookie_bytes :: bytes where "cookie_bytes = be_enc 4 stunMagicCookie"

text \<open>\<open>stunMagicCookie >> 16\<close>.\<close>

definition port_mask :: u16 where "port_mask = 0x2112"

definition EncodeBindingRequest :: "TxID \<Rightarrow> bytes" where
  "EncodeBindingRequest tx = be_enc 2 stunBindingRequest @ be_enc 2 0 @ be_enc 4 stunMagicCookie @ copy_into (zeros 12) tx"

definition decodeXORMappedAddress :: "bytes \<Rightarrow> TxID \<Rightarrow> ms_error + addr_port" where
  "decodeXORMappedAddress val tx =
     (if length val < 8 then Inl ErrNotSTUN
      else let family = val ! 1; port = be16 (take 2 (drop 2 val)) XOR port_mask in
        if family = 1 then Inr (V4 (word_of_nat (be_dec (xor_bytes (take 4 (drop 4 val)) cookie_bytes))), port)
        else if family = 2 then
          (if length val < 20 then Inl ErrNotSTUN
           else Inr (V6 (word_of_nat (be_dec (xor_bytes (take 16 (drop 4 val)) (cookie_bytes @ tx)))) [], port))
        else Inl UnknownFamily)"

definition attr_type :: "bytes \<Rightarrow> nat" where "attr_type attrs = be_dec (take 2 attrs)"
definition attr_len :: "bytes \<Rightarrow> nat" where "attr_len attrs = be_dec (take 2 (drop 2 attrs))"

definition attr_advance :: "nat \<Rightarrow> nat" where
  "attr_advance alen = (let adv = 4 + alen; pad = alen mod 4 in if pad \<noteq> 0 then adv + (4 - pad) else adv)"

lemma attr_advance_ge: "4 \<le> attr_advance n"
  unfolding attr_advance_def Let_def by presburger

function parse_attrs :: "TxID \<Rightarrow> bytes \<Rightarrow> ms_error + addr_port" where
  "parse_attrs tx attrs =
     (if length attrs < 4 then Inl NoMappedAddress
      else if length attrs < 4 + attr_len attrs then Inl NoMappedAddress
      else if attr_type attrs = attrXORMappedAddress then decodeXORMappedAddress (take (attr_len attrs) (drop 4 attrs)) tx
      else if length attrs < attr_advance (attr_len attrs) then Inl SlicePanic
      else parse_attrs tx (drop (attr_advance (attr_len attrs)) attrs))"
  by pat_completeness auto
termination
  by (relation "measure (\<lambda>(tx, attrs). length attrs)") (use attr_advance_ge in \<open>auto simp: Suc_le_eq intro!: diff_less order.strict_trans2[OF _ attr_advance_ge]\<close>)

declare parse_attrs.simps [simp del]

definition ParseBindingResponse :: "bytes \<Rightarrow> TxID \<Rightarrow> ms_error + addr_port" where
  "ParseBindingResponse buf tx =
     (if length buf < stunHeaderLen then Inl ErrNotSTUN
      else if be_dec (take 2 buf) \<noteq> stunBindingSuccess then Inl ErrNotSTUN
      else if be_dec (take 4 (drop 4 buf)) \<noteq> stunMagicCookie then Inl ErrNotSTUN
      else let gotTx = copy_into (zeros 12) (take 12 (drop 8 buf)) in
        if gotTx \<noteq> tx then Inl TxMismatch else parse_attrs gotTx (drop stunHeaderLen buf))"

text \<open>\<open>Addr.As16\<close>, which is zero for the zero \<open>Addr\<close>.\<close>

fun as16 :: "addr \<Rightarrow> bytes" where
  "as16 NoAddr = zeros 16"
| "as16 (V4 w) = be_enc 16 (0xFFFF * 4294967296 + unat w)"
| "as16 (V6 w z) = be_enc 16 (unat w)"

fun mapped_value :: "TxID \<Rightarrow> addr_port \<Rightarrow> bytes" where
  "mapped_value tx (V4 w, port) = [0, 1] @ be_enc 2 (unat (port XOR port_mask)) @ xor_bytes (be_enc 4 (unat w)) cookie_bytes"
| "mapped_value tx (a, port) = [0, 2] @ be_enc 2 (unat (port XOR port_mask)) @ xor_bytes (as16 a) (cookie_bytes @ tx)"

definition EncodeBindingResponse :: "TxID \<Rightarrow> addr_port \<Rightarrow> bytes" where
  "EncodeBindingResponse tx src =
     (let attrVal = mapped_value tx src in
      be_enc 2 stunBindingSuccess @ be_enc 2 (4 + length attrVal) @ be_enc 4 stunMagicCookie @ copy_into (zeros 12) tx @
      be_enc 2 attrXORMappedAddress @ be_enc 2 (length attrVal) @ attrVal)"

definition parseRequestTx :: "bytes \<Rightarrow> TxID option" where
  "parseRequestTx buf =
     (if length buf < stunHeaderLen then None
      else if unat (buf ! 0) * 256 + unat (buf ! 1) \<noteq> stunBindingRequest then None
      else if be_dec (take 4 (drop 4 buf)) \<noteq> stunMagicCookie \<or>
              int (be_dec (take 2 (drop 2 buf))) \<noteq> int (length buf) - int stunHeaderLen then None
      else Some (copy_into (zeros 12) (take 12 (drop 8 buf))))"

section \<open>The rate limit of the server\<close>

record stunRate =
  rt_window :: time
  rt_count :: nat

definition maxSTUNSources :: nat where "maxSTUNSources = 4096"
definition maxSTUNPerSource :: nat where "maxSTUNPerSource = 30"
definition stunRateLimitWindow :: duration where "stunRateLimitWindow = second"

type_synonym stun_sources = "(addr, stunRate) gomap"

definition window_over :: "time \<Rightarrow> stunRate \<Rightarrow> bool" where
  "window_over now r \<longleftrightarrow> stunRateLimitWindow \<le> time_sub now (rt_window r)"

text \<open>A full table is cleared of the windows that are over before a new source is entered.\<close>

definition tidied :: "addr \<Rightarrow> time \<Rightarrow> stun_sources \<Rightarrow> stun_sources" where
  "tidied source now s =
     (if \<not> map_has s source \<and> maxSTUNSources \<le> length s then filter (\<lambda>e. \<not> window_over now (snd e)) s else s)"

definition allow :: "addr \<Rightarrow> time \<Rightarrow> stun_sources \<Rightarrow> bool \<times> stun_sources" where
  "allow source now s =
     (let known = map_has s source; t = tidied source now s in
      if \<not> known \<and> maxSTUNSources \<le> length t then (False, t)
      else let rate = (case map_of s source of Some r \<Rightarrow> r | None \<Rightarrow> \<lparr> rt_window = now, rt_count = 0 \<rparr>);
               rate = (if window_over now rate then \<lparr> rt_window = now, rt_count = 0 \<rparr> else rate) in
        if maxSTUNPerSource \<le> rt_count rate then (False, t)
        else (True, AList.update source (rate\<lparr> rt_count := rt_count rate + 1 \<rparr>) t))"

text \<open>One packet: the answer sent, if any.\<close>

definition serve_packet :: "bytes \<Rightarrow> addr_port \<Rightarrow> time \<Rightarrow> stun_sources \<Rightarrow> bytes option \<times> stun_sources" where
  "serve_packet buf src now s =
     (case parseRequestTx buf of
        None \<Rightarrow> (None, s)
      | Some tx \<Rightarrow> (case allow (unmap (fst src)) now s of
          (False, s) \<Rightarrow> (None, s)
        | (True, s) \<Rightarrow> (Some (EncodeBindingResponse tx (unmap (fst src), snd src)), s)))"

section \<open>Paths\<close>

datatype PathType = PathRelay | PathDirect

record PeerPath =
  pp_peer :: bytes
  pp_candidates :: "addr_port list"
  pp_direct :: addr_port
  pp_haveDirect :: bool

definition NewPeerPath :: "bytes \<Rightarrow> PeerPath" where
  "NewPeerPath peer = \<lparr> pp_peer = peer, pp_candidates = [], pp_direct = no_addr_port, pp_haveDirect = False \<rparr>"

definition SetCandidates :: "addr_port list \<Rightarrow> PeerPath \<Rightarrow> PeerPath" where
  "SetCandidates eps p =
     (let p = p\<lparr> pp_candidates := sort_slice (\<lambda>a b. addr_port_string a < addr_port_string b) eps \<rparr> in
      if pp_haveDirect p \<and> pp_direct p \<notin> set (pp_candidates p) then p\<lparr> pp_haveDirect := False, pp_direct := no_addr_port \<rparr> else p)"

definition Candidates :: "PeerPath \<Rightarrow> addr_port list" where "Candidates p = pp_candidates p"

definition ConfirmDirect :: "addr_port \<Rightarrow> PeerPath \<Rightarrow> bool \<times> PeerPath" where
  "ConfirmDirect ep p =
     (if ep \<notin> set (pp_candidates p) then (False, p) else (True, p\<lparr> pp_direct := ep, pp_haveDirect := True \<rparr>))"

definition LoseDirect :: "PeerPath \<Rightarrow> PeerPath" where
  "LoseDirect p = p\<lparr> pp_haveDirect := False, pp_direct := no_addr_port \<rparr>"

definition Current :: "PeerPath \<Rightarrow> PathType \<times> addr_port" where
  "Current p = (if pp_haveDirect p then (PathDirect, pp_direct p) else (PathRelay, no_addr_port))"

section \<open>Messages: lemmas\<close>

lemma xor_bytes_twice: "length a = length k \<Longrightarrow> xor_bytes (xor_bytes a k) k = a"
  unfolding xor_bytes_def by (induction a k rule: list_induct2) (simp_all add: xor.assoc)

lemma length_xor_bytes [simp]: "length (xor_bytes a k) = min (length a) (length k)"
  by (simp add: xor_bytes_def)

lemma length_cookie [simp]: "length cookie_bytes = 4"
  by (simp add: cookie_bytes_def)

lemma be16_enc: "be16 (be_enc 2 (unat (p :: u16))) = p"
  by (simp add: be16_def)

lemma unat_128_less: "unat (w :: 128 word) < 256 ^ 16"
  using unsigned_less[of w] by simp

fun plain_addr :: "addr \<Rightarrow> bool" where
  "plain_addr NoAddr = False" | "plain_addr (V4 w) = True" | "plain_addr (V6 w z) = (z = [])"

lemma mapped_value_length: "length tx = 12 \<Longrightarrow> length (mapped_value tx (a, port)) = (case a of V4 _ \<Rightarrow> 8 | _ \<Rightarrow> 20)"
  by (cases a) (simp_all add: zeros_def)

lemma mapped_value_decodes:
  assumes "length tx = 12" "plain_addr a"
  shows "decodeXORMappedAddress (mapped_value tx (a, port)) tx = Inr (a, port)"
proof (cases a)
  case (V4 w)
  have "xor_bytes (xor_bytes (be_enc 4 (unat w)) cookie_bytes) cookie_bytes = be_enc 4 (unat w)"
    by (rule xor_bytes_twice) simp
  then show ?thesis
    by (simp add: V4 decodeXORMappedAddress_def be16_enc xor.assoc)
next
  case (V6 w z)
  have "xor_bytes (xor_bytes (be_enc 16 (unat w)) (cookie_bytes @ tx)) (cookie_bytes @ tx) = be_enc 16 (unat w)"
    by (rule xor_bytes_twice) (simp add: assms)
  then show ?thesis
    using assms unat_128_less[of w] by (simp add: V6 decodeXORMappedAddress_def be16_enc xor.assoc be_dec_enc)
qed (use assms in simp)

lemma parse_attrs_mapped:
  assumes "length v < 65536" "decodeXORMappedAddress v tx = r"
  shows "parse_attrs tx (be_enc 2 attrXORMappedAddress @ be_enc 2 (length v) @ v) = r"
  using assms by (subst parse_attrs.simps) (simp add: attr_len_def attr_type_def be_dec_enc attrXORMappedAddress_def)

lemma request_type_bytes: "be_enc 2 stunBindingRequest = [0, 1]"
  by code_simp

section \<open>Properties\<close>

text \<open>
  C35: a STUN answer is decoded to the address it was made for. For every transaction id and every source
  address without a zone, the response the server encodes parses back to exactly that address and port
  under the same transaction id, and is refused under any other; the request the client encodes is
  recognised by the server with its transaction id.
\<close>

theorem stun_round_trip:
  assumes "length tx = 12" "plain_addr a"
  shows "ParseBindingResponse (EncodeBindingResponse tx (a, port)) tx = Inr (a, port) \<and>
    (\<forall>tx'. tx' \<noteq> tx \<longrightarrow> ParseBindingResponse (EncodeBindingResponse tx (a, port)) tx' = Inl TxMismatch) \<and>
    parseRequestTx (EncodeBindingRequest tx) = Some tx"
proof -
  have cp: "copy_into (zeros 12) tx = tx" using assms by simp
  have l: "length (mapped_value tx (a, port)) < 65536"
    using mapped_value_length[OF assms(1), of a port] by (simp split: addr.splits)
  have "ParseBindingResponse (EncodeBindingResponse tx (a, port)) tx' =
      (if tx \<noteq> tx' then Inl TxMismatch else Inr (a, port))" for tx'
    using assms parse_attrs_mapped[OF l mapped_value_decodes[OF assms]]
    by (cases "tx = tx'") (simp_all add: ParseBindingResponse_def EncodeBindingResponse_def Let_def cp stunHeaderLen_def be_dec_enc
        stunBindingSuccess_def stunMagicCookie_def)
  moreover have "parseRequestTx (EncodeBindingRequest tx) = Some tx"
    using assms by (simp add: parseRequestTx_def EncodeBindingRequest_def cp stunHeaderLen_def be_dec_enc request_type_bytes
        stunMagicCookie_def, simp add: stunBindingRequest_def be_dec_enc)
  ultimately show ?thesis by auto
qed

theorem stun_round_trip_witness:
  "ParseBindingResponse (EncodeBindingResponse (replicate 12 7) (V4 0x01020304, 51820)) (replicate 12 7) = Inr (V4 0x01020304, 51820)"
  using stun_round_trip[of "replicate 12 7" "V4 0x01020304" 51820] by simp

text \<open>An attribute that is not padded at the end of the message makes \<open>attrs[adv:]\<close> panic.\<close>

lemma unpadded_attribute_panics:
  "ParseBindingResponse (be_enc 2 stunBindingSuccess @ be_enc 2 5 @ be_enc 4 stunMagicCookie @ replicate 12 7 @ [0, 1, 0, 1, 9])
     (replicate 12 7) = Inl SlicePanic"
  by code_simp

section \<open>The rate limit: lemmas\<close>

text \<open>A run of the limiter: the requests with their times, and the answers given to one source.\<close>

fun stun_run :: "addr \<Rightarrow> (addr \<times> time) list \<Rightarrow> stun_sources \<Rightarrow> nat \<times> stun_sources" where
  "stun_run a [] s = (0, s)"
| "stun_run a ((source, now) # reqs) s =
     (case allow source now s of (ok, s1) \<Rightarrow> (case stun_run a reqs s1 of (n, s2) \<Rightarrow> ((if ok \<and> source = a then n + 1 else n), s2)))"

definition rates_ok :: "stun_sources \<Rightarrow> bool" where
  "rates_ok s \<longleftrightarrow> wf_map s \<and> length s \<le> maxSTUNSources \<and> (\<forall>r\<in>ran (map_of s). rt_count r \<le> maxSTUNPerSource)"

lemma window_over_iff: "window_over now r \<longleftrightarrow> rt_window r + second \<le> now"
  by (auto simp: window_over_def stunRateLimitWindow_def time_sub_def second_def)

lemma wf_map_filter: "wf_map m \<Longrightarrow> wf_map (filter P m)"
  by (simp add: wf_map_def distinct_map_filter)

lemma map_of_filter_value:
  "wf_map m \<Longrightarrow> map_of (filter (\<lambda>e. P (snd e)) m) k = (case map_of m k of Some v \<Rightarrow> if P v then Some v else None | None \<Rightarrow> None)"
proof (induction m)
  case (Cons e m)
  obtain l v where e: "e = (l, v)" by fastforce
  have w: "wf_map m" "map_of m l = None" using Cons.prems by (simp_all add: e wf_map_def map_of_eq_None_iff)
  show ?case using Cons.IH[OF w(1)] w(2) by (auto simp: e split: option.splits)
qed simp

lemma tidied_facts:
  assumes "wf_map s"
  shows "wf_map (tidied source now s)" "length (tidied source now s) \<le> length s"
    "map_of (tidied source now s) source = map_of s source"
    "map_of (tidied source now s) a = map_of s a \<or>
       map_of (tidied source now s) a = None \<and> (\<exists>r. map_of s a = Some r \<and> window_over now r)"
  using assms map_of_filter_value[OF assms, of "\<lambda>r. \<not> window_over now r"]
  by (auto simp: tidied_def wf_map_filter map_has_def split: option.splits)

lemma fresh_window: "\<not> window_over now \<lparr> rt_window = now, rt_count = n \<rparr>"
  by (simp add: window_over_iff second_def)

lemma allow_known:
  "map_of s source = Some r \<Longrightarrow> allow source now s =
     (if window_over now r then (True, AList.update source \<lparr> rt_window = now, rt_count = 1 \<rparr> (tidied source now s))
      else if maxSTUNPerSource \<le> rt_count r then (False, tidied source now s)
      else (True, AList.update source (r\<lparr> rt_count := rt_count r + 1 \<rparr>) (tidied source now s)))"
  by (simp add: allow_def map_has_def maxSTUNPerSource_def)

lemma allow_unknown:
  "map_of s source = None \<Longrightarrow> allow source now s =
     (if maxSTUNSources \<le> length (tidied source now s) then (False, tidied source now s)
      else (True, AList.update source \<lparr> rt_window = now, rt_count = 1 \<rparr> (tidied source now s)))"
  by (simp add: allow_def map_has_def maxSTUNPerSource_def fresh_window)

lemma allow_cases:
  assumes "allow source now s = (ok, s1)"
  obtains "\<not> ok" "s1 = tidied source now s"
    | r where "ok" "map_of s source = Some r" "\<not> window_over now r" "rt_count r < maxSTUNPerSource"
        "s1 = AList.update source (r\<lparr> rt_count := rt_count r + 1 \<rparr>) (tidied source now s)"
    | "ok" "\<forall>r. map_of s source = Some r \<longrightarrow> window_over now r" "map_of s source \<noteq> None \<or> length (tidied source now s) < maxSTUNSources"
        "s1 = AList.update source \<lparr> rt_window = now, rt_count = 1 \<rparr> (tidied source now s)"
proof (cases "map_of s source")
  case None
  show thesis
  proof (cases "maxSTUNSources \<le> length (tidied source now s)")
    case True
    then show ?thesis using assms by (intro that(1)) (simp_all add: allow_unknown[OF None])
  next
    case False
    then show ?thesis using assms None by (intro that(3)) (simp_all add: allow_unknown[OF None])
  qed
next
  case (Some r)
  consider "window_over now r" | "\<not> window_over now r" "maxSTUNPerSource \<le> rt_count r"
    | "\<not> window_over now r" "rt_count r < maxSTUNPerSource" by linarith
  then show thesis
  proof cases
    case 1
    then show ?thesis using assms Some by (intro that(3)) (simp_all add: allow_known[OF Some])
  next
    case 2
    then show ?thesis using assms by (intro that(1)) (simp_all add: allow_known[OF Some])
  next
    case 3
    then show ?thesis using assms Some by (intro that(2)[of r]) (simp_all add: allow_known[OF Some])
  qed
qed

lemma allow_rates_ok:
  assumes "rates_ok s" "allow source now s = (ok, s1)"
  shows "rates_ok s1"
proof -
  have wf: "wf_map s" "length s \<le> maxSTUNSources" and rt: "\<And>r k. map_of s k = Some r \<Longrightarrow> rt_count r \<le> maxSTUNPerSource"
    using assms(1) by (auto simp: rates_ok_def ran_def)
  note t = tidied_facts[OF wf(1), of source now]
  have len: "length (tidied source now s) \<le> maxSTUNSources" using t(2) wf(2) by linarith
  have tr: "rt_count r \<le> maxSTUNPerSource" if "map_of (tidied source now s) k = Some r" for k r
    using tidied_facts(4)[OF wf(1), of source now k] that rt by auto
  show ?thesis
  proof (rule allow_cases[OF assms(2)])
    assume "\<not> ok" "s1 = tidied source now s"
    then show ?thesis using t(1) len tr by (auto simp: rates_ok_def ran_def)
  next
    fix r assume r: "map_of s source = Some r" "rt_count r < maxSTUNPerSource"
      "s1 = AList.update source (r\<lparr> rt_count := rt_count r + 1 \<rparr>) (tidied source now s)"
    then show ?thesis using t(1,3) len tr by (auto simp: rates_ok_def ran_def update_conv' length_update split: if_splits)
  next
    assume r: "map_of s source \<noteq> None \<or> length (tidied source now s) < maxSTUNSources"
      "s1 = AList.update source \<lparr> rt_window = now, rt_count = 1 \<rparr> (tidied source now s)"
    then show ?thesis using t(1,3) len tr
      by (auto simp: rates_ok_def ran_def update_conv' length_update maxSTUNPerSource_def split: if_splits)
  qed
qed

text \<open>Within its window a source gets what is left of its allowance.\<close>

lemma run_in_window:
  assumes "rates_ok s" "map_of s a = Some r" "\<And>q. q \<in> set reqs \<Longrightarrow> snd q < rt_window r + second"
  shows "fst (stun_run a reqs s) + rt_count r \<le> maxSTUNPerSource"
  using assms
proof (induction reqs arbitrary: s r)
  case Nil
  then show ?case by (auto simp: rates_ok_def ran_def)
next
  case (Cons q reqs)
  obtain source now where q: "q = (source, now)" by fastforce
  obtain ok s1 where al: "allow source now s = (ok, s1)" by fastforce
  have wf: "wf_map s" using Cons.prems(1) by (simp add: rates_ok_def)
  have ok1: "rates_ok s1" by (rule allow_rates_ok[OF Cons.prems(1) al])
  have now: "\<not> window_over now r" using Cons.prems(3)[of q] by (simp add: q window_over_iff)
  have keep: "map_of (tidied source now s) a = Some r"
    using tidied_facts(4)[OF wf, of source now a] Cons.prems(2) now by auto
  obtain n s2 where run: "stun_run a reqs s1 = (n, s2)" by fastforce
  have rest: "\<And>q. q \<in> set reqs \<Longrightarrow> snd q < rt_window r + second" using Cons.prems(3) by auto
  show ?case
  proof (cases "ok \<and> source = a")
    case True
    then have "map_of s1 a = Some (r\<lparr> rt_count := rt_count r + 1 \<rparr>)"
      by (rule_tac allow_cases[OF al]) (use Cons.prems(2) now in auto)
    from Cons.IH[OF ok1 this] rest run show ?thesis using True al by (simp add: q)
  next
    case False
    then have "map_of s1 a = Some r"
      by (rule_tac allow_cases[OF al]) (use keep in \<open>auto simp: update_conv'\<close>)
    from Cons.IH[OF ok1 this] rest run False show ?thesis by (auto simp: q al)
  qed
qed

lemma run_in_second:
  assumes "rates_ok s" "\<And>q. q \<in> set reqs \<Longrightarrow> t0 \<le> snd q \<and> snd q < t0 + second"
  shows "fst (stun_run a reqs s) + (case map_of s a of Some r \<Rightarrow> rt_count r | None \<Rightarrow> maxSTUNPerSource) \<le> 2 * maxSTUNPerSource"
  using assms
proof (induction reqs arbitrary: s)
  case Nil
  then show ?case by (auto simp: rates_ok_def ran_def split: option.splits)
next
  case (Cons q reqs)
  obtain source now where q: "q = (source, now)" by fastforce
  obtain ok s1 where al: "allow source now s = (ok, s1)" by fastforce
  have wf: "wf_map s" using Cons.prems(1) by (simp add: rates_ok_def)
  have ok1: "rates_ok s1" by (rule allow_rates_ok[OF Cons.prems(1) al])
  obtain n s2 where run: "stun_run a reqs s1 = (n, s2)" by fastforce
  have ih: "n + (case map_of s1 a of Some r \<Rightarrow> rt_count r | None \<Rightarrow> maxSTUNPerSource) \<le> 2 * maxSTUNPerSource"
    using Cons.IH[OF ok1] Cons.prems(2) run by simp
  have bound: "rt_count r \<le> maxSTUNPerSource" if "map_of s a = Some r" for r
    using Cons.prems(1) that by (auto simp: rates_ok_def ran_def)
  show ?case
  proof (cases "ok \<and> source = a")
    case False
    have "map_of s1 a = map_of s a \<or> map_of s1 a = None"
      using False tidied_facts(4)[OF wf, of source now a]
      by (rule_tac allow_cases[OF al]) (auto simp: update_conv')
    then show ?thesis using ih run False bound by (auto simp: q al split: option.splits)
  next
    case True
    show ?thesis
    proof (rule allow_cases[OF al])
      assume "\<not> ok" then show ?thesis using True by simp
    next
      fix r assume "map_of s source = Some r" "s1 = AList.update source (r\<lparr> rt_count := rt_count r + 1 \<rparr>) (tidied source now s)"
      then show ?thesis using ih run True al by (simp add: q)
    next
      assume "s1 = AList.update source \<lparr> rt_window = now, rt_count = 1 \<rparr> (tidied source now s)"
      then have m: "map_of s1 a = Some \<lparr> rt_window = now, rt_count = 1 \<rparr>" using True by simp
      have "snd p < now + second" if "p \<in> set reqs" for p
        using Cons.prems(2)[of p] Cons.prems(2)[of q] that by (simp add: q)
      then have "n + 1 \<le> maxSTUNPerSource" using run_in_window[OF ok1 m, of reqs] run by simp
      then show ?thesis using run True al bound by (cases "map_of s a") (auto simp: q)
    qed
  qed
qed

lemma run_rates_ok: "rates_ok s \<Longrightarrow> rates_ok (snd (stun_run a reqs s))"
proof (induction reqs arbitrary: s)
  case (Cons q reqs)
  obtain source now where q: "q = (source, now)" by fastforce
  obtain ok s1 where al: "allow source now s = (ok, s1)" by fastforce
  from Cons.IH[OF allow_rates_ok[OF Cons.prems al]] show ?case by (cases "stun_run a reqs s1") (simp add: q al)
qed simp

lemma rates_ok_Nil: "rates_ok []"
  by (simp add: rates_ok_def)

text \<open>
  C34: the STUN server cannot be made to flood a source or to exhaust its memory. After any requests
  from any sources at any times, the table holds at most 4096 sources, each with at most 30 answers in
  its window, and among further requests that all arrive within one second a source gets at most 60
  answers, whatever other sources do to the table.
\<close>

theorem stun_answers_bounded:
  assumes "\<And>q. q \<in> set reqs \<Longrightarrow> t0 \<le> snd q \<and> snd q < t0 + second"
  shows "length (snd (stun_run a before [])) \<le> 4096 \<and>
    (\<forall>k r. map_of (snd (stun_run a before [])) k = Some r \<longrightarrow> rt_count r \<le> 30) \<and>
    fst (stun_run a reqs (snd (stun_run a before []))) \<le> 60"
proof -
  have ok: "rates_ok (snd (stun_run a before []))" by (rule run_rates_ok[OF rates_ok_Nil])
  then show ?thesis using run_in_second[OF ok, of reqs t0 a] assms
    by (auto simp: rates_ok_def ran_def maxSTUNSources_def maxSTUNPerSource_def)
qed

theorem stun_answers_bounded_witness:
  "fst (stun_run (V4 1) (replicate 40 (V4 1, 5)) (snd (stun_run (V4 1) [(V4 1, 0)] []))) \<le> 60"
  using stun_answers_bounded[of "replicate 40 (V4 1, 5)" 0 "V4 1" "[(V4 1, 0)]"] by (simp add: second_def)

section \<open>Paths: lemmas\<close>

definition path_ok :: "PeerPath \<Rightarrow> bool" where
  "path_ok p \<longleftrightarrow> (if pp_haveDirect p then pp_direct p \<in> set (pp_candidates p) else pp_direct p = no_addr_port)"

lemma path_ok_steps:
  "path_ok (NewPeerPath peer)" "path_ok p \<Longrightarrow> path_ok (SetCandidates eps p)" "path_ok p \<Longrightarrow> path_ok (snd (ConfirmDirect ep p))"
  "path_ok (LoseDirect p)"
  by (simp_all add: path_ok_def NewPeerPath_def SetCandidates_def ConfirmDirect_def LoseDirect_def Let_def)

lemma Current_is_candidate: "path_ok p \<Longrightarrow> Current p = (PathDirect, ep) \<Longrightarrow> ep \<in> set (Candidates p)"
  by (auto simp: path_ok_def Current_def Candidates_def split: if_splits)

end
