(* ===== verification/RA_Models.thy ===== *)
theory RA_Models
  imports Netip Go_Sort
begin

text \<open>
  Remote access, the data model: \<open>internal/remoteaccess/models.go\<close> (advertised services, grants and
  their validation), \<open>enforcement_errors.go\<close> (stable error codes) and \<open>launcher.go\<close> (the URI a
  grant is launched with).
\<close>

section \<open>Errors\<close>

datatype ra_error =
  ErrInvalidServiceKind | ErrInvalidPlatform | ErrInvalidPort | ErrInvalidMeshIP | ErrInvalidID
| ErrGrantExpired | ErrGrantNotYetValid | ErrGrantTooLong | ErrInvalidChronology | ErrNilPointer
| ErrStaleGrant | ErrInvalidPolicyVer | ErrInvalidSignature | ErrSignerFailed | ErrBindingMismatch
| ErrPayloadTooLarge | ErrInvalidVerificationContext | ErrSignedGrantCacheMismatch
| ErrInvalidPolicyState | ErrPolicyRollback | ErrPolicyConflict | ErrPolicyDisabled
| ErrPolicyStoreCorrupt | ErrPolicyStoreMode | ErrPolicyLockUnavailable | ErrTooManyPolicyTenants
| ErrReconcileLimit | ErrDependencyMissing | ErrPeerBindingMismatch | ErrUnsupportedPlatformService
| ErrTooManyCandidates | ErrJSON | ErrCanceled

datatype EnforcementErrorCode =
  CodeInvalidInput | CodeDependencyMissing | CodeSignatureInvalid | CodeCacheMismatch
| CodeBindingMismatch | CodePolicyStale | CodePolicyDisabled | CodePolicyConflict | CodeGrantTime
| CodePeerBinding | CodeServiceMissing | CodeDirectionDenied | CodeLimitExceeded | CodeStorage
| CodeGrantConflict

text \<open>\<open>EnforcementError\<close>: the code and the cause.\<close>

type_synonym enforcement_error = "EnforcementErrorCode \<times> ra_error"

definition classifyGrantError :: "ra_error \<Rightarrow> EnforcementErrorCode" where
  "classifyGrantError err =
     (if err = ErrInvalidSignature then CodeSignatureInvalid
      else if err = ErrSignedGrantCacheMismatch then CodeCacheMismatch
      else if err = ErrBindingMismatch then CodeBindingMismatch
      else if err = ErrStaleGrant then CodePolicyStale
      else if err = ErrGrantExpired \<or> err = ErrGrantNotYetValid then CodeGrantTime
      else CodeInvalidInput)"

text \<open>The text of a code, which orders rejections.\<close>

fun code_text :: "EnforcementErrorCode \<Rightarrow> string" where
  "code_text CodeInvalidInput = ''invalid_input''"
| "code_text CodeDependencyMissing = ''dependency_missing''"
| "code_text CodeSignatureInvalid = ''signature_invalid''"
| "code_text CodeCacheMismatch = ''cache_mismatch''"
| "code_text CodeBindingMismatch = ''binding_mismatch''"
| "code_text CodePolicyStale = ''policy_stale''"
| "code_text CodePolicyDisabled = ''policy_disabled''"
| "code_text CodePolicyConflict = ''policy_conflict''"
| "code_text CodeGrantTime = ''grant_time''"
| "code_text CodePeerBinding = ''peer_binding''"
| "code_text CodeServiceMissing = ''service_missing''"
| "code_text CodeDirectionDenied = ''direction_denied''"
| "code_text CodeLimitExceeded = ''limit_exceeded''"
| "code_text CodeStorage = ''storage''"
| "code_text CodeGrantConflict = ''grant_conflict''"

section \<open>Services\<close>

type_synonym ServiceKind = string
type_synonym Platform = string

definition KindSSH :: ServiceKind where "KindSSH = ''ssh''"
definition KindRDP :: ServiceKind where "KindRDP = ''rdp''"
definition KindVNC :: ServiceKind where "KindVNC = ''vnc''"

definition PlatformMacOS :: Platform where "PlatformMacOS = ''macos''"
definition PlatformWindows :: Platform where "PlatformWindows = ''windows''"
definition PlatformLinux :: Platform where "PlatformLinux = ''linux''"
definition PlatformAndroid :: Platform where "PlatformAndroid = ''android''"
definition PlatformIOS :: Platform where "PlatformIOS = ''ios''"

lemmas kind_defs = KindSSH_def KindRDP_def KindVNC_def PlatformMacOS_def PlatformWindows_def
  PlatformLinux_def PlatformAndroid_def PlatformIOS_def

record ServiceAdvertisement =
  sa_Kind :: ServiceKind
  sa_Port :: u16
  sa_Platform :: Platform
  sa_Label :: string
  sa_TargetNodeID :: string
  sa_TargetMeshIP :: string

definition containsControlChars :: "string \<Rightarrow> bool" where
  "containsControlChars s = list_ex is_control (runes s)"

definition cgnat :: prefix where
  "cgnat = Pfx (V4 0x64400000) 10"

definition ula8 :: prefix where
  "ula8 = Pfx (V6 (push_bit 120 0xfd) []) 8"

definition isMeshAddr :: "addr \<Rightarrow> bool" where
  "isMeshAddr a \<longleftrightarrow> pfx_contains cgnat a \<or> pfx_contains ula8 a"

text \<open>The test on identifiers that several validations share.\<close>

definition bad_id :: "string \<Rightarrow> bool" where
  "bad_id s \<longleftrightarrow> s = [] \<or> containsControlChars s \<or> 256 < length s"

definition kind_allowed :: "Platform \<Rightarrow> ServiceKind \<Rightarrow> ra_error option" where
  "kind_allowed p k =
     (if p = PlatformMacOS then (if k \<noteq> KindSSH \<and> k \<noteq> KindVNC then Some ErrInvalidServiceKind else None)
      else if p = PlatformWindows then (if k \<noteq> KindSSH \<and> k \<noteq> KindRDP then Some ErrInvalidServiceKind else None)
      else if p = PlatformLinux then (if k \<noteq> KindSSH \<and> k \<noteq> KindVNC then Some ErrInvalidServiceKind else None)
      else Some ErrInvalidPlatform)"

definition validateService :: "ServiceAdvertisement \<Rightarrow> ra_error option" where
  "validateService s =
     (if sa_Port s = 0 then Some ErrInvalidPort
      else if bad_id (sa_TargetNodeID s) then Some ErrInvalidID
      else if trim_space (sa_Label s) = [] \<or> containsControlChars (sa_Label s) \<or> 256 < length (sa_Label s)
      then Some ErrInvalidID
      else case parse_addr (sa_TargetMeshIP s) of
        None \<Rightarrow> Some ErrInvalidMeshIP
      | Some a \<Rightarrow>
          if is4 a \<and> \<not> pfx_contains cgnat a then Some ErrInvalidMeshIP
          else if is6 a \<and> \<not> pfx_contains ula8 a then Some ErrInvalidMeshIP
          else if \<not> is4 a \<and> \<not> is6 a then Some ErrInvalidMeshIP
          else kind_allowed (sa_Platform s) (sa_Kind s))"

section \<open>Grants\<close>

record Grant =
  gr_ID :: string
  gr_TenantID :: string
  gr_GrantorID :: string
  gr_GranteeID :: string
  gr_GranteeMeshIP :: string
  gr_PolicyVersion :: u64
  gr_Service :: ServiceAdvertisement
  gr_IssuedAt :: time
  gr_NotBefore :: time
  gr_ExpiresAt :: time

definition MaxGrantLifetime :: duration where
  "MaxGrantLifetime = 24 * hour"

definition grantee_ip_ok :: "string \<Rightarrow> bool" where
  "grantee_ip_ok s = (case parse_addr s of None \<Rightarrow> False | Some a \<Rightarrow> isMeshAddr a \<and> addr_string a = s)"

definition validateGrant :: "Grant \<Rightarrow> time \<Rightarrow> ra_error option" where
  "validateGrant g now =
     (if gr_PolicyVersion g = 0 then Some ErrInvalidPolicyVer
      else if bad_id (gr_ID g) then Some ErrInvalidID
      else if bad_id (gr_TenantID g) then Some ErrInvalidID
      else if bad_id (gr_GrantorID g) then Some ErrInvalidID
      else if bad_id (gr_GranteeID g) then Some ErrInvalidID
      else if \<not> grantee_ip_ok (gr_GranteeMeshIP g) then Some ErrInvalidMeshIP
      else case validateService (gr_Service g) of Some e \<Rightarrow> Some e | None \<Rightarrow>
      if is_zero_time (gr_IssuedAt g) \<or> is_zero_time (gr_NotBefore g) \<or> is_zero_time (gr_ExpiresAt g)
      then Some ErrInvalidChronology
      else if gr_NotBefore g < gr_IssuedAt g then Some ErrInvalidChronology
      else if \<not> gr_NotBefore g < gr_ExpiresAt g then Some ErrInvalidChronology
      else if \<not> gr_IssuedAt g < gr_ExpiresAt g then Some ErrInvalidChronology
      else if \<not> now < gr_ExpiresAt g then Some ErrGrantExpired
      else if now < gr_NotBefore g then Some ErrGrantNotYetValid
      else if MaxGrantLifetime < time_sub (gr_ExpiresAt g) (gr_IssuedAt g) then Some ErrGrantTooLong
      else None)"

text \<open>What a service that passes the validation is.\<close>

definition service_ok :: "ServiceAdvertisement \<Rightarrow> bool" where
  "service_ok s \<longleftrightarrow> sa_Port s \<noteq> 0 \<and> \<not> bad_id (sa_TargetNodeID s) \<and> trim_space (sa_Label s) \<noteq> [] \<and>
     \<not> containsControlChars (sa_Label s) \<and> length (sa_Label s) \<le> 256 \<and>
     (\<exists>a. parse_addr (sa_TargetMeshIP s) = Some a \<and> isMeshAddr a) \<and>
     (sa_Kind s = KindSSH \<and> sa_Platform s \<in> {PlatformMacOS, PlatformWindows, PlatformLinux} \<or>
      sa_Kind s = KindRDP \<and> sa_Platform s = PlatformWindows \<or>
      sa_Kind s = KindVNC \<and> sa_Platform s \<in> {PlatformMacOS, PlatformLinux})"

lemma mesh_addr_cases:
  "pfx_contains cgnat a \<Longrightarrow> is4 a" "pfx_contains ula8 a \<Longrightarrow> is6 a"
  "is4 a \<Longrightarrow> \<not> is6 a"
  by (cases a; simp add: cgnat_def ula8_def)+

lemma kind_allowed_None:
  "kind_allowed p k = None \<longleftrightarrow>
     k = KindSSH \<and> p \<in> {PlatformMacOS, PlatformWindows, PlatformLinux} \<or>
     k = KindRDP \<and> p = PlatformWindows \<or> k = KindVNC \<and> p \<in> {PlatformMacOS, PlatformLinux}"
  by (auto simp: kind_allowed_def kind_defs)

lemma validateService_None: "validateService s = None \<longleftrightarrow> service_ok s"
proof (cases "parse_addr (sa_TargetMeshIP s)")
  case None
  then show ?thesis by (simp add: validateService_def service_ok_def)
next
  case (Some a)
  have "(\<not> (is4 a \<and> \<not> pfx_contains cgnat a) \<and> \<not> (is6 a \<and> \<not> pfx_contains ula8 a) \<and> \<not> (\<not> is4 a \<and> \<not> is6 a)) = isMeshAddr a"
    using mesh_addr_cases[of a] by (auto simp: isMeshAddr_def)
  then show ?thesis using Some
    by (simp only: validateService_def service_ok_def guard_None option.case kind_allowed_None not_less) auto
qed

text \<open>What a grant that passes the validation at an instant is.\<close>

definition grant_ok :: "Grant \<Rightarrow> time \<Rightarrow> bool" where
  "grant_ok g now \<longleftrightarrow> gr_PolicyVersion g \<noteq> 0 \<and> \<not> bad_id (gr_ID g) \<and> \<not> bad_id (gr_TenantID g) \<and>
     \<not> bad_id (gr_GrantorID g) \<and> \<not> bad_id (gr_GranteeID g) \<and> grantee_ip_ok (gr_GranteeMeshIP g) \<and>
     service_ok (gr_Service g) \<and> zero_time \<notin> {gr_IssuedAt g, gr_NotBefore g, gr_ExpiresAt g} \<and>
     gr_IssuedAt g \<le> gr_NotBefore g \<and> gr_NotBefore g \<le> now \<and> now < gr_ExpiresAt g \<and>
     gr_ExpiresAt g - gr_IssuedAt g \<le> MaxGrantLifetime"

lemma validateGrant_None: "validateGrant g now = None \<longleftrightarrow> grant_ok g now"
proof -
  have s: "validateService s = Some e \<Longrightarrow> \<not> service_ok s" for s e
    by (metis option.distinct(1) validateService_None)
  have "MaxGrantLifetime < time_sub t u \<longleftrightarrow> MaxGrantLifetime < t - u" for t u
    by (auto simp: time_sub_def MaxGrantLifetime_def hour_def)
  then show ?thesis
    by (auto simp: validateGrant_def grant_ok_def validateService_None is_zero_time_def split: option.split if_splits dest: s)
qed

section \<open>Launching\<close>

record LauncherMetadata =
  lm_URI :: string

text \<open>\<open>net.JoinHostPort\<close>.\<close>

definition join_host_port :: "string \<Rightarrow> string \<Rightarrow> string" where
  "join_host_port h p = (if CHR '':'' \<in> set h then ''['' @ h @ '']:'' @ p else h @ '':'' @ p)"

definition GenerateLauncherMetadata :: "Grant \<Rightarrow> ra_error + LauncherMetadata" where
  "GenerateLauncherMetadata grant =
    (case validateService (gr_Service grant) of Some e \<Rightarrow> Inl e | None \<Rightarrow>
     let hostPort = join_host_port (sa_TargetMeshIP (gr_Service grant)) (itoa (unat (sa_Port (gr_Service grant))));
         kind = sa_Kind (gr_Service grant); platform = sa_Platform (gr_Service grant) in
     if platform = PlatformMacOS then
       if kind = KindSSH then Inr \<lparr> lm_URI = ''ssh://'' @ hostPort \<rparr>
       else if kind = KindVNC then Inr \<lparr> lm_URI = ''vnc://'' @ hostPort \<rparr>
       else Inl ErrUnsupportedPlatformService
     else if platform = PlatformWindows then
       if kind = KindSSH then Inr \<lparr> lm_URI = ''ssh://'' @ hostPort \<rparr>
       else if kind = KindRDP then Inr \<lparr> lm_URI = ''rdp://'' @ hostPort \<rparr>
       else Inl ErrUnsupportedPlatformService
     else if platform = PlatformLinux then
       if kind = KindSSH then Inr \<lparr> lm_URI = ''ssh://'' @ hostPort \<rparr>
       else if kind = KindVNC then Inr \<lparr> lm_URI = ''vnc://'' @ hostPort \<rparr>
       else Inl ErrUnsupportedPlatformService
     else Inl ErrUnsupportedPlatformService)"

text \<open>A valid service is launched under its own kind as the scheme, and the last branch is dead.\<close>

definition launch_uri :: "ServiceAdvertisement \<Rightarrow> string" where
  "launch_uri s = sa_Kind s @ ''://'' @ join_host_port (sa_TargetMeshIP s) (itoa (unat (sa_Port s)))"

lemma GenerateLauncherMetadata_eq:
  "GenerateLauncherMetadata g = (case validateService (gr_Service g) of Some e \<Rightarrow> Inl e
     | None \<Rightarrow> Inr \<lparr> lm_URI = launch_uri (gr_Service g) \<rparr>)"
proof (cases "validateService (gr_Service g)")
  case None
  then have "service_ok (gr_Service g)" by (simp add: validateService_None)
  then show ?thesis using None by (auto simp: GenerateLauncherMetadata_def service_ok_def launch_uri_def kind_defs)
qed (simp add: GenerateLauncherMetadata_def)

end
