(* ===== verification/SG_Sign.thy ===== *)
theory SG_Sign
  imports RA_Models Crypto
begin

text \<open>
  Node credentials, \<open>internal/sign/sign.go\<close>: the transcripts the key authority signs for a node, and
  their signing and verification; the node is \<open>types.Node\<close> of \<open>internal/types/netmap.go\<close>. \<open>crypto/ed25519\<close>
  and the ML-DSA-65 implementation of \<open>cloudflare/circl\<close> are parameters. Key files are not modelled.
\<close>

section \<open>Nodes\<close>

record NodeCapabilities =
  ncap_Exit :: bool
  ncap_Relay :: bool

record Node =
  nd_ID :: string
  nd_Name :: string
  nd_User :: string
  nd_Platform :: string
  nd_LocationRegion :: string
  nd_LocationSource :: string
  nd_RemoteAccessAllowed :: bool
  nd_RemoteServices :: "ServiceAdvertisement list"
  nd_Key :: bytes
  nd_PQKEMPublicKey :: bytes
  nd_PQSigningPublicKey :: bytes
  nd_MeshIPs :: "addr list"
  nd_Endpoints :: "string list"
  nd_DiscoEndpoints :: "string list"
  nd_AllowedIPs :: "string list"
  nd_Role :: string
  nd_Capabilities :: NodeCapabilities
  nd_Tags :: "string list"
  nd_Online :: bool
  nd_LastSeen :: time
  nd_SelectedExitID :: string
  nd_ActiveExitID :: string
  nd_Sig :: bytes
  nd_RouteSig :: bytes
  nd_CapabilitySig :: bytes
  nd_PQSig :: bytes
  nd_PQRouteSig :: bytes
  nd_PQCapabilitySig :: bytes

section \<open>Transcripts\<close>

text \<open>\<open>uint32(len(v))\<close> wraps; \<open>be_enc 4\<close> keeps the low 32 bits.\<close>

definition writeCanonicalBytes :: "bytes \<Rightarrow> bytes" where
  "writeCanonicalBytes value = be_enc 4 (length value) @ value"

definition sortedStrings :: "string list \<Rightarrow> string list" where
  "sortedStrings values = sort values"

definition sortedAddrs :: "addr list \<Rightarrow> string list" where
  "sortedAddrs values = sort (map addr_string values)"

definition writeString :: "string \<Rightarrow> bytes" where
  "writeString v = writeCanonicalBytes (str_bytes v)"

definition writeStrings :: "string list \<Rightarrow> bytes" where
  "writeStrings values = be_enc 4 (length values) @ concat (map writeString values)"

definition routeCanonical :: "Node \<Rightarrow> bytes" where
  "routeCanonical n =
     writeString (nd_ID n) @ writeString (nd_User n) @ writeString (nd_Name n) @ writeCanonicalBytes (nd_Key n) @
     writeString (nd_Role n) @ writeStrings (sortedStrings (nd_Tags n)) @ writeStrings (sortedAddrs (nd_MeshIPs n)) @
     writeStrings (sortedStrings (nd_AllowedIPs n))"

definition flag_byte :: "bool \<Rightarrow> u8" where "flag_byte b = (if b then 1 else 0)"

definition capabilityCanonical :: "Node \<Rightarrow> bytes" where
  "capabilityCanonical n =
     str_bytes ''RatelMesh-Node-Capabilities-v1'' @ [0] @ writeCanonicalBytes (str_bytes (nd_ID n)) @ writeCanonicalBytes (nd_Key n) @
     [flag_byte (ncap_Exit (nd_Capabilities n)), flag_byte (ncap_Relay (nd_Capabilities n))]"

definition writeField :: "string \<Rightarrow> bytes" where
  "writeField s = str_bytes s @ [0]"

definition canonical :: "Node \<Rightarrow> bytes" where
  "canonical n =
     writeField (nd_ID n) @ writeField (nd_User n) @ writeField (nd_Name n) @ nd_Key n @ [0] @ writeField (nd_Role n) @
     concat (map writeField (sort (nd_Tags n))) @ [0] @ concat (map writeField (sort (map addr_string (nd_MeshIPs n))))"

definition pqCanonical :: "bytes \<Rightarrow> Node \<Rightarrow> bytes" where
  "pqCanonical legacy n = legacy @ writeCanonicalBytes (nd_PQKEMPublicKey n) @ writeCanonicalBytes (nd_PQSigningPublicKey n)"

section \<open>Signing and verification\<close>

text \<open>ML-DSA-65 with a context string; \<open>ml_verify\<close> takes the public key, message, context and signature.\<close>

record mldsa =
  ml_public :: "bytes \<Rightarrow> bytes"
  ml_sign :: "bytes \<Rightarrow> bytes \<Rightarrow> string \<Rightarrow> bytes"
  ml_verify :: "bytes \<Rightarrow> bytes \<Rightarrow> string \<Rightarrow> bytes \<Rightarrow> bool"

definition mldsa_SignatureSize :: nat where "mldsa_SignatureSize = 3309"

definition mldsa_works :: "mldsa \<Rightarrow> bool" where
  "mldsa_works M \<longleftrightarrow> (\<forall>k m c. length (ml_sign M k m c) = mldsa_SignatureSize \<and> ml_verify M (ml_public M k) m c (ml_sign M k m c))"

record Authority =
  au_priv :: bytes
  au_pqPriv :: bytes

datatype sg_error = ErrBadKey

definition node_context :: string where "node_context = ''RatelMesh-Node-v1''"
definition routes_context :: string where "routes_context = ''RatelMesh-Routes-v1''"
definition capabilities_context :: string where "capabilities_context = ''RatelMesh-Capabilities-v1''"

definition Sign :: "crypto \<Rightarrow> Authority \<Rightarrow> Node \<Rightarrow> bytes" where
  "Sign C a n = ed_sign C (au_priv a) (canonical n)"

definition SignBytes :: "crypto \<Rightarrow> Authority option \<Rightarrow> bytes \<Rightarrow> sg_error + bytes" where
  "SignBytes C a data = (case a of None \<Rightarrow> Inl ErrBadKey
     | Some a \<Rightarrow> if length (au_priv a) \<noteq> 64 then Inl ErrBadKey else Inr (ed_sign C (au_priv a) data))"

definition SignRoutes :: "crypto \<Rightarrow> Authority \<Rightarrow> Node \<Rightarrow> bytes" where
  "SignRoutes C a n = ed_sign C (au_priv a) (routeCanonical n)"

definition SignCapabilities :: "crypto \<Rightarrow> Authority \<Rightarrow> Node \<Rightarrow> bytes" where
  "SignCapabilities C a n = ed_sign C (au_priv a) (capabilityCanonical n)"

definition SignPQ :: "mldsa \<Rightarrow> Authority \<Rightarrow> Node \<Rightarrow> bytes" where
  "SignPQ M a n = ml_sign M (au_pqPriv a) (pqCanonical (canonical n) n) node_context"

definition SignRoutesPQ :: "mldsa \<Rightarrow> Authority \<Rightarrow> Node \<Rightarrow> bytes" where
  "SignRoutesPQ M a n = ml_sign M (au_pqPriv a) (pqCanonical (routeCanonical n) n) routes_context"

definition SignCapabilitiesPQ :: "mldsa \<Rightarrow> Authority \<Rightarrow> Node \<Rightarrow> bytes" where
  "SignCapabilitiesPQ M a n = ml_sign M (au_pqPriv a) (capabilityCanonical n) capabilities_context"

definition Verify :: "crypto \<Rightarrow> bytes \<Rightarrow> Node \<Rightarrow> bytes \<Rightarrow> bool" where
  "Verify C pub n sig = (if length pub \<noteq> 32 \<or> length sig = 0 then False else ed_verify C pub (canonical n) sig)"

definition VerifyRoutes :: "crypto \<Rightarrow> bytes \<Rightarrow> Node \<Rightarrow> bytes \<Rightarrow> bool" where
  "VerifyRoutes C pub n sig = (if length pub \<noteq> 32 \<or> length sig = 0 then False else ed_verify C pub (routeCanonical n) sig)"

definition VerifyCapabilities :: "crypto \<Rightarrow> bytes \<Rightarrow> Node \<Rightarrow> bytes \<Rightarrow> bool" where
  "VerifyCapabilities C pub n sig \<longleftrightarrow> length pub = 32 \<and> length sig = 64 \<and> ed_verify C pub (capabilityCanonical n) sig"

text \<open>The ML-DSA public key is a pointer, absent when it is nil.\<close>

definition VerifyPQ :: "mldsa \<Rightarrow> bytes option \<Rightarrow> Node \<Rightarrow> bytes \<Rightarrow> bool" where
  "VerifyPQ M pub n sig = (case pub of None \<Rightarrow> False
     | Some pub \<Rightarrow> length sig = mldsa_SignatureSize \<and> ml_verify M pub (pqCanonical (canonical n) n) node_context sig)"

definition VerifyRoutesPQ :: "mldsa \<Rightarrow> bytes option \<Rightarrow> Node \<Rightarrow> bytes \<Rightarrow> bool" where
  "VerifyRoutesPQ M pub n sig = (case pub of None \<Rightarrow> False
     | Some pub \<Rightarrow> length sig = mldsa_SignatureSize \<and> ml_verify M pub (pqCanonical (routeCanonical n) n) routes_context sig)"

definition VerifyCapabilitiesPQ :: "mldsa \<Rightarrow> bytes option \<Rightarrow> Node \<Rightarrow> bytes \<Rightarrow> bool" where
  "VerifyCapabilitiesPQ M pub n sig = (case pub of None \<Rightarrow> False
     | Some pub \<Rightarrow> length sig = mldsa_SignatureSize \<and> ml_verify M pub (capabilityCanonical n) capabilities_context sig)"

section \<open>Reading transcripts back\<close>

definition small :: "'a list \<Rightarrow> bool" where "small v \<longleftrightarrow> length v < 256 ^ 4"

lemma writeCanonicalBytes_inject:
  assumes "writeCanonicalBytes v @ r = writeCanonicalBytes w @ t" "small v" "small w"
  shows "v = w \<and> r = t"
proof -
  have h: "be_enc 4 (length v) = be_enc 4 (length w)" "v @ r = w @ t"
    using assms(1) by (simp_all add: writeCanonicalBytes_def)
  have "length v = length w" by (rule be_enc_inject[OF h(1)]) (use assms in \<open>simp_all add: small_def\<close>)
  then show ?thesis using h(2) by simp
qed

lemma writeString_inject:
  "writeString v @ r = writeString w @ t \<Longrightarrow> small v \<Longrightarrow> small w \<Longrightarrow> v = w \<and> r = t"
  using writeCanonicalBytes_inject[of "str_bytes v" r "str_bytes w" t] by (simp add: writeString_def small_def)

lemma writeString_list_inject:
  "concat (map writeString vs) @ r = concat (map writeString ws) @ t \<Longrightarrow> length vs = length ws \<Longrightarrow>
     (\<forall>v\<in>set vs. small v) \<Longrightarrow> (\<forall>w\<in>set ws. small w) \<Longrightarrow> vs = ws \<and> r = t"
proof (induction vs arbitrary: ws)
  case (Cons v vs)
  then obtain w ws' where ws: "ws = w # ws'" by (cases ws) auto
  have "v = w \<and> concat (map writeString vs) @ r = concat (map writeString ws') @ t"
    by (rule writeString_inject) (use Cons.prems ws in auto)
  then show ?case using Cons ws by simp
qed simp

lemma writeStrings_inject:
  assumes "writeStrings vs @ r = writeStrings ws @ t" "small vs" "small ws" "\<forall>v\<in>set vs. small v" "\<forall>w\<in>set ws. small w"
  shows "vs = ws \<and> r = t"
proof -
  have h: "be_enc 4 (length vs) = be_enc 4 (length ws)" "concat (map writeString vs) @ r = concat (map writeString ws) @ t"
    using assms(1) by (simp_all add: writeStrings_def)
  have "length vs = length ws" by (rule be_enc_inject[OF h(1)]) (use assms in \<open>simp_all add: small_def\<close>)
  then show ?thesis using writeString_list_inject[OF h(2)] assms(4,5) by blast
qed

text \<open>A node whose fields have lengths that fit the 32-bit prefixes.\<close>

definition small_node :: "Node \<Rightarrow> bool" where
  "small_node n \<longleftrightarrow> small (nd_ID n) \<and> small (nd_User n) \<and> small (nd_Name n) \<and> small (nd_Key n) \<and> small (nd_Role n) \<and>
     small (nd_Tags n) \<and> small (nd_MeshIPs n) \<and> small (nd_AllowedIPs n) \<and>
     list_all small (nd_Tags n) \<and> list_all (\<lambda>a. small (addr_string a)) (nd_MeshIPs n) \<and> list_all small (nd_AllowedIPs n)"

lemma routeCanonical_eq:
  assumes "routeCanonical n = routeCanonical m" "small_node n" "small_node m"
  shows "nd_ID n = nd_ID m \<and> nd_User n = nd_User m \<and> nd_Name n = nd_Name m \<and> nd_Key n = nd_Key m \<and> nd_Role n = nd_Role m \<and>
    sortedStrings (nd_Tags n) = sortedStrings (nd_Tags m) \<and> sortedAddrs (nd_MeshIPs n) = sortedAddrs (nd_MeshIPs m) \<and>
    sortedStrings (nd_AllowedIPs n) = sortedStrings (nd_AllowedIPs m)"
proof -
  note n = assms(2)[unfolded small_node_def] and m = assms(3)[unfolded small_node_def]
  have s: "small (sortedStrings l) = small l" "small (sortedAddrs as) = small as" for l as
    by (simp_all add: small_def sortedStrings_def sortedAddrs_def)
  have 1: "nd_ID n = nd_ID m" and r1: "writeString (nd_User n) @ writeString (nd_Name n) @ writeCanonicalBytes (nd_Key n) @
     writeString (nd_Role n) @ writeStrings (sortedStrings (nd_Tags n)) @ writeStrings (sortedAddrs (nd_MeshIPs n)) @
     writeStrings (sortedStrings (nd_AllowedIPs n)) = writeString (nd_User m) @ writeString (nd_Name m) @ writeCanonicalBytes (nd_Key m) @
     writeString (nd_Role m) @ writeStrings (sortedStrings (nd_Tags m)) @ writeStrings (sortedAddrs (nd_MeshIPs m)) @
     writeStrings (sortedStrings (nd_AllowedIPs m))"
    using writeString_inject[OF assms(1)[unfolded routeCanonical_def]] n m by blast+
  note r2 = writeString_inject[OF r1] and key = writeCanonicalBytes_inject
  have 2: "nd_User n = nd_User m" using r2 n m by blast
  note r3 = writeString_inject[OF conjunct2[OF r2]]
  have 3: "nd_Name n = nd_Name m" using r3 n m by blast
  note r4 = writeCanonicalBytes_inject[OF conjunct2[OF r3]]
  have 4: "nd_Key n = nd_Key m" using r4 n m by blast
  note r5 = writeString_inject[OF conjunct2[OF r4]]
  have 5: "nd_Role n = nd_Role m" using r5 n m by blast
  have e: "writeStrings (sortedStrings (nd_Tags n)) @ writeStrings (sortedAddrs (nd_MeshIPs n)) @ writeStrings (sortedStrings (nd_AllowedIPs n)) =
      writeStrings (sortedStrings (nd_Tags m)) @ writeStrings (sortedAddrs (nd_MeshIPs m)) @ writeStrings (sortedStrings (nd_AllowedIPs m))"
    using r5 n m by blast
  have 6: "sortedStrings (nd_Tags n) = sortedStrings (nd_Tags m) \<and> writeStrings (sortedAddrs (nd_MeshIPs n)) @ writeStrings (sortedStrings (nd_AllowedIPs n)) =
      writeStrings (sortedAddrs (nd_MeshIPs m)) @ writeStrings (sortedStrings (nd_AllowedIPs m))"
    by (rule writeStrings_inject[OF e]) (use n m in \<open>simp_all add: s, simp_all add: sortedStrings_def list_all_iff\<close>)
  have 7: "sortedAddrs (nd_MeshIPs n) = sortedAddrs (nd_MeshIPs m) \<and> writeStrings (sortedStrings (nd_AllowedIPs n)) = writeStrings (sortedStrings (nd_AllowedIPs m))"
    by (rule writeStrings_inject[OF conjunct2[OF 6]]) (use n m in \<open>simp_all add: s, simp_all add: sortedAddrs_def list_all_iff\<close>)
  have 8: "sortedStrings (nd_AllowedIPs n) = sortedStrings (nd_AllowedIPs m) \<and> ([] :: bytes) = []"
    by (rule writeStrings_inject) (use 7 n m in \<open>simp_all add: s, simp_all add: sortedStrings_def list_all_iff\<close>)
  show ?thesis using 1 2 3 4 5 6 7 8 by blast
qed

lemma sort_eq_iff: "sort (a :: string list) = sort b \<longleftrightarrow> mset a = mset b"
proof
  assume "sort a = sort b"
  then have "mset (sort a) = mset (sort b)" by simp
  then show "mset a = mset b" by simp
next
  assume "mset a = mset b"
  then show "sort a = sort b" by (intro properties_for_sort) simp_all
qed

lemma sortedStrings_eq_iff: "sortedStrings a = sortedStrings b \<longleftrightarrow> mset a = mset b"
  unfolding sortedStrings_def by (rule sort_eq_iff)

lemma sortedAddrs_eq_iff: "sortedAddrs a = sortedAddrs b \<longleftrightarrow> mset (map addr_string a) = mset (map addr_string b)"
  unfolding sortedAddrs_def by (rule sort_eq_iff)

lemma flag_byte_eq: "flag_byte a = flag_byte b \<longleftrightarrow> a = b"
  by (simp add: flag_byte_def)

lemma capabilityCanonical_eq:
  assumes "capabilityCanonical n = capabilityCanonical m" "small_node n" "small_node m"
  shows "nd_ID n = nd_ID m \<and> nd_Key n = nd_Key m \<and> nd_Capabilities n = nd_Capabilities m"
proof -
  have h: "writeString (nd_ID n) @ writeCanonicalBytes (nd_Key n) @ [flag_byte (ncap_Exit (nd_Capabilities n)), flag_byte (ncap_Relay (nd_Capabilities n))] =
     writeString (nd_ID m) @ writeCanonicalBytes (nd_Key m) @ [flag_byte (ncap_Exit (nd_Capabilities m)), flag_byte (ncap_Relay (nd_Capabilities m))]"
    using assms(1) unfolding capabilityCanonical_def writeString_def[symmetric] append.assoc same_append_eq by assumption
  have 1: "nd_ID n = nd_ID m" and r: "writeCanonicalBytes (nd_Key n) @ [flag_byte (ncap_Exit (nd_Capabilities n)), flag_byte (ncap_Relay (nd_Capabilities n))] =
      writeCanonicalBytes (nd_Key m) @ [flag_byte (ncap_Exit (nd_Capabilities m)), flag_byte (ncap_Relay (nd_Capabilities m))]"
    using writeString_inject[OF h] assms(2,3) unfolding small_node_def by blast+
  have "nd_Key n = nd_Key m \<and> [flag_byte (ncap_Exit (nd_Capabilities n)), flag_byte (ncap_Relay (nd_Capabilities n))] =
      [flag_byte (ncap_Exit (nd_Capabilities m)), flag_byte (ncap_Relay (nd_Capabilities m))]"
    by (rule writeCanonicalBytes_inject[OF r]) (use assms(2,3) in \<open>simp_all add: small_node_def\<close>)
  with 1 show ?thesis by (cases "nd_Capabilities n"; cases "nd_Capabilities m") (simp add: flag_byte_eq)
qed

lemma credentials_verify:
  assumes "signing_works C" "mldsa_works M" "length (au_priv a) = 64"
  shows "VerifyRoutes C (ed_public C (au_priv a)) n (SignRoutes C a n)" "Verify C (ed_public C (au_priv a)) n (Sign C a n)"
    "VerifyCapabilities C (ed_public C (au_priv a)) n (SignCapabilities C a n)"
    "VerifyPQ M (Some (ml_public M (au_pqPriv a))) n (SignPQ M a n)"
    "VerifyRoutesPQ M (Some (ml_public M (au_pqPriv a))) n (SignRoutesPQ M a n)"
    "VerifyCapabilitiesPQ M (Some (ml_public M (au_pqPriv a))) n (SignCapabilitiesPQ M a n)"
  using assms by (auto simp: signing_works_def mldsa_works_def VerifyRoutes_def Verify_def VerifyCapabilities_def VerifyPQ_def
      VerifyRoutesPQ_def VerifyCapabilitiesPQ_def SignRoutes_def Sign_def SignCapabilities_def SignPQ_def SignRoutesPQ_def SignCapabilitiesPQ_def)

section \<open>Properties\<close>

text \<open>
  C33: a route credential binds exactly the identity, the key, the role and the routes of a node. Two nodes
  (of any field lengths below 2^32) have the same route transcript iff they agree on id, user, name, key
  and role and, as multisets, on tags, mesh addresses and allowed prefixes: no separator can be shifted
  between fields, and endpoints, liveness and the signatures may change freely. The capability transcript
  is equal only when id, key and both capabilities are.
\<close>

theorem route_credential_binds:
  assumes "small_node n" "small_node m"
  shows "(routeCanonical n = routeCanonical m \<longleftrightarrow>
      nd_ID n = nd_ID m \<and> nd_User n = nd_User m \<and> nd_Name n = nd_Name m \<and> nd_Key n = nd_Key m \<and> nd_Role n = nd_Role m \<and>
      mset (nd_Tags n) = mset (nd_Tags m) \<and> mset (map addr_string (nd_MeshIPs n)) = mset (map addr_string (nd_MeshIPs m)) \<and>
      mset (nd_AllowedIPs n) = mset (nd_AllowedIPs m)) \<and>
    (capabilityCanonical n = capabilityCanonical m \<longleftrightarrow>
      nd_ID n = nd_ID m \<and> nd_Key n = nd_Key m \<and> nd_Capabilities n = nd_Capabilities m)"
proof -
  have "routeCanonical n = routeCanonical m \<longleftrightarrow>
      nd_ID n = nd_ID m \<and> nd_User n = nd_User m \<and> nd_Name n = nd_Name m \<and> nd_Key n = nd_Key m \<and> nd_Role n = nd_Role m \<and>
      sortedStrings (nd_Tags n) = sortedStrings (nd_Tags m) \<and> sortedAddrs (nd_MeshIPs n) = sortedAddrs (nd_MeshIPs m) \<and>
      sortedStrings (nd_AllowedIPs n) = sortedStrings (nd_AllowedIPs m)"
    using routeCanonical_eq[OF _ assms] by (auto simp: routeCanonical_def)
  moreover have "capabilityCanonical n = capabilityCanonical m \<longleftrightarrow>
      nd_ID n = nd_ID m \<and> nd_Key n = nd_Key m \<and> nd_Capabilities n = nd_Capabilities m"
    using capabilityCanonical_eq[OF _ assms] by (auto simp: capabilityCanonical_def)
  ultimately show ?thesis by (simp add: sortedStrings_eq_iff sortedAddrs_eq_iff)
qed

definition sample_node :: Node where
  "sample_node = \<lparr> nd_ID = ''n1'', nd_Name = ''laptop'', nd_User = ''ann'', nd_Platform = [], nd_LocationRegion = [], nd_LocationSource = [],
     nd_RemoteAccessAllowed = False, nd_RemoteServices = [], nd_Key = replicate 32 1, nd_PQKEMPublicKey = [], nd_PQSigningPublicKey = [],
     nd_MeshIPs = [V4 0x64400001], nd_Endpoints = [], nd_DiscoEndpoints = [], nd_AllowedIPs = [''100.64.0.1/32''], nd_Role = ''plain'',
     nd_Capabilities = \<lparr> ncap_Exit = False, ncap_Relay = False \<rparr>, nd_Tags = [''tag:laptop''], nd_Online = True, nd_LastSeen = 0,
     nd_SelectedExitID = [], nd_ActiveExitID = [], nd_Sig = [], nd_RouteSig = [], nd_CapabilitySig = [], nd_PQSig = [],
     nd_PQRouteSig = [], nd_PQCapabilitySig = [] \<rparr>"

lemma sample_node_small: "small_node sample_node" "small_node (sample_node\<lparr> nd_AllowedIPs := [''0.0.0.0/0''] \<rparr>)"
  by code_simp+

theorem route_credential_binds_witness:
  "routeCanonical sample_node \<noteq> routeCanonical (sample_node\<lparr> nd_AllowedIPs := [''0.0.0.0/0''] \<rparr>)"
  using route_credential_binds[OF sample_node_small] by (simp add: sample_node_def)

text \<open>The older identity transcript separates its fields by a zero byte only.\<close>

lemma canonical_ambiguous:
  "canonical (sample_node\<lparr> nd_User := ''a'', nd_Name := [CHR ''b'', CHR 0x00, CHR ''c''] \<rparr>) =
   canonical (sample_node\<lparr> nd_User := [CHR ''a'', CHR 0x00, CHR ''b''], nd_Name := ''c'' \<rparr>)"
  by code_simp

end
