(* ===== verification/DN_Zone.thy ===== *)
theory DN_Zone
  imports SG_Sign
begin

text \<open>
  MagicDNS names, \<open>internal/dns/zone.go\<close>: the labels of devices and users, the zone rebuilt from a netmap
  and its lookups. \<open>strings.ToLower\<close> and SHA-256 are parameters.
\<close>

definition DefaultSuffix :: string where "DefaultSuffix = ''ratelmesh.net''"

record Zone =
  zn_suffix :: string
  zn_a :: "(string, addr) gomap"
  zn_aaaa :: "(string, addr) gomap"

definition NewZone :: "(string \<Rightarrow> string) \<Rightarrow> string \<Rightarrow> Zone" where
  "NewZone lower suffix =
     (let suffix = (if suffix = [] then DefaultSuffix else suffix) in \<lparr> zn_suffix = lower suffix, zn_a = [], zn_aaaa = [] \<rparr>)"

definition Suffix :: "Zone \<Rightarrow> string" where "Suffix z = zn_suffix z"

text \<open>One rune of the label: letters and digits stay, separators become hyphens, the rest goes.\<close>

definition label_rune :: "nat \<Rightarrow> string" where
  "label_rune r = (if 97 \<le> r \<and> r \<le> 122 \<or> 48 \<le> r \<and> r \<le> 57 then [char_of r]
     else if r = 32 \<or> r = 95 \<or> r = 45 \<or> r = 46 then ''-'' else [])"

definition sanitizeLabel :: "crypto \<Rightarrow> (string \<Rightarrow> string) \<Rightarrow> string \<Rightarrow> string" where
  "sanitizeLabel C lower s0 =
     (let s = lower (trim_space s0);
          out = trim_both (concat (map label_rune (runes s))) ''-'';
          out = (if out = [] then ''device'' else out) in
      if length out > 63 then
        let suffix = hex_encode (take 6 (sha256 C (str_bytes s)));
            stem = trim_right (take (63 - 1 - length suffix) out) ''-'';
            stem = (if stem = [] then ''device'' else stem) in
        stem @ ''-'' @ suffix
      else out)"

definition FQDN :: "crypto \<Rightarrow> (string \<Rightarrow> string) \<Rightarrow> Zone \<Rightarrow> string \<Rightarrow> string \<Rightarrow> string" where
  "FQDN C lower z device user = sanitizeLabel C lower device @ ''.'' @ sanitizeLabel C lower user @ ''.'' @ zn_suffix z @ ''.''"

definition add_ip :: "string \<Rightarrow> addr \<Rightarrow> (string, addr) gomap \<times> (string, addr) gomap \<Rightarrow> (string, addr) gomap \<times> (string, addr) gomap" where
  "add_ip name ip m = (if is4 ip then (AList.update name ip (fst m), snd m)
     else if is6 ip then (fst m, AList.update name ip (snd m)) else m)"

definition add_node :: "crypto \<Rightarrow> (string \<Rightarrow> string) \<Rightarrow> Zone \<Rightarrow> Node \<Rightarrow> (string, addr) gomap \<times> (string, addr) gomap \<Rightarrow>
    (string, addr) gomap \<times> (string, addr) gomap" where
  "add_node C lower z n m = fold (add_ip (FQDN C lower z (nd_Name n) (nd_User n))) (nd_MeshIPs n) m"

definition Rebuild :: "crypto \<Rightarrow> (string \<Rightarrow> string) \<Rightarrow> Node \<Rightarrow> Node list \<Rightarrow> Zone \<Rightarrow> Zone" where
  "Rebuild C lower self peers z =
     (case fold (add_node C lower z) (self # peers) ([], []) of (na, naaaa) \<Rightarrow> z\<lparr> zn_a := na, zn_aaaa := naaaa \<rparr>)"

definition normalizeName :: "(string \<Rightarrow> string) \<Rightarrow> string \<Rightarrow> string" where
  "normalizeName lower name = (let name = lower (trim_space name) in if \<not> has_suffix name ''.'' then name @ ''.'' else name)"

definition LookupA :: "(string \<Rightarrow> string) \<Rightarrow> Zone \<Rightarrow> string \<Rightarrow> addr option" where
  "LookupA lower z name = map_of (zn_a z) (normalizeName lower name)"

definition LookupAAAA :: "(string \<Rightarrow> string) \<Rightarrow> Zone \<Rightarrow> string \<Rightarrow> addr option" where
  "LookupAAAA lower z name = map_of (zn_aaaa z) (normalizeName lower name)"

definition Has :: "(string \<Rightarrow> string) \<Rightarrow> Zone \<Rightarrow> string \<Rightarrow> bool" where
  "Has lower z name \<longleftrightarrow> map_has (zn_a z) (normalizeName lower name) \<or> map_has (zn_aaaa z) (normalizeName lower name)"

definition InZone :: "(string \<Rightarrow> string) \<Rightarrow> Zone \<Rightarrow> string \<Rightarrow> bool" where
  "InZone lower z name \<longleftrightarrow> (let n = trim_suffix (normalizeName lower name) ''.'' in n = zn_suffix z \<or> has_suffix n (''.'' @ zn_suffix z))"

section \<open>Labels\<close>

definition label_char :: "char \<Rightarrow> bool" where
  "label_char c \<longleftrightarrow> 97 \<le> code c \<and> code c \<le> 122 \<or> 48 \<le> code c \<and> code c \<le> 57 \<or> c = CHR ''-''"

text \<open>A DNS label: 1 to 63 letters, digits and hyphens, no hyphen at either end.\<close>

definition dns_label :: "string \<Rightarrow> bool" where
  "dns_label s \<longleftrightarrow> 0 < length s \<and> length s \<le> 63 \<and> list_all label_char s \<and> hd s \<noteq> CHR ''-'' \<and> last s \<noteq> CHR ''-''"

lemma label_rune_chars: "list_all label_char (label_rune r)"
  by (auto simp: label_rune_def label_char_def)

lemma lower_hex_label: "is_lower_hex_char c \<Longrightarrow> label_char c \<and> c \<noteq> CHR ''-''"
  by (auto simp: is_lower_hex_char_def label_char_def)

lemma trim_right_split: "\<exists>t. s = trim_right s cs @ t"
  unfolding trim_right_def by (rule exI[of _ "rev (takeWhile (\<lambda>c. c \<in> set cs) (rev s))"]) (simp flip: rev_append)

lemma trim_right_last: "trim_right s cs \<noteq> [] \<Longrightarrow> last (trim_right s cs) \<notin> set cs"
  using hd_dropWhile[of "\<lambda>c. c \<in> set cs" "rev s"] by (simp add: trim_right_def last_rev)

lemma trim_right_hd: "trim_right s cs \<noteq> [] \<Longrightarrow> hd (trim_right s cs) = hd s"
  using trim_right_split[of s cs] by (metis hd_append2)

lemma trim_right_nonempty: "s \<noteq> [] \<Longrightarrow> hd s \<notin> set cs \<Longrightarrow> trim_right s cs \<noteq> []"
  unfolding trim_right_def by (auto simp: dropWhile_eq_Nil_conv)

lemma trim_right_all: "list_all P s \<Longrightarrow> list_all P (trim_right s cs)"
  using trim_right_split[of s cs] by (metis list_all_append)

lemma trim_both_facts:
  assumes "list_all P s" "trim_both s cs \<noteq> []"
  shows "list_all P (trim_both s cs)" "hd (trim_both s cs) \<notin> set cs" "last (trim_both s cs) \<notin> set cs"
proof -
  have d: "list_all P (dropWhile (\<lambda>c. c \<in> set cs) s)" using assms(1) by (auto simp: list_all_iff dest: set_dropWhileD)
  show "list_all P (trim_both s cs)" unfolding trim_both_def by (rule trim_right_all[OF d])
  show "last (trim_both s cs) \<notin> set cs" using assms(2) unfolding trim_both_def by (rule trim_right_last)
  have n: "dropWhile (\<lambda>c. c \<in> set cs) s \<noteq> []" using assms(2) by (intro notI) (simp add: trim_both_def trim_right_def)
  have "hd (trim_both s cs) = hd (dropWhile (\<lambda>c. c \<in> set cs) s)"
    using assms(2) unfolding trim_both_def by (rule trim_right_hd)
  then show "hd (trim_both s cs) \<notin> set cs" using hd_dropWhile[OF n] by simp
qed

lemma shortened_label:
  assumes "list_all label_char out" "out \<noteq> []" "hd out \<noteq> CHR ''-''" "list_all is_lower_hex_char h" "length h = 12"
  shows "dns_label (trim_right (take 50 out) ''-'' @ ''-'' @ h)"
proof -
  define stem where "stem = trim_right (take 50 out) ''-''"
  have t: "take 50 out \<noteq> []" "hd (take 50 out) = hd out" using assms(2) by (auto simp: hd_take)
  have stem: "stem \<noteq> []" unfolding stem_def by (rule trim_right_nonempty) (use t assms(3) in auto)
  then have "hd stem = hd out" using trim_right_hd[of "take 50 out" "''-''"] t(2) by (simp add: stem_def)
  moreover have "list_all label_char stem" unfolding stem_def
    by (rule trim_right_all) (use assms(1) in \<open>auto simp: list_all_iff dest: in_set_takeD\<close>)
  moreover have "length stem \<le> 50"
  proof -
    obtain r where "take 50 out = stem @ r" using trim_right_split[of "take 50 out" "''-''"] by (auto simp: stem_def)
    then have "length stem + length r \<le> 50" by (metis length_append length_take min.cobounded2)
    then show ?thesis by simp
  qed
  moreover have "h \<noteq> []" using assms(5) by auto
  moreover have "list_all label_char h" using assms(4) lower_hex_label by (auto simp: list_all_iff)
  moreover have "last h \<noteq> CHR ''-''" using assms(4) lower_hex_label \<open>h \<noteq> []\<close> by (auto simp: list_all_iff)
  moreover have "label_char CHR ''-''" by (simp add: label_char_def)
  ultimately show ?thesis using stem assms(3,5) by (simp add: dns_label_def flip: stem_def)
qed

text \<open>Whatever a device or user is called, its label is a DNS label.\<close>

lemma sanitizeLabel_dns_label:
  assumes "hash_sizes C"
  shows "dns_label (sanitizeLabel C lower s)"
proof -
  define l where "l = lower (trim_space s)"
  define raw where "raw = concat (map label_rune (runes l))"
  define out where "out = (if trim_both raw ''-'' = [] then ''device'' else trim_both raw ''-'')"
  have "list_all label_char raw" using label_rune_chars by (auto simp: raw_def list_all_iff)
  note t = trim_both_facts[OF this, of "''-''"]
  have out: "list_all label_char out" "out \<noteq> []" "hd out \<noteq> CHR ''-''" "last out \<noteq> CHR ''-''"
    using t by (auto simp: out_def label_char_def)
  define h where "h = hex_encode (take 6 (sha256 C (str_bytes l)))"
  have h: "length h = 12" "list_all is_lower_hex_char h"
    using hash_sizesD(1)[OF assms, of "str_bytes l"] by (simp_all add: h_def hex_encode_lower)
  have eq: "sanitizeLabel C lower s = (if length out > 63 then
      (let stem = trim_right (take 50 out) ''-'' in if stem = [] then ''device'' else stem) @ ''-'' @ h else out)"
    using h(1) by (simp add: sanitizeLabel_def Let_def out_def h_def raw_def l_def)
  show ?thesis
  proof (cases "length out > 63")
    case True
    have "dns_label (trim_right (take 50 out) ''-'' @ ''-'' @ h)" by (rule shortened_label[OF out(1,2,3) h(2,1)])
    moreover have "trim_right (take 50 out) ''-'' \<noteq> []"
      by (rule trim_right_nonempty) (use out(2,3) in \<open>auto simp: hd_take\<close>)
    ultimately show ?thesis using True by (simp add: eq)
  next
    case False
    then show ?thesis using out by (simp add: eq dns_label_def)
  qed
qed

section \<open>Answers\<close>

lemma add_ip_lookup:
  "map_of (fst (add_ip name ip m)) k = (if k = name \<and> is4 ip then Some ip else map_of (fst m) k)"
  by (auto simp: add_ip_def update_conv')

lemma add_ips_lookup:
  "map_of (fst (fold (add_ip name) ips m)) k =
     (if k = name \<and> (\<exists>ip\<in>set ips. is4 ip) then Some (last (filter is4 ips)) else map_of (fst m) k)"
  by (induction ips arbitrary: m) (auto simp: add_ip_lookup filter_empty_conv)

text \<open>Every answer is an address of a node with that name, and every node's name is answered.\<close>

definition named :: "crypto \<Rightarrow> (string \<Rightarrow> string) \<Rightarrow> Zone \<Rightarrow> Node list \<Rightarrow> string \<Rightarrow> addr set" where
  "named C lower z ns k = {ip. \<exists>n\<in>set ns. k = FQDN C lower z (nd_Name n) (nd_User n) \<and> ip \<in> set (nd_MeshIPs n) \<and> is4 ip}"

lemma add_nodes_lookup:
  "case map_of (fst (fold (add_node C lower z) ns m)) k of
     Some ip \<Rightarrow> ip \<in> named C lower z ns k \<or> named C lower z ns k = {} \<and> map_of (fst m) k = Some ip
   | None \<Rightarrow> named C lower z ns k = {} \<and> map_of (fst m) k = None"
proof (induction ns arbitrary: m)
  case Nil
  then show ?case by (simp add: named_def split: option.splits)
next
  case (Cons n ns)
  have one: "map_of (fst (add_node C lower z n m)) k = (if named C lower z [n] k \<noteq> {} then
      Some (last (filter is4 (nd_MeshIPs n))) else map_of (fst m) k)"
    by (auto simp: add_node_def add_ips_lookup named_def)
  have l: "last (filter is4 (nd_MeshIPs n)) \<in> named C lower z [n] k" if "named C lower z [n] k \<noteq> {}"
  proof -
    have "filter is4 (nd_MeshIPs n) \<noteq> []" using that by (auto simp: named_def filter_empty_conv)
    from last_in_set[OF this] that show ?thesis by (auto simp: named_def)
  qed
  have u: "named C lower z (n # ns) k = named C lower z [n] k \<union> named C lower z ns k" by (auto simp: named_def)
  show ?case using Cons.IH[of "add_node C lower z n m"] l unfolding fold_Cons comp_apply u one
    by (auto split: option.splits if_splits)
qed

lemma LookupA_Rebuild:
  "case LookupA lower (Rebuild C lower self peers z) name of
     Some ip \<Rightarrow> ip \<in> named C lower z (self # peers) (normalizeName lower name)
   | None \<Rightarrow> named C lower z (self # peers) (normalizeName lower name) = {}"
  using add_nodes_lookup[where C = C and lower = lower and z = z and ns = "self # peers" and m = "([], [])" and k = "normalizeName lower name"]
  by (cases "fold (add_node C lower z) (self # peers) ([], [])") (auto simp: LookupA_def Rebuild_def split: option.splits)

text \<open>Device names that differ only in separators share a name, and the last node of the netmap gets it.\<close>

lemma colliding_names:
  "LookupA to_lower (Rebuild sample_crypto to_lower (sample_node\<lparr> nd_Name := ''lap top'' \<rparr>)
      [sample_node\<lparr> nd_Name := ''lap-top'', nd_MeshIPs := [V4 0x64400002] \<rparr>] (NewZone to_lower []))
     ''lap-top.ann.ratelmesh.net'' = Some (V4 0x64400002)"
  by code_simp

end
