(* ===== verification/RA_Policy.thy ===== *)
theory RA_Policy
  imports RA_Models Crypto
begin

text \<open>
  Remote access, signed policy state: \<open>internal/remoteaccess/policy.go\<close> and the verifiers of
  \<open>crypto.go\<close>. A policy floor store keeps, per tenant, the newest policy state accepted. Its contract
  is the locale \<open>policy_floor_store\<close>; the memory store and the file store are shown to meet it, the
  file store for every pattern of failing file calls.

  \<open>encoding/json\<close> is a parameter, a record of what marshalling and strict decoding give for each
  signed type; a failing decode and trailing input are the same outcome. The content of the store's
  file is represented by what decoding it gives, with its size.
\<close>

section \<open>Signatures and JSON\<close>

type_synonym signer = "bytes \<Rightarrow> bytes option"
type_synonym verifier = "bytes \<Rightarrow> bytes \<Rightarrow> bool"

definition Ed25519Signer :: "crypto \<Rightarrow> bytes \<Rightarrow> signer" where
  "Ed25519Signer C key data = (if length key \<noteq> 64 then None else Some (ed_sign C key data))"

definition Ed25519Verifier :: "crypto \<Rightarrow> bytes \<Rightarrow> verifier" where
  "Ed25519Verifier C key data sig = (if length key \<noteq> 32 then False else ed_verify C key data sig)"

record PolicyState =
  ps_TenantID :: string
  ps_Version :: u64
  ps_Enabled :: bool
  ps_IssuedAt :: time

record TargetState =
  ts_TenantID :: string
  ts_PolicyVersion :: u64
  ts_PolicyDigest :: string
  ts_TargetNodeID :: string
  ts_Enabled :: bool
  ts_IssuedAt :: time

record ra_json =
  js_grant :: "Grant \<Rightarrow> bytes option"
  rd_grant :: "bytes \<Rightarrow> Grant option"
  js_policy :: "PolicyState \<Rightarrow> bytes option"
  rd_policy :: "bytes \<Rightarrow> PolicyState option"
  js_target :: "TargetState \<Rightarrow> bytes option"
  rd_target :: "bytes \<Rightarrow> TargetState option"

text \<open>A payload with its detached signature: \<open>SignedPolicyState\<close> and \<open>SignedTargetState\<close>.\<close>

record signed_payload =
  sp_Payload :: bytes
  sp_Signature :: bytes

record VerifiedPolicyState =
  vp_State :: PolicyState
  vp_Digest :: string
  vp_ObservedAt :: time

abbreviation vp_TenantID :: "VerifiedPolicyState \<Rightarrow> string" where "vp_TenantID v \<equiv> ps_TenantID (vp_State v)"
abbreviation vp_Version :: "VerifiedPolicyState \<Rightarrow> u64" where "vp_Version v \<equiv> ps_Version (vp_State v)"
abbreviation vp_Enabled :: "VerifiedPolicyState \<Rightarrow> bool" where "vp_Enabled v \<equiv> ps_Enabled (vp_State v)"
abbreviation vp_IssuedAt :: "VerifiedPolicyState \<Rightarrow> time" where "vp_IssuedAt v \<equiv> ps_IssuedAt (vp_State v)"

definition MaxPolicyPayloadSize :: nat where "MaxPolicyPayloadSize = 4096"
definition MaxPolicyStoreSize :: nat where "MaxPolicyStoreSize = 65536"
definition MaxPolicyTenants :: nat where "MaxPolicyTenants = 256"
definition MaxSignatureSize :: nat where "MaxSignatureSize = 1024"

definition policySignatureDomain :: bytes where
  "policySignatureDomain = str_bytes ''RatelMesh-Remote-Access-Policy-v1'' @ [0]"

definition policySigningMessage :: "bytes \<Rightarrow> bytes" where
  "policySigningMessage payload = policySignatureDomain @ payload"

definition PolicyPayloadDigest :: "crypto \<Rightarrow> signed_payload \<Rightarrow> ra_error + string" where
  "PolicyPayloadDigest C msg =
     (if length (sp_Payload msg) = 0 \<or> MaxPolicyPayloadSize < length (sp_Payload msg)
      then Inl ErrPayloadTooLarge else Inr (hex_encode (sha256 C (sp_Payload msg))))"

definition validatePolicyState :: "PolicyState \<Rightarrow> ra_error option" where
  "validatePolicyState s =
     (if bad_id (ps_TenantID s) \<or> ps_Version s = 0 \<or> is_zero_time (ps_IssuedAt s)
      then Some ErrInvalidPolicyState else None)"

definition SignPolicyState :: "ra_json \<Rightarrow> PolicyState \<Rightarrow> signer option \<Rightarrow> ra_error + signed_payload" where
  "SignPolicyState J s signer =
    (case signer of None \<Rightarrow> Inl ErrNilPointer | Some sign \<Rightarrow>
     check_r (validatePolicyState s) (
     or_fail ErrJSON (js_policy J s) (\<lambda>payload.
     or_fail ErrSignerFailed (sign (policySigningMessage payload)) (\<lambda>sig.
     Inr \<lparr> sp_Payload = payload, sp_Signature = sig \<rparr>))))"

definition VerifyPolicyState ::
  "crypto \<Rightarrow> ra_json \<Rightarrow> signed_payload \<Rightarrow> verifier option \<Rightarrow> string \<Rightarrow> time \<Rightarrow> ra_error + VerifiedPolicyState" where
  "VerifyPolicyState C J msg verifier tenantID now =
    (case verifier of None \<Rightarrow> Inl ErrInvalidVerificationContext | Some verify \<Rightarrow>
     if tenantID = [] \<or> is_zero_time now then Inl ErrInvalidVerificationContext
     else if length (sp_Payload msg) = 0 \<or> MaxPolicyPayloadSize < length (sp_Payload msg) then Inl ErrPayloadTooLarge
     else if length (sp_Signature msg) = 0 \<or> MaxSignatureSize < length (sp_Signature msg) then Inl ErrInvalidSignature
     else if \<not> verify (policySigningMessage (sp_Payload msg)) (sp_Signature msg) then Inl ErrInvalidSignature else
     or_fail ErrInvalidPolicyState (rd_policy J (sp_Payload msg)) (\<lambda>s.
     check_r (validatePolicyState s) (
     if ps_TenantID s \<noteq> tenantID \<or> now + 5 * minute < ps_IssuedAt s then Inl ErrBindingMismatch else
     bind_r (PolicyPayloadDigest C msg) (\<lambda>digest.
     Inr \<lparr> vp_State = s, vp_Digest = digest, vp_ObservedAt = now \<rparr>))))"

section \<open>Advancing a floor\<close>

definition isCanonicalPolicyDigest :: "string \<Rightarrow> bool" where
  "isCanonicalPolicyDigest digest \<longleftrightarrow> length digest = 64 \<and>
     (case hex_decode digest of None \<Rightarrow> False | Some d \<Rightarrow> length d = 32 \<and> hex_encode d = digest)"

definition checkPolicyAdvance :: "VerifiedPolicyState option \<Rightarrow> VerifiedPolicyState \<Rightarrow> ra_error option" where
  "checkPolicyAdvance current v =
     (if validatePolicyState (vp_State v) \<noteq> None \<or> \<not> isCanonicalPolicyDigest (vp_Digest v)
      then Some ErrInvalidPolicyState
      else case current of None \<Rightarrow> None | Some c \<Rightarrow>
        if vp_Version v < vp_Version c then Some ErrPolicyRollback
        else if vp_Version v = vp_Version c \<and> \<not> is_zero_time (vp_ObservedAt c) \<and>
             (is_zero_time (vp_ObservedAt v) \<or> vp_ObservedAt v < vp_ObservedAt c)
        then Some ErrPolicyRollback
        else if vp_Version v = vp_Version c \<and>
             (vp_Digest v \<noteq> vp_Digest c \<or> vp_Enabled v \<noteq> vp_Enabled c \<or> vp_IssuedAt v \<noteq> vp_IssuedAt c)
        then Some ErrPolicyConflict
        else None)"

definition samePolicyState :: "VerifiedPolicyState \<Rightarrow> VerifiedPolicyState \<Rightarrow> bool" where
  "samePolicyState c v \<longleftrightarrow> vp_TenantID c = vp_TenantID v \<and> vp_Version c = vp_Version v \<and>
     vp_Digest c = vp_Digest v \<and> vp_Enabled c = vp_Enabled v \<and> vp_IssuedAt c = vp_IssuedAt v \<and>
     vp_ObservedAt c = vp_ObservedAt v"

lemma samePolicyState_eq: "samePolicyState c v \<longleftrightarrow> c = v"
  by (cases c; cases v; cases "vp_State c"; cases "vp_State v") (auto simp: samePolicyState_def)

definition ObservePolicyAt ::
  "VerifiedPolicyState \<Rightarrow> VerifiedPolicyState option \<Rightarrow> time \<Rightarrow> ra_error + VerifiedPolicyState" where
  "ObservePolicyAt v current now =
     (if is_zero_time now then Inl ErrInvalidVerificationContext
      else case current of
        None \<Rightarrow> Inr (v\<lparr>vp_ObservedAt := now\<rparr>)
      | Some c \<Rightarrow> if vp_Version c < vp_Version v then Inr (v\<lparr>vp_ObservedAt := now\<rparr>) else Inr v)"

text \<open>
  The order in which a floor can move: to a newer version, or within one version to a later
  observation of the same signed state.
\<close>

definition floor_le :: "VerifiedPolicyState option \<Rightarrow> VerifiedPolicyState option \<Rightarrow> bool" where
  "floor_le a b \<longleftrightarrow> (case a of None \<Rightarrow> True | Some c \<Rightarrow> (case b of None \<Rightarrow> False | Some v \<Rightarrow>
     vp_Version c < vp_Version v \<or>
     vp_Version c = vp_Version v \<and> vp_Digest c = vp_Digest v \<and> vp_Enabled c = vp_Enabled v \<and>
     vp_IssuedAt c = vp_IssuedAt v \<and>
     (is_zero_time (vp_ObservedAt c) \<or> \<not> is_zero_time (vp_ObservedAt v) \<and> vp_ObservedAt c \<le> vp_ObservedAt v)))"

lemma floor_le_refl [simp]: "floor_le a a"
  by (auto simp: floor_le_def split: option.split)

lemma floor_le_trans: "floor_le a b \<Longrightarrow> floor_le b c \<Longrightarrow> floor_le a c"
  by (auto simp: floor_le_def split: option.splits)

lemma check_floor_le: "checkPolicyAdvance c v = None \<Longrightarrow> floor_le c (Some v)"
  by (auto simp: checkPolicyAdvance_def floor_le_def split: option.splits if_splits)

section \<open>The contract of a floor store\<close>

locale policy_floor_store =
  fixes load :: "string \<Rightarrow> 's \<Rightarrow> (ra_error + VerifiedPolicyState option) \<times> 's"
    and advance :: "VerifiedPolicyState \<Rightarrow> 's \<Rightarrow> ra_error option \<times> 's"
    and floors :: "'s \<Rightarrow> string \<Rightarrow> VerifiedPolicyState option"
  assumes load_value: "load t s = (Inr r, s') \<Longrightarrow> r = floors s t"
    and load_keeps: "load t s = (x, s') \<Longrightarrow> floors s' = floors s"
    and advance_ok: "advance v s = (None, s') \<Longrightarrow>
      checkPolicyAdvance (floors s (vp_TenantID v)) v = None \<and> floors s' = (floors s)(vp_TenantID v \<mapsto> v)"
    and advance_fail: "advance v s = (Some e, s') \<Longrightarrow> floors s' = floors s \<or>
      checkPolicyAdvance (floors s (vp_TenantID v)) v = None \<and> floors s' = (floors s)(vp_TenantID v \<mapsto> v)"

text \<open>A run of calls on a store, whatever they return.\<close>

datatype store_call = Load string | Advance VerifiedPolicyState

fun run_store ::
  "(string \<Rightarrow> 's \<Rightarrow> (ra_error + VerifiedPolicyState option) \<times> 's) \<Rightarrow>
   (VerifiedPolicyState \<Rightarrow> 's \<Rightarrow> ra_error option \<times> 's) \<Rightarrow> store_call list \<Rightarrow> 's \<Rightarrow> 's" where
  "run_store load advance [] s = s"
| "run_store load advance (Load t # cs) s = run_store load advance cs (snd (load t s))"
| "run_store load advance (Advance v # cs) s = run_store load advance cs (snd (advance v s))"

text \<open>\<open>PolicyTimeFloor\<close>: the wall clock, but never before the last persisted observation.\<close>

definition PolicyTimeFloor ::
  "(string \<Rightarrow> 's \<Rightarrow> (ra_error + VerifiedPolicyState option) \<times> 's) \<Rightarrow> string \<Rightarrow> time \<Rightarrow> 's \<Rightarrow> (ra_error + time) \<times> 's" where
  "PolicyTimeFloor load tenantID now s =
     (if tenantID = [] \<or> is_zero_time now then (Inl ErrInvalidVerificationContext, s)
      else case load tenantID s of
        (Inl e, s) \<Rightarrow> (Inl e, s)
      | (Inr None, s) \<Rightarrow> (Inr now, s)
      | (Inr (Some c), s) \<Rightarrow> (Inr (if now < vp_ObservedAt c then vp_ObservedAt c else now), s))"

context policy_floor_store
begin

lemma advance_step: "advance v s = (x, s') \<Longrightarrow> floor_le (floors s t) (floors s' t)"
  using advance_ok[of v s s'] advance_fail[of v s _ s'] check_floor_le
  by (cases x) (auto simp: fun_upd_def)

lemma run_mono: "floor_le (floors s t) (floors (run_store load advance cs s) t)"
proof (induction cs arbitrary: s)
  case (Cons c cs)
  have "floor_le (floors s t) (floors (run_store load advance [c] s) t)"
  proof (cases c)
    case (Load u)
    then show ?thesis using load_keeps[of u s "fst (load u s)" "snd (load u s)"] by simp
  next
    case (Advance v)
    then show ?thesis using advance_step[of v s "fst (advance v s)" "snd (advance v s)"] by simp
  qed
  then show ?case using floor_le_trans Cons.IH by (cases c) auto
qed simp

lemma time_floor:
  assumes "PolicyTimeFloor load t now s = (Inr n, s')"
  shows "now \<le> n \<and> (\<forall>c. floors s t = Some c \<longrightarrow> vp_ObservedAt c \<le> n) \<and> floors s' = floors s \<and> t \<noteq> [] \<and> \<not> is_zero_time now"
  using assms load_value load_keeps
  by (fastforce simp: PolicyTimeFloor_def split: if_splits prod.splits sum.splits option.splits)

end

section \<open>The memory store\<close>

record MemoryPolicyFloorStore =
  ms_records :: "(string, VerifiedPolicyState) gomap"

definition NewMemoryPolicyFloorStore :: MemoryPolicyFloorStore where
  "NewMemoryPolicyFloorStore = \<lparr> ms_records = [] \<rparr>"

definition memory_load :: "string \<Rightarrow> MemoryPolicyFloorStore \<Rightarrow> (ra_error + VerifiedPolicyState option) \<times> MemoryPolicyFloorStore" where
  "memory_load tenantID s = (Inr (map_of (ms_records s) tenantID), s)"

definition memory_advance :: "VerifiedPolicyState \<Rightarrow> MemoryPolicyFloorStore \<Rightarrow> ra_error option \<times> MemoryPolicyFloorStore" where
  "memory_advance v s =
     (let current = map_of (ms_records s) (vp_TenantID v) in
      case checkPolicyAdvance current v of Some e \<Rightarrow> (Some e, s) | None \<Rightarrow>
      if current = None \<and> MaxPolicyTenants \<le> length (ms_records s) then (Some ErrTooManyPolicyTenants, s)
      else if (case current of None \<Rightarrow> False | Some c \<Rightarrow> samePolicyState c v) then (None, s)
      else (None, s\<lparr>ms_records := AList.update (vp_TenantID v) v (ms_records s)\<rparr>))"

interpretation memory_store: policy_floor_store memory_load memory_advance "\<lambda>s. map_of (ms_records s)"
proof unfold_locales
  fix v s s' assume a: "memory_advance v s = (None, s')"
  show "checkPolicyAdvance (map_of (ms_records s) (vp_TenantID v)) v = None \<and>
      map_of (ms_records s') = (map_of (ms_records s))(vp_TenantID v \<mapsto> v)"
    using a by (auto simp: memory_advance_def Let_def samePolicyState_eq update_conv'
        split: option.splits if_splits)
next
  fix v s s' e assume "memory_advance v s = (Some e, s')"
  then show "map_of (ms_records s') = map_of (ms_records s) \<or>
      checkPolicyAdvance (map_of (ms_records s) (vp_TenantID v)) v = None \<and>
      map_of (ms_records s') = (map_of (ms_records s))(vp_TenantID v \<mapsto> v)"
    by (auto simp: memory_advance_def Let_def split: option.splits if_splits)
qed (auto simp: memory_load_def)

section \<open>The file store\<close>

text \<open>
  The store's file: whether it is regular and private, its size, and what decoding it gives.
  The directory handle is open or closed; every call on it may fail, as the next outcome says.
\<close>

type_synonym policyStoreDocument = "(string, VerifiedPolicyState) gomap"

record policy_file =
  pf_regular :: bool
  pf_private :: bool
  pf_size :: nat
  pf_doc :: "policyStoreDocument option"

record FilePolicyFloorStore =
  fs_closed :: bool
  fs_file :: "policy_file option"
  fs_faults :: "bool list"

type_synonym 'a fs_op = "FilePolicyFloorStore \<Rightarrow> (ra_error + 'a) \<times> FilePolicyFloorStore"

definition fs_ret :: "'a \<Rightarrow> 'a fs_op" where "fs_ret a s = (Inr a, s)"

definition fs_fail :: "ra_error \<Rightarrow> 'a fs_op" where "fs_fail e s = (Inl e, s)"

definition fs_bind :: "'a fs_op \<Rightarrow> ('a \<Rightarrow> 'b fs_op) \<Rightarrow> 'b fs_op" where
  "fs_bind m k s = (case m s of (Inl e, s') \<Rightarrow> (Inl e, s') | (Inr a, s') \<Rightarrow> k a s')"

text \<open>A call that may fail; the first outcome left says whether it does.\<close>

definition fs_call :: "ra_error \<Rightarrow> unit fs_op" where
  "fs_call e s = (case fs_faults s of [] \<Rightarrow> (Inr (), s)
     | b # bs \<Rightarrow> (if b then Inl e else Inr (), s\<lparr>fs_faults := bs\<rparr>))"

fun fs_calls :: "ra_error \<Rightarrow> nat \<Rightarrow> unit fs_op" where
  "fs_calls e 0 = fs_ret ()"
| "fs_calls e (Suc n) = fs_bind (fs_call e) (\<lambda>_. fs_calls e n)"

text \<open>Inspect, open, secure, stat, inspect again and lock the lock file.\<close>

definition acquireLockLocked :: "unit fs_op" where
  "acquireLockLocked s =
     (if fs_closed s then (Inl ErrPolicyLockUnavailable, s) else fs_calls ErrPolicyLockUnavailable 6 s)"

definition record_ok :: "string \<times> VerifiedPolicyState \<Rightarrow> bool" where
  "record_ok r = (case r of (tenant, v) \<Rightarrow> tenant = vp_TenantID v \<and> checkPolicyAdvance None v = None)"

definition check_document :: "policyStoreDocument option \<Rightarrow> ra_error + policyStoreDocument" where
  "check_document d =
     (case d of None \<Rightarrow> Inl ErrPolicyStoreCorrupt
      | Some doc \<Rightarrow> if MaxPolicyTenants < length doc then Inl ErrPolicyStoreCorrupt
          else if \<not> list_all record_ok doc then Inl ErrPolicyStoreCorrupt else Inr doc)"

definition readLocked :: "policyStoreDocument fs_op" where
  "readLocked =
     fs_bind (fs_call ErrPolicyStoreCorrupt) (\<lambda>_ s.
     case fs_file s of
       None \<Rightarrow> (Inr [], s)
     | Some f \<Rightarrow>
         if \<not> pf_regular f then (Inl ErrPolicyStoreCorrupt, s)
         else if \<not> pf_private f then (Inl ErrPolicyStoreMode, s)
         else if MaxPolicyStoreSize < pf_size f then (Inl ErrPolicyStoreCorrupt, s)
         else fs_bind (fs_calls ErrPolicyStoreCorrupt 3) (\<lambda>_ s. (check_document (pf_doc f), s)) s)"

definition marshalPolicyDocument :: "(policyStoreDocument \<Rightarrow> nat option) \<Rightarrow> policyStoreDocument \<Rightarrow> ra_error + nat" where
  "marshalPolicyDocument json_size doc =
     (if MaxPolicyTenants < length doc then Inl ErrTooManyPolicyTenants
      else case json_size doc of None \<Rightarrow> Inl ErrJSON
      | Some n \<Rightarrow> if MaxPolicyStoreSize < n then Inl ErrPolicyStoreCorrupt else Inr n)"

text \<open>
  Create, secure, write, sync and close a temporary file, rename it over the store, then open and
  sync the directory. A failure before the rename removes the temporary file again.
\<close>

definition writeLocked :: "(policyStoreDocument \<Rightarrow> nat option) \<Rightarrow> policyStoreDocument \<Rightarrow> unit fs_op" where
  "writeLocked json_size doc =
     fs_bind (fs_call ErrPolicyStoreMode) (\<lambda>_.
     case marshalPolicyDocument json_size doc of Inl e \<Rightarrow> fs_fail e | Inr n \<Rightarrow>
     fs_bind (fs_calls ErrPolicyStoreCorrupt 7) (\<lambda>_ s.
     fs_calls ErrPolicyStoreCorrupt 2
       (s\<lparr>fs_file := Some \<lparr> pf_regular = True, pf_private = True, pf_size = n, pf_doc = Some doc \<rparr>\<rparr>)))"

definition file_load :: "string \<Rightarrow> FilePolicyFloorStore \<Rightarrow> (ra_error + VerifiedPolicyState option) \<times> FilePolicyFloorStore" where
  "file_load tenantID =
     fs_bind acquireLockLocked (\<lambda>_. fs_bind readLocked (\<lambda>doc. fs_ret (map_of doc tenantID)))"

definition file_update :: "(policyStoreDocument \<Rightarrow> nat option) \<Rightarrow> VerifiedPolicyState \<Rightarrow> policyStoreDocument \<Rightarrow> unit fs_op" where
  "file_update json_size v doc =
     (let current = map_of doc (vp_TenantID v) in
      case checkPolicyAdvance current v of Some e \<Rightarrow> fs_fail e | None \<Rightarrow>
      if current = None \<and> MaxPolicyTenants \<le> length doc then fs_fail ErrTooManyPolicyTenants
      else if (case current of None \<Rightarrow> False | Some c \<Rightarrow> samePolicyState c v) then fs_ret ()
      else writeLocked json_size (AList.update (vp_TenantID v) v doc))"

definition file_advance ::
  "(policyStoreDocument \<Rightarrow> nat option) \<Rightarrow> VerifiedPolicyState \<Rightarrow> FilePolicyFloorStore \<Rightarrow> ra_error option \<times> FilePolicyFloorStore" where
  "file_advance json_size v s =
     (case fs_bind acquireLockLocked (\<lambda>_. fs_bind readLocked (file_update json_size v)) s of
        (Inl e, s) \<Rightarrow> (Some e, s) | (Inr _, s) \<Rightarrow> (None, s))"

definition file_Close :: "FilePolicyFloorStore \<Rightarrow> ra_error option \<times> FilePolicyFloorStore" where
  "file_Close s = (if fs_closed s then (Some ErrNilPointer, s) else (None, s\<lparr>fs_closed := True\<rparr>))"

text \<open>The records of a file that reading would accept.\<close>

definition stored_records :: "policy_file option \<Rightarrow> policyStoreDocument" where
  "stored_records f = (case f of None \<Rightarrow> [] | Some f \<Rightarrow>
     if pf_regular f \<and> pf_private f \<and> pf_size f \<le> MaxPolicyStoreSize
     then (case check_document (pf_doc f) of Inl _ \<Rightarrow> [] | Inr doc \<Rightarrow> doc) else [])"

text \<open>The memory store a file store stands for.\<close>

definition abs_store :: "FilePolicyFloorStore \<Rightarrow> MemoryPolicyFloorStore" where
  "abs_store s = \<lparr> ms_records = stored_records (fs_file s) \<rparr>"

definition file_floors :: "FilePolicyFloorStore \<Rightarrow> string \<Rightarrow> VerifiedPolicyState option" where
  "file_floors s = map_of (ms_records (abs_store s))"

lemma fs_bind_iff:
  "fs_bind m k s = (y, s') \<longleftrightarrow> (\<exists>e. m s = (Inl e, s') \<and> y = Inl e) \<or> (\<exists>a s1. m s = (Inr a, s1) \<and> k a s1 = (y, s'))"
  by (auto simp: fs_bind_def split: prod.splits sum.splits)

lemma fs_call_file: "fs_call e s = (x, s') \<Longrightarrow> fs_file s' = fs_file s"
  by (auto simp: fs_call_def split: list.splits)

lemma fs_calls_file: "fs_calls e n s = (x, s') \<Longrightarrow> fs_file s' = fs_file s"
  by (induction n arbitrary: s) (auto simp: fs_ret_def fs_bind_iff dest: fs_call_file)

lemma lock_file: "acquireLockLocked s = (x, s') \<Longrightarrow> fs_file s' = fs_file s"
  by (auto simp: acquireLockLocked_def simp del: fs_calls.simps split: if_splits dest: fs_calls_file)

lemma read_file:
  assumes r: "readLocked s = (x, s')"
  shows "fs_file s' = fs_file s \<and> (\<forall>doc. x = Inr doc \<longrightarrow> doc = stored_records (fs_file s))"
proof -
  obtain y s1 where c: "fs_call ErrPolicyStoreCorrupt s = (y, s1)" by fastforce
  note f1 = fs_call_file[OF c]
  show ?thesis
  proof (cases y)
    case (Inl e)
    then show ?thesis using r c f1 by (auto simp: readLocked_def fs_bind_def)
  next
    case (Inr u)
    show ?thesis
    proof (cases "fs_file s")
      case None
      then show ?thesis using r c f1 Inr by (auto simp: readLocked_def fs_bind_def stored_records_def)
    next
      case (Some f)
      obtain z s2 where c3: "fs_calls ErrPolicyStoreCorrupt 3 s1 = (z, s2)" by fastforce
      note f2 = fs_calls_file[OF c3]
      show ?thesis using r c f1 c3 f2 Inr Some
        by (cases z) (auto simp: readLocked_def fs_bind_def stored_records_def simp del: fs_calls.simps split: if_splits sum.splits)
    qed
  qed
qed

lemma stored_ok: "length (stored_records f) \<le> MaxPolicyTenants \<and> list_all record_ok (stored_records f)"
  by (auto simp: stored_records_def check_document_def split: option.splits if_splits sum.splits)

lemma update_ok:
  assumes "list_all record_ok doc" "checkPolicyAdvance None v = None"
  shows "list_all record_ok (AList.update (vp_TenantID v) v doc)"
  using assms by (induction doc) (auto simp: record_ok_def)

lemma check_advance_valid: "checkPolicyAdvance c v = None \<Longrightarrow> checkPolicyAdvance None v = None"
  by (auto simp: checkPolicyAdvance_def split: if_splits option.splits)

text \<open>A write replaces the file at once or leaves it, and what it writes can be read back.\<close>

lemma write_file:
  assumes w: "writeLocked sz doc s = (x, s')" and ok: "length doc \<le> MaxPolicyTenants" "list_all record_ok doc"
  shows "fs_file s' = fs_file s \<and> x \<noteq> Inr () \<or> stored_records (fs_file s') = doc"
proof -
  have rd: "stored_records (Some \<lparr> pf_regular = True, pf_private = True, pf_size = n, pf_doc = Some doc \<rparr>) = doc"
    if "n \<le> MaxPolicyStoreSize" for n
    using ok that by (simp add: stored_records_def check_document_def)
  have sz: "n \<le> MaxPolicyStoreSize" if "marshalPolicyDocument sz doc = Inr n" for n
    using that by (auto simp: marshalPolicyDocument_def split: if_splits option.splits)
  obtain y s1 where c: "fs_call ErrPolicyStoreMode s = (y, s1)" by fastforce
  note f1 = fs_call_file[OF c]
  show ?thesis
  proof (cases "isl y \<or> isl (marshalPolicyDocument sz doc)")
    case True
    then show ?thesis using w c f1 by (auto simp: writeLocked_def fs_bind_iff fs_fail_def isl_def)
  next
    case False
    then obtain n where y: "y = Inr ()" and m: "marshalPolicyDocument sz doc = Inr n" by (metis isl_def old.unit.exhaust sum.collapse(2))
    let ?f = "Some \<lparr> pf_regular = True, pf_private = True, pf_size = n, pf_doc = Some doc \<rparr>"
    obtain z s2 where c7: "fs_calls ErrPolicyStoreCorrupt 7 s1 = (z, s2)" by fastforce
    note f2 = fs_calls_file[OF c7]
    show ?thesis
    proof (cases z)
      case (Inl e)
      then show ?thesis using w c c7 y m f1 f2 by (auto simp add: writeLocked_def fs_bind_def simp del: fs_calls.simps)
    next
      case (Inr u)
      then have "fs_calls ErrPolicyStoreCorrupt 2 (s2\<lparr>fs_file := ?f\<rparr>) = (x, s')"
        using w c c7 y m by (simp add: writeLocked_def fs_bind_def del: fs_calls.simps)
      from fs_calls_file[OF this] show ?thesis using rd[OF sz[OF m]] by simp
    qed
  qed
qed

lemma update_file:
  assumes u: "file_update sz v doc s = (x, s')" and d: "doc = stored_records (fs_file s)"
  shows "fs_file s' = fs_file s \<and> isl x \<or> memory_advance v (abs_store s) = (None, abs_store s')"
proof (cases "checkPolicyAdvance (map_of doc (vp_TenantID v)) v = None \<and> \<not> (map_of doc (vp_TenantID v) = None \<and> MaxPolicyTenants \<le> length doc) \<and>
    map_of doc (vp_TenantID v) \<noteq> Some v")
  case True
  let ?d = "AList.update (vp_TenantID v) v doc"
  have w: "writeLocked sz ?d s = (x, s')" using u True
    by (auto simp: file_update_def Let_def samePolicyState_eq split: option.splits)
  have m: "memory_advance v (abs_store s) = (None, \<lparr> ms_records = ?d \<rparr>)" using True d
    by (auto simp: memory_advance_def abs_store_def Let_def samePolicyState_eq split: option.splits)
  have "length ?d \<le> MaxPolicyTenants" using True stored_ok[of "fs_file s"] d by (auto simp: length_update)
  moreover have "list_all record_ok ?d" using update_ok check_advance_valid stored_ok True d by metis
  ultimately have "fs_file s' = fs_file s \<and> x \<noteq> Inr () \<or> stored_records (fs_file s') = ?d" by (rule write_file[OF w])
  then show ?thesis using m by (cases x) (auto simp: abs_store_def)
next
  case False
  then show ?thesis using u d
    by (auto simp: file_update_def memory_advance_def abs_store_def Let_def samePolicyState_eq fs_fail_def fs_ret_def
        split: option.splits if_splits)
qed

lemma locked_read:
  assumes a: "fs_bind acquireLockLocked (\<lambda>_. fs_bind readLocked k) s = (y, s')"
  shows "fs_file s' = fs_file s \<and> isl y \<or>
    (\<exists>s2. fs_file s2 = fs_file s \<and> k (stored_records (fs_file s2)) s2 = (y, s'))"
proof -
  obtain l s1 where l: "acquireLockLocked s = (l, s1)" by fastforce
  obtain d s2 where r: "readLocked s1 = (d, s2)" by fastforce
  have f: "fs_file s1 = fs_file s" "fs_file s2 = fs_file s" "\<And>doc. d = Inr doc \<Longrightarrow> doc = stored_records (fs_file s2)"
    using lock_file[OF l] read_file[OF r] by auto
  show ?thesis using a l r f by (cases l; cases d) (auto simp: fs_bind_def)
qed

lemma advance_cases:
  assumes a: "file_advance sz v s = (x, s')"
  shows "abs_store s' = abs_store s \<and> x \<noteq> None \<or> memory_advance v (abs_store s) = (None, abs_store s')"
proof -
  obtain y where y: "fs_bind acquireLockLocked (\<lambda>_. fs_bind readLocked (file_update sz v)) s = (y, s')" and xy: "x = None \<longleftrightarrow> \<not> isl y"
    using a by (auto simp: file_advance_def split: prod.splits sum.splits)
  from locked_read[OF y] show ?thesis
  proof (elim disjE exE conjE)
    fix s2 assume f: "fs_file s2 = fs_file s" and u: "file_update sz v (stored_records (fs_file s2)) s2 = (y, s')"
    have "abs_store s2 = abs_store s" using f by (simp add: abs_store_def)
    then show ?thesis using update_file[OF u refl] f xy by (auto simp: abs_store_def)
  qed (use xy in \<open>auto simp: abs_store_def\<close>)
qed

lemma load_cases:
  assumes "file_load t s = (x, s')"
  shows "fs_file s' = fs_file s" "x = Inr r \<Longrightarrow> r = file_floors s t"
  using locked_read[OF assms[unfolded file_load_def]] by (auto simp: fs_ret_def file_floors_def abs_store_def isl_def)

interpretation file_store: policy_floor_store file_load "file_advance json_size" file_floors for json_size
proof unfold_locales
  fix t s r s' assume "file_load t s = (Inr r, s')"
  from load_cases(2)[OF this refl] show "r = file_floors s t" .
next
  fix t s x s' assume "file_load t s = (x, s')"
  from load_cases(1)[OF this] show "file_floors s' = file_floors s" by (simp add: file_floors_def abs_store_def)
next
  fix v s s' assume "file_advance json_size v s = (None, s')"
  from advance_cases[OF this] show "checkPolicyAdvance (file_floors s (vp_TenantID v)) v = None \<and>
      file_floors s' = (file_floors s)(vp_TenantID v \<mapsto> v)"
    unfolding file_floors_def using memory_store.advance_ok by blast
next
  fix v s s' e assume "file_advance json_size v s = (Some e, s')"
  from advance_cases[OF this] show "file_floors s' = file_floors s \<or>
      checkPolicyAdvance (file_floors s (vp_TenantID v)) v = None \<and> file_floors s' = (file_floors s)(vp_TenantID v \<mapsto> v)"
    unfolding file_floors_def using memory_store.advance_ok by fastforce
qed

text \<open>
  C26: the file store refines the memory store. Whatever file calls fail, a call of the file store that
  succeeds answers and changes the records as the memory store does, and a call that fails leaves
  the records as they were or has already done exactly what the memory store does (the file had
  been renamed when syncing the directory failed); it never leaves anything in between.
\<close>

theorem file_store_refines_memory:
  "(case file_load tenantID s of
      (Inl _, s') \<Rightarrow> abs_store s' = abs_store s
    | (Inr r, s') \<Rightarrow> memory_load tenantID (abs_store s) = (Inr r, abs_store s')) \<and>
   (case file_advance json_size v s of
      (None, s') \<Rightarrow> memory_advance v (abs_store s) = (None, abs_store s')
    | (Some _, s') \<Rightarrow> abs_store s' \<in> {abs_store s, snd (memory_advance v (abs_store s))})"
proof -
  obtain x s1 where l: "file_load tenantID s = (x, s1)" by fastforce
  obtain y s2 where a: "file_advance json_size v s = (y, s2)" by fastforce
  show ?thesis
    using load_cases[OF l] advance_cases[OF a] l a
    by (cases x; cases y) (auto simp: abs_store_def memory_load_def file_floors_def)
qed

text \<open>
  C40: a persisted policy floor never rolls back. Through any sequence of loads and advances of the file
  store, whichever calls fail, the floor of a tenant only moves to a newer policy version, or
  within one version to a later observation of the same signed payload with the same decision.
\<close>

theorem policy_floor_never_rolls_back:
  "floor_le (file_floors s tenantID) (file_floors (run_store file_load (file_advance json_size) calls s) tenantID)"
  by (rule file_store.run_mono)

end
