(* ===== verification/RA_Authorize.thy ===== *)
theory RA_Authorize
  imports RA_Policy
begin

text \<open>
  Remote access, the source side: signed grants (\<open>internal/remoteaccess/crypto.go\<close>), the per-target
  decision of \<open>target_state.go\<close> and \<open>AuthorizeSource\<close> of \<open>authorization.go\<close>. The policy floor store
  is passed as its two calls, as the source passes the interface.
\<close>

section \<open>Signed grants\<close>

record SignedGrant =
  sg_Grant :: Grant
  sg_Payload :: bytes
  sg_Signature :: bytes

definition MaxSignedPayloadSize :: nat where "MaxSignedPayloadSize = 16384"

definition grantSignatureDomain :: bytes where
  "grantSignatureDomain = str_bytes ''RatelMesh-Remote-Access-Grant-v1'' @ [0]"

definition grantSigningMessage :: "bytes \<Rightarrow> bytes" where
  "grantSigningMessage data = grantSignatureDomain @ data"

definition SignGrant :: "ra_json \<Rightarrow> Grant \<Rightarrow> signer option \<Rightarrow> ra_error + (bytes \<times> bytes)" where
  "SignGrant J grant signer =
    (case signer of None \<Rightarrow> Inl ErrNilPointer | Some sign \<Rightarrow>
     check_r (validateGrant grant (gr_NotBefore grant)) (
     or_fail ErrJSON (js_grant J grant) (\<lambda>data.
     or_fail ErrSignerFailed (sign (grantSigningMessage data)) (\<lambda>sig. Inr (data, sig)))))"

record VerificationContext =
  vc_Now :: time
  vc_TenantID :: string
  vc_GranteeID :: string
  vc_ExpectedGranteeMeshIP :: string
  vc_MinPolicyVersion :: u64
  vc_TargetNodeID :: string
  vc_ExpectedKind :: ServiceKind
  vc_ExpectedPort :: u16
  vc_ExpectedPlatform :: Platform
  vc_ExpectedMeshIP :: string

definition grant_bound :: "VerificationContext \<Rightarrow> Grant \<Rightarrow> bool" where
  "grant_bound ctx g \<longleftrightarrow> gr_TenantID g = vc_TenantID ctx \<and> gr_GranteeID g = vc_GranteeID ctx \<and>
     gr_GranteeMeshIP g = vc_ExpectedGranteeMeshIP ctx \<and>
     sa_TargetNodeID (gr_Service g) = vc_TargetNodeID ctx \<and> sa_Kind (gr_Service g) = vc_ExpectedKind ctx \<and>
     sa_Port (gr_Service g) = vc_ExpectedPort ctx \<and> sa_Platform (gr_Service g) = vc_ExpectedPlatform ctx \<and>
     sa_TargetMeshIP (gr_Service g) = vc_ExpectedMeshIP ctx"

definition VerifyGrant ::
  "ra_json \<Rightarrow> bytes \<Rightarrow> bytes \<Rightarrow> verifier option \<Rightarrow> VerificationContext \<Rightarrow> ra_error + Grant" where
  "VerifyGrant J data sig verifier ctx =
    (case verifier of None \<Rightarrow> Inl ErrNilPointer | Some verify \<Rightarrow>
     if vc_MinPolicyVersion ctx = 0 then Inl ErrInvalidVerificationContext
     else if MaxSignedPayloadSize < length data then Inl ErrPayloadTooLarge
     else if length sig = 0 \<or> MaxSignatureSize < length sig then Inl ErrInvalidSignature
     else if \<not> verify (grantSigningMessage data) sig then Inl ErrInvalidSignature else
     or_fail ErrJSON (rd_grant J data) (\<lambda>g.
     check_r (validateGrant g (vc_Now ctx)) (
     if gr_PolicyVersion g < vc_MinPolicyVersion ctx then Inl ErrStaleGrant
     else if \<not> grant_bound ctx g then Inl ErrBindingMismatch
     else Inr g)))"

definition cache_matches :: "ra_json \<Rightarrow> Grant \<Rightarrow> Grant \<Rightarrow> ra_error option" where
  "cache_matches J cached grant =
     (case js_grant J cached of None \<Rightarrow> Some ErrJSON | Some c \<Rightarrow>
      case js_grant J grant of None \<Rightarrow> Some ErrJSON | Some canonical \<Rightarrow>
      if c \<noteq> canonical then Some ErrSignedGrantCacheMismatch else None)"

definition VerifySignedGrant ::
  "ra_json \<Rightarrow> SignedGrant \<Rightarrow> verifier option \<Rightarrow> VerificationContext \<Rightarrow> ra_error + Grant" where
  "VerifySignedGrant J sg verifier ctx =
     bind_r (VerifyGrant J (sg_Payload sg) (sg_Signature sg) verifier ctx) (\<lambda>grant.
     check_r (cache_matches J (sg_Grant sg) grant) (Inr grant))"

text \<open>What a signed grant is that authorises an access at an instant.\<close>

definition grant_authentic :: "ra_json \<Rightarrow> verifier \<Rightarrow> SignedGrant \<Rightarrow> Grant \<Rightarrow> bool" where
  "grant_authentic J verify sg g \<longleftrightarrow> length (sg_Payload sg) \<le> MaxSignedPayloadSize \<and>
     0 < length (sg_Signature sg) \<and> length (sg_Signature sg) \<le> MaxSignatureSize \<and>
     verify (grantSigningMessage (sg_Payload sg)) (sg_Signature sg) \<and>
     rd_grant J (sg_Payload sg) = Some g \<and> cache_matches J (sg_Grant sg) g = None"

lemma VerifySignedGrant_Inr:
  "VerifySignedGrant J sg (Some verify) ctx = Inr g \<longleftrightarrow> vc_MinPolicyVersion ctx \<noteq> 0 \<and>
     grant_authentic J verify sg g \<and> grant_ok g (vc_Now ctx) \<and>
     vc_MinPolicyVersion ctx \<le> gr_PolicyVersion g \<and> grant_bound ctx g"
  by (auto simp: VerifySignedGrant_def VerifyGrant_def branch_simps grant_authentic_def validateGrant_None)

section \<open>Target decisions\<close>

definition targetStateSignatureDomain :: bytes where
  "targetStateSignatureDomain = str_bytes ''RatelMesh-Remote-Access-Target-State-v1'' @ [0]"

definition targetStateSigningMessage :: "bytes \<Rightarrow> bytes" where
  "targetStateSigningMessage payload = targetStateSignatureDomain @ payload"

definition validateTargetState :: "TargetState \<Rightarrow> ra_error option" where
  "validateTargetState s =
     (if bad_id (ts_TenantID s) \<or> ts_PolicyVersion s = 0 \<or> \<not> isCanonicalPolicyDigest (ts_PolicyDigest s) \<or>
         bad_id (ts_TargetNodeID s) \<or> is_zero_time (ts_IssuedAt s)
      then Some ErrInvalidPolicyState else None)"

definition SignTargetState :: "ra_json \<Rightarrow> TargetState \<Rightarrow> signer option \<Rightarrow> ra_error + signed_payload" where
  "SignTargetState J s signer =
    (case signer of None \<Rightarrow> Inl ErrNilPointer | Some sign \<Rightarrow>
     check_r (validateTargetState s) (
     or_fail ErrJSON (js_target J s) (\<lambda>payload.
     or_fail ErrSignerFailed (sign (targetStateSigningMessage payload)) (\<lambda>sig.
     Inr \<lparr> sp_Payload = payload, sp_Signature = sig \<rparr>))))"

definition VerifyTargetState ::
  "ra_json \<Rightarrow> signed_payload \<Rightarrow> verifier option \<Rightarrow> VerifiedPolicyState \<Rightarrow> string \<Rightarrow> time \<Rightarrow> ra_error + TargetState" where
  "VerifyTargetState J msg verifier policy targetNodeID now =
    (case verifier of None \<Rightarrow> Inl ErrInvalidVerificationContext | Some verify \<Rightarrow>
     if targetNodeID = [] \<or> is_zero_time now then Inl ErrInvalidVerificationContext
     else if length (sp_Payload msg) = 0 \<or> MaxPolicyPayloadSize < length (sp_Payload msg) then Inl ErrPayloadTooLarge
     else if length (sp_Signature msg) = 0 \<or> MaxSignatureSize < length (sp_Signature msg) \<or>
        \<not> verify (targetStateSigningMessage (sp_Payload msg)) (sp_Signature msg) then Inl ErrInvalidSignature else
     or_fail ErrInvalidPolicyState (rd_target J (sp_Payload msg)) (\<lambda>s.
     check_r (validateTargetState s) (
     if ts_TenantID s \<noteq> vp_TenantID policy \<or> ts_PolicyVersion s \<noteq> vp_Version policy \<or>
        ts_PolicyDigest s \<noteq> vp_Digest policy \<or> ts_TargetNodeID s \<noteq> targetNodeID \<or>
        ts_IssuedAt s \<noteq> vp_IssuedAt policy \<or> now + 5 * minute < ts_IssuedAt s
     then Inl ErrBindingMismatch else Inr s)))"

text \<open>No signature covers messages of two kinds: the three domains differ before any payload starts.\<close>

lemma domain_bytes:
  "grantSignatureDomain ! 24 = 71" "policySignatureDomain ! 24 = 80" "targetStateSignatureDomain ! 24 = 84"
  "24 < length grantSignatureDomain" "24 < length policySignatureDomain" "24 < length targetStateSignatureDomain"
  by code_simp+

lemma domains_disjoint:
  "grantSigningMessage a \<noteq> policySigningMessage b" "grantSigningMessage a \<noteq> targetStateSigningMessage b"
  "policySigningMessage a \<noteq> targetStateSigningMessage b"
proof -
  have m: "grantSigningMessage a ! 24 = 71" "policySigningMessage a ! 24 = 80" "targetStateSigningMessage a ! 24 = 84" for a
    by (simp_all add: grantSigningMessage_def policySigningMessage_def targetStateSigningMessage_def nth_append domain_bytes)
  have "(71 :: u8) \<noteq> 80" "(71 :: u8) \<noteq> 84" "(80 :: u8) \<noteq> 84" by simp_all
  then show "grantSigningMessage a \<noteq> policySigningMessage b" "grantSigningMessage a \<noteq> targetStateSigningMessage b"
    "policySigningMessage a \<noteq> targetStateSigningMessage b"
    using m by metis+
qed

section \<open>The source side\<close>

record NodeIdentity =
  ni_TenantID :: string
  ni_NodeID :: string
  ni_MeshIP :: string
  ni_Platform :: Platform

definition validateIdentityFields :: "NodeIdentity \<Rightarrow> ra_error option" where
  "validateIdentityFields n =
     (if ni_TenantID n = [] \<or> ni_NodeID n = [] \<or> 256 < length (ni_TenantID n) \<or> 256 < length (ni_NodeID n) \<or>
         containsControlChars (ni_TenantID n) \<or> containsControlChars (ni_NodeID n) then Some ErrInvalidID
      else case parse_addr (ni_MeshIP n) of None \<Rightarrow> Some ErrInvalidMeshIP
      | Some a \<Rightarrow> if \<not> isMeshAddr a then Some ErrInvalidMeshIP else None)"

definition validateTargetNodeIdentity :: "NodeIdentity \<Rightarrow> ra_error option" where
  "validateTargetNodeIdentity n =
     (case validateIdentityFields n of Some e \<Rightarrow> Some e
      | None \<Rightarrow> if ni_Platform n \<in> {PlatformMacOS, PlatformWindows, PlatformLinux} then None else Some ErrInvalidPlatform)"

definition validateSourceNodeIdentity :: "NodeIdentity \<Rightarrow> ra_error option" where
  "validateSourceNodeIdentity n =
     (case validateIdentityFields n of Some e \<Rightarrow> Some e
      | None \<Rightarrow> if ni_Platform n \<in> {PlatformAndroid, PlatformIOS, PlatformMacOS, PlatformWindows, PlatformLinux} then None
                else Some ErrInvalidPlatform)"

record SourceAuthorizationRequest =
  sr_Self :: NodeIdentity
  sr_Verifier :: "verifier option"
  sr_SignedPolicy :: signed_payload
  sr_Now :: time
  sr_Target :: NodeIdentity
  sr_ExpectedKind :: ServiceKind
  sr_ExpectedPort :: u16
  sr_SignedGrant :: SignedGrant

record AuthorizedLaunch =
  al_Grant :: Grant
  al_Launcher :: LauncherMetadata

type_synonym 's store_load = "string \<Rightarrow> 's \<Rightarrow> (ra_error + VerifiedPolicyState option) \<times> 's"
type_synonym 's store_advance = "VerifiedPolicyState \<Rightarrow> 's \<Rightarrow> ra_error option \<times> 's"

text \<open>
  The steps that the source and the target side share: the time floor, the authenticated policy, its
  observation, the floor check and the advance of the store.
\<close>

definition advance_policy ::
  "'s store_advance \<Rightarrow> VerifiedPolicyState option \<Rightarrow> VerifiedPolicyState \<Rightarrow> 's \<Rightarrow> (enforcement_error + VerifiedPolicyState) \<times> 's" where
  "advance_policy advance current policy s =
     (case checkPolicyAdvance current policy of
        Some e \<Rightarrow> (Inl (if e = ErrPolicyConflict then CodePolicyConflict else CodePolicyStale, e), s)
      | None \<Rightarrow> (case advance policy s of
          (Some e, s) \<Rightarrow> (Inl (CodeStorage, e), s)
        | (None, s) \<Rightarrow> (Inr policy, s)))"

definition accept_policy ::
  "crypto \<Rightarrow> ra_json \<Rightarrow> 's store_load \<Rightarrow> 's store_advance \<Rightarrow> signed_payload \<Rightarrow> verifier option \<Rightarrow> string \<Rightarrow> time \<Rightarrow>
   's \<Rightarrow> (enforcement_error + VerifiedPolicyState) \<times> 's" where
  "accept_policy C J load advance msg verifier tenantID now s =
     (case PolicyTimeFloor load tenantID now s of
        (Inl e, s) \<Rightarrow> (Inl (CodeStorage, e), s)
      | (Inr trustedNow, s) \<Rightarrow>
     (case VerifyPolicyState C J msg verifier tenantID trustedNow of
        Inl e \<Rightarrow> (Inl (classifyGrantError e, e), s)
      | Inr policy \<Rightarrow>
     (case load tenantID s of
        (Inl e, s) \<Rightarrow> (Inl (CodeStorage, e), s)
      | (Inr current, s) \<Rightarrow>
     (case ObservePolicyAt policy current now of
        Inl e \<Rightarrow> (Inl (CodeStorage, e), s)
      | Inr policy \<Rightarrow> advance_policy advance current policy s))))"

definition launch_context :: "SourceAuthorizationRequest \<Rightarrow> VerifiedPolicyState \<Rightarrow> VerificationContext" where
  "launch_context req policy =
     \<lparr> vc_Now = vp_ObservedAt policy, vc_TenantID = ni_TenantID (sr_Self req), vc_GranteeID = ni_NodeID (sr_Self req),
       vc_ExpectedGranteeMeshIP = ni_MeshIP (sr_Self req), vc_MinPolicyVersion = vp_Version policy,
       vc_TargetNodeID = ni_NodeID (sr_Target req), vc_ExpectedKind = sr_ExpectedKind req,
       vc_ExpectedPort = sr_ExpectedPort req, vc_ExpectedPlatform = ni_Platform (sr_Target req),
       vc_ExpectedMeshIP = ni_MeshIP (sr_Target req) \<rparr>"

definition authorize_grant ::
  "ra_json \<Rightarrow> SourceAuthorizationRequest \<Rightarrow> VerifiedPolicyState \<Rightarrow> enforcement_error + AuthorizedLaunch" where
  "authorize_grant J req policy =
    (if \<not> vp_Enabled policy then Inl (CodePolicyDisabled, ErrPolicyDisabled) else
     bind_r (wrap_r (\<lambda>e. (classifyGrantError e, e))
       (VerifySignedGrant J (sr_SignedGrant req) (sr_Verifier req) (launch_context req policy))) (\<lambda>grant.
     if gr_PolicyVersion grant \<noteq> vp_Version policy then Inl (CodePolicyStale, ErrStaleGrant) else
     bind_r (wrap_r (\<lambda>e. (CodeInvalidInput, e)) (GenerateLauncherMetadata grant)) (\<lambda>launcher.
     Inr \<lparr> al_Grant = grant, al_Launcher = launcher \<rparr>)))"

definition AuthorizeSource ::
  "crypto \<Rightarrow> ra_json \<Rightarrow> 's store_load \<Rightarrow> 's store_advance \<Rightarrow> SourceAuthorizationRequest \<Rightarrow> 's \<Rightarrow>
   (enforcement_error + AuthorizedLaunch) \<times> 's" where
  "AuthorizeSource C J load advance req s =
    (if sr_Verifier req = None \<or> is_zero_time (sr_Now req) then (Inl (CodeDependencyMissing, ErrInvalidVerificationContext), s)
     else case validateSourceNodeIdentity (sr_Self req) of Some e \<Rightarrow> (Inl (CodeInvalidInput, e), s) | None \<Rightarrow>
     case validateTargetNodeIdentity (sr_Target req) of Some e \<Rightarrow> (Inl (CodeInvalidInput, e), s) | None \<Rightarrow>
     if ni_TenantID (sr_Self req) \<noteq> ni_TenantID (sr_Target req) then (Inl (CodeInvalidInput, ErrBindingMismatch), s)
     else case accept_policy C J load advance (sr_SignedPolicy req) (sr_Verifier req) (ni_TenantID (sr_Self req)) (sr_Now req) s of
       (Inl e, s) \<Rightarrow> (Inl e, s)
     | (Inr policy, s) \<Rightarrow> (authorize_grant J req policy, s))"

text \<open>What an accepted policy is, relative to the floor it was accepted at.\<close>

definition policy_authentic :: "crypto \<Rightarrow> ra_json \<Rightarrow> verifier \<Rightarrow> signed_payload \<Rightarrow> string \<Rightarrow> VerifiedPolicyState \<Rightarrow> bool" where
  "policy_authentic C J verify msg tenantID p \<longleftrightarrow>
     verify (policySigningMessage (sp_Payload msg)) (sp_Signature msg) \<and>
     rd_policy J (sp_Payload msg) = Some (vp_State p) \<and> validatePolicyState (vp_State p) = None \<and>
     vp_TenantID p = tenantID \<and> vp_Digest p = hex_encode (sha256 C (sp_Payload msg))"

definition observed_no_earlier :: "VerifiedPolicyState option \<Rightarrow> VerifiedPolicyState \<Rightarrow> time \<Rightarrow> bool" where
  "observed_no_earlier current p now \<longleftrightarrow> now \<le> vp_ObservedAt p \<and>
     (case current of None \<Rightarrow> vp_ObservedAt p = now
      | Some c \<Rightarrow> vp_ObservedAt p = now \<and> vp_Version c < vp_Version p \<or>
          vp_Version c = vp_Version p \<and> vp_ObservedAt c \<le> vp_ObservedAt p)"

lemma VerifyPolicyState_Inr:
  "VerifyPolicyState C J msg (Some verify) t now = Inr p \<Longrightarrow> policy_authentic C J verify msg t p \<and> vp_ObservedAt p = now"
  by (auto simp: VerifyPolicyState_def branch_simps policy_authentic_def PolicyPayloadDigest_def)

lemma policy_authentic_observed [simp]:
  "policy_authentic C J verify msg t (p\<lparr>vp_ObservedAt := n\<rparr>) = policy_authentic C J verify msg t p"
  by (simp add: policy_authentic_def)

context policy_floor_store
begin

lemma advance_policy_Inr:
  assumes "advance_policy advance current policy s = (Inr p, s')"
  shows "p = policy \<and> checkPolicyAdvance current policy = None \<and> floors s' (vp_TenantID p) = Some p"
  using assms advance_ok[of policy s s'] by (auto simp: advance_policy_def split: option.splits prod.splits)

lemma accept_policy_Inr:
  assumes a: "accept_policy C J load advance msg (Some verify) t now s = (Inr p, s')"
  shows "policy_authentic C J verify msg t p \<and> floors s' t = Some p \<and> observed_no_earlier (floors s t) p now"
proof -
  obtain n s1 where fl: "PolicyTimeFloor load t now s = (Inr n, s1)"
    using a by (cases "PolicyTimeFloor load t now s"; cases "fst (PolicyTimeFloor load t now s)") (auto simp: accept_policy_def)
  note F = time_floor[OF fl]
  obtain p1 where v: "VerifyPolicyState C J msg (Some verify) t n = Inr p1"
    using a fl by (auto simp: accept_policy_def split: sum.splits)
  note V = VerifyPolicyState_Inr[OF v]
  obtain cur s2 where ld: "load t s1 = (Inr cur, s2)"
    using a fl v by (cases "load t s1"; cases "fst (load t s1)") (auto simp: accept_policy_def)
  have cur: "cur = floors s t" using load_value[OF ld] F by simp
  obtain p2 where o: "ObservePolicyAt p1 cur now = Inr p2"
    using a fl v ld by (auto simp: accept_policy_def split: sum.splits)
  have ad: "advance_policy advance cur p2 s2 = (Inr p, s')" using a fl v ld o by (simp add: accept_policy_def)
  note A = advance_policy_Inr[OF ad]
  have p: "policy_authentic C J verify msg t p" using V o A by (auto simp: ObservePolicyAt_def split: if_splits option.splits)
  moreover have "observed_no_earlier (floors s t) p now"
  proof (cases cur)
    case None
    then show ?thesis using o A cur by (auto simp: observed_no_earlier_def ObservePolicyAt_def split: if_splits)
  next
    case (Some c)
    have "\<not> vp_Version p < vp_Version c" using A Some by (auto simp: checkPolicyAdvance_def split: if_splits)
    then show ?thesis using o A Some cur V F
      by (auto simp: observed_no_earlier_def ObservePolicyAt_def split: if_splits)
  qed
  ultimately show ?thesis using A by (auto simp: policy_authentic_def)
qed

text \<open>What an authorised launch is: every binding of the request, proved by signatures.\<close>

lemma AuthorizeSource_Inr:
  assumes a: "AuthorizeSource C J load advance req s = (Inr l, s')"
  shows "\<exists>verify p. sr_Verifier req = Some verify \<and>
     policy_authentic C J verify (sr_SignedPolicy req) (ni_TenantID (sr_Self req)) p \<and> vp_Enabled p \<and>
     floors s' (ni_TenantID (sr_Self req)) = Some p \<and>
     observed_no_earlier (floors s (ni_TenantID (sr_Self req))) p (sr_Now req) \<and>
     grant_authentic J verify (sr_SignedGrant req) (al_Grant l) \<and> grant_ok (al_Grant l) (vp_ObservedAt p) \<and>
     gr_PolicyVersion (al_Grant l) = vp_Version p \<and> grant_bound (launch_context req p) (al_Grant l) \<and>
     ni_TenantID (sr_Target req) = ni_TenantID (sr_Self req) \<and>
     lm_URI (al_Launcher l) = launch_uri (gr_Service (al_Grant l))"
proof -
  obtain verify p where v: "sr_Verifier req = Some verify"
    and ten: "ni_TenantID (sr_Target req) = ni_TenantID (sr_Self req)"
    and ac: "accept_policy C J load advance (sr_SignedPolicy req) (Some verify) (ni_TenantID (sr_Self req)) (sr_Now req) s = (Inr p, s')"
    and gr: "authorize_grant J req p = Inr l"
    using a by (auto simp: AuthorizeSource_def split: if_splits option.splits prod.splits sum.splits)
  obtain g lm where en: "vp_Enabled p" and vg: "VerifySignedGrant J (sr_SignedGrant req) (Some verify) (launch_context req p) = Inr g"
    and ver: "gr_PolicyVersion g = vp_Version p" and lm: "GenerateLauncherMetadata g = Inr lm"
    and l: "l = \<lparr> al_Grant = g, al_Launcher = lm \<rparr>"
    using gr v by (auto simp: authorize_grant_def branch_simps)
  have "lm_URI lm = launch_uri (gr_Service g)"
    using lm by (auto simp: GenerateLauncherMetadata_eq split: option.splits)
  then show ?thesis using accept_policy_Inr[OF ac] v ten en vg ver l
    by (auto simp: VerifySignedGrant_Inr launch_context_def)
qed

end

text \<open>
  C22: a launch is authorised only by signatures, exactly bound and in time. If \<open>AuthorizeSource\<close>, run on
  the file store, returns a launch, then the tenant's policy was signed by the authority, is enabled
  and is now the persisted floor; it was observed no earlier than the clock, and no earlier than
  the floor it replaces when that has the same version; the launched grant is the payload the
  authority signed, equal to the displayed copy, of this policy version, for this tenant, grantee
  node and mesh address and for exactly the expected target, kind, port, platform and address,
  within its validity at that observation time and for at most 24 hours; and the URI is the kind,
  address and port of the signed service.
\<close>

theorem AuthorizeSource_exact:
  assumes "AuthorizeSource C J file_load (file_advance json_size) req s = (Inr l, s')"
  shows "\<exists>verify p. sr_Verifier req = Some verify \<and>
     policy_authentic C J verify (sr_SignedPolicy req) (ni_TenantID (sr_Self req)) p \<and> vp_Enabled p \<and>
     file_floors s' (ni_TenantID (sr_Self req)) = Some p \<and>
     observed_no_earlier (file_floors s (ni_TenantID (sr_Self req))) p (sr_Now req) \<and>
     grant_authentic J verify (sr_SignedGrant req) (al_Grant l) \<and> grant_ok (al_Grant l) (vp_ObservedAt p) \<and>
     gr_PolicyVersion (al_Grant l) = vp_Version p \<and> grant_bound (launch_context req p) (al_Grant l) \<and>
     ni_TenantID (sr_Target req) = ni_TenantID (sr_Self req) \<and>
     lm_URI (al_Launcher l) = launch_uri (gr_Service (al_Grant l))"
  by (rule file_store.AuthorizeSource_Inr[OF assms])

section \<open>A launch in small\<close>

definition sample_service :: ServiceAdvertisement where
  "sample_service = \<lparr> sa_Kind = ''ssh'', sa_Port = 22, sa_Platform = ''linux'', sa_Label = ''SSH'',
     sa_TargetNodeID = ''t'', sa_TargetMeshIP = ''100.64.0.2'' \<rparr>"

definition sample_grant :: Grant where
  "sample_grant = \<lparr> gr_ID = ''g'', gr_TenantID = ''x'', gr_GrantorID = ''o'', gr_GranteeID = ''s'',
     gr_GranteeMeshIP = ''100.64.0.1'', gr_PolicyVersion = 3, gr_Service = sample_service,
     gr_IssuedAt = 1, gr_NotBefore = 2, gr_ExpiresAt = 900 \<rparr>"

definition sample_json :: ra_json where
  "sample_json = \<lparr> js_grant = (\<lambda>g. Some [1]), rd_grant = (\<lambda>b. if b = [1] then Some sample_grant else None),
     js_policy = (\<lambda>p. Some [2]),
     rd_policy = (\<lambda>b. if b = [2] then Some \<lparr> ps_TenantID = ''x'', ps_Version = 3, ps_Enabled = True, ps_IssuedAt = 1 \<rparr> else None),
     js_target = (\<lambda>t. None), rd_target = (\<lambda>b. None) \<rparr>"

definition sample_verify :: verifier where
  "sample_verify m g \<longleftrightarrow> g = [7]"

definition sample_request :: SourceAuthorizationRequest where
  "sample_request =
     \<lparr> sr_Self = \<lparr> ni_TenantID = ''x'', ni_NodeID = ''s'', ni_MeshIP = ''100.64.0.1'', ni_Platform = ''ios'' \<rparr>,
       sr_Verifier = Some sample_verify, sr_SignedPolicy = \<lparr> sp_Payload = [2], sp_Signature = [7] \<rparr>, sr_Now = 5,
       sr_Target = \<lparr> ni_TenantID = ''x'', ni_NodeID = ''t'', ni_MeshIP = ''100.64.0.2'', ni_Platform = ''linux'' \<rparr>,
       sr_ExpectedKind = ''ssh'', sr_ExpectedPort = 22,
       sr_SignedGrant = \<lparr> sg_Grant = sample_grant, sg_Payload = [1], sg_Signature = [7] \<rparr> \<rparr>"

definition sample_store :: FilePolicyFloorStore where
  "sample_store = \<lparr> fs_closed = False, fs_file = None, fs_faults = [] \<rparr>"

definition sample_launch :: "(enforcement_error + AuthorizedLaunch) \<times> FilePolicyFloorStore" where
  "sample_launch = AuthorizeSource sample_crypto sample_json file_load (file_advance (\<lambda>_. Some 100)) sample_request sample_store"

lemma sample_launched: "\<not> isl (fst sample_launch)"
  by code_simp

lemma AuthorizeSource_exact_witness:
  "\<exists>l. fst sample_launch = Inr l \<and> gr_PolicyVersion (al_Grant l) \<noteq> 0"
proof -
  obtain l where l: "fst sample_launch = Inr l" using sample_launched by (metis sum.collapse(2))
  have "AuthorizeSource sample_crypto sample_json file_load (file_advance (\<lambda>_. Some 100)) sample_request sample_store
      = (Inr l, snd sample_launch)"
    using l by (metis prod.collapse sample_launch_def)
  from AuthorizeSource_exact[OF this] show ?thesis using l by (auto simp: grant_ok_def)
qed

end
