(* ===== verification/RA_Reconcile.thy ===== *)
theory RA_Reconcile
  imports RA_Authorize
begin

text \<open>
  Remote access, the target side: \<open>ReconcileTarget\<close> of \<open>internal/remoteaccess/reconcile.go\<close>, which turns
  the signed policy and the signed grants into the firewall rules that should hold.
\<close>

definition MaxReconcileGrants :: nat where "MaxReconcileGrants = 256"
definition MaxReconcileServices :: nat where "MaxReconcileServices = 64"
definition MaxReconcilePeers :: nat where "MaxReconcilePeers = 1024"

record DesiredRule =
  dr_SourceMeshIP :: string
  dr_TargetMeshIP :: string
  dr_Protocol :: string
  dr_Port :: u16
  dr_GrantID :: string
  dr_ExpiresAt :: time

record GrantRejection =
  gj_Index :: nat
  gj_Code :: EnforcementErrorCode

record ReconcileResult =
  rc_PolicyVersion :: u64
  rc_PolicyEnabled :: bool
  rc_Rules :: "DesiredRule list"
  rc_Rejected :: "GrantRejection list"

text \<open>\<open>CanReach\<close> is a call that may fail; a nil slice or map is \<open>None\<close>.\<close>

record TargetReconcileRequest =
  tr_Self :: NodeIdentity
  tr_Services :: "ServiceAdvertisement list option"
  tr_Peers :: "(string, string) gomap option"
  tr_CanReach :: "(string \<Rightarrow> string \<Rightarrow> ra_error + bool) option"
  tr_Verifier :: "verifier option"
  tr_SignedPolicy :: signed_payload
  tr_Now :: time
  tr_Grants :: "SignedGrant list option"

record verifiedCandidate =
  cd_index :: nat
  cd_grant :: Grant
  cd_fingerprint :: string

section \<open>Services and peers\<close>

definition nul :: string where "nul = [char_of (0 :: nat)]"

definition advertisementKey :: "ServiceAdvertisement \<Rightarrow> string" where
  "advertisementKey s = sa_Kind s @ nul @ sa_Platform s @ nul @ sa_TargetNodeID s @ nul @ sa_TargetMeshIP s @ nul @
     itoa (unat (sa_Port s))"

fun validatedLocalServices :: "NodeIdentity \<Rightarrow> ServiceAdvertisement list \<Rightarrow> ra_error + string list" where
  "validatedLocalServices self [] = Inr []"
| "validatedLocalServices self (s # ss) =
     (case validateService s of Some e \<Rightarrow> Inl e | None \<Rightarrow>
      if sa_TargetNodeID s \<noteq> ni_NodeID self \<or> sa_TargetMeshIP s \<noteq> ni_MeshIP self \<or> sa_Platform s \<noteq> ni_Platform self
      then Inl ErrBindingMismatch
      else bind_r (validatedLocalServices self ss) (\<lambda>keys. Inr (advertisementKey s # keys)))"

fun validatedPeers ::
  "NodeIdentity \<Rightarrow> (addr, string) gomap \<Rightarrow> (string, string) gomap \<Rightarrow> ra_error + (string, string) gomap" where
  "validatedPeers self seenIPs [] = Inr []"
| "validatedPeers self seenIPs ((nodeID, meshIP) # ps) =
     (if bad_id nodeID \<or> nodeID = ni_NodeID self then Inl ErrPeerBindingMismatch
      else case parse_addr meshIP of None \<Rightarrow> Inl ErrPeerBindingMismatch | Some a \<Rightarrow>
      if \<not> isMeshAddr a then Inl ErrPeerBindingMismatch
      else if (case map_of seenIPs a of None \<Rightarrow> False | Some previous \<Rightarrow> previous \<noteq> nodeID) then Inl ErrPeerBindingMismatch
      else bind_r (validatedPeers self (AList.update a nodeID seenIPs) ps) (\<lambda>out. Inr ((nodeID, addr_string a) # out)))"

section \<open>Grants\<close>

definition verifyGrantPayload ::
  "ra_json \<Rightarrow> SignedGrant \<Rightarrow> verifier option \<Rightarrow> time \<Rightarrow> u64 \<Rightarrow> ra_error + Grant" where
  "verifyGrantPayload J sg verifier now flr =
    (case verifier of None \<Rightarrow> Inl ErrInvalidVerificationContext | Some verify \<Rightarrow>
     if flr = 0 \<or> is_zero_time now then Inl ErrInvalidVerificationContext
     else if length (sg_Payload sg) = 0 \<or> MaxSignedPayloadSize < length (sg_Payload sg) \<or>
        length (sg_Signature sg) = 0 \<or> MaxSignatureSize < length (sg_Signature sg) then Inl ErrPayloadTooLarge
     else if \<not> verify (grantSigningMessage (sg_Payload sg)) (sg_Signature sg) then Inl ErrInvalidSignature else
     or_fail ErrJSON (rd_grant J (sg_Payload sg)) (\<lambda>grant.
     check_r (validateGrant grant now) (
     if gr_PolicyVersion grant < flr then Inl ErrStaleGrant else
     check_r (cache_matches J (sg_Grant sg) grant) (Inr grant))))"

text \<open>The first loop: verified grants become candidates, the others are rejected.\<close>

fun collect_candidates ::
  "crypto \<Rightarrow> ra_json \<Rightarrow> verifier option \<Rightarrow> time \<Rightarrow> u64 \<Rightarrow> nat \<Rightarrow> SignedGrant list \<Rightarrow> verifiedCandidate list \<times> GrantRejection list" where
  "collect_candidates C J verifier now version index [] = ([], [])"
| "collect_candidates C J verifier now version index (sg # sgs) =
     (case collect_candidates C J verifier now version (Suc index) sgs of (cs, rejected) \<Rightarrow>
      case verifyGrantPayload J sg verifier now version of
        Inl e \<Rightarrow> (cs, \<lparr> gj_Index = index, gj_Code = classifyGrantError e \<rparr> # rejected)
      | Inr grant \<Rightarrow> (\<lparr> cd_index = index, cd_grant = grant, cd_fingerprint = hex_encode (sha256 C (sg_Payload sg)) \<rparr> # cs, rejected))"

fun conflicts_loop :: "(string, string) gomap \<Rightarrow> verifiedCandidate list \<Rightarrow> string list" where
  "conflicts_loop first [] = []"
| "conflicts_loop first (c # cs) =
     (case map_of first (gr_ID (cd_grant c)) of
        Some fingerprint \<Rightarrow>
          if fingerprint \<noteq> cd_fingerprint c then gr_ID (cd_grant c) # conflicts_loop first cs else conflicts_loop first cs
      | None \<Rightarrow> conflicts_loop (AList.update (gr_ID (cd_grant c)) (cd_fingerprint c) first) cs)"

definition conflictingGrantIDs :: "verifiedCandidate list \<Rightarrow> string list" where
  "conflictingGrantIDs cs = conflicts_loop [] cs"

text \<open>
  What becomes of one candidate: an error of \<open>CanReach\<close>, a rejection, or a rule.
\<close>

definition judge ::
  "NodeIdentity \<Rightarrow> string list \<Rightarrow> (string, string) gomap \<Rightarrow> (string \<Rightarrow> string \<Rightarrow> ra_error + bool) \<Rightarrow> u64 \<Rightarrow> Grant \<Rightarrow>
   enforcement_error + (EnforcementErrorCode + DesiredRule)" where
  "judge self services peers canReach version grant =
     (if gr_TenantID grant \<noteq> ni_TenantID self then Inr (Inl CodeBindingMismatch)
      else if gr_PolicyVersion grant \<noteq> version then Inr (Inl CodePolicyStale)
      else if advertisementKey (gr_Service grant) \<notin> set services then Inr (Inl CodeServiceMissing)
      else case map_of peers (gr_GranteeID grant) of
        None \<Rightarrow> Inr (Inl CodePeerBinding)
      | Some sourceIP \<Rightarrow>
          if gr_GranteeMeshIP grant \<noteq> sourceIP then Inr (Inl CodePeerBinding)
          else case canReach (gr_GranteeID grant) (ni_NodeID self) of
            Inl e \<Rightarrow> Inl (CodeDependencyMissing, e)
          | Inr allowed \<Rightarrow>
              if \<not> allowed then Inr (Inl CodeDirectionDenied)
              else Inr (Inr \<lparr> dr_SourceMeshIP = sourceIP, dr_TargetMeshIP = ni_MeshIP self, dr_Protocol = ''tcp'',
                dr_Port = sa_Port (gr_Service grant), dr_GrantID = gr_ID grant, dr_ExpiresAt = gr_ExpiresAt grant \<rparr>))"

definition dedup_key :: "verifiedCandidate \<Rightarrow> string" where
  "dedup_key c = gr_ID (cd_grant c) @ nul @ cd_fingerprint c"

text \<open>The second loop, over the candidates in order, with the payloads seen so far.\<close>

fun reconcile_loop ::
  "(Grant \<Rightarrow> enforcement_error + (EnforcementErrorCode + DesiredRule)) \<Rightarrow> string list \<Rightarrow> string list \<Rightarrow> verifiedCandidate list \<Rightarrow>
   enforcement_error + (DesiredRule list \<times> GrantRejection list)" where
  "reconcile_loop jd conflicts seen [] = Inr ([], [])"
| "reconcile_loop jd conflicts seen (c # cs) =
     (if gr_ID (cd_grant c) \<in> set conflicts then
        bind_r (reconcile_loop jd conflicts seen cs) (\<lambda>(rs, js).
        Inr (rs, \<lparr> gj_Index = cd_index c, gj_Code = CodeGrantConflict \<rparr> # js))
      else if dedup_key c \<in> set seen then reconcile_loop jd conflicts seen cs
      else bind_r (jd (cd_grant c)) (\<lambda>verdict.
        bind_r (reconcile_loop jd conflicts (dedup_key c # seen) cs) (\<lambda>(rs, js).
        case verdict of
          Inl why \<Rightarrow> Inr (rs, \<lparr> gj_Index = cd_index c, gj_Code = why \<rparr> # js)
        | Inr rule \<Rightarrow> Inr (rule # rs, js))))"

definition rule_less :: "DesiredRule \<Rightarrow> DesiredRule \<Rightarrow> bool" where
  "rule_less a b =
     (if dr_SourceMeshIP a \<noteq> dr_SourceMeshIP b then dr_SourceMeshIP a < dr_SourceMeshIP b
      else if dr_TargetMeshIP a \<noteq> dr_TargetMeshIP b then dr_TargetMeshIP a < dr_TargetMeshIP b
      else if dr_Port a \<noteq> dr_Port b then dr_Port a < dr_Port b
      else dr_GrantID a < dr_GrantID b)"

definition rejection_less :: "GrantRejection \<Rightarrow> GrantRejection \<Rightarrow> bool" where
  "rejection_less a b =
     (if gj_Index a \<noteq> gj_Index b then gj_Index a < gj_Index b else code_text (gj_Code a) < code_text (gj_Code b))"

definition reconcile_grants ::
  "crypto \<Rightarrow> ra_json \<Rightarrow> verifier option \<Rightarrow> NodeIdentity \<Rightarrow> string list \<Rightarrow> (string, string) gomap \<Rightarrow>
   (string \<Rightarrow> string \<Rightarrow> ra_error + bool) \<Rightarrow> VerifiedPolicyState \<Rightarrow> SignedGrant list \<Rightarrow> enforcement_error + ReconcileResult" where
  "reconcile_grants C J verifier self services peers canReach policy grants =
     (case collect_candidates C J verifier (vp_ObservedAt policy) (vp_Version policy) 0 grants of (cs, rejected) \<Rightarrow>
      bind_r (reconcile_loop (judge self services peers canReach (vp_Version policy)) (conflictingGrantIDs cs) [] cs) (\<lambda>(rs, js).
      Inr \<lparr> rc_PolicyVersion = vp_Version policy, rc_PolicyEnabled = True, rc_Rules = sort_slice rule_less rs,
            rc_Rejected = sort_slice rejection_less (rejected @ js) \<rparr>))"

definition ReconcileTarget ::
  "crypto \<Rightarrow> ra_json \<Rightarrow> 's store_load \<Rightarrow> 's store_advance \<Rightarrow> TargetReconcileRequest \<Rightarrow> 's \<Rightarrow>
   (enforcement_error + ReconcileResult) \<times> 's" where
  "ReconcileTarget C J load advance req s =
    (case (tr_Verifier req, tr_CanReach req, tr_Services req, tr_Peers req, tr_Grants req) of
       (Some verify, Some canReach, Some services, Some peers, Some grants) \<Rightarrow>
         if is_zero_time (tr_Now req) then (Inl (CodeDependencyMissing, ErrDependencyMissing), s)
         else if MaxReconcileGrants < length grants \<or> MaxReconcileServices < length services \<or> MaxReconcilePeers < length peers
         then (Inl (CodeLimitExceeded, ErrReconcileLimit), s)
         else (case validateTargetNodeIdentity (tr_Self req) of Some e \<Rightarrow> (Inl (CodeInvalidInput, e), s) | None \<Rightarrow>
         (case validatedLocalServices (tr_Self req) services of Inl e \<Rightarrow> (Inl (CodeInvalidInput, e), s) | Inr keys \<Rightarrow>
         (case validatedPeers (tr_Self req) [] peers of Inl e \<Rightarrow> (Inl (CodePeerBinding, e), s) | Inr bound \<Rightarrow>
         (case accept_policy C J load advance (tr_SignedPolicy req) (tr_Verifier req) (ni_TenantID (tr_Self req)) (tr_Now req) s of
            (Inl e, s) \<Rightarrow> (Inl e, s)
          | (Inr policy, s) \<Rightarrow>
              if \<not> vp_Enabled policy
              then (Inr \<lparr> rc_PolicyVersion = vp_Version policy, rc_PolicyEnabled = False, rc_Rules = [], rc_Rejected = [] \<rparr>, s)
              else (reconcile_grants C J (tr_Verifier req) (tr_Self req) keys bound canReach policy grants, s)))))
     | _ \<Rightarrow> (Inl (CodeDependencyMissing, ErrDependencyMissing), s))"

section \<open>Separators\<close>

lemma decode_rune_ascii: "decode_rune (c # cs) = (r, n) \<Longrightarrow> code c < 128 \<and> n = 1 \<and> r = code c \<or> (\<forall>x \<in> set (take n (c # cs)). 128 \<le> code x)"
proof -
  have c2: "\<forall>x \<in> set (take (snd (decode2 b cs)) (c # cs)). 128 \<le> code x" if "128 \<le> code c" for b
    using that by (cases "(b, cs)" rule: decode2.cases) (auto simp: cont_in_def)
  have c3: "\<forall>x \<in> set (take (snd (decode3 b cs)) (c # cs)). 128 \<le> code x" if "128 \<le> code c" for b
    using that by (cases "(b, cs)" rule: decode3.cases) (simp_all add: cont_in_def Let_def)
  have c4: "\<forall>x \<in> set (take (snd (decode4 b cs)) (c # cs)). 128 \<le> code x" if "128 \<le> code c" for b
    using that by (cases "(b, cs)" rule: decode4.cases) (simp_all add: cont_in_def Let_def)
  assume d: "decode_rune (c # cs) = (r, n)"
  show ?thesis
  proof (cases "code c < 128")
    case True
    then show ?thesis using d by simp
  next
    case False
    have "n = 1 \<or> n = snd (decode2 (code c) cs) \<or> n = snd (decode3 (code c) cs) \<or> n = snd (decode4 (code c) cs)"
      using d False by (auto simp: Let_def split: if_splits)
    moreover have "\<forall>x \<in> set (take 1 (c # cs)). 128 \<le> code x" using False by simp
    moreover have b: "128 \<le> code c" using False by simp
    ultimately have "\<forall>x \<in> set (take n (c # cs)). 128 \<le> code x"
      using c2[OF b, of "code c"] c3[OF b, of "code c"] c4[OF b, of "code c"] by blast
    then show ?thesis by blast
  qed
qed

lemma nul_rune: "char_of (0 :: nat) \<in> set s \<Longrightarrow> 0 \<in> set (runes s)"
proof (induction s rule: segs.induct)
  case (1 s)
  obtain c cs where s: "s = c # cs" using 1(2) by (cases s) auto
  obtain r n where d: "decode_rune s = (r, n)" by fastforce
  have z: "code (char_of (0 :: nat)) = 0" by simp
  have sg: "runes s = r # runes (drop n s)" using d s by (simp add: runes_def segs_Cons Let_def)
  have "char_of (0 :: nat) \<in> set (take n s) \<or> char_of (0 :: nat) \<in> set (drop n s)"
    using 1(2) by (metis append_take_drop_id Un_iff set_append)
  then show ?case
  proof
    assume "char_of (0 :: nat) \<in> set (drop n s)"
    then have "0 \<in> set (runes (drop n s))" using 1(1)[of "(r, n)" r n] d s by simp
    then show ?thesis using sg by simp
  next
    assume t: "char_of (0 :: nat) \<in> set (take n s)"
    have "\<not> (\<forall>x \<in> set (take n (c # cs)). 128 \<le> code x)"
    proof
      assume "\<forall>x \<in> set (take n (c # cs)). 128 \<le> code x"
      from bspec[OF this t[unfolded s]] show False using z by linarith
    qed
    then have "code c < 128 \<and> n = 1 \<and> r = code c" using decode_rune_ascii[OF d[unfolded s]] by blast
    then have "r = code c" "c = char_of (0 :: nat)" using t s by simp_all
    then have "r = 0" using z by simp
    then show ?thesis using sg by simp
  qed
qed

lemma no_nul: "\<not> containsControlChars s \<Longrightarrow> char_of (0 :: nat) \<notin> set s"
  using nul_rune by (fastforce simp: containsControlChars_def is_control_def list_ex_iff)

lemma nul_split:
  assumes "char_of (0 :: nat) \<notin> set a" "char_of (0 :: nat) \<notin> set a'"
  shows "a @ nul @ b = a' @ nul @ b' \<longleftrightarrow> a = a' \<and> b = b'"
proof
  assume e: "a @ nul @ b = a' @ nul @ b'"
  have tw: "takeWhile (\<lambda>c. c \<noteq> char_of (0 :: nat)) (x @ nul @ y) = x" if "char_of (0 :: nat) \<notin> set x" for x y
    using that by (induction x) (auto simp: nul_def)
  have "a = a'" using tw[OF assms(1), of b] tw[OF assms(2), of b'] e by simp
  then show "a = a' \<and> b = b'" using e by simp
qed simp

lemma nul_split_last: "char_of (0 :: nat) \<notin> set b \<Longrightarrow> char_of (0 :: nat) \<notin> set b' \<Longrightarrow> a @ nul @ b = a' @ nul @ b' \<longleftrightarrow> a = a' \<and> b = b'"
  by (auto simp: nul_def append_eq_append_conv2 append_eq_Cons_conv Cons_eq_append_conv)

lemma hex_no_nul: "char_of (0 :: nat) \<notin> set (hex_encode b)"
  using hex_encode_lower[of b] by (auto simp: list_all_iff is_lower_hex_char_def dest!: bspec)

lemma itoa_no_nul: "char_of (0 :: nat) \<notin> set (itoa n)"
proof (induction n rule: itoa.induct)
  case (1 n)
  show ?case
  proof (cases "n < 10")
    case True
    then show ?thesis by (subst itoa.simps) (simp add: char_of_eq_iff)
  next
    case False
    then show ?thesis using 1 by (subst itoa.simps) (simp add: char_of_eq_iff)
  qed
qed

lemma names_no_nul:
  "char_of (0 :: nat) \<notin> set KindSSH" "char_of (0 :: nat) \<notin> set KindRDP" "char_of (0 :: nat) \<notin> set KindVNC"
  "char_of (0 :: nat) \<notin> set PlatformMacOS" "char_of (0 :: nat) \<notin> set PlatformWindows" "char_of (0 :: nat) \<notin> set PlatformLinux"
  by code_simp+

lemma kind_no_nul:
  assumes "service_ok s"
  shows "char_of (0 :: nat) \<notin> set (sa_Kind s)" "char_of (0 :: nat) \<notin> set (sa_Platform s)" "char_of (0 :: nat) \<notin> set (sa_TargetNodeID s)"
  using assms no_nul[of "sa_TargetNodeID s"] names_no_nul by (auto simp: service_ok_def bad_id_def)

text \<open>The coordinates of a service, everything but its label; the key identifies them.\<close>

definition same_coordinates :: "ServiceAdvertisement \<Rightarrow> ServiceAdvertisement \<Rightarrow> bool" where
  "same_coordinates a b \<longleftrightarrow> sa_Kind a = sa_Kind b \<and> sa_Platform a = sa_Platform b \<and>
     sa_TargetNodeID a = sa_TargetNodeID b \<and> sa_TargetMeshIP a = sa_TargetMeshIP b \<and> sa_Port a = sa_Port b"

lemma advertisementKey_inject:
  assumes "service_ok a" "service_ok b"
  shows "advertisementKey a = advertisementKey b \<longleftrightarrow> same_coordinates a b"
  unfolding advertisementKey_def same_coordinates_def
  by (simp only: nul_split[OF kind_no_nul(1)[OF assms(1)] kind_no_nul(1)[OF assms(2)]]
      nul_split[OF kind_no_nul(2)[OF assms(1)] kind_no_nul(2)[OF assms(2)]]
      nul_split[OF kind_no_nul(3)[OF assms(1)] kind_no_nul(3)[OF assms(2)]]
      nul_split_last[OF itoa_no_nul itoa_no_nul] itoa_inject word_unat_eq_iff)

section \<open>Candidates and conflicts\<close>

text \<open>A candidate is a verified grant of the request with the digest of its payload.\<close>

definition candidate_of ::
  "crypto \<Rightarrow> ra_json \<Rightarrow> verifier option \<Rightarrow> time \<Rightarrow> u64 \<Rightarrow> SignedGrant \<Rightarrow> verifiedCandidate \<Rightarrow> bool" where
  "candidate_of C J verifier now version sg c \<longleftrightarrow>
     verifyGrantPayload J sg verifier now version = Inr (cd_grant c) \<and> cd_fingerprint c = hex_encode (sha256 C (sg_Payload sg))"

lemma collect_candidates_Cons:
  "fst (collect_candidates C J verifier now version i (sg # sgs)) =
     (case verifyGrantPayload J sg verifier now version of Inl _ \<Rightarrow> []
      | Inr g \<Rightarrow> [\<lparr> cd_index = i, cd_grant = g, cd_fingerprint = hex_encode (sha256 C (sg_Payload sg)) \<rparr>]) @
     fst (collect_candidates C J verifier now version (Suc i) sgs)"
  by (simp split: prod.split sum.split)

lemma collect_candidates_sound:
  "c \<in> set (fst (collect_candidates C J verifier now version i sgs)) \<Longrightarrow> \<exists>sg\<in>set sgs. candidate_of C J verifier now version sg c"
proof (induction sgs arbitrary: i)
  case (Cons sg sgs)
  consider g where "verifyGrantPayload J sg verifier now version = Inr g"
      "c = \<lparr> cd_index = i, cd_grant = g, cd_fingerprint = hex_encode (sha256 C (sg_Payload sg)) \<rparr>"
    | "c \<in> set (fst (collect_candidates C J verifier now version (Suc i) sgs))"
    using Cons.prems unfolding collect_candidates_Cons
    by (cases "verifyGrantPayload J sg verifier now version") auto
  then show ?case
  proof cases
    case 1
    then show ?thesis by (simp add: candidate_of_def)
  next
    case 2
    from Cons.IH[OF 2] show ?thesis by auto
  qed
qed simp

lemma collect_candidates_complete:
  "sg \<in> set sgs \<Longrightarrow> verifyGrantPayload J sg verifier now version = Inr g \<Longrightarrow>
   \<exists>c\<in>set (fst (collect_candidates C J verifier now version i sgs)). cd_grant c = g \<and> cd_fingerprint c = hex_encode (sha256 C (sg_Payload sg))"
proof (induction sgs arbitrary: i)
  case (Cons a sgs)
  show ?case
  proof (cases "sg = a")
    case True
    then show ?thesis using Cons.prems unfolding collect_candidates_Cons by simp
  next
    case False
    then show ?thesis using Cons.IH[of "Suc i"] Cons.prems unfolding collect_candidates_Cons by auto
  qed
qed simp

lemma conflicts_loop_iff:
  "i \<in> set (conflicts_loop first cs) \<longleftrightarrow>
     (\<exists>c\<in>set cs. gr_ID (cd_grant c) = i \<and> (case map_of first i of Some f \<Rightarrow> cd_fingerprint c \<noteq> f
        | None \<Rightarrow> \<exists>d\<in>set cs. gr_ID (cd_grant d) = i \<and> cd_fingerprint d \<noteq> cd_fingerprint c))"
proof (induction cs arbitrary: first)
  case (Cons c cs)
  note IH = Cons.IH[of first] Cons.IH[of "AList.update (gr_ID (cd_grant c)) (cd_fingerprint c) first"]
  show ?case
  proof (cases "i = gr_ID (cd_grant c)")
    case True
    show ?thesis
    proof (cases "map_of first i")
      case None
      have "i \<in> set (conflicts_loop first (c # cs)) \<longleftrightarrow> (\<exists>d\<in>set cs. gr_ID (cd_grant d) = i \<and> cd_fingerprint d \<noteq> cd_fingerprint c)"
        using IH(2) True None by (simp add: update_conv')
      also have "\<dots> \<longleftrightarrow> (\<exists>d\<in>set (c # cs). gr_ID (cd_grant d) = i \<and> (\<exists>e\<in>set (c # cs). gr_ID (cd_grant e) = i \<and> cd_fingerprint e \<noteq> cd_fingerprint d))"
        using True by (metis list.set_intros(1,2) set_ConsD)
      finally show ?thesis using None by simp
    next
      case (Some f)
      then show ?thesis using IH(1) True by auto
    qed
  next
    case False
    then show ?thesis using IH
      by (cases "map_of first i"; cases "map_of first (gr_ID (cd_grant c))") (simp_all add: update_conv')
  qed
qed simp

lemma conflicting_iff:
  "i \<in> set (conflictingGrantIDs cs) \<longleftrightarrow> (\<exists>c\<in>set cs. \<exists>d\<in>set cs. gr_ID (cd_grant c) = i \<and> gr_ID (cd_grant d) = i \<and> cd_fingerprint c \<noteq> cd_fingerprint d)"
  by (auto simp: conflictingGrantIDs_def conflicts_loop_iff)

section \<open>The loop\<close>

lemma loop_conflict:
  "gr_ID (cd_grant c) \<in> set ks \<Longrightarrow> reconcile_loop jd ks seen (c # cs) = Inr (rs, js) \<Longrightarrow>
   \<exists>js'. reconcile_loop jd ks seen cs = Inr (rs, js')"
  by (auto simp: bind_r_Inr)

lemma loop_seen:
  "gr_ID (cd_grant c) \<notin> set ks \<Longrightarrow> dedup_key c \<in> set seen \<Longrightarrow> reconcile_loop jd ks seen (c # cs) = reconcile_loop jd ks seen cs"
  by simp

lemma loop_fresh:
  assumes "gr_ID (cd_grant c) \<notin> set ks" "dedup_key c \<notin> set seen" "reconcile_loop jd ks seen (c # cs) = Inr (rs, js)"
  shows "\<exists>v rs' js'. jd (cd_grant c) = Inr v \<and> reconcile_loop jd ks (dedup_key c # seen) cs = Inr (rs', js') \<and>
    rs = (case v of Inl _ \<Rightarrow> rs' | Inr r \<Rightarrow> r # rs')"
proof -
  obtain v p where v: "jd (cd_grant c) = Inr v" and t: "reconcile_loop jd ks (dedup_key c # seen) cs = Inr p"
    and k: "(case p of (rs', js') \<Rightarrow> case v of Inl why \<Rightarrow> Inr (rs', \<lparr> gj_Index = cd_index c, gj_Code = why \<rparr> # js')
        | Inr rule \<Rightarrow> Inr (rule # rs', js')) = (Inr (rs, js) :: enforcement_error + _)"
    using assms by (simp only: reconcile_loop.simps if_False bind_r_Inr) blast
  show ?thesis using v t k by (cases p; cases v) auto
qed

text \<open>Induction over a successful run of the loop.\<close>

lemma reconcile_loop_induct [consumes 1, case_names Nil Conflict Seen Fresh]:
  assumes run: "reconcile_loop jd ks seen cs = Inr (rs, js)"
    and nil: "\<And>seen. P seen [] []"
    and conf: "\<And>seen c cs rs. gr_ID (cd_grant c) \<in> set ks \<Longrightarrow> P seen cs rs \<Longrightarrow> P seen (c # cs) rs"
    and seen: "\<And>seen c cs rs. gr_ID (cd_grant c) \<notin> set ks \<Longrightarrow> dedup_key c \<in> set seen \<Longrightarrow> P seen cs rs \<Longrightarrow> P seen (c # cs) rs"
    and fresh: "\<And>seen c cs rs v. gr_ID (cd_grant c) \<notin> set ks \<Longrightarrow> dedup_key c \<notin> set seen \<Longrightarrow> jd (cd_grant c) = Inr v \<Longrightarrow>
        P (dedup_key c # seen) cs rs \<Longrightarrow> P seen (c # cs) (case v of Inl _ \<Rightarrow> rs | Inr r \<Rightarrow> r # rs)"
  shows "P seen cs rs"
  using run
proof (induction cs arbitrary: seen rs js)
  case Nil
  then show ?case using nil by simp
next
  case (Cons c cs)
  consider "gr_ID (cd_grant c) \<in> set ks" | "gr_ID (cd_grant c) \<notin> set ks" "dedup_key c \<in> set seen"
    | "gr_ID (cd_grant c) \<notin> set ks" "dedup_key c \<notin> set seen" by blast
  then show ?case
  proof cases
    case 1
    then show ?thesis using loop_conflict[OF 1 Cons.prems] Cons.IH conf by blast
  next
    case 2
    then show ?thesis using Cons.prems Cons.IH seen unfolding loop_seen[OF 2] by blast
  next
    case 3
    from loop_fresh[OF 3 Cons.prems] obtain v rs' js' where f: "jd (cd_grant c) = Inr v"
      "reconcile_loop jd ks (dedup_key c # seen) cs = Inr (rs', js')" "rs = (case v of Inl _ \<Rightarrow> rs' | Inr r \<Rightarrow> r # rs')" by blast
    show ?thesis using fresh[OF 3 f(1) Cons.IH[OF f(2)]] f(3) by simp
  qed
qed

definition chosen ::
  "(Grant \<Rightarrow> enforcement_error + (EnforcementErrorCode + DesiredRule)) \<Rightarrow> string list \<Rightarrow> string list \<Rightarrow> verifiedCandidate list \<Rightarrow> DesiredRule \<Rightarrow> verifiedCandidate \<Rightarrow> bool" where
  "chosen jd ks seen cs r c \<longleftrightarrow> c \<in> set cs \<and> gr_ID (cd_grant c) \<notin> set ks \<and> dedup_key c \<notin> set seen \<and> jd (cd_grant c) = Inr (Inr r)"

lemma chosen_skip:
  "gr_ID (cd_grant a) \<in> set ks \<or> dedup_key a \<in> set seen \<Longrightarrow> chosen jd ks seen (a # cs) r c \<longleftrightarrow> chosen jd ks seen cs r c"
  "\<not> chosen jd ks seen [] r c"
  by (auto simp: chosen_def)

lemma reconcile_loop_sound:
  "reconcile_loop jd ks seen cs = Inr (rs, js) \<Longrightarrow> r \<in> set rs \<Longrightarrow> \<exists>c. chosen jd ks seen cs r c"
proof (induction rule: reconcile_loop_induct)
  case (Fresh seen c cs rs v)
  show ?case
  proof (cases "v = Inr r")
    case True
    then show ?thesis using Fresh by (auto simp: chosen_def)
  next
    case False
    then have "r \<in> set rs" using Fresh.prems by (cases v) auto
    then show ?thesis using Fresh.IH by (auto simp: chosen_def)
  qed
qed (simp, (metis chosen_skip(1))+)

text \<open>Candidates with the same key carry the same grant: then no verdict is lost.\<close>

definition key_fixes_grant :: "verifiedCandidate set \<Rightarrow> bool" where
  "key_fixes_grant A \<longleftrightarrow> (\<forall>c\<in>A. \<forall>d\<in>A. dedup_key c = dedup_key d \<longrightarrow> cd_grant c = cd_grant d)"

lemma key_fixes_tail: "key_fixes_grant (set (a # cs)) \<Longrightarrow> key_fixes_grant (set cs)"
  unfolding key_fixes_grant_def by (meson list.set_intros(2))

lemma reconcile_loop_complete:
  "reconcile_loop jd ks seen cs = Inr (rs, js) \<Longrightarrow> key_fixes_grant (set cs) \<Longrightarrow> chosen jd ks seen cs r c \<Longrightarrow> r \<in> set rs"
proof (induction rule: reconcile_loop_induct)
  case (Fresh seen a cs rs v)
  note kf = key_fixes_tail[OF Fresh.prems(1)]
  show ?case
  proof (cases "dedup_key c = dedup_key a")
    case True
    then have "cd_grant c = cd_grant a" using Fresh.prems unfolding key_fixes_grant_def chosen_def by (metis list.set_intros(1))
    then have "v = Inr r" using Fresh.hyps(3) Fresh.prems(2) by (simp add: chosen_def)
    then show ?thesis by simp
  next
    case False
    then have "chosen jd ks (dedup_key a # seen) cs r c" using Fresh.prems(2) by (auto simp: chosen_def)
    then have "r \<in> set rs" by (rule Fresh.IH[OF kf])
    then show ?thesis by (cases v) auto
  qed
qed (use key_fixes_tail chosen_skip in \<open>fastforce simp del: list.set\<close>)+

text \<open>Without conflicts every rule has a grant ID of its own.\<close>

definition id_fixes_key :: "string list \<Rightarrow> verifiedCandidate set \<Rightarrow> bool" where
  "id_fixes_key ks A \<longleftrightarrow> (\<forall>c\<in>A. \<forall>d\<in>A. gr_ID (cd_grant c) \<notin> set ks \<longrightarrow> gr_ID (cd_grant c) = gr_ID (cd_grant d) \<longrightarrow> dedup_key c = dedup_key d)"

lemma id_fixes_tail: "id_fixes_key ks (set (a # cs)) \<Longrightarrow> id_fixes_key ks (set cs)"
  unfolding id_fixes_key_def by (meson list.set_intros(2))

lemma reconcile_loop_ids:
  assumes run: "reconcile_loop jd ks seen cs = Inr (rs, js)"
    and jd: "\<And>(c :: verifiedCandidate) r. jd (cd_grant c) = Inr (Inr r) \<Longrightarrow> dr_GrantID r = gr_ID (cd_grant c)"
  shows "id_fixes_key ks (set cs) \<Longrightarrow> distinct (map dr_GrantID rs) \<and> (\<forall>q\<in>set rs. \<exists>c. chosen jd ks seen cs q c)"
  using run
proof (induction rule: reconcile_loop_induct)
  case (Fresh seen a cs rs v)
  have d: "distinct (map dr_GrantID rs)" and ch: "\<And>q. q \<in> set rs \<Longrightarrow> \<exists>c. chosen jd ks (dedup_key a # seen) cs q c"
    using Fresh.IH id_fixes_tail[OF Fresh.prems] by auto
  have "gr_ID (cd_grant a) \<noteq> dr_GrantID q" if "q \<in> set rs" for q
  proof
    assume e: "gr_ID (cd_grant a) = dr_GrantID q"
    obtain c where c: "chosen jd ks (dedup_key a # seen) cs q c" using ch \<open>q \<in> set rs\<close> by blast
    then have "gr_ID (cd_grant c) = gr_ID (cd_grant a)" using jd[of c q] e by (simp add: chosen_def)
    then have "dedup_key c = dedup_key a" using Fresh.prems c unfolding id_fixes_key_def chosen_def by (metis list.set_intros)
    then show False using c by (simp add: chosen_def)
  qed
  moreover have "chosen jd ks seen (a # cs) q c" if "chosen jd ks (dedup_key a # seen) cs q c" for q c
    using that by (simp add: chosen_def)
  moreover have "chosen jd ks seen (a # cs) r a" if "v = Inr r" for r
    using that Fresh.hyps by (simp add: chosen_def)
  ultimately show ?case using d ch jd Fresh.hyps(3) by (cases v) (auto, metis+)
next
  case (Conflict seen c cs rs)
  then show ?case using Conflict.IH[OF id_fixes_tail[OF Conflict.prems]] chosen_skip(1)[of c ks seen jd cs] by metis
next
  case (Seen seen c cs rs)
  then show ?case using Seen.IH[OF id_fixes_tail[OF Seen.prems]] chosen_skip(1)[of c ks seen jd cs] by metis
qed simp

section \<open>Failures\<close>

lemma isl_bind_r: "isl (bind_r x k) \<longleftrightarrow> isl x \<or> isl (k (projr x))"
  by (cases x) (simp_all add: bind_r_def)

lemma reconcile_loop_fails:
  "key_fixes_grant (set cs) \<Longrightarrow> isl (reconcile_loop jd ks seen cs) \<longleftrightarrow>
     (\<exists>c\<in>set cs. gr_ID (cd_grant c) \<notin> set ks \<and> dedup_key c \<notin> set seen \<and> isl (jd (cd_grant c)))"
proof (induction cs arbitrary: seen)
  case (Cons a cs)
  note kf = key_fixes_tail[OF Cons.prems]
  have no: "isl (case p of (rs, js) \<Rightarrow> Inr (f rs js)) = False" for p and f :: "_ \<Rightarrow> _ \<Rightarrow> DesiredRule list \<times> GrantRejection list"
    by (cases p) simp
  consider "gr_ID (cd_grant a) \<in> set ks" | "gr_ID (cd_grant a) \<notin> set ks" "dedup_key a \<in> set seen"
    | "gr_ID (cd_grant a) \<notin> set ks" "dedup_key a \<notin> set seen" by blast
  then show ?case
  proof cases
    case 1
    have "isl (reconcile_loop jd ks seen (a # cs)) = isl (reconcile_loop jd ks seen cs)"
      using 1 by (simp add: isl_bind_r split: prod.split)
    then show ?thesis using Cons.IH[OF kf, of seen] 1 by auto
  next
    case 2
    then show ?thesis using Cons.IH[OF kf, of seen] by auto
  next
    case 3
    have l: "isl (reconcile_loop jd ks seen (a # cs)) \<longleftrightarrow> isl (jd (cd_grant a)) \<or> isl (reconcile_loop jd ks (dedup_key a # seen) cs)"
      using 3 by (simp add: isl_bind_r split: prod.split sum.split)
    have same: "isl (jd (cd_grant c)) = isl (jd (cd_grant a))" if "c \<in> set cs" "dedup_key c = dedup_key a" for c
      using Cons.prems that unfolding key_fixes_grant_def by (metis list.set_intros)
    show ?thesis unfolding l Cons.IH[OF kf] using 3 same by (metis list.set_intros set_ConsD)
  qed
qed simp

section \<open>The rules\<close>

lemma judge_rule:
  "judge self services peers canReach version g = Inr (Inr r) \<longleftrightarrow>
     gr_TenantID g = ni_TenantID self \<and> gr_PolicyVersion g = version \<and> advertisementKey (gr_Service g) \<in> set services \<and>
     map_of peers (gr_GranteeID g) = Some (gr_GranteeMeshIP g) \<and> canReach (gr_GranteeID g) (ni_NodeID self) = Inr True \<and>
     r = \<lparr> dr_SourceMeshIP = gr_GranteeMeshIP g, dr_TargetMeshIP = ni_MeshIP self, dr_Protocol = ''tcp'',
       dr_Port = sa_Port (gr_Service g), dr_GrantID = gr_ID g, dr_ExpiresAt = gr_ExpiresAt g \<rparr>"
  by (auto simp: judge_def split: option.splits sum.splits)

lemma verifyGrantPayload_Inr:
  "verifyGrantPayload J sg (Some verify) now version = Inr g \<Longrightarrow>
     grant_authentic J verify sg g \<and> grant_ok g now \<and> version \<le> gr_PolicyVersion g"
  by (auto simp: verifyGrantPayload_def branch_simps grant_authentic_def validateGrant_None)

lemma validatedLocalServices_keys:
  "validatedLocalServices self ss = Inr keys \<Longrightarrow> k \<in> set keys \<Longrightarrow>
     \<exists>s\<in>set ss. k = advertisementKey s \<and> service_ok s \<and> sa_TargetNodeID s = ni_NodeID self \<and> sa_TargetMeshIP s = ni_MeshIP self \<and> sa_Platform s = ni_Platform self"
  by (induction ss arbitrary: keys) (auto simp: branch_simps validateService_None split: option.splits if_splits)

lemma validatedPeers_binding:
  "validatedPeers self seen ps = Inr out \<Longrightarrow> map_of out n = Some ip \<Longrightarrow>
     \<exists>mip a. (n, mip) \<in> set ps \<and> parse_addr mip = Some a \<and> isMeshAddr a \<and> ip = addr_string a \<and> n \<noteq> ni_NodeID self"
  by (induction self seen ps arbitrary: out rule: validatedPeers.induct) (fastforce simp: branch_simps split: option.splits if_splits)+

text \<open>What a rule rests on.\<close>

definition rule_backed ::
  "ra_json \<Rightarrow> verifier \<Rightarrow> TargetReconcileRequest \<Rightarrow> VerifiedPolicyState \<Rightarrow> DesiredRule \<Rightarrow> bool" where
  "rule_backed J verify req p r \<longleftrightarrow>
     (\<exists>canReach grants services peers sg g s mip a. tr_CanReach req = Some canReach \<and> tr_Grants req = Some grants \<and>
       tr_Services req = Some services \<and> tr_Peers req = Some peers \<and> sg \<in> set grants \<and>
       grant_authentic J verify sg g \<and> grant_ok g (vp_ObservedAt p) \<and>
       gr_TenantID g = ni_TenantID (tr_Self req) \<and> gr_PolicyVersion g = vp_Version p \<and>
       s \<in> set services \<and> same_coordinates s (gr_Service g) \<and> sa_TargetNodeID s = ni_NodeID (tr_Self req) \<and>
       sa_TargetMeshIP s = ni_MeshIP (tr_Self req) \<and>
       (gr_GranteeID g, mip) \<in> set peers \<and> parse_addr mip = Some a \<and> gr_GranteeMeshIP g = addr_string a \<and>
       canReach (gr_GranteeID g) (ni_NodeID (tr_Self req)) = Inr True \<and>
       r = \<lparr> dr_SourceMeshIP = gr_GranteeMeshIP g, dr_TargetMeshIP = ni_MeshIP (tr_Self req), dr_Protocol = ''tcp'',
         dr_Port = sa_Port s, dr_GrantID = gr_ID g, dr_ExpiresAt = gr_ExpiresAt g \<rparr>)"

lemma reconcile_grants_Inr:
  assumes "reconcile_grants C J verifier self keys bound canReach p grants = Inr r"
  shows "\<exists>rs js. reconcile_loop (judge self keys bound canReach (vp_Version p))
       (conflictingGrantIDs (fst (collect_candidates C J verifier (vp_ObservedAt p) (vp_Version p) 0 grants))) []
       (fst (collect_candidates C J verifier (vp_ObservedAt p) (vp_Version p) 0 grants)) = Inr (rs, js) \<and>
     rc_Rules r = sort_slice rule_less rs \<and> rc_PolicyVersion r = vp_Version p \<and> rc_PolicyEnabled r"
  using assms by (auto simp: reconcile_grants_def branch_simps split: prod.splits)

lemma candidate_ids:
  "id_fixes_key (conflictingGrantIDs cs) (set cs)"
  unfolding id_fixes_key_def conflicting_iff dedup_key_def by metis

lemma chosen_backed:
  assumes ch: "chosen (judge self keys bound canReach (vp_Version p)) ks [] (fst (collect_candidates C J (Some verify) (vp_ObservedAt p) (vp_Version p) 0 grants)) q c"
    and req: "tr_Self req = self" "tr_CanReach req = Some canReach" "tr_Services req = Some services" "tr_Peers req = Some peers" "tr_Grants req = Some grants"
    and keys: "validatedLocalServices self services = Inr keys" and bound: "validatedPeers self [] peers = Inr bound"
  shows "rule_backed J verify req p q"
proof -
  let ?g = "cd_grant c"
  obtain sg where sg: "sg \<in> set grants" and cand: "candidate_of C J (Some verify) (vp_ObservedAt p) (vp_Version p) sg c"
    using collect_candidates_sound ch unfolding chosen_def by blast
  have v: "verifyGrantPayload J sg (Some verify) (vp_ObservedAt p) (vp_Version p) = Inr ?g" using cand by (simp add: candidate_of_def)
  note g = verifyGrantPayload_Inr[OF v]
  have j: "judge self keys bound canReach (vp_Version p) ?g = Inr (Inr q)" using ch by (simp add: chosen_def)
  note J = j[unfolded judge_rule]
  obtain s where s: "s \<in> set services" "advertisementKey (gr_Service ?g) = advertisementKey s" "service_ok s"
    "sa_TargetNodeID s = ni_NodeID self" "sa_TargetMeshIP s = ni_MeshIP self"
    using validatedLocalServices_keys[OF keys] J by blast
  have ok: "service_ok (gr_Service ?g)" using g by (simp add: grant_ok_def)
  have sc: "same_coordinates s (gr_Service ?g)" using advertisementKey_inject[OF s(3) ok] s(2) by simp
  obtain mip a where m: "(gr_GranteeID ?g, mip) \<in> set peers" "parse_addr mip = Some a" "gr_GranteeMeshIP ?g = addr_string a"
    using validatedPeers_binding[OF bound] J by blast
  have port: "sa_Port s = sa_Port (gr_Service ?g)" using sc by (simp add: same_coordinates_def)
  show ?thesis unfolding rule_backed_def req
    by (rule exI[of _ canReach], rule exI[of _ grants], rule exI[of _ services], rule exI[of _ peers], rule exI[of _ sg],
        rule exI[of _ ?g], rule exI[of _ s], rule exI[of _ mip], rule exI[of _ a])
      (use sg g J s sc m port in simp)
qed

text \<open>A result is a disabled policy without rules, or the sorted rules of the loop.\<close>

lemma ReconcileTarget_cases:
  assumes "ReconcileTarget C J load advance req s = (Inr r, s')"
  shows "\<exists>verify canReach services peers grants keys bound p. tr_Verifier req = Some verify \<and> tr_CanReach req = Some canReach \<and>
     tr_Services req = Some services \<and> tr_Peers req = Some peers \<and> tr_Grants req = Some grants \<and>
     validatedLocalServices (tr_Self req) services = Inr keys \<and> validatedPeers (tr_Self req) [] peers = Inr bound \<and>
     accept_policy C J load advance (tr_SignedPolicy req) (Some verify) (ni_TenantID (tr_Self req)) (tr_Now req) s = (Inr p, s') \<and>
     (if vp_Enabled p then reconcile_grants C J (Some verify) (tr_Self req) keys bound canReach p grants = Inr r
      else r = \<lparr> rc_PolicyVersion = vp_Version p, rc_PolicyEnabled = False, rc_Rules = [], rc_Rejected = [] \<rparr>)"
proof -
  obtain verify canReach services peers grants where o: "tr_Verifier req = Some verify" "tr_CanReach req = Some canReach"
    "tr_Services req = Some services" "tr_Peers req = Some peers" "tr_Grants req = Some grants"
    using assms by (auto simp: ReconcileTarget_def split: option.splits)
  obtain keys where k: "validatedLocalServices (tr_Self req) services = Inr keys"
    using assms o by (auto simp: ReconcileTarget_def split: if_splits option.splits sum.splits)
  obtain bound where b: "validatedPeers (tr_Self req) [] peers = Inr bound"
    using assms o k by (auto simp: ReconcileTarget_def split: if_splits option.splits sum.splits)
  show ?thesis using assms o k b
    by (cases "accept_policy C J load advance (tr_SignedPolicy req) (Some verify) (ni_TenantID (tr_Self req)) (tr_Now req) s")
      (auto simp: ReconcileTarget_def split: if_splits option.splits sum.splits)
qed

context policy_floor_store
begin

lemma ReconcileTarget_Inr:
  assumes "ReconcileTarget C J load advance req s = (Inr r, s')"
  shows "\<exists>verify p. tr_Verifier req = Some verify \<and>
     policy_authentic C J verify (tr_SignedPolicy req) (ni_TenantID (tr_Self req)) p \<and>
     floors s' (ni_TenantID (tr_Self req)) = Some p \<and>
     observed_no_earlier (floors s (ni_TenantID (tr_Self req))) p (tr_Now req) \<and>
     rc_PolicyVersion r = vp_Version p \<and> rc_PolicyEnabled r = vp_Enabled p \<and>
     (rc_Rules r = [] \<or> vp_Enabled p) \<and> distinct (map dr_GrantID (rc_Rules r)) \<and>
     (\<forall>q\<in>set (rc_Rules r). rule_backed J verify req p q)"
proof -
  obtain verify canReach services peers grants keys bound p where o: "tr_Verifier req = Some verify" "tr_CanReach req = Some canReach"
    "tr_Services req = Some services" "tr_Peers req = Some peers" "tr_Grants req = Some grants"
    and kb: "validatedLocalServices (tr_Self req) services = Inr keys" "validatedPeers (tr_Self req) [] peers = Inr bound"
    and ac: "accept_policy C J load advance (tr_SignedPolicy req) (Some verify) (ni_TenantID (tr_Self req)) (tr_Now req) s = (Inr p, s')"
    and res: "if vp_Enabled p then reconcile_grants C J (Some verify) (tr_Self req) keys bound canReach p grants = Inr r
      else r = \<lparr> rc_PolicyVersion = vp_Version p, rc_PolicyEnabled = False, rc_Rules = [], rc_Rejected = [] \<rparr>"
    using ReconcileTarget_cases[OF assms] by blast
  note A = accept_policy_Inr[OF ac]
  show ?thesis
  proof (cases "vp_Enabled p")
    case False
    then show ?thesis using o(1) A res by auto
  next
    case True
    obtain rs js where loop: "reconcile_loop (judge (tr_Self req) keys bound canReach (vp_Version p))
       (conflictingGrantIDs (fst (collect_candidates C J (Some verify) (vp_ObservedAt p) (vp_Version p) 0 grants))) []
       (fst (collect_candidates C J (Some verify) (vp_ObservedAt p) (vp_Version p) 0 grants)) = Inr (rs, js)"
      and r: "rc_Rules r = sort_slice rule_less rs" "rc_PolicyVersion r = vp_Version p" "rc_PolicyEnabled r"
      using reconcile_grants_Inr res True by (metis (no_types, lifting))
    have ids: "dr_GrantID q = gr_ID (cd_grant c)" if "judge (tr_Self req) keys bound canReach (vp_Version p) (cd_grant c) = Inr (Inr q)" for c q
      using that by (auto simp: judge_rule)
    note I = reconcile_loop_ids[OF loop ids candidate_ids]
    have "rule_backed J verify req p q" if "q \<in> set rs" for q
      using reconcile_loop_sound[OF loop that] chosen_backed[OF _ refl o(2-5) kb] by blast
    moreover have "distinct (map dr_GrantID (sort_slice rule_less rs))"
      using I by (simp add: distinct_map)
    ultimately show ?thesis using o(1) A r True by auto
  qed
qed

end

text \<open>
  C27: firewall rules come only from signed, matching grants. If \<open>ReconcileTarget\<close>, run on the file
  store, succeeds, then the policy was signed for this tenant and is now the persisted floor,
  observed no earlier than the clock; there are no rules unless that policy is enabled; no two rules
  share a grant ID; and every rule comes from a grant of the request that the authority signed, that
  is in time at the observation, of this tenant and exactly this policy version, for a service this
  node advertises on its own identity and address, from a peer whose bound mesh address it carries
  and that may reach this node; the rule opens exactly that address, port and grant until the
  grant's expiry.
\<close>

theorem ReconcileTarget_rules:
  assumes "ReconcileTarget C J file_load (file_advance json_size) req s = (Inr r, s')"
  shows "\<exists>verify p. tr_Verifier req = Some verify \<and>
     policy_authentic C J verify (tr_SignedPolicy req) (ni_TenantID (tr_Self req)) p \<and>
     file_floors s' (ni_TenantID (tr_Self req)) = Some p \<and>
     observed_no_earlier (file_floors s (ni_TenantID (tr_Self req))) p (tr_Now req) \<and>
     rc_PolicyVersion r = vp_Version p \<and> rc_PolicyEnabled r = vp_Enabled p \<and>
     (rc_Rules r = [] \<or> vp_Enabled p) \<and> distinct (map dr_GrantID (rc_Rules r)) \<and>
     (\<forall>q\<in>set (rc_Rules r). rule_backed J verify req p q)"
  by (rule file_store.ReconcileTarget_Inr[OF assms])

section \<open>Order and repetition\<close>

text \<open>What a result decides: failure, or version, switch and rules.\<close>

definition decision :: "enforcement_error + ReconcileResult \<Rightarrow> (u64 \<times> bool \<times> DesiredRule list) option" where
  "decision x = (case x of Inl _ \<Rightarrow> None | Inr r \<Rightarrow> Some (rc_PolicyVersion r, rc_PolicyEnabled r, rc_Rules r))"

lemma rule_less_strict:
  assumes "distinct (map dr_GrantID rs)"
  shows "strict_on rule_less (set rs)"
proof -
  have "\<not> rule_less x x" for x by (simp add: rule_less_def)
  moreover have "rule_less x y \<Longrightarrow> rule_less y z \<Longrightarrow> rule_less x z" for x y z
    unfolding rule_less_def by (auto split: if_splits dest: less_trans)
  moreover have "rule_less x y \<or> rule_less y x" if "x \<in> set rs" "y \<in> set rs" "x \<noteq> y" for x y
  proof -
    have "dr_GrantID x \<noteq> dr_GrantID y" using assms that by (auto simp: distinct_map inj_on_def)
    then show ?thesis unfolding rule_less_def by (auto simp: neq_iff)
  qed
  ultimately show ?thesis unfolding strict_on_def by blast
qed

lemma dedup_key_eq:
  assumes "cd_fingerprint c = hex_encode a" "cd_fingerprint d = hex_encode b"
  shows "dedup_key c = dedup_key d \<longleftrightarrow> gr_ID (cd_grant c) = gr_ID (cd_grant d) \<and> a = b"
  unfolding dedup_key_def assms using nul_split_last[OF hex_no_nul hex_no_nul] hex_encode_inject by metis

lemma verifyGrantPayload_grant:
  "verifyGrantPayload J sg verifier now version = Inr g \<Longrightarrow> rd_grant J (sg_Payload sg) = Some g"
  by (auto simp: verifyGrantPayload_def branch_simps split: option.splits)

lemma candidates_key:
  assumes inj: "inj_on (sha256 C) (sg_Payload ` set gs)"
  shows "key_fixes_grant (set (fst (collect_candidates C J verifier now version 0 gs)))"
  unfolding key_fixes_grant_def
proof (intro ballI impI)
  let ?cs = "fst (collect_candidates C J verifier now version 0 gs)"
  fix c d assume "c \<in> set ?cs" "d \<in> set ?cs" and k: "dedup_key c = dedup_key d"
  then obtain a b where a: "a \<in> set gs" "candidate_of C J verifier now version a c"
    and b: "b \<in> set gs" "candidate_of C J verifier now version b d"
    using collect_candidates_sound by meson
  have "sha256 C (sg_Payload a) = sha256 C (sg_Payload b)"
    using k a(2) b(2) dedup_key_eq by (auto simp: candidate_of_def)
  then have "sg_Payload a = sg_Payload b" using inj a(1) b(1) by (auto simp: inj_on_def)
  then show "cd_grant c = cd_grant d"
    using a(2) b(2) verifyGrantPayload_grant unfolding candidate_of_def by (metis option.inject)
qed

text \<open>The grants and digests of the candidates depend only on which grants there are.\<close>

definition contents :: "verifiedCandidate list \<Rightarrow> (Grant \<times> string) set" where
  "contents cs = (\<lambda>c. (cd_grant c, cd_fingerprint c)) ` set cs"

lemma candidates_contents:
  "contents (fst (collect_candidates C J verifier now version i gs)) =
     {(g, hex_encode (sha256 C (sg_Payload sg))) | sg g. sg \<in> set gs \<and> verifyGrantPayload J sg verifier now version = Inr g}"
proof (intro set_eqI iffI)
  fix x assume "x \<in> contents (fst (collect_candidates C J verifier now version i gs))"
  then obtain c where c: "c \<in> set (fst (collect_candidates C J verifier now version i gs))" "x = (cd_grant c, cd_fingerprint c)"
    by (auto simp: contents_def)
  from collect_candidates_sound[OF c(1)] c(2)
  show "x \<in> {(g, hex_encode (sha256 C (sg_Payload sg))) | sg g. sg \<in> set gs \<and> verifyGrantPayload J sg verifier now version = Inr g}"
    by (auto simp: candidate_of_def)
next
  fix x assume "x \<in> {(g, hex_encode (sha256 C (sg_Payload sg))) | sg g. sg \<in> set gs \<and> verifyGrantPayload J sg verifier now version = Inr g}"
  then obtain sg g where x: "x = (g, hex_encode (sha256 C (sg_Payload sg)))" "sg \<in> set gs" "verifyGrantPayload J sg verifier now version = Inr g"
    by blast
  from collect_candidates_complete[OF x(2,3)] obtain c where "c \<in> set (fst (collect_candidates C J verifier now version i gs))"
    "cd_grant c = g" "cd_fingerprint c = hex_encode (sha256 C (sg_Payload sg))" by meson
  then show "x \<in> contents (fst (collect_candidates C J verifier now version i gs))"
    unfolding contents_def x(1) by force
qed

lemma conflicting_contents:
  "i \<in> set (conflictingGrantIDs cs) \<longleftrightarrow> (\<exists>x\<in>contents cs. \<exists>y\<in>contents cs. gr_ID (fst x) = i \<and> gr_ID (fst y) = i \<and> snd x \<noteq> snd y)"
  unfolding conflicting_iff contents_def by simp

lemma loop_contents:
  assumes c: "contents cs = contents cs'" and kf: "key_fixes_grant (set cs)" "key_fixes_grant (set cs')"
    and run: "reconcile_loop jd (conflictingGrantIDs cs) [] cs = Inr (rs, js)"
    and ids: "\<And>(c :: verifiedCandidate) r. jd (cd_grant c) = Inr (Inr r) \<Longrightarrow> dr_GrantID r = gr_ID (cd_grant c)"
  shows "\<exists>rs' js'. reconcile_loop jd (conflictingGrantIDs cs') [] cs' = Inr (rs', js') \<and> sort_slice rule_less rs' = sort_slice rule_less rs"
proof -
  have ks: "set (conflictingGrantIDs cs) = set (conflictingGrantIDs cs')"
    by (rule set_eqI) (simp add: conflicting_contents c)
  have mem: "\<exists>d\<in>set cs'. cd_grant d = cd_grant a" if "a \<in> set cs" for a
  proof -
    have "(cd_grant a, cd_fingerprint a) \<in> contents cs'" using that c unfolding contents_def by blast
    then show ?thesis unfolding contents_def by auto
  qed
  have mem': "\<exists>d\<in>set cs. cd_grant d = cd_grant a" if "a \<in> set cs'" for a
  proof -
    have "(cd_grant a, cd_fingerprint a) \<in> contents cs" using that c unfolding contents_def by blast
    then show ?thesis unfolding contents_def by auto
  qed
  have "\<not> isl (reconcile_loop jd (conflictingGrantIDs cs) [] cs)" using run by simp
  then have "\<not> isl (reconcile_loop jd (conflictingGrantIDs cs') [] cs')"
    unfolding reconcile_loop_fails[OF kf(1)] reconcile_loop_fails[OF kf(2)] ks using mem' by (metis list.set(1) empty_iff)
  then obtain rs' js' where run': "reconcile_loop jd (conflictingGrantIDs cs') [] cs' = Inr (rs', js')"
    by (cases "reconcile_loop jd (conflictingGrantIDs cs') [] cs'") auto
  have ch: "(\<exists>a. chosen jd (conflictingGrantIDs cs) [] cs r a) \<longleftrightarrow> (\<exists>a. chosen jd (conflictingGrantIDs cs') [] cs' r a)" for r
    unfolding chosen_def ks using mem mem' by (metis list.set(1) empty_iff)
  have rs: "set rs' = set rs"
    using reconcile_loop_sound[OF run] reconcile_loop_complete[OF run kf(1)] reconcile_loop_sound[OF run'] reconcile_loop_complete[OF run' kf(2)] ch
    by blast
  have d: "distinct (map dr_GrantID rs)" "distinct (map dr_GrantID rs')"
    using reconcile_loop_ids[OF run ids candidate_ids] reconcile_loop_ids[OF run' ids candidate_ids] by simp_all
  note st = rule_less_strict[OF d(1)] rule_less_strict[OF d(2)]
  have "sort_slice rule_less rs' = sort_slice rule_less rs"
    by (rule sorted_wrt_unique)
      (use st d rs in \<open>auto intro!: sorted_sort_slice simp: distinct_map\<close>)
  then show ?thesis using run' by blast
qed

lemma reconcile_grants_decides:
  assumes run: "reconcile_grants C J verifier self keys bound canReach p gs = Inr r"
    and set: "set gs = set gs'" and inj: "inj_on (sha256 C) (sg_Payload ` set gs)"
  shows "decision (reconcile_grants C J verifier self keys bound canReach p gs') = decision (Inr r)"
proof -
  let ?cs = "\<lambda>gs. fst (collect_candidates C J verifier (vp_ObservedAt p) (vp_Version p) 0 gs)"
  obtain rs js where loop: "reconcile_loop (judge self keys bound canReach (vp_Version p)) (conflictingGrantIDs (?cs gs)) [] (?cs gs) = Inr (rs, js)"
    and r: "rc_Rules r = sort_slice rule_less rs" "rc_PolicyVersion r = vp_Version p" "rc_PolicyEnabled r"
    using reconcile_grants_Inr[OF run] by blast
  have c: "contents (?cs gs) = contents (?cs gs')" by (simp add: candidates_contents set)
  have ids: "dr_GrantID q = gr_ID (cd_grant c)" if "judge self keys bound canReach (vp_Version p) (cd_grant c) = Inr (Inr q)" for c q
    using that by (auto simp: judge_rule)
  obtain rs' js' where "reconcile_loop (judge self keys bound canReach (vp_Version p)) (conflictingGrantIDs (?cs gs')) [] (?cs gs') = Inr (rs', js')"
    "sort_slice rule_less rs' = sort_slice rule_less rs"
    using loop_contents[OF c candidates_key[OF inj] candidates_key[OF inj[unfolded set]] loop ids] by blast
  then show ?thesis using r
    by (cases "collect_candidates C J verifier (vp_ObservedAt p) (vp_Version p) 0 gs'") (simp add: reconcile_grants_def decision_def)
qed

lemma reconcile_grants_order:
  assumes set: "set gs = set gs'" and inj: "inj_on (sha256 C) (sg_Payload ` set gs)"
  shows "decision (reconcile_grants C J verifier self keys bound canReach p gs) = decision (reconcile_grants C J verifier self keys bound canReach p gs')"
proof (cases "reconcile_grants C J verifier self keys bound canReach p gs")
  case (Inr r)
  then show ?thesis using reconcile_grants_decides[OF Inr set inj] by simp
next
  case (Inl e)
  show ?thesis
  proof (cases "reconcile_grants C J verifier self keys bound canReach p gs'")
    case (Inr r)
    then show ?thesis using reconcile_grants_decides[OF Inr set[symmetric] inj[unfolded set]] by simp
  next
    case (Inl e')
    then show ?thesis using \<open>reconcile_grants C J verifier self keys bound canReach p gs = Inl e\<close> by (simp add: decision_def)
  qed
qed

text \<open>
  C28: the order and the repetition of grants do not matter. Two requests that differ only in the order
  and the number of copies of their signed grants, both within the limit, leave the store in the
  same state and either both fail or have the same rules in the same order, whatever the store,
  provided SHA-256 does not collide on the payloads of the request.
\<close>

theorem ReconcileTarget_order:
  assumes "set gs = set gs'" "length gs \<le> MaxReconcileGrants" "length gs' \<le> MaxReconcileGrants"
    and "inj_on (sha256 C) (sg_Payload ` set gs)"
  shows "map_prod decision id (ReconcileTarget C J load advance (req\<lparr>tr_Grants := Some gs\<rparr>) s) =
         map_prod decision id (ReconcileTarget C J load advance (req\<lparr>tr_Grants := Some gs'\<rparr>) s)"
  using assms reconcile_grants_order[OF assms(1,4)]
  by (auto simp: ReconcileTarget_def decision_def split: option.split sum.split prod.split)

section \<open>A reconciliation in small\<close>

definition sample_signed :: SignedGrant where
  "sample_signed = \<lparr> sg_Grant = sample_grant, sg_Payload = [1], sg_Signature = [7] \<rparr>"

definition sample_forged :: SignedGrant where
  "sample_forged = \<lparr> sg_Grant = sample_grant, sg_Payload = [3], sg_Signature = [8] \<rparr>"

definition sample_target :: TargetReconcileRequest where
  "sample_target =
     \<lparr> tr_Self = \<lparr> ni_TenantID = ''x'', ni_NodeID = ''t'', ni_MeshIP = ''100.64.0.2'', ni_Platform = ''linux'' \<rparr>,
       tr_Services = Some [sample_service], tr_Peers = Some [(''s'', ''100.64.0.1'')], tr_CanReach = Some (\<lambda>_ _. Inr True),
       tr_Verifier = Some sample_verify, tr_SignedPolicy = \<lparr> sp_Payload = [2], sp_Signature = [7] \<rparr>, tr_Now = 5,
       tr_Grants = Some [sample_signed, sample_forged] \<rparr>"

definition sample_reconciled :: "(enforcement_error + ReconcileResult) \<times> FilePolicyFloorStore" where
  "sample_reconciled = ReconcileTarget sample_crypto sample_json file_load (file_advance (\<lambda>_. Some 100)) sample_target sample_store"

lemma sample_rules: "map_option (\<lambda>(v, e, rs). map dr_GrantID rs) (decision (fst sample_reconciled)) = Some [''g'']"
  by code_simp

lemma ReconcileTarget_rules_witness:
  "\<exists>r q p. fst sample_reconciled = Inr r \<and> q \<in> set (rc_Rules r) \<and> rule_backed sample_json sample_verify sample_target p q"
proof -
  obtain r where r: "fst sample_reconciled = Inr r" "map dr_GrantID (rc_Rules r) = [''g'']"
    using sample_rules by (auto simp: decision_def split: sum.splits)
  have "ReconcileTarget sample_crypto sample_json file_load (file_advance (\<lambda>_. Some 100)) sample_target sample_store
      = (Inr r, snd sample_reconciled)"
    using r(1) by (metis prod.collapse sample_reconciled_def)
  from ReconcileTarget_rules[OF this] obtain p where "\<forall>q\<in>set (rc_Rules r). rule_backed sample_json sample_verify sample_target p q"
    by (auto simp: sample_target_def)
  then show ?thesis using r by (metis list.set_intros(1) map_eq_Cons_D)
qed

lemma sample_payloads: "inj_on (sha256 sample_crypto) (sg_Payload ` set [sample_signed, sample_forged])"
proof -
  have "sha256 sample_crypto [1] \<noteq> sha256 sample_crypto [3]" by code_simp
  then show ?thesis by (auto simp: sample_signed_def sample_forged_def)
qed

lemma ReconcileTarget_order_witness:
  "map_prod decision id (ReconcileTarget sample_crypto sample_json file_load (file_advance (\<lambda>_. Some 100))
     (sample_target\<lparr>tr_Grants := Some [sample_signed, sample_forged]\<rparr>) sample_store) =
   map_prod decision id (ReconcileTarget sample_crypto sample_json file_load (file_advance (\<lambda>_. Some 100))
     (sample_target\<lparr>tr_Grants := Some [sample_forged, sample_signed, sample_signed]\<rparr>) sample_store)"
  by (rule ReconcileTarget_order[OF _ _ _ sample_payloads]) (auto simp: MaxReconcileGrants_def)

end
