(* ===== verification/DM_Target.thy ===== *)
theory DM_Target
  imports RA_Reconcile NG_Firewall SG_Sign
begin

text \<open>
  The daemon's remote-access boundary: \<open>internal/daemon/remote_access_target_policy.go\<close>, which derives the
  desired target policy from a netmap (signed policy, target state, grants), and
  \<open>remote_target_firewall.go\<close>, which composes it with the exit's kill switch into one firewall policy and
  replaces it when a grant expires. The policy floor store, the firewall and the clock are outside: the
  store is passed as its two calls, an \<open>Apply\<close> of the firewall is answered, times are arguments.
\<close>

section \<open>Netmaps\<close>

record PQSession =
  pq_InitiatorID :: string
  pq_RecipientID :: string
  pq_Epoch :: u64
  pq_Ciphertext :: bytes
  pq_Signature :: bytes

record Netmap =
  nm_Version :: u64
  nm_Self :: Node
  nm_Peers :: "Node list"
  nm_PQSessions :: "PQSession list"
  nm_Relays :: "string list"
  nm_RemoteAccessPolicyVersion :: u64
  nm_RemoteAccessPolicyState :: signed_payload
  nm_RemoteAccessTargetState :: signed_payload
  nm_RemoteAccessGrants :: "SignedGrant list"

section \<open>The derived policy\<close>

datatype dm_error =
    DependencyUnavailable | BindingInvalid | VersionMismatch | InputExceedsLimit
  | DmRemote ra_error | DmEnforcement enforcement_error

datatype remoteTargetPolicyErrorCode =
    remoteTargetPolicyDependency | remoteTargetPolicySignature | remoteTargetPolicyBinding
  | remoteTargetPolicyLimit | remoteTargetPolicyStorage | remoteTargetPolicyReconcile

type_synonym remoteTargetPolicyError = "remoteTargetPolicyErrorCode \<times> dm_error"

record remoteTargetPolicy =
  rp_Required :: bool
  rp_Enabled :: bool
  rp_TunnelInterface :: string
  rp_ManagedTCPPorts :: "u16 list"
  rp_Rules :: "DesiredRule list"
  rp_NearestExpiry :: time
  rp_PolicyVersion :: u64

definition closedRemoteTargetPolicy :: "bool \<Rightarrow> u16 list \<Rightarrow> u64 \<Rightarrow> remoteTargetPolicy" where
  "closedRemoteTargetPolicy required managed version =
     \<lparr> rp_Required = required, rp_Enabled = required, rp_TunnelInterface = [], rp_ManagedTCPPorts = managed,
       rp_Rules = [], rp_NearestExpiry = zero_time, rp_PolicyVersion = version \<rparr>"

record Candidate =
  ca_Kind :: ServiceKind
  ca_Port :: u16
  ca_Label :: string

definition MaxCandidates :: nat where "MaxCandidates = 10"

definition DefaultCandidates :: "Platform \<Rightarrow> Candidate list" where
  "DefaultCandidates platform =
     (if platform = PlatformMacOS \<or> platform = PlatformLinux then
        [\<lparr> ca_Kind = KindSSH, ca_Port = 22, ca_Label = ''SSH'' \<rparr>, \<lparr> ca_Kind = KindVNC, ca_Port = 5900, ca_Label = ''VNC'' \<rparr>]
      else if platform = PlatformWindows then
        [\<lparr> ca_Kind = KindSSH, ca_Port = 22, ca_Label = ''SSH'' \<rparr>, \<lparr> ca_Kind = KindRDP, ca_Port = 3389, ca_Label = ''RDP'' \<rparr>]
      else [])"

text \<open>What the daemon brings: a \<open>nil\<close> candidate list is not an empty one.\<close>

record Daemon =
  dm_Candidates :: "Candidate list option"
  dm_VerifyKey :: bytes
  dm_Platform :: Platform
  dm_GOOS :: string
  dm_HasStore :: bool
  dm_FirewallCapable :: bool
  dm_EngineInterface :: "string option"

definition remoteAccessPlatformForGOOS :: "string \<Rightarrow> Platform option" where
  "remoteAccessPlatformForGOOS goos =
     (if goos = ''darwin'' then Some PlatformMacOS else if goos = ''windows'' then Some PlatformWindows
      else if goos = ''linux'' then Some PlatformLinux else None)"

definition remoteAccessTenantID :: "crypto \<Rightarrow> (string \<Rightarrow> string) \<Rightarrow> string \<Rightarrow> string" where
  "remoteAccessTenantID C lower user = ''tenant-'' @ hex_encode (take 6 (sha256 C (str_bytes (lower user))))"

text \<open>The keys of a set of ports, sorted.\<close>

definition sortedRemoteTargetPorts :: "u16 list \<Rightarrow> u16 list" where
  "sortedRemoteTargetPorts ports = sort (remdups ports)"

fun check_candidates :: "Platform \<Rightarrow> Candidate list \<Rightarrow> ra_error option" where
  "check_candidates platform [] = None"
| "check_candidates platform (c # cs) =
     (case validateService \<lparr> sa_Kind = ca_Kind c, sa_Port = ca_Port c, sa_Platform = platform, sa_Label = ''managed'',
         sa_TargetNodeID = ''candidate'', sa_TargetMeshIP = ''100.64.0.1'' \<rparr> of
        Some e \<Rightarrow> Some e | None \<Rightarrow> check_candidates platform cs)"

definition remoteTargetCandidatePorts :: "Candidate list option \<Rightarrow> Platform \<Rightarrow> dm_error + u16 list" where
  "remoteTargetCandidatePorts configured platform =
     (let candidates = (case configured of None \<Rightarrow> DefaultCandidates platform | Some cs \<Rightarrow> cs) in
      if MaxCandidates < length candidates then Inl InputExceedsLimit
      else case check_candidates platform candidates of Some e \<Rightarrow> Inl (DmRemote e)
        | None \<Rightarrow> Inr (sortedRemoteTargetPorts (map ca_Port candidates)))"

definition remoteTargetIdentity :: "Node \<Rightarrow> string \<Rightarrow> Platform \<Rightarrow> dm_error + NodeIdentity" where
  "remoteTargetIdentity self tenantID expectedPlatform =
     (case nd_MeshIPs self of [] \<Rightarrow> Inl BindingInvalid
      | meshIP # _ \<Rightarrow>
        if tenantID = [] \<or> nd_ID self = [] \<or> \<not> addr_valid meshIP \<or> nd_Platform self \<noteq> expectedPlatform then Inl BindingInvalid
        else if nd_Platform self \<in> {PlatformMacOS, PlatformWindows, PlatformLinux} then
          Inr \<lparr> ni_TenantID = tenantID, ni_NodeID = nd_ID self, ni_MeshIP = addr_string meshIP, ni_Platform = nd_Platform self \<rparr>
        else Inl BindingInvalid)"

fun managed_services_loop :: "NodeIdentity \<Rightarrow> u16 list \<Rightarrow> ServiceAdvertisement list \<Rightarrow> dm_error + u16 list" where
  "managed_services_loop self ports [] = Inr (sortedRemoteTargetPorts ports)"
| "managed_services_loop self ports (s # ss) =
     (case validateService s of Some e \<Rightarrow> Inl (DmRemote e)
      | None \<Rightarrow> if sa_TargetNodeID s \<noteq> ni_NodeID self \<or> sa_TargetMeshIP s \<noteq> ni_MeshIP self \<or> sa_Platform s \<noteq> ni_Platform self
          then Inl BindingInvalid else managed_services_loop self (ports @ [sa_Port s]) ss)"

definition remoteTargetManagedPorts :: "u16 list \<Rightarrow> NodeIdentity \<Rightarrow> ServiceAdvertisement list \<Rightarrow> dm_error + u16 list" where
  "remoteTargetManagedPorts candidatePorts self services =
     (if list_ex (\<lambda>p. p = 0) candidatePorts then Inl BindingInvalid else managed_services_loop self candidatePorts services)"

fun remoteTargetPeers_loop :: "string \<Rightarrow> (string, string) gomap \<Rightarrow> (addr, string) gomap \<Rightarrow> Node list \<Rightarrow> dm_error + (string, string) gomap" where
  "remoteTargetPeers_loop selfID peers seen [] = Inr peers"
| "remoteTargetPeers_loop selfID peers seen (n # ns) =
     (case nd_MeshIPs n of [] \<Rightarrow> Inl BindingInvalid
      | meshIP # _ \<Rightarrow>
        if nd_ID n = [] \<or> nd_ID n = selfID then Inl BindingInvalid
        else if map_has peers (nd_ID n) then Inl BindingInvalid
        else if \<not> addr_valid meshIP then Inl BindingInvalid
        else if (case map_of seen meshIP of None \<Rightarrow> False | Some other \<Rightarrow> other \<noteq> nd_ID n) then Inl BindingInvalid
        else remoteTargetPeers_loop selfID (AList.update (nd_ID n) (addr_string meshIP) peers) (AList.update meshIP (nd_ID n) seen) ns)"

definition remoteTargetPeers :: "string \<Rightarrow> Node list \<Rightarrow> dm_error + (string, string) gomap" where
  "remoteTargetPeers selfNodeID nodes = remoteTargetPeers_loop selfNodeID [] [] nodes"

definition can_reach :: "NodeIdentity \<Rightarrow> (string, string) gomap \<Rightarrow> string \<Rightarrow> string \<Rightarrow> ra_error + bool" where
  "can_reach self peers sourceNodeID targetNodeID =
     (if targetNodeID \<noteq> ni_NodeID self then Inr False else Inr (map_has peers sourceNodeID))"

definition nearest_expiry :: "DesiredRule list \<Rightarrow> time" where
  "nearest_expiry rules =
     foldl (\<lambda>t r. if is_zero_time t \<or> dr_ExpiresAt r < t then dr_ExpiresAt r else t) zero_time rules"

section \<open>Deriving the target policy\<close>

type_synonym 's derived = "(remoteTargetPolicy \<times> remoteTargetPolicyError option) \<times> 's"

definition targetPolicyError ::
  "remoteTargetPolicy \<Rightarrow> remoteTargetPolicyErrorCode \<Rightarrow> dm_error \<Rightarrow> 's \<Rightarrow> 's derived" where
  "targetPolicyError closed kind cause s = ((closed, Some (kind, cause)), s)"

definition target_request ::
  "crypto \<Rightarrow> bytes \<Rightarrow> Netmap \<Rightarrow> NodeIdentity \<Rightarrow> (string, string) gomap \<Rightarrow> time \<Rightarrow> TargetReconcileRequest" where
  "target_request C key nm self peers now =
     \<lparr> tr_Self = self, tr_Services = Some (nd_RemoteServices (nm_Self nm)), tr_Peers = Some peers,
       tr_CanReach = Some (can_reach self peers), tr_Verifier = Some (Ed25519Verifier C key),
       tr_SignedPolicy = nm_RemoteAccessPolicyState nm, tr_Now = now, tr_Grants = Some (nm_RemoteAccessGrants nm) \<rparr>"

text \<open>From the limits on: identity, managed ports, peers, reconciliation.\<close>

definition derive_rules ::
  "crypto \<Rightarrow> ra_json \<Rightarrow> 's store_load \<Rightarrow> 's store_advance \<Rightarrow> Daemon \<Rightarrow> Platform \<Rightarrow> u16 list \<Rightarrow> string \<Rightarrow> u64 \<Rightarrow> time \<Rightarrow>
   Netmap \<Rightarrow> 's \<Rightarrow> 's derived" where
  "derive_rules C J load advance d platform ports tenantID version trustedNow nm s =
    (let closed = closedRemoteTargetPolicy True ports version in
     if MaxReconcilePeers < length (nm_Peers nm) \<or> MaxReconcileServices < length (nd_RemoteServices (nm_Self nm)) \<or>
        MaxReconcileGrants < length (nm_RemoteAccessGrants nm) then targetPolicyError closed remoteTargetPolicyLimit InputExceedsLimit s
     else case remoteTargetIdentity (nm_Self nm) tenantID platform of
       Inl e \<Rightarrow> targetPolicyError closed remoteTargetPolicyBinding e s
     | Inr self \<Rightarrow>
     (case remoteTargetManagedPorts ports self (nd_RemoteServices (nm_Self nm)) of
       Inl e \<Rightarrow> targetPolicyError closed remoteTargetPolicyBinding e s
     | Inr managed \<Rightarrow>
     (let closed = closed\<lparr>rp_ManagedTCPPorts := managed\<rparr> in
     case remoteTargetPeers (nd_ID (nm_Self nm)) (nm_Peers nm) of
       Inl e \<Rightarrow> targetPolicyError closed remoteTargetPolicyBinding e s
     | Inr peers \<Rightarrow>
     (case ReconcileTarget C J load advance (target_request C (dm_VerifyKey d) nm self peers trustedNow) s of
       (Inl e, s) \<Rightarrow> targetPolicyError closed remoteTargetPolicyReconcile (DmEnforcement e) s
     | (Inr result, s) \<Rightarrow>
         if \<not> rc_PolicyEnabled result \<or> rc_PolicyVersion result \<noteq> version
         then targetPolicyError closed remoteTargetPolicyBinding VersionMismatch s
         else ((closed\<lparr>rp_Rules := rc_Rules result, rp_NearestExpiry := nearest_expiry (rc_Rules result)\<rparr>, None), s)))))"

definition local_platform :: "Daemon \<Rightarrow> Platform" where
  "local_platform d =
     (if dm_Platform d = [] then (case remoteAccessPlatformForGOOS (dm_GOOS d) of Some p \<Rightarrow> p | None \<Rightarrow> []) else dm_Platform d)"

definition deriveRemoteTargetPolicy ::
  "crypto \<Rightarrow> ra_json \<Rightarrow> (string \<Rightarrow> string) \<Rightarrow> 's store_load \<Rightarrow> 's store_advance \<Rightarrow> Daemon \<Rightarrow> Netmap \<Rightarrow> time \<Rightarrow> 's \<Rightarrow> 's derived" where
  "deriveRemoteTargetPolicy C J lower load advance d nm now s =
    (case remoteTargetCandidatePorts (dm_Candidates d) (local_platform d) of
       Inl e \<Rightarrow> targetPolicyError (closedRemoteTargetPolicy True [] 0) remoteTargetPolicyBinding e s
     | Inr ports \<Rightarrow>
     (let closed = closedRemoteTargetPolicy True ports in
     if dm_VerifyKey d = [] \<or> \<not> dm_HasStore d \<or> is_zero_time now
     then targetPolicyError (closed 0) remoteTargetPolicyDependency DependencyUnavailable s
     else let tenantID = remoteAccessTenantID C lower (nd_User (nm_Self nm));
              verifier = Some (Ed25519Verifier C (dm_VerifyKey d)) in
     case PolicyTimeFloor load tenantID now s of
       (Inl e, s) \<Rightarrow> targetPolicyError (closed 0) remoteTargetPolicyStorage (DmRemote e) s
     | (Inr trustedNow, s) \<Rightarrow>
     (case VerifyPolicyState C J (nm_RemoteAccessPolicyState nm) verifier tenantID trustedNow of
       Inl e \<Rightarrow> targetPolicyError (closed 0) remoteTargetPolicySignature (DmRemote e) s
     | Inr verified \<Rightarrow>
     (case load tenantID s of
       (Inl e, s) \<Rightarrow> targetPolicyError (closed 0) remoteTargetPolicyStorage (DmRemote e) s
     | (Inr current, s) \<Rightarrow>
     (case ObservePolicyAt verified current now of
       Inl e \<Rightarrow> targetPolicyError (closed 0) remoteTargetPolicyStorage (DmRemote e) s
     | Inr policy \<Rightarrow>
     (case advance policy s of
       (Some e, s) \<Rightarrow> targetPolicyError (closed (vp_Version policy)) remoteTargetPolicyStorage (DmRemote e) s
     | (None, s) \<Rightarrow>
         if vp_Version policy \<noteq> nm_RemoteAccessPolicyVersion nm
         then targetPolicyError (closed (vp_Version policy)) remoteTargetPolicyBinding VersionMismatch s
         else if \<not> vp_Enabled policy then ((closedRemoteTargetPolicy False [] (vp_Version policy), None), s)
         else (case VerifyTargetState J (nm_RemoteAccessTargetState nm) verifier policy (nd_ID (nm_Self nm)) (vp_ObservedAt policy) of
           Inl e \<Rightarrow> targetPolicyError (closed (vp_Version policy)) remoteTargetPolicySignature (DmRemote e) s
         | Inr target \<Rightarrow>
             if \<not> ts_Enabled target \<or> ports = [] then ((closedRemoteTargetPolicy False [] (vp_Version policy), None), s)
             else derive_rules C J load advance d (local_platform d) ports tenantID (vp_Version policy) (vp_ObservedAt policy) nm s)))))))"

section \<open>The firewall policy\<close>

datatype compose_error =
    FirewallUnavailable | NoManagedBoundary | BadTargetAddress | NoTunnelInterface | BadManagedPort
  | BadRuleSource | BadRuleTarget | BadRuleBinding | PolicyInvalid ng_error

definition remoteMeshIPv4 :: prefix where "remoteMeshIPv4 = Pfx (V4 0x64400000) 10"
definition remoteMeshIPv6 :: prefix where "remoteMeshIPv6 = Pfx (V6 (push_bit 120 0xfd) []) 8"

definition remoteTunnelInterface :: "Daemon \<Rightarrow> Policy \<Rightarrow> string" where
  "remoteTunnelInterface d base =
     (if po_TunnelInterface base \<noteq> [] then po_TunnelInterface base
      else case dm_EngineInterface d of Some name \<Rightarrow> name | None \<Rightarrow> [])"

fun compose_services :: "addr \<Rightarrow> u16 list \<Rightarrow> compose_error + ManagedService list" where
  "compose_services target [] = Inr []"
| "compose_services target (port # ports) =
     (if port = 0 then Inl BadManagedPort
      else bind_r (compose_services target ports) (\<lambda>ss. Inr (\<lparr> ms_TargetMeshIP = target, ms_TCPPort = port \<rparr> # ss)))"

definition compose_rule :: "addr \<Rightarrow> DesiredRule \<Rightarrow> compose_error + RemoteAccessRule" where
  "compose_rule target r =
     (case parse_addr (dr_SourceMeshIP r) of None \<Rightarrow> Inl BadRuleSource | Some source \<Rightarrow>
      case parse_addr (dr_TargetMeshIP r) of None \<Rightarrow> Inl BadRuleTarget | Some ruleTarget \<Rightarrow>
      if dr_Protocol r \<noteq> ''tcp'' \<or> dr_Port r = 0 \<or> unmap ruleTarget \<noteq> target then Inl BadRuleBinding
      else Inr \<lparr> rr_SourceMeshIP = unmap source, rr_TargetMeshIP = unmap ruleTarget, rr_TCPPort = dr_Port r \<rparr>)"

fun compose_rules :: "addr \<Rightarrow> DesiredRule list \<Rightarrow> compose_error + RemoteAccessRule list" where
  "compose_rules target [] = Inr []"
| "compose_rules target (r # rs) =
     bind_r (compose_rule target r) (\<lambda>rule. bind_r (compose_rules target rs) (\<lambda>rules. Inr (rule # rules)))"

definition without_remote :: "Policy \<Rightarrow> Policy" where
  "without_remote p = p\<lparr>po_RemoteEnforcement := False, po_ManagedServices := [], po_RemoteAccessRules := [], po_RemoteMeshPrefixes := []\<rparr>"

text \<open>An error comes without a policy: no caller looks at the policy then.\<close>

definition composeRemoteTargetPolicy :: "Daemon \<Rightarrow> Policy \<Rightarrow> remoteTargetPolicy \<Rightarrow> Node \<Rightarrow> compose_error + Policy" where
  "composeRemoteTargetPolicy d base0 target self =
    (let base = without_remote base0 in
     if \<not> rp_Required target then Inr base
     else if \<not> dm_FirewallCapable d then Inl FirewallUnavailable
     else if rp_ManagedTCPPorts target = [] \<or> nd_MeshIPs self = [] \<or> \<not> addr_valid (hd (nd_MeshIPs self)) then Inl NoManagedBoundary
     else let targetIP = unmap (hd (nd_MeshIPs self)) in
     if \<not> pfx_contains remoteMeshIPv4 targetIP \<and> \<not> pfx_contains remoteMeshIPv6 targetIP then Inl BadTargetAddress
     else let interface = remoteTunnelInterface d base in
     if interface = [] then Inl NoTunnelInterface
     else
     bind_r (compose_services targetIP (rp_ManagedTCPPorts target)) (\<lambda>services.
     bind_r (compose_rules targetIP (rp_Rules target)) (\<lambda>rules.
     let p = base\<lparr>po_TunnelInterface := interface, po_RemoteEnforcement := True, po_ManagedServices := services,
           po_RemoteAccessRules := rules, po_RemoteMeshPrefixes := [remoteMeshIPv4, remoteMeshIPv6]\<rparr> in
     case Validate p of Some e \<Rightarrow> Inl (PolicyInvalid e) | None \<Rightarrow> Inr p)))"

definition copyRemotePolicy :: "Policy \<Rightarrow> Policy \<Rightarrow> Policy" where
  "copyRemotePolicy dst src =
     (let dst = dst\<lparr>po_RemoteEnforcement := po_RemoteEnforcement src, po_ManagedServices := po_ManagedServices src,
          po_RemoteAccessRules := po_RemoteAccessRules src, po_RemoteMeshPrefixes := po_RemoteMeshPrefixes src\<rparr> in
      if po_RemoteEnforcement src \<and> po_TunnelInterface dst = [] then dst\<lparr>po_TunnelInterface := po_TunnelInterface src\<rparr> else dst)"

definition copyExitPolicy :: "Policy \<Rightarrow> Policy \<Rightarrow> Policy" where
  "copyExitPolicy dst src =
     (let dst = dst\<lparr>po_Enabled := po_Enabled src, po_TunnelEndpoints := po_TunnelEndpoints src, po_RelayEndpoints := po_RelayEndpoints src,
          po_ControlEndpoints := po_ControlEndpoints src, po_AllowCIDRs := po_AllowCIDRs src\<rparr> in
      if po_Enabled src \<or> \<not> po_RemoteEnforcement dst then dst\<lparr>po_TunnelInterface := po_TunnelInterface src\<rparr> else dst)"

section \<open>What a derived policy rests on\<close>

lemma closed_rules [simp]:
  "rp_Rules (closedRemoteTargetPolicy r m v) = []" "rp_Required (closedRemoteTargetPolicy r m v) = r"
  "rp_ManagedTCPPorts (closedRemoteTargetPolicy r m v) = m" "rp_PolicyVersion (closedRemoteTargetPolicy r m v) = v"
  by (simp_all add: closedRemoteTargetPolicy_def)

lemma target_policy_error_rules:
  "targetPolicyError closed k e s = ((t, err), s') \<Longrightarrow> rp_Rules closed = [] \<Longrightarrow> q \<in> set (rp_Rules t) \<Longrightarrow> False"
  by (auto simp: targetPolicyError_def)

lemma derive_rules_cases:
  assumes "derive_rules C J load advance d platform ports tenantID version trustedNow nm s = ((t, err), s')"
    and "q \<in> set (rp_Rules t)"
  shows "\<exists>self peers result. remoteTargetIdentity (nm_Self nm) tenantID platform = Inr self \<and>
     remoteTargetPeers (nd_ID (nm_Self nm)) (nm_Peers nm) = Inr peers \<and>
     ReconcileTarget C J load advance (target_request C (dm_VerifyKey d) nm self peers trustedNow) s = (Inr result, s') \<and>
     rc_PolicyVersion result = version \<and> rp_Rules t = rc_Rules result"
  using assms unfolding derive_rules_def Let_def
  by (auto simp: targetPolicyError_def split: if_splits sum.splits prod.splits)

context policy_floor_store
begin

lemma derive_cases:
  assumes run: "deriveRemoteTargetPolicy C J lower load advance d nm now s = ((t, err), s')"
    and q: "q \<in> set (rp_Rules t)"
  shows "\<exists>ports observed s1. now \<le> observed \<and> 
     derive_rules C J load advance d (local_platform d) ports (remoteAccessTenantID C lower (nd_User (nm_Self nm)))
       (nm_RemoteAccessPolicyVersion nm) observed nm s1 = ((t, err), s')"
proof -
  let ?ten = "remoteAccessTenantID C lower (nd_User (nm_Self nm))"
  let ?v = "Some (Ed25519Verifier C (dm_VerifyKey d))"
  obtain ports where ports: "remoteTargetCandidatePorts (dm_Candidates d) (local_platform d) = Inr ports"
    using run q by (auto simp: deriveRemoteTargetPolicy_def targetPolicyError_def split: sum.splits)
  have dep: "\<not> (dm_VerifyKey d = [] \<or> \<not> dm_HasStore d \<or> is_zero_time now)"
  proof
    assume a: "dm_VerifyKey d = [] \<or> \<not> dm_HasStore d \<or> is_zero_time now"
    show False
      using run[unfolded deriveRemoteTargetPolicy_def ports sum.case Let_def if_P[OF a]] q by (auto simp: targetPolicyError_def)
  qed
  note step = run[unfolded deriveRemoteTargetPolicy_def ports sum.case Let_def if_not_P[OF dep]]
  obtain n s1 where fl: "PolicyTimeFloor load ?ten now s = (Inr n, s1)"
    using step q by (cases "PolicyTimeFloor load ?ten now s"; cases "fst (PolicyTimeFloor load ?ten now s)")
      (auto simp: targetPolicyError_def)
  note step = step[unfolded fl prod.case sum.case]
  obtain v where v: "VerifyPolicyState C J (nm_RemoteAccessPolicyState nm) ?v ?ten n = Inr v"
    using step q by (cases "VerifyPolicyState C J (nm_RemoteAccessPolicyState nm) ?v ?ten n") (auto simp: targetPolicyError_def)
  note step = step[unfolded v sum.case]
  obtain cur s2 where ld: "load ?ten s1 = (Inr cur, s2)"
    using step q by (cases "load ?ten s1"; cases "fst (load ?ten s1)") (auto simp: targetPolicyError_def)
  note step = step[unfolded ld prod.case sum.case]
  obtain p where p: "ObservePolicyAt v cur now = Inr p"
    using step q by (cases "ObservePolicyAt v cur now") (auto simp: targetPolicyError_def)
  note step = step[unfolded p sum.case]
  obtain s3 where ad: "advance p s2 = (None, s3)"
    using step q by (cases "advance p s2"; cases "fst (advance p s2)") (auto simp: targetPolicyError_def)
  note step = step[unfolded ad prod.case option.case]
  have ver: "vp_Version p = nm_RemoteAccessPolicyVersion nm"
    using step q by (auto simp: targetPolicyError_def split: if_splits)
  have "now \<le> vp_ObservedAt p"
    using p VerifyPolicyState_Inr[OF v] time_floor[OF fl] by (auto simp: ObservePolicyAt_def split: if_splits option.splits)
  moreover have "derive_rules C J load advance d (local_platform d) ports ?ten (nm_RemoteAccessPolicyVersion nm) (vp_ObservedAt p) nm s3 = ((t, err), s')"
    using step q ver by (auto simp: targetPolicyError_def split: if_splits sum.splits)
  ultimately show ?thesis by blast
qed

end

lemma update_mem: "x \<in> set (AList.update k v m) \<Longrightarrow> x = (k, v) \<or> x \<in> set m"
  by (induction m) (auto split: if_splits)

lemma remoteTargetPeers_loop_from:
  "remoteTargetPeers_loop selfID peers seen ns = Inr out \<Longrightarrow> (k, ip) \<in> set out \<Longrightarrow>
     (k, ip) \<in> set peers \<or> (\<exists>n\<in>set ns. nd_ID n = k \<and> nd_MeshIPs n \<noteq> [] \<and> ip = addr_string (hd (nd_MeshIPs n)))"
proof (induction selfID peers seen ns rule: remoteTargetPeers_loop.induct)
  case (2 selfID peers seen n ns)
  obtain a as where m: "nd_MeshIPs n = a # as" using 2(2) by (cases "nd_MeshIPs n") auto
  have rec: "remoteTargetPeers_loop selfID (AList.update (nd_ID n) (addr_string a) peers) (AList.update a (nd_ID n) seen) ns = Inr out"
    and c: "\<not> (nd_ID n = [] \<or> nd_ID n = selfID)" "\<not> map_has peers (nd_ID n)" "\<not> \<not> addr_valid a"
      "\<not> (case map_of seen a of None \<Rightarrow> False | Some other \<Rightarrow> other \<noteq> nd_ID n)"
    using 2(2) m by (simp_all split: if_splits)
  from 2(1)[OF m c rec 2(3)] show ?case
    using update_mem[of "(k, ip)" "nd_ID n" "addr_string a" peers] m by auto
qed simp

lemma remoteTargetPeers_from:
  "remoteTargetPeers selfID ns = Inr out \<Longrightarrow> (k, ip) \<in> set out \<Longrightarrow> \<exists>n\<in>set ns. nd_ID n = k"
  using remoteTargetPeers_loop_from[of selfID "[]" "[]" ns out k ip] by (auto simp: remoteTargetPeers_def)

text \<open>The grant behind a rule.\<close>

definition access_backed :: "crypto \<Rightarrow> ra_json \<Rightarrow> (string \<Rightarrow> string) \<Rightarrow> Daemon \<Rightarrow> Netmap \<Rightarrow> time \<Rightarrow> string \<Rightarrow> u16 \<Rightarrow> time \<Rightarrow> bool" where
  "access_backed C J lower d nm now source port expiry \<longleftrightarrow>
     (\<exists>sg g observed. sg \<in> set (nm_RemoteAccessGrants nm) \<and> grant_authentic J (Ed25519Verifier C (dm_VerifyKey d)) sg g \<and>
        now \<le> observed \<and> grant_ok g observed \<and>
        gr_TenantID g = remoteAccessTenantID C lower (nd_User (nm_Self nm)) \<and>
        gr_PolicyVersion g = nm_RemoteAccessPolicyVersion nm \<and>
        sa_TargetNodeID (gr_Service g) = nd_ID (nm_Self nm) \<and> sa_Port (gr_Service g) = port \<and>
        gr_GranteeMeshIP g = source \<and> (\<exists>n\<in>set (nm_Peers nm). nd_ID n = gr_GranteeID g) \<and> gr_ExpiresAt g = expiry)"

context policy_floor_store
begin

lemma derive_backed:
  assumes run: "deriveRemoteTargetPolicy C J lower load advance d nm now s = ((t, err), s')"
    and q: "q \<in> set (rp_Rules t)"
  shows "access_backed C J lower d nm now (dr_SourceMeshIP q) (dr_Port q) (dr_ExpiresAt q)"
proof -
  let ?ten = "remoteAccessTenantID C lower (nd_User (nm_Self nm))"
  obtain ports observed s1 where o: "now \<le> observed" and dr: "derive_rules C J load advance d (local_platform d) ports ?ten
      (nm_RemoteAccessPolicyVersion nm) observed nm s1 = ((t, err), s')"
    using derive_cases[OF run q] by blast
  obtain self peers result where self: "remoteTargetIdentity (nm_Self nm) ?ten (local_platform d) = Inr self"
    and peers: "remoteTargetPeers (nd_ID (nm_Self nm)) (nm_Peers nm) = Inr peers"
    and rec: "ReconcileTarget C J load advance (target_request C (dm_VerifyKey d) nm self peers observed) s1 = (Inr result, s')"
    and ver: "rc_PolicyVersion result = nm_RemoteAccessPolicyVersion nm" and rs: "rp_Rules t = rc_Rules result"
    using derive_rules_cases[OF dr q] by blast
  let ?req = "target_request C (dm_VerifyKey d) nm self peers observed"
  have sid: "ni_NodeID self = nd_ID (nm_Self nm)" "ni_TenantID self = ?ten"
    using self by (auto simp: remoteTargetIdentity_def split: list.splits if_splits)
  have sel: "tr_Verifier ?req = Some (Ed25519Verifier C (dm_VerifyKey d))" "tr_Self ?req = self" "tr_Now ?req = observed"
    "tr_Grants ?req = Some (nm_RemoteAccessGrants nm)" "tr_Peers ?req = Some peers"
    by (simp_all add: target_request_def)
  obtain p where p: "observed_no_earlier (floors s1 (ni_TenantID self)) p observed" "rc_PolicyVersion result = vp_Version p"
    and rb: "rule_backed J (Ed25519Verifier C (dm_VerifyKey d)) ?req p q"
    using ReconcileTarget_Inr[OF rec] q rs unfolding sel by auto
  obtain sg g sv mip where b: "sg \<in> set (nm_RemoteAccessGrants nm)" "grant_authentic J (Ed25519Verifier C (dm_VerifyKey d)) sg g"
    "grant_ok g (vp_ObservedAt p)" "gr_TenantID g = ni_TenantID self" "gr_PolicyVersion g = vp_Version p"
    "same_coordinates sv (gr_Service g)" "sa_TargetNodeID sv = ni_NodeID self" "(gr_GranteeID g, mip) \<in> set peers"
    "q = \<lparr> dr_SourceMeshIP = gr_GranteeMeshIP g, dr_TargetMeshIP = ni_MeshIP self, dr_Protocol = ''tcp'',
         dr_Port = sa_Port sv, dr_GrantID = gr_ID g, dr_ExpiresAt = gr_ExpiresAt g \<rparr>"
    using rb unfolding rule_backed_def sel by auto
  have "now \<le> vp_ObservedAt p" using p o by (auto simp: observed_no_earlier_def)
  moreover have "sa_TargetNodeID (gr_Service g) = nd_ID (nm_Self nm)" "sa_Port (gr_Service g) = sa_Port sv"
    using b sid by (auto simp: same_coordinates_def)
  moreover have "\<exists>n\<in>set (nm_Peers nm). nd_ID n = gr_GranteeID g" by (rule remoteTargetPeers_from[OF peers b(8)])
  ultimately show ?thesis
    unfolding access_backed_def using b p(2) ver sid by (intro exI[of _ sg] exI[of _ g] exI[of _ "vp_ObservedAt p"]) simp
qed

end

section \<open>What a composed policy is\<close>

lemma compose_services_Inr: "compose_services target ports = Inr ss \<Longrightarrow> ss = map (\<lambda>port. \<lparr> ms_TargetMeshIP = target, ms_TCPPort = port \<rparr>) ports"
  by (induction ports arbitrary: ss) (auto simp: branch_simps)

lemma compose_rules_from: "compose_rules target qs = Inr rs \<Longrightarrow> r \<in> set rs \<Longrightarrow> \<exists>q\<in>set qs. compose_rule target q = Inr r"
  by (induction qs arbitrary: rs) (auto simp: branch_simps)

lemma compose_cases:
  assumes "composeRemoteTargetPolicy d base t self = Inr p" "rp_Required t"
  shows "\<exists>ip rest rules. nd_MeshIPs self = ip # rest \<and> dm_FirewallCapable d \<and> rp_ManagedTCPPorts t \<noteq> [] \<and> 
     compose_rules (unmap ip) (rp_Rules t) = Inr rules \<and> Validate p = None \<and> remoteTunnelInterface d (without_remote base) \<noteq> [] \<and>
     p = (without_remote base)\<lparr>po_TunnelInterface := remoteTunnelInterface d (without_remote base), po_RemoteEnforcement := True,
       po_ManagedServices := map (\<lambda>port. \<lparr> ms_TargetMeshIP = unmap ip, ms_TCPPort = port \<rparr>) (rp_ManagedTCPPorts t),
       po_RemoteAccessRules := rules, po_RemoteMeshPrefixes := [remoteMeshIPv4, remoteMeshIPv6]\<rparr>"
proof (cases "nd_MeshIPs self")
  case Nil
  then show ?thesis using assms by (simp add: composeRemoteTargetPolicy_def Let_def branch_simps)
next
  case (Cons ip rest)
  show ?thesis using assms Cons
    by (auto simp: composeRemoteTargetPolicy_def Let_def branch_simps dest!: compose_services_Inr)
qed

lemma compose_rule_Inr:
  "compose_rule target q = Inr r \<longleftrightarrow> (\<exists>source ruleTarget. parse_addr (dr_SourceMeshIP q) = Some source \<and>
     parse_addr (dr_TargetMeshIP q) = Some ruleTarget \<and> dr_Protocol q = ''tcp'' \<and> dr_Port q \<noteq> 0 \<and> unmap ruleTarget = target \<and>
     r = \<lparr> rr_SourceMeshIP = unmap source, rr_TargetMeshIP = target, rr_TCPPort = dr_Port q \<rparr>)"
  by (auto simp: compose_rule_def split: option.splits)

text \<open>A packet that a composed policy lets through to a managed service has a rule of the derived policy.\<close>

lemma composed_accepts:
  assumes p: "composeRemoteTargetPolicy d base t self = Inr p" "rp_Required t"
    and pk: "pk_iface pk = Some (po_TunnelInterface p)" "pk_protocol pk = Tcp" "pk_dst pk = unmap (hd (nd_MeshIPs self))"
      "pk_port pk \<in> set (rp_ManagedTCPPorts t)"
    and acc: "first_match (po_TunnelInterface p) pk True (input_rules p)"
  shows "\<exists>q\<in>set (rp_Rules t). \<exists>a. parse_addr (dr_SourceMeshIP q) = Some a \<and> unmap a = pk_src pk \<and> dr_Port q = pk_port pk"
proof -
  obtain ip rest rules where c: "nd_MeshIPs self = ip # rest" "compose_rules (unmap ip) (rp_Rules t) = Inr rules"
    and ps: "p = (without_remote base)\<lparr>po_TunnelInterface := remoteTunnelInterface d (without_remote base), po_RemoteEnforcement := True,
       po_ManagedServices := map (\<lambda>port. \<lparr> ms_TargetMeshIP = unmap ip, ms_TCPPort = port \<rparr>) (rp_ManagedTCPPorts t),
       po_RemoteAccessRules := rules, po_RemoteMeshPrefixes := [remoteMeshIPv4, remoteMeshIPv6]\<rparr>"
    using compose_cases[OF p] by blast
  have ms: "po_ManagedServices p = map (\<lambda>port. \<lparr> ms_TargetMeshIP = unmap ip, ms_TCPPort = port \<rparr>) (rp_ManagedTCPPorts t)"
    and rs: "po_RemoteAccessRules p = rules" unfolding ps by simp_all
  have "\<lparr> ms_TargetMeshIP = pk_dst pk, ms_TCPPort = pk_port pk \<rparr> \<in> set (po_ManagedServices p)"
    using pk c(1) unfolding ms by simp
  then have "\<lparr> rr_SourceMeshIP = pk_src pk, rr_TargetMeshIP = pk_dst pk, rr_TCPPort = pk_port pk \<rparr> \<in> set rules"
    using acc pk unfolding input_verdict rs by blast
  from compose_rules_from[OF c(2) this] show ?thesis unfolding compose_rule_Inr by fastforce
qed

section \<open>The boundary without rules\<close>

lemma managed_loop_keeps: "managed_services_loop self ports ss = Inr out \<Longrightarrow> set ports \<union> sa_Port ` set ss = set out"
  by (induction self ports ss arbitrary: out rule: managed_services_loop.induct)
    (auto simp: sortedRemoteTargetPorts_def split: option.splits if_splits)

lemma derive_rules_closed:
  assumes "derive_rules C J load advance d platform ports tenantID version trustedNow nm s = ((t, err), s')"
  shows "rp_Required t \<and> set ports \<subseteq> set (rp_ManagedTCPPorts t) \<and> (err \<noteq> None \<longrightarrow> rp_Rules t = []) \<and>
     (err = None \<longrightarrow> sa_Port ` set (nd_RemoteServices (nm_Self nm)) \<subseteq> set (rp_ManagedTCPPorts t)) \<and>
     (rp_PolicyVersion t = version)"
proof -
  have m: "set ports \<subseteq> set out \<and> sa_Port ` set ss \<subseteq> set out" if "remoteTargetManagedPorts ports self ss = Inr out" for self ss out
    using that managed_loop_keeps by (fastforce simp: remoteTargetManagedPorts_def split: if_splits)
  show ?thesis
    using assms unfolding derive_rules_def Let_def
    by (auto simp: targetPolicyError_def split: if_splits sum.splits prod.splits dest!: m)
qed

end
