(* ===== verification/DM_Boundary.thy ===== *)
theory DM_Boundary
  imports DM_Target
begin

text \<open>
  The remote-access boundary of the daemon as a whole: what a netmap has to contain for a packet to
  reach a managed service, and what is left when something fails.
\<close>

section \<open>A target in small\<close>

definition dm_crypto :: crypto where "dm_crypto = sample_crypto\<lparr>ed_verify := (\<lambda>p m s. s = [7])\<rparr>"

definition dm_key :: bytes where "dm_key = replicate 32 1"

definition dm_tenant :: string where "dm_tenant = ''tenant-750000000000''"

definition dm_service :: ServiceAdvertisement where
  "dm_service = \<lparr> sa_Kind = ''ssh'', sa_Port = 22, sa_Platform = ''linux'', sa_Label = ''SSH'',
     sa_TargetNodeID = ''t'', sa_TargetMeshIP = ''100.64.0.2'' \<rparr>"

definition dm_grant :: "string \<Rightarrow> Grant" where
  "dm_grant i = \<lparr> gr_ID = i, gr_TenantID = dm_tenant, gr_GrantorID = ''o'', gr_GranteeID = ''s'',
     gr_GranteeMeshIP = ''100.64.0.1'', gr_PolicyVersion = 3, gr_Service = dm_service,
     gr_IssuedAt = 1, gr_NotBefore = 2, gr_ExpiresAt = 900 \<rparr>"

definition dm_policy :: PolicyState where
  "dm_policy = \<lparr> ps_TenantID = dm_tenant, ps_Version = 3, ps_Enabled = True, ps_IssuedAt = 1 \<rparr>"

definition dm_target :: TargetState where
  "dm_target = \<lparr> ts_TenantID = dm_tenant, ts_PolicyVersion = 3, ts_PolicyDigest = hex_encode (sha256 sample_crypto [2]),
     ts_TargetNodeID = ''t'', ts_Enabled = True, ts_IssuedAt = 1 \<rparr>"

text \<open>Payload \<open>[1]\<close> is the first grant, \<open>[4]\<close> a second one for the same source and service.\<close>

definition dm_json :: ra_json where
  "dm_json = \<lparr> js_grant = (\<lambda>g. Some (str_bytes (gr_ID g))),
     rd_grant = (\<lambda>b. if b = [1] then Some (dm_grant ''g'') else if b = [4] then Some (dm_grant ''h'') else None),
     js_policy = (\<lambda>p. Some [2]), rd_policy = (\<lambda>b. if b = [2] then Some dm_policy else None),
     js_target = (\<lambda>t. Some [3]), rd_target = (\<lambda>b. if b = [3] then Some dm_target else None) \<rparr>"

definition dm_signed :: "bytes \<Rightarrow> string \<Rightarrow> SignedGrant" where
  "dm_signed payload i = \<lparr> sg_Grant = dm_grant i, sg_Payload = payload, sg_Signature = [7] \<rparr>"

definition dm_netmap :: "SignedGrant list \<Rightarrow> Netmap" where
  "dm_netmap grants =
     \<lparr> nm_Version = 1,
       nm_Self = sample_node\<lparr>nd_ID := ''t'', nd_User := ''u'', nd_Platform := ''linux'', nd_RemoteServices := [dm_service],
         nd_MeshIPs := [V4 0x64400002]\<rparr>,
       nm_Peers = [sample_node\<lparr>nd_ID := ''s'', nd_User := ''u'', nd_Platform := ''macos'', nd_MeshIPs := [V4 0x64400001]\<rparr>],
       nm_PQSessions = [], nm_Relays = [], nm_RemoteAccessPolicyVersion = 3,
       nm_RemoteAccessPolicyState = \<lparr> sp_Payload = [2], sp_Signature = [7] \<rparr>,
       nm_RemoteAccessTargetState = \<lparr> sp_Payload = [3], sp_Signature = [7] \<rparr>,
       nm_RemoteAccessGrants = grants \<rparr>"

definition dm_daemon :: Daemon where
  "dm_daemon = \<lparr> dm_Candidates = None, dm_VerifyKey = dm_key, dm_Platform = [], dm_GOOS = ''linux'', dm_HasStore = True,
     dm_FirewallCapable = True, dm_EngineInterface = Some ''rm0'' \<rparr>"

definition dm_derived :: "SignedGrant list \<Rightarrow> FilePolicyFloorStore derived" where
  "dm_derived grants = deriveRemoteTargetPolicy dm_crypto dm_json id file_load (file_advance (\<lambda>_. Some 100)) dm_daemon
     (dm_netmap grants) 5 sample_store"


definition dm_self :: NodeIdentity where
  "dm_self = \<lparr> ni_TenantID = dm_tenant, ni_NodeID = ''t'', ni_MeshIP = ''100.64.0.2'', ni_Platform = ''linux'' \<rparr>"

definition dm_verified :: VerifiedPolicyState where
  "dm_verified = \<lparr> vp_State = dm_policy, vp_Digest = hex_encode (sha256 dm_crypto [2]), vp_ObservedAt = 5 \<rparr>"

definition dm_stored :: FilePolicyFloorStore where
  "dm_stored = snd (file_advance (\<lambda>_. Some 100) dm_verified sample_store)"

abbreviation dm_verifier :: "verifier option" where "dm_verifier \<equiv> Some (Ed25519Verifier dm_crypto dm_key)"
abbreviation dm_signed_policy :: signed_payload where "dm_signed_policy \<equiv> \<lparr> sp_Payload = [2], sp_Signature = [7] \<rparr>"

definition dm_reconciled :: "SignedGrant list \<Rightarrow> enforcement_error + ReconcileResult" where
  "dm_reconciled grants = reconcile_grants dm_crypto dm_json dm_verifier dm_self [advertisementKey dm_service] [(''s'', ''100.64.0.1'')]
     (can_reach dm_self [(''s'', ''100.64.0.1'')]) dm_verified grants"

lemma dm_policy_steps:
  "remoteAccessTenantID dm_crypto id ''u'' = dm_tenant"
  "PolicyTimeFloor file_load dm_tenant 5 sample_store = (Inr 5, sample_store)"
  "VerifyPolicyState dm_crypto dm_json dm_signed_policy dm_verifier dm_tenant 5 = Inr dm_verified"
  "file_load dm_tenant sample_store = (Inr None, sample_store)"
  "fst (file_advance (\<lambda>_. Some 100) dm_verified sample_store) = None"
  "VerifyTargetState dm_json \<lparr> sp_Payload = [3], sp_Signature = [7] \<rparr> dm_verifier dm_verified ''t'' 5 = Inr dm_target"
  by code_simp+

lemma dm_identity_steps:
  "remoteTargetCandidatePorts None ''linux'' = Inr [22, 5900]"
  "remoteTargetIdentity (nm_Self (dm_netmap gs)) dm_tenant ''linux'' = Inr dm_self"
  "remoteTargetManagedPorts [22, 5900] dm_self [dm_service] = Inr [22, 5900]"
  "remoteTargetPeers ''t'' (nm_Peers (dm_netmap gs)) = Inr [(''s'', ''100.64.0.1'')]"
  "validateTargetNodeIdentity dm_self = None"
  "validatedLocalServices dm_self [dm_service] = Inr [advertisementKey dm_service]"
  "validatedPeers dm_self [] [(''s'', ''100.64.0.1'')] = Inr [(''s'', ''100.64.0.1'')]"
  by code_simp+

lemma dm_accepted:
  "accept_policy dm_crypto dm_json file_load (file_advance (\<lambda>_. Some 100)) dm_signed_policy dm_verifier dm_tenant 5 dm_stored = (Inr dm_verified, dm_stored)"
  by code_simp

lemma dm_run:
  assumes "length grants \<le> MaxReconcileGrants" "dm_reconciled grants = Inr r" "rc_PolicyEnabled r" "rc_PolicyVersion r = 3"
  shows "dm_derived grants = ((\<lparr> rp_Required = True, rp_Enabled = True, rp_TunnelInterface = [], rp_ManagedTCPPorts = [22, 5900],
     rp_Rules = rc_Rules r, rp_NearestExpiry = nearest_expiry (rc_Rules r), rp_PolicyVersion = 3 \<rparr>, None), dm_stored)"
proof -
  have st: "file_advance (\<lambda>_. Some 100) dm_verified sample_store = (None, dm_stored)"
    unfolding dm_stored_def by (rule prod_eqI) (simp_all add: dm_policy_steps(5))
  have sel: "nd_User (nm_Self (dm_netmap grants)) = ''u''" "nd_ID (nm_Self (dm_netmap grants)) = ''t''"
    "nm_RemoteAccessPolicyState (dm_netmap grants) = dm_signed_policy" "nm_RemoteAccessGrants (dm_netmap grants) = grants"
    "nm_RemoteAccessTargetState (dm_netmap grants) = \<lparr> sp_Payload = [3], sp_Signature = [7] \<rparr>"
    "nm_RemoteAccessPolicyVersion (dm_netmap grants) = 3" "nd_RemoteServices (nm_Self (dm_netmap grants)) = [dm_service]"
    "length (nm_Peers (dm_netmap grants)) = 1"
    by (simp_all add: dm_netmap_def)
  have dsel: "dm_Candidates dm_daemon = None" "dm_VerifyKey dm_daemon = dm_key" "local_platform dm_daemon = ''linux''" "dm_HasStore dm_daemon" "dm_key \<noteq> []"
    by (simp_all add: dm_daemon_def local_platform_def remoteAccessPlatformForGOOS_def dm_key_def PlatformLinux_def)
  have vs: "vp_Version dm_verified = 3" "vp_Enabled dm_verified" "vp_ObservedAt dm_verified = 5" "ts_Enabled dm_target" "ObservePolicyAt dm_verified None 5 = Inr dm_verified"
    "ni_TenantID dm_self = dm_tenant" "\<not> is_zero_time 5"
    by (simp_all add: dm_verified_def dm_policy_def dm_target_def ObservePolicyAt_def dm_self_def is_zero_time_def zero_time_def)
  have rec: "ReconcileTarget dm_crypto dm_json file_load (file_advance (\<lambda>_. Some 100))
      (target_request dm_crypto dm_key (dm_netmap grants) dm_self [(''s'', ''100.64.0.1'')] 5) dm_stored = (Inr r, dm_stored)"
    using assms(1,2) dm_accepted vs
    by (simp add: ReconcileTarget_def target_request_def sel dm_identity_steps MaxReconcileServices_def MaxReconcilePeers_def dm_reconciled_def
        del: validatedLocalServices.simps validatedPeers.simps)
  have "derive_rules dm_crypto dm_json file_load (file_advance (\<lambda>_. Some 100)) dm_daemon ''linux'' [22, 5900] dm_tenant 3 5 (dm_netmap grants) dm_stored =
      ((closedRemoteTargetPolicy True [22, 5900] 3\<lparr>rp_Rules := rc_Rules r, rp_NearestExpiry := nearest_expiry (rc_Rules r)\<rparr>, None), dm_stored)"
    using assms by (simp add: derive_rules_def sel dm_identity_steps rec dsel MaxReconcileServices_def MaxReconcilePeers_def closedRemoteTargetPolicy_def)
  then show ?thesis
    unfolding dm_derived_def
    by (simp add: deriveRemoteTargetPolicy_def dsel sel dm_identity_steps dm_policy_steps st vs closedRemoteTargetPolicy_def)
qed

definition dm_rule :: "string \<Rightarrow> DesiredRule" where
  "dm_rule i = \<lparr> dr_SourceMeshIP = ''100.64.0.1'', dr_TargetMeshIP = ''100.64.0.2'', dr_Protocol = ''tcp'', dr_Port = 22,
     dr_GrantID = i, dr_ExpiresAt = 900 \<rparr>"

lemma dm_reconciled_two:
  "dm_reconciled [dm_signed [1] ''g''] = Inr \<lparr> rc_PolicyVersion = 3, rc_PolicyEnabled = True, rc_Rules = [dm_rule ''g''], rc_Rejected = [] \<rparr>"
  "dm_reconciled [dm_signed [1] ''g'', dm_signed [4] ''h''] =
     Inr \<lparr> rc_PolicyVersion = 3, rc_PolicyEnabled = True, rc_Rules = [dm_rule ''g'', dm_rule ''h''], rc_Rejected = [] \<rparr>"
  by code_simp+

definition dm_result :: "DesiredRule list \<Rightarrow> remoteTargetPolicy" where
  "dm_result rules = \<lparr> rp_Required = True, rp_Enabled = True, rp_TunnelInterface = [], rp_ManagedTCPPorts = [22, 5900],
     rp_Rules = rules, rp_NearestExpiry = 900, rp_PolicyVersion = 3 \<rparr>"

lemma dm_results:
  "dm_derived [dm_signed [1] ''g''] = ((dm_result [dm_rule ''g''], None), dm_stored)"
  "dm_derived [dm_signed [1] ''g'', dm_signed [4] ''h''] = ((dm_result [dm_rule ''g'', dm_rule ''h''], None), dm_stored)"
  by (simp_all add: dm_run[OF _ dm_reconciled_two(1)] dm_run[OF _ dm_reconciled_two(2)] dm_result_def nearest_expiry_def dm_rule_def
      MaxReconcileGrants_def is_zero_time_def zero_time_def)

definition dm_node :: Node where "dm_node = nm_Self (dm_netmap [])"

definition dm_firewall :: "RemoteAccessRule list \<Rightarrow> Policy" where
  "dm_firewall rules = no_policy\<lparr>po_TunnelInterface := ''rm0'', po_RemoteEnforcement := True,
     po_ManagedServices := [\<lparr> ms_TargetMeshIP = V4 0x64400002, ms_TCPPort = 22 \<rparr>, \<lparr> ms_TargetMeshIP = V4 0x64400002, ms_TCPPort = 5900 \<rparr>],
     po_RemoteAccessRules := rules, po_RemoteMeshPrefixes := [remoteMeshIPv4, remoteMeshIPv6]\<rparr>"

definition dm_fwrule :: RemoteAccessRule where
  "dm_fwrule = \<lparr> rr_SourceMeshIP = V4 0x64400001, rr_TargetMeshIP = V4 0x64400002, rr_TCPPort = 22 \<rparr>"

lemma dm_fwrule_composed: "compose_rule (V4 0x64400002) (dm_rule i) = Inr dm_fwrule"
  unfolding compose_rule_Inr
  by (rule exI[of _ "V4 0x64400001"], rule exI[of _ "V4 0x64400002"], intro conjI; (simp add: dm_rule_def dm_fwrule_def; fail)?)
    (simp_all add: dm_rule_def, code_simp+)

lemma dm_compose:
  assumes "compose_rules (V4 0x64400002) rules = Inr fw"
  shows "composeRemoteTargetPolicy dm_daemon no_policy (dm_result rules) dm_node =
     (case Validate (dm_firewall fw) of Some e \<Rightarrow> Inl (PolicyInvalid e) | None \<Rightarrow> Inr (dm_firewall fw))"
proof -
  have m: "nd_MeshIPs dm_node = [V4 0x64400002]" by (simp add: dm_node_def dm_netmap_def)
  have c: "pfx_contains remoteMeshIPv4 (V4 0x64400002)" by code_simp
  have fc: "dm_FirewallCapable dm_daemon" by (simp add: dm_daemon_def)
  have e: "dm_EngineInterface dm_daemon = Some ''rm0''" by (simp add: dm_daemon_def)
  show ?thesis
    using assms c
    by (simp add: composeRemoteTargetPolicy_def m e fc Let_def dm_result_def remoteTunnelInterface_def without_remote_def
        no_policy_def dm_firewall_def split: option.split)
qed

lemma validMeshAddr_set: "set ps = set qs \<Longrightarrow> validMeshAddr a ps = validMeshAddr a qs"
  by (simp add: validMeshAddr_def list_ex_iff)

lemma dm_prefixes: "set (remotePrefixes (dm_firewall fw)) = set [remoteMeshIPv4, remoteMeshIPv6]"
  by (simp add: remotePrefixes_def dm_firewall_def sortedPrefixes_def)

lemma remote_prefixes_valid: "validRemotePrefix remoteMeshIPv4" "validRemotePrefix remoteMeshIPv6"
proof -
  show "validRemotePrefix remoteMeshIPv4" by code_simp
  show "validRemotePrefix remoteMeshIPv6"
    by (simp add: validRemotePrefix_def validPrefix_def validAddr_def remoteMeshIPv6_def meshIPv6_def pfx_valid_def is_unspecified_def is4in6_def)
qed

lemma dm_addrs: "validMeshAddr (V4 0x64400002) [remoteMeshIPv4, remoteMeshIPv6]" "validMeshAddr (V4 0x64400001) [remoteMeshIPv4, remoteMeshIPv6]"
  by (simp_all add: validMeshAddr_def validAddr_def remoteMeshIPv4_def pfx_valid_def is_unspecified_def)

lemma dm_validated:
  "Validate (dm_firewall []) = None" "Validate (dm_firewall [dm_fwrule]) = None"
  "Validate (dm_firewall [dm_fwrule, dm_fwrule]) = Some DuplicateRemoteRule"
proof -
  have i: "validInterface ''rm0''" by code_simp
  have pr: "list_all validRemotePrefix (remotePrefixes (dm_firewall fw))" for fw
    using remote_prefixes_valid unfolding list_all_iff dm_prefixes by simp
  have sel: "Active (dm_firewall fw)" "po_TunnelInterface (dm_firewall fw) = ''rm0''" "po_TunnelEndpoints (dm_firewall fw) = []"
      "po_RelayEndpoints (dm_firewall fw) = []" "po_ControlEndpoints (dm_firewall fw) = []" "po_AllowCIDRs (dm_firewall fw) = []"
      "po_RemoteEnforcement (dm_firewall fw)"  "po_RemoteAccessRules (dm_firewall fw) = fw"
      "po_ManagedServices (dm_firewall fw) = [\<lparr> ms_TargetMeshIP = V4 0x64400002, ms_TCPPort = 22 \<rparr>, \<lparr> ms_TargetMeshIP = V4 0x64400002, ms_TCPPort = 5900 \<rparr>]" for fw
    by (simp_all add: dm_firewall_def Active_def no_policy_def)
  note vs = validMeshAddr_set[OF dm_prefixes]
  show "Validate (dm_firewall []) = None" "Validate (dm_firewall [dm_fwrule]) = None"
    "Validate (dm_firewall [dm_fwrule, dm_fwrule]) = Some DuplicateRemoteRule"
    by (simp_all add: Validate_def sel i pr vs dm_addrs dm_fwrule_def)
qed

lemma dm_composed: "composeRemoteTargetPolicy dm_daemon no_policy (dm_result [dm_rule ''g'']) dm_node = Inr (dm_firewall [dm_fwrule])"
  by (simp add: dm_compose[where fw = "[dm_fwrule]"] dm_fwrule_composed dm_validated)

lemma dm_duplicate:
  "composeRemoteTargetPolicy dm_daemon no_policy (dm_result [dm_rule ''g'', dm_rule ''h'']) dm_node = Inl (PolicyInvalid DuplicateRemoteRule)"
  by (simp add: dm_compose[where fw = "[dm_fwrule, dm_fwrule]"] dm_fwrule_composed dm_validated)

section \<open>What reaches a managed service\<close>

text \<open>
  C23: temporary access is backed by a grant. When the target policy that the daemon derived from a
  netmap is composed into a firewall policy, the nftables rendering lets a TCP packet from the tunnel
  reach a managed port of this node only if the netmap carries a correctly signed grant, in time at
  the trusted time and of the netmap's policy version, for exactly this node and port, whose grantee
  is a peer of the netmap and whose grantee address is the source of the packet.
\<close>

theorem temporary_access_is_backed:
  assumes run: "deriveRemoteTargetPolicy C J lower file_load (file_advance json_size) d nm now s = ((t, err), s')"
    and comp: "composeRemoteTargetPolicy d base t (nm_Self nm) = Inr p" "rp_Required t"
  shows "\<exists>inputs outputs. RenderNFT p = Inr (nft_document (po_TunnelInterface p) (Some inputs) outputs) \<and>
    (\<forall>pk. pk_iface pk = Some (po_TunnelInterface p) \<and> pk_protocol pk = Tcp \<and> pk_dst pk = unmap (hd (nd_MeshIPs (nm_Self nm))) \<and>
        pk_port pk \<in> set (rp_ManagedTCPPorts t) \<and> nft_input (po_TunnelInterface p) (Some inputs) pk \<longrightarrow>
      (\<exists>source a expiry. access_backed C J lower d nm now source (pk_port pk) expiry \<and>
        parse_addr source = Some a \<and> unmap a = pk_src pk))"
proof -
  have "Validate p = None" "po_RemoteEnforcement p" using compose_cases[OF comp] by auto
  then have r: "RenderNFT p = Inr (nft_document (po_TunnelInterface p) (Some (input_rules p))
      (if po_Enabled p then Some (AllowLoopback # output_rules p) else None))"
    by (simp add: RenderNFT_def Active_def)
  have "\<exists>source a expiry. access_backed C J lower d nm now source (pk_port pk) expiry \<and> parse_addr source = Some a \<and> unmap a = pk_src pk"
    if pk: "pk_iface pk = Some (po_TunnelInterface p)" "pk_protocol pk = Tcp"
      "pk_dst pk = unmap (hd (nd_MeshIPs (nm_Self nm)))" "pk_port pk \<in> set (rp_ManagedTCPPorts t)"
      and acc: "nft_input (po_TunnelInterface p) (Some (input_rules p)) pk" for pk
  proof -
    obtain q a where "q \<in> set (rp_Rules t)" "parse_addr (dr_SourceMeshIP q) = Some a" "unmap a = pk_src pk" "dr_Port q = pk_port pk"
      using composed_accepts[OF comp pk] acc by (auto simp: nft_input_def)
    then show ?thesis using file_store.derive_backed[OF run] by metis
  qed
  with r show ?thesis by blast
qed

theorem temporary_access_is_backed_witness:
  "\<exists>inputs outputs. RenderNFT (dm_firewall [dm_fwrule]) = Inr (nft_document ''rm0'' (Some inputs) outputs) \<and>
    (\<forall>pk. pk_iface pk = Some ''rm0'' \<and> pk_protocol pk = Tcp \<and> pk_dst pk = V4 0x64400002 \<and> pk_port pk = 22 \<and>
        nft_input ''rm0'' (Some inputs) pk \<longrightarrow>
      (\<exists>source a expiry. access_backed dm_crypto dm_json id dm_daemon (dm_netmap [dm_signed [1] ''g'']) 5 source 22 expiry \<and>
        parse_addr source = Some a \<and> unmap a = pk_src pk))"
proof -
  have t: "rp_Required (dm_result [dm_rule ''g''])" "22 \<in> set (rp_ManagedTCPPorts (dm_result [dm_rule ''g'']))"
    by (simp_all add: dm_result_def)
  have i: "po_TunnelInterface (dm_firewall [dm_fwrule]) = ''rm0''" by (simp add: dm_firewall_def)
  have n: "nm_Self (dm_netmap gs) = dm_node" for gs by (simp add: dm_netmap_def dm_node_def)
  have m: "nd_MeshIPs dm_node = [V4 0x64400002]" by (simp add: dm_node_def dm_netmap_def)
  from temporary_access_is_backed[OF dm_results(1)[unfolded dm_derived_def] dm_composed[folded n[of "[dm_signed [1] ''g'']"]] t(1), unfolded i n m list.sel unmap.simps]
  obtain inputs outputs where r: "RenderNFT (dm_firewall [dm_fwrule]) = Inr (nft_document ''rm0'' (Some inputs) outputs)"
    and v: "\<And>pk. pk_iface pk = Some ''rm0'' \<and> pk_protocol pk = Tcp \<and> pk_dst pk = V4 0x64400002 \<and>
        pk_port pk \<in> set (rp_ManagedTCPPorts (dm_result [dm_rule ''g''])) \<and> nft_input ''rm0'' (Some inputs) pk \<Longrightarrow>
      \<exists>source a expiry. access_backed dm_crypto dm_json id dm_daemon (dm_netmap [dm_signed [1] ''g'']) 5 source (pk_port pk) expiry \<and>
        parse_addr source = Some a \<and> unmap a = pk_src pk"
    by blast
  show ?thesis
  proof (rule exI[of _ inputs], rule exI[of _ outputs], intro conjI allI impI)
    fix pk assume a: "pk_iface pk = Some ''rm0'' \<and> pk_protocol pk = Tcp \<and> pk_dst pk = V4 0x64400002 \<and> pk_port pk = 22 \<and>
        nft_input ''rm0'' (Some inputs) pk"
    then have "pk_port pk = 22" by blast
    from v[of pk, unfolded this] a t(2)
    show "\<exists>source a expiry. access_backed dm_crypto dm_json id dm_daemon (dm_netmap [dm_signed [1] ''g'']) 5 source 22 expiry \<and>
        parse_addr source = Some a \<and> unmap a = pk_src pk" by blast
  qed (rule r)
qed

section \<open>Errors close the boundary\<close>

lemma derive_error:
  assumes run: "deriveRemoteTargetPolicy C J lower load advance d nm now s = ((t, Some e), s')"
  shows "rp_Required t \<and> rp_Rules t = [] \<and>
    (\<forall>ports. remoteTargetCandidatePorts (dm_Candidates d) (local_platform d) = Inr ports \<longrightarrow> set ports \<subseteq> set (rp_ManagedTCPPorts t))"
proof (cases "remoteTargetCandidatePorts (dm_Candidates d) (local_platform d)")
  case (Inl x)
  then show ?thesis using run by (auto simp: deriveRemoteTargetPolicy_def targetPolicyError_def)
next
  case (Inr ports)
  then show ?thesis using run unfolding deriveRemoteTargetPolicy_def
    by (auto simp: targetPolicyError_def Let_def dest!: derive_rules_closed split: if_splits sum.splits prod.splits option.splits)
qed

text \<open>
  C24: an error closes the boundary. Whenever deriving the target policy fails, for whatever reason, and
  the policy that comes back is composed into a firewall policy, then no rule is left and the
  nftables rendering drops every TCP packet from the tunnel to a candidate port of this node.
\<close>

theorem derive_error_closes_boundary:
  assumes run: "deriveRemoteTargetPolicy C J lower load advance d nm now s = ((t, Some e), s')"
    and ports: "remoteTargetCandidatePorts (dm_Candidates d) (local_platform d) = Inr ports"
    and comp: "composeRemoteTargetPolicy d base t (nm_Self nm) = Inr p"
  shows "rp_Rules t = [] \<and>
    (\<exists>inputs outputs. RenderNFT p = Inr (nft_document (po_TunnelInterface p) (Some inputs) outputs) \<and>
      (\<forall>pk. pk_iface pk = Some (po_TunnelInterface p) \<and> pk_protocol pk = Tcp \<and> pk_dst pk = unmap (hd (nd_MeshIPs (nm_Self nm))) \<and>
        pk_port pk \<in> set ports \<longrightarrow> \<not> nft_input (po_TunnelInterface p) (Some inputs) pk))"
proof -
  have e: "rp_Required t" "rp_Rules t = []" "set ports \<subseteq> set (rp_ManagedTCPPorts t)"
    using derive_error[OF run] ports by auto
  have "Validate p = None" "po_RemoteEnforcement p" using compose_cases[OF comp e(1)] by auto
  then have r: "RenderNFT p = Inr (nft_document (po_TunnelInterface p) (Some (input_rules p))
      (if po_Enabled p then Some (AllowLoopback # output_rules p) else None))"
    by (simp add: RenderNFT_def Active_def)
  have "\<not> nft_input (po_TunnelInterface p) (Some (input_rules p)) pk"
    if "pk_iface pk = Some (po_TunnelInterface p)" "pk_protocol pk = Tcp"
      "pk_dst pk = unmap (hd (nd_MeshIPs (nm_Self nm)))" "pk_port pk \<in> set ports" for pk
    using that composed_accepts[OF comp e(1), of pk] e by (auto simp: nft_input_def)
  with r e(2) show ?thesis by blast
qed

lemma compose_sees_only_interface: "composeRemoteTargetPolicy (d\<lparr>dm_VerifyKey := k\<rparr>) base t n = composeRemoteTargetPolicy d base t n"
proof -
  have "dm_FirewallCapable (d\<lparr>dm_VerifyKey := k\<rparr>) = dm_FirewallCapable d"
    "remoteTunnelInterface (d\<lparr>dm_VerifyKey := k\<rparr>) b = remoteTunnelInterface d b" for b
    by (simp_all add: remoteTunnelInterface_def)
  note eqs = this
  show ?thesis unfolding composeRemoteTargetPolicy_def eqs ..
qed

lemma compose_closed: "composeRemoteTargetPolicy d base (closedRemoteTargetPolicy True [22, 5900] 0) n = composeRemoteTargetPolicy d base (dm_result []) n"
proof -
  have "rp_Required (dm_result [])" "rp_ManagedTCPPorts (dm_result []) = [22, 5900]" "rp_Rules (dm_result []) = []"
    by (simp_all add: dm_result_def)
  then show ?thesis unfolding composeRemoteTargetPolicy_def by (simp only: closed_rules)
qed

lemma dm_stale: "deriveRemoteTargetPolicy dm_crypto dm_json id file_load (file_advance (\<lambda>_. Some 100)) (dm_daemon\<lparr>dm_VerifyKey := []\<rparr>)
     (dm_netmap []) 5 sample_store =
   ((closedRemoteTargetPolicy True [22, 5900] 0, Some (remoteTargetPolicyDependency, DependencyUnavailable)), sample_store)"
  using dm_identity_steps(1)
  by (simp add: deriveRemoteTargetPolicy_def dm_daemon_def local_platform_def remoteAccessPlatformForGOOS_def targetPolicyError_def PlatformLinux_def Let_def)

theorem derive_error_closes_boundary_witness:
  "\<exists>inputs outputs. RenderNFT (dm_firewall []) = Inr (nft_document ''rm0'' (Some inputs) outputs) \<and>
    \<not> nft_input ''rm0'' (Some inputs) \<lparr> pk_iface = Some ''rm0'', pk_protocol = Tcp, pk_src = V4 0x64400001, pk_dst = V4 0x64400002, pk_port = 22 \<rparr>"
proof -
  let ?d = "dm_daemon\<lparr>dm_VerifyKey := []\<rparr>"
  have n: "nm_Self (dm_netmap gs) = dm_node" for gs by (simp add: dm_netmap_def dm_node_def)
  have m: "nd_MeshIPs dm_node = [V4 0x64400002]" by (simp add: dm_node_def dm_netmap_def)
  have i: "po_TunnelInterface (dm_firewall []) = ''rm0''" by (simp add: dm_firewall_def)
  have p: "remoteTargetCandidatePorts (dm_Candidates ?d) (local_platform ?d) = Inr [22, 5900]"
    using dm_identity_steps(1)
    by (simp add: dm_daemon_def local_platform_def remoteAccessPlatformForGOOS_def PlatformLinux_def)
  have c: "composeRemoteTargetPolicy ?d no_policy (closedRemoteTargetPolicy True [22, 5900] 0) dm_node = Inr (dm_firewall [])"
    using dm_compose[of "[]" "[]"] dm_validated(1) by (simp add: compose_sees_only_interface compose_closed)
  show ?thesis
    using derive_error_closes_boundary[OF dm_stale p c[folded n[of "[]"]]] unfolding i n m by auto
qed

end
