(* ===== verification/DM_Launchers.thy ===== *)
theory DM_Launchers
  imports DM_Boundary
begin

text \<open>
  The launchers a device offers to its user: \<open>internal/daemon/remote_access_policy.go\<close>, which derives
  from a netmap whether this device may be a target and which services of which peers it may start.
\<close>

section \<open>The view\<close>

record remoteTargetKey =
  rk_nodeID :: string
  rk_meshIP :: string
  rk_platform :: Platform

record remoteAuthorizedService =
  as_service :: ServiceAdvertisement
  as_expiresAt :: time

record remoteAccessView =
  rv_selfAllowed :: bool
  rv_services :: "(remoteTargetKey, remoteAuthorizedService list) gomap"
  rv_timeFloor :: time

definition empty_view :: remoteAccessView where
  "empty_view = \<lparr> rv_selfAllowed = False, rv_services = [], rv_timeFloor = zero_time \<rparr>"

definition exact_peer :: "string \<Rightarrow> string \<Rightarrow> Platform \<Rightarrow> Node \<Rightarrow> bool" where
  "exact_peer nodeID meshIP platform n \<longleftrightarrow> nd_ID n = nodeID \<and> nd_Platform n = platform \<and>
     (case nd_MeshIPs n of [] \<Rightarrow> False | a # _ \<Rightarrow> addr_string a = meshIP)"

fun exact_peer_loop :: "string \<Rightarrow> string \<Rightarrow> Platform \<Rightarrow> Node option \<Rightarrow> Node list \<Rightarrow> Node option" where
  "exact_peer_loop nodeID meshIP platform match [] = match"
| "exact_peer_loop nodeID meshIP platform match (n # ns) =
     (if \<not> exact_peer nodeID meshIP platform n then exact_peer_loop nodeID meshIP platform match ns
      else case match of Some _ \<Rightarrow> None | None \<Rightarrow> exact_peer_loop nodeID meshIP platform (Some n) ns)"

definition exactRemoteAccessPeer :: "Node list \<Rightarrow> string \<Rightarrow> string \<Rightarrow> Platform \<Rightarrow> Node option" where
  "exactRemoteAccessPeer peers nodeID meshIP platform = exact_peer_loop nodeID meshIP platform None peers"

text \<open>The label is not compared.\<close>

definition same_service :: "ServiceAdvertisement \<Rightarrow> ServiceAdvertisement \<Rightarrow> bool" where
  "same_service a b \<longleftrightarrow> sa_Kind a = sa_Kind b \<and> sa_Port a = sa_Port b \<and> sa_Platform a = sa_Platform b \<and>
     sa_TargetNodeID a = sa_TargetNodeID b \<and> sa_TargetMeshIP a = sa_TargetMeshIP b"

fun appendUniqueAuthorizedService ::
  "remoteAuthorizedService list \<Rightarrow> remoteAuthorizedService \<Rightarrow> remoteAuthorizedService list" where
  "appendUniqueAuthorizedService [] candidate = [candidate]"
| "appendUniqueAuthorizedService (s # ss) candidate =
     (if same_service (as_service s) (as_service candidate) then
        (if as_expiresAt s < as_expiresAt candidate then s\<lparr>as_expiresAt := as_expiresAt candidate\<rparr> else s) # ss
      else s # appendUniqueAuthorizedService ss candidate)"

definition presented_context :: "string \<Rightarrow> string \<Rightarrow> string \<Rightarrow> VerifiedPolicyState \<Rightarrow> Node \<Rightarrow> ServiceAdvertisement \<Rightarrow> VerificationContext" where
  "presented_context tenantID selfID selfMeshIP policy target service =
     \<lparr> vc_Now = vp_ObservedAt policy, vc_TenantID = tenantID, vc_GranteeID = selfID,
       vc_ExpectedGranteeMeshIP = selfMeshIP, vc_MinPolicyVersion = vp_Version policy,
       vc_TargetNodeID = nd_ID target, vc_ExpectedKind = sa_Kind service, vc_ExpectedPort = sa_Port service,
       vc_ExpectedPlatform = nd_Platform target, vc_ExpectedMeshIP = sa_TargetMeshIP service \<rparr>"

text \<open>The entry a grant of the netmap adds, if any.\<close>

definition present_grant ::
  "ra_json \<Rightarrow> verifier \<Rightarrow> string \<Rightarrow> VerifiedPolicyState \<Rightarrow> Netmap \<Rightarrow> string \<Rightarrow> SignedGrant \<Rightarrow>
   (remoteTargetKey \<times> remoteAuthorizedService) option" where
  "present_grant J verify tenantID policy nm selfMeshIP sg =
     (let service = gr_Service (sg_Grant sg); selfID = nd_ID (nm_Self nm) in
      if gr_GranteeID (sg_Grant sg) \<noteq> selfID then None
      else case exactRemoteAccessPeer (nm_Peers nm) (sa_TargetNodeID service) (sa_TargetMeshIP service) (sa_Platform service) of
        None \<Rightarrow> None
      | Some target \<Rightarrow>
          (case VerifySignedGrant J sg (Some verify) (presented_context tenantID selfID selfMeshIP policy target service) of
             Inl e \<Rightarrow> None
           | Inr grant \<Rightarrow>
               if gr_PolicyVersion grant \<noteq> vp_Version policy then None
               else case GenerateLauncherMetadata grant of Inl e \<Rightarrow> None | Inr _ \<Rightarrow>
                 Some (\<lparr> rk_nodeID = nd_ID target, rk_meshIP = sa_TargetMeshIP service, rk_platform = nd_Platform target \<rparr>,
                   \<lparr> as_service = gr_Service grant, as_expiresAt = gr_ExpiresAt grant \<rparr>)))"

fun present_grants ::
  "(SignedGrant \<Rightarrow> (remoteTargetKey \<times> remoteAuthorizedService) option) \<Rightarrow> SignedGrant list \<Rightarrow>
   (remoteTargetKey, remoteAuthorizedService list) gomap \<Rightarrow> (remoteTargetKey, remoteAuthorizedService list) gomap" where
  "present_grants present [] services = services"
| "present_grants present (sg # sgs) services =
     (case present sg of None \<Rightarrow> present_grants present sgs services
      | Some (key, s) \<Rightarrow> present_grants present sgs
          (AList.update key (appendUniqueAuthorizedService (map_get [] services key) s) services))"

definition authenticateRemoteAccessNetmap ::
  "crypto \<Rightarrow> ra_json \<Rightarrow> (string \<Rightarrow> string) \<Rightarrow> 's store_load \<Rightarrow> 's store_advance \<Rightarrow> Daemon \<Rightarrow> Netmap \<Rightarrow> time \<Rightarrow> 's \<Rightarrow>
   remoteAccessView \<times> 's" where
  "authenticateRemoteAccessNetmap C J lower load advance d nm now s =
    (if dm_VerifyKey d = [] \<or> \<not> dm_HasStore d then (empty_view, s)
     else let tenantID = remoteAccessTenantID C lower (nd_User (nm_Self nm));
              verify = Ed25519Verifier C (dm_VerifyKey d) in
     case PolicyTimeFloor load tenantID now s of
       (Inl e, s) \<Rightarrow> (empty_view, s)
     | (Inr trustedNow, s) \<Rightarrow>
     (case VerifyPolicyState C J (nm_RemoteAccessPolicyState nm) (Some verify) tenantID trustedNow of
       Inl e \<Rightarrow> (empty_view\<lparr>rv_timeFloor := trustedNow\<rparr>, s)
     | Inr verified \<Rightarrow>
     (case load tenantID s of
       (Inl e, s) \<Rightarrow> (empty_view\<lparr>rv_timeFloor := trustedNow\<rparr>, s)
     | (Inr current, s) \<Rightarrow>
     (case ObservePolicyAt verified current now of
       Inl e \<Rightarrow> (empty_view\<lparr>rv_timeFloor := trustedNow\<rparr>, s)
     | Inr policy \<Rightarrow>
     (let view = empty_view\<lparr>rv_timeFloor := vp_ObservedAt policy\<rparr> in
     if vp_Version policy \<noteq> nm_RemoteAccessPolicyVersion nm then (view, s)
     else case advance policy s of
       (Some e, s) \<Rightarrow> (view, s)
     | (None, s) \<Rightarrow>
         if \<not> vp_Enabled policy then (view, s)
         else (case VerifyTargetState J (nm_RemoteAccessTargetState nm) (Some verify) policy (nd_ID (nm_Self nm)) (vp_ObservedAt policy) of
           Inl e \<Rightarrow> (view, s)
         | Inr target \<Rightarrow>
             let view = view\<lparr>rv_selfAllowed := ts_Enabled target \<and> dm_FirewallCapable d\<rparr> in
             (case nd_MeshIPs (nm_Self nm) of [] \<Rightarrow> (view, s)
              | a # _ \<Rightarrow> (view\<lparr>rv_services := present_grants (present_grant J verify tenantID policy nm (addr_string a))
                  (nm_RemoteAccessGrants nm) []\<rparr>, s))))))))"

definition servicesFor :: "remoteAccessView \<Rightarrow> Node \<Rightarrow> time \<Rightarrow> ServiceAdvertisement list" where
  "servicesFor v peer now0 =
     (let now = (if now0 < rv_timeFloor v then rv_timeFloor v else now0) in
      case nd_MeshIPs peer of [] \<Rightarrow> []
      | a # _ \<Rightarrow> map as_service (filter (\<lambda>item. now < as_expiresAt item)
          (map_get [] (rv_services v) \<lparr> rk_nodeID = nd_ID peer, rk_meshIP = addr_string a, rk_platform = nd_Platform peer \<rparr>)))"

section \<open>What an offered launcher rests on\<close>

lemma exact_peer_loop_matched:
  "exact_peer_loop i ip pl (Some m) ns = (if filter (exact_peer i ip pl) ns = [] then Some m else None)"
  by (induction ns) auto

lemma exactRemoteAccessPeer_unique:
  "exactRemoteAccessPeer ns i ip pl = Some n \<longleftrightarrow> filter (exact_peer i ip pl) ns = [n]"
  unfolding exactRemoteAccessPeer_def by (induction ns) (auto simp: exact_peer_loop_matched)

lemma appendUnique_from:
  "x \<in> set (appendUniqueAuthorizedService ss c) \<Longrightarrow> x \<in> set ss \<or> same_service (as_service x) (as_service c) \<and> as_expiresAt x = as_expiresAt c"
  by (induction ss) (auto simp: same_service_def split: if_splits)

lemma present_grants_from:
  assumes "x \<in> set (map_get [] (present_grants present sgs services) key)"
  shows "x \<in> set (map_get [] services key) \<or> (\<exists>sg\<in>set sgs. \<exists>s. present sg = Some (key, s) \<and>
     same_service (as_service x) (as_service s) \<and> as_expiresAt x = as_expiresAt s)"
  using assms
proof (induction present sgs services rule: present_grants.induct)
  case (2 present sg sgs services)
  show ?case
  proof (cases "present sg")
    case None
    then show ?thesis using 2 by auto
  next
    case (Some ks)
    obtain k s where ks: "ks = (k, s)" by fastforce
    from 2(2)[OF Some ks[symmetric]] 2(3) Some ks show ?thesis by (auto dest!: appendUnique_from split: if_splits)
  qed
qed simp

lemma present_grant_Some:
  assumes "present_grant J verify ten p nm ip sg = Some (key, s)"
  shows "\<exists>g n. grant_authentic J verify sg g \<and> grant_ok g (vp_ObservedAt p) \<and> gr_TenantID g = ten \<and> gr_PolicyVersion g = vp_Version p \<and>
     gr_GranteeID g = nd_ID (nm_Self nm) \<and> gr_GranteeMeshIP g = ip \<and> sa_TargetNodeID (gr_Service g) = nd_ID n \<and>
     filter (exact_peer (nd_ID n) (rk_meshIP key) (rk_platform key)) (nm_Peers nm) = [n] \<and> rk_nodeID key = nd_ID n \<and>
     s = \<lparr> as_service = gr_Service g, as_expiresAt = gr_ExpiresAt g \<rparr>"
proof -
  let ?sv = "gr_Service (sg_Grant sg)"
  obtain n where n: "exactRemoteAccessPeer (nm_Peers nm) (sa_TargetNodeID ?sv) (sa_TargetMeshIP ?sv) (sa_Platform ?sv) = Some n"
    using assms by (auto simp: present_grant_def Let_def split: if_splits option.splits)
  let ?ctx = "presented_context ten (nd_ID (nm_Self nm)) ip p n ?sv"
  obtain g where g: "VerifySignedGrant J sg (Some verify) ?ctx = Inr g"
    using assms n by (auto simp: present_grant_def Let_def split: if_splits sum.splits)
  have rest: "gr_PolicyVersion g = vp_Version p" "key = \<lparr> rk_nodeID = nd_ID n, rk_meshIP = sa_TargetMeshIP ?sv, rk_platform = nd_Platform n \<rparr>"
    "s = \<lparr> as_service = gr_Service g, as_expiresAt = gr_ExpiresAt g \<rparr>"
    using assms n g by (auto simp: present_grant_def Let_def split: if_splits sum.splits)
  have u: "filter (exact_peer (sa_TargetNodeID ?sv) (sa_TargetMeshIP ?sv) (sa_Platform ?sv)) (nm_Peers nm) = [n]"
    using n by (simp add: exactRemoteAccessPeer_unique)
  have "n \<in> set (filter (exact_peer (sa_TargetNodeID ?sv) (sa_TargetMeshIP ?sv) (sa_Platform ?sv)) (nm_Peers nm))" unfolding u by simp
  then have "exact_peer (sa_TargetNodeID ?sv) (sa_TargetMeshIP ?sv) (sa_Platform ?sv) n" by simp
  then have "nd_ID n = sa_TargetNodeID ?sv" "nd_Platform n = sa_Platform ?sv" by (simp_all add: exact_peer_def)
  with u rest g show ?thesis
    unfolding VerifySignedGrant_Inr grant_bound_def presented_context_def by (intro exI[of _ g] exI[of _ n]) simp
qed

text \<open>The services of a view came from grants presented under a policy that was persisted.\<close>

context policy_floor_store
begin

lemma authenticate_cases:
  assumes run: "authenticateRemoteAccessNetmap C J lower load advance d nm now s = (v, s')"
    and x: "x \<in> set (map_get [] (rv_services v) key)"
  shows "\<exists>p a as. nd_MeshIPs (nm_Self nm) = a # as \<and> vp_Enabled p \<and> vp_Version p = nm_RemoteAccessPolicyVersion nm \<and>
     now \<le> vp_ObservedAt p \<and> rv_timeFloor v = vp_ObservedAt p \<and> floors s' (vp_TenantID p) = Some p \<and>
     vp_TenantID p = remoteAccessTenantID C lower (nd_User (nm_Self nm)) \<and>
     rv_services v = present_grants (present_grant J (Ed25519Verifier C (dm_VerifyKey d))
       (remoteAccessTenantID C lower (nd_User (nm_Self nm))) p nm (addr_string a)) (nm_RemoteAccessGrants nm) []"
proof -
  let ?ten = "remoteAccessTenantID C lower (nd_User (nm_Self nm))"
  let ?v = "Some (Ed25519Verifier C (dm_VerifyKey d))"
  have none: "x \<notin> set (map_get [] (rv_services (empty_view\<lparr>rv_timeFloor := f, rv_selfAllowed := b\<rparr>)) key)"
    "x \<notin> set (map_get [] (rv_services (empty_view\<lparr>rv_timeFloor := f\<rparr>)) key)" "x \<notin> set (map_get [] (rv_services empty_view) key)" for f b
    by (simp_all add: empty_view_def map_get_def)
  have dep: "\<not> (dm_VerifyKey d = [] \<or> \<not> dm_HasStore d)"
  proof
    assume a: "dm_VerifyKey d = [] \<or> \<not> dm_HasStore d"
    show False using run[unfolded authenticateRemoteAccessNetmap_def Let_def if_P[OF a]] none x by auto
  qed
  note step = run[unfolded authenticateRemoteAccessNetmap_def Let_def if_not_P[OF dep]]
  obtain n s1 where fl: "PolicyTimeFloor load ?ten now s = (Inr n, s1)"
    using step none x by (cases "PolicyTimeFloor load ?ten now s"; cases "fst (PolicyTimeFloor load ?ten now s)") auto
  note step = step[unfolded fl prod.case sum.case]
  obtain w where w: "VerifyPolicyState C J (nm_RemoteAccessPolicyState nm) ?v ?ten n = Inr w"
    using step none x by (cases "VerifyPolicyState C J (nm_RemoteAccessPolicyState nm) ?v ?ten n") auto
  note step = step[unfolded w sum.case]
  obtain cur s2 where ld: "load ?ten s1 = (Inr cur, s2)"
    using step none x by (cases "load ?ten s1"; cases "fst (load ?ten s1)") auto
  note step = step[unfolded ld prod.case sum.case]
  obtain p where p: "ObservePolicyAt w cur now = Inr p"
    using step none x by (cases "ObservePolicyAt w cur now") auto
  note step = step[unfolded p sum.case]
  have ver: "\<not> (vp_Version p \<noteq> nm_RemoteAccessPolicyVersion nm)" using step none x by (auto split: if_splits)
  note step = step[unfolded if_not_P[OF ver]]
  obtain s3 where ad: "advance p s2 = (None, s3)"
    using step none x by (cases "advance p s2"; cases "fst (advance p s2)") auto
  note step = step[unfolded ad prod.case option.case]
  have en: "vp_Enabled p" using step none x by (auto split: if_splits)
  obtain t a as where t: "VerifyTargetState J (nm_RemoteAccessTargetState nm) ?v p (nd_ID (nm_Self nm)) (vp_ObservedAt p) = Inr t"
    and a: "nd_MeshIPs (nm_Self nm) = a # as"
    using step none x en by (auto split: sum.splits list.splits)
  have w': "vp_TenantID w = ?ten" "vp_ObservedAt w = n" using VerifyPolicyState_Inr[OF w] by (auto simp: policy_authentic_def)
  have o: "now \<le> vp_ObservedAt p" "vp_TenantID p = ?ten"
    using p w' time_floor[OF fl] by (auto simp: ObservePolicyAt_def split: if_splits option.splits)
  have "v = empty_view\<lparr>rv_timeFloor := vp_ObservedAt p, rv_selfAllowed := ts_Enabled t \<and> dm_FirewallCapable d,
      rv_services := present_grants (present_grant J (Ed25519Verifier C (dm_VerifyKey d)) ?ten p nm (addr_string a)) (nm_RemoteAccessGrants nm) []\<rparr>"
    "s' = s3" using step en t a by (simp_all add: empty_view_def)
  then show ?thesis using a en ver o advance_ok[OF ad] by (intro exI[of _ p] exI[of _ a] exI[of _ as]) simp
qed

lemma launcher_backed:
  assumes run: "authenticateRemoteAccessNetmap C J lower load advance d nm now s = (v, s')"
    and sv: "service \<in> set (servicesFor v peer later)"
  shows "\<exists>sg g p n. sg \<in> set (nm_RemoteAccessGrants nm) \<and> grant_authentic J (Ed25519Verifier C (dm_VerifyKey d)) sg g \<and>
     floors s' (gr_TenantID g) = Some p \<and> vp_Enabled p \<and> vp_Version p = nm_RemoteAccessPolicyVersion nm \<and>
     gr_PolicyVersion g = vp_Version p \<and> now \<le> vp_ObservedAt p \<and> grant_ok g (vp_ObservedAt p) \<and> later < gr_ExpiresAt g \<and>
     gr_TenantID g = remoteAccessTenantID C lower (nd_User (nm_Self nm)) \<and> gr_GranteeID g = nd_ID (nm_Self nm) \<and>
     gr_GranteeMeshIP g = addr_string (hd (nd_MeshIPs (nm_Self nm))) \<and> same_service service (gr_Service g) \<and>
     sa_TargetNodeID service = nd_ID peer \<and>
     filter (exact_peer (nd_ID peer) (addr_string (hd (nd_MeshIPs peer))) (nd_Platform peer)) (nm_Peers nm) = [n]"
proof -
  obtain b bs where b: "nd_MeshIPs peer = b # bs" using sv by (cases "nd_MeshIPs peer") (auto simp: servicesFor_def)
  let ?key = "\<lparr> rk_nodeID = nd_ID peer, rk_meshIP = addr_string b, rk_platform = nd_Platform peer \<rparr>"
  obtain x where x: "x \<in> set (map_get [] (rv_services v) ?key)" "service = as_service x" "later < as_expiresAt x"
    using sv b by (auto simp: servicesFor_def Let_def split: if_splits)
  obtain p a as where p: "nd_MeshIPs (nm_Self nm) = a # as" "vp_Enabled p" "vp_Version p = nm_RemoteAccessPolicyVersion nm"
     "now \<le> vp_ObservedAt p" "floors s' (vp_TenantID p) = Some p" "vp_TenantID p = remoteAccessTenantID C lower (nd_User (nm_Self nm))"
     and vs: "rv_services v = present_grants (present_grant J (Ed25519Verifier C (dm_VerifyKey d))
       (remoteAccessTenantID C lower (nd_User (nm_Self nm))) p nm (addr_string a)) (nm_RemoteAccessGrants nm) []"
    using authenticate_cases[OF run x(1)] by blast
  obtain sg s where sg: "sg \<in> set (nm_RemoteAccessGrants nm)" "same_service (as_service x) (as_service s)" "as_expiresAt x = as_expiresAt s"
    and pg: "present_grant J (Ed25519Verifier C (dm_VerifyKey d)) (remoteAccessTenantID C lower (nd_User (nm_Self nm))) p nm (addr_string a) sg = Some (?key, s)"
    using present_grants_from[OF x(1)[unfolded vs]] by (auto simp: map_get_def)
  from present_grant_Some[OF pg] show ?thesis
    using p sg x b by (fastforce simp: same_service_def)
qed

end

text \<open>
  C25: every launcher offered is backed by a grant. A service that the view of a netmap offers for a peer at
  some later time is the service of a correctly signed grant of the netmap made out to this device and
  its address, unexpired at that time, in time when the netmap was observed and of the policy version
  that the file store now holds as an enabled floor; the peer is the only one of the netmap with this identity.
\<close>

theorem launchers_are_backed:
  assumes "authenticateRemoteAccessNetmap C J lower file_load (file_advance json_size) d nm now s = (v, s')"
    and "service \<in> set (servicesFor v peer later)"
  shows "\<exists>sg g p n. sg \<in> set (nm_RemoteAccessGrants nm) \<and> grant_authentic J (Ed25519Verifier C (dm_VerifyKey d)) sg g \<and>
     file_floors s' (gr_TenantID g) = Some p \<and> vp_Enabled p \<and> vp_Version p = nm_RemoteAccessPolicyVersion nm \<and>
     gr_PolicyVersion g = vp_Version p \<and> now \<le> vp_ObservedAt p \<and> grant_ok g (vp_ObservedAt p) \<and> later < gr_ExpiresAt g \<and>
     gr_TenantID g = remoteAccessTenantID C lower (nd_User (nm_Self nm)) \<and> gr_GranteeID g = nd_ID (nm_Self nm) \<and>
     gr_GranteeMeshIP g = addr_string (hd (nd_MeshIPs (nm_Self nm))) \<and> same_service service (gr_Service g) \<and>
     sa_TargetNodeID service = nd_ID peer \<and>
     filter (exact_peer (nd_ID peer) (addr_string (hd (nd_MeshIPs peer))) (nd_Platform peer)) (nm_Peers nm) = [n]"
  by (rule file_store.launcher_backed[OF assms])

text \<open>The same grant as seen by the device it was made out to.\<close>

definition la_json :: ra_json where "la_json = dm_json\<lparr>rd_target := (\<lambda>b. if b = [3] then Some (dm_target\<lparr>ts_TargetNodeID := ''s''\<rparr>) else None)\<rparr>"

definition la_self :: Node where "la_self = sample_node\<lparr>nd_ID := ''s'', nd_User := ''u'', nd_Platform := ''macos'', nd_MeshIPs := [V4 0x64400001]\<rparr>"

definition la_peer :: Node where "la_peer = sample_node\<lparr>nd_ID := ''t'', nd_User := ''u'', nd_Platform := ''linux'', nd_MeshIPs := [V4 0x64400002]\<rparr>"

definition la_netmap :: Netmap where
  "la_netmap = (dm_netmap [dm_signed [1] ''g''])\<lparr>nm_Self := la_self, nm_Peers := [la_peer]\<rparr>"

definition la_view :: remoteAccessView where
  "la_view = \<lparr> rv_selfAllowed = True, rv_services = [(\<lparr> rk_nodeID = ''t'', rk_meshIP = ''100.64.0.2'', rk_platform = ''linux'' \<rparr>,
     [\<lparr> as_service = dm_service, as_expiresAt = 900 \<rparr>])], rv_timeFloor = 5 \<rparr>"

lemma la_node_sel:
  "nd_ID la_self = ''s''" "nd_User la_self = ''u''" "nd_MeshIPs la_self = [V4 0x64400001]"
  "nd_ID la_peer = ''t''" "nd_Platform la_peer = ''linux''" "nd_MeshIPs la_peer = [V4 0x64400002]"
  by (simp_all add: la_self_def la_peer_def)

lemma la_netmap_sel:
  "nm_Self la_netmap = la_self" "nm_Peers la_netmap = [la_peer]" "nm_RemoteAccessPolicyState la_netmap = dm_signed_policy"
  "nm_RemoteAccessTargetState la_netmap = \<lparr> sp_Payload = [3], sp_Signature = [7] \<rparr>" "nm_RemoteAccessPolicyVersion la_netmap = 3"
  "nm_RemoteAccessGrants la_netmap = [dm_signed [1] ''g'']"
  by (simp_all add: la_netmap_def dm_netmap_def)

lemma la_steps:
  "VerifyPolicyState dm_crypto la_json dm_signed_policy dm_verifier dm_tenant 5 = Inr dm_verified"
  "VerifyTargetState la_json \<lparr> sp_Payload = [3], sp_Signature = [7] \<rparr> dm_verifier dm_verified ''s'' 5 = Inr (dm_target\<lparr>ts_TargetNodeID := ''s''\<rparr>)"
  "VerifySignedGrant la_json (dm_signed [1] ''g'') dm_verifier
     \<lparr> vc_Now = 5, vc_TenantID = dm_tenant, vc_GranteeID = ''s'', vc_ExpectedGranteeMeshIP = ''100.64.0.1'', vc_MinPolicyVersion = 3,
       vc_TargetNodeID = ''t'', vc_ExpectedKind = ''ssh'', vc_ExpectedPort = 22, vc_ExpectedPlatform = ''linux'',
       vc_ExpectedMeshIP = ''100.64.0.2'' \<rparr> = Inr (dm_grant ''g'')"
  "\<exists>m. GenerateLauncherMetadata (dm_grant ''g'') = Inr m"
  "v4_string 0x64400001 = ''100.64.0.1''" "v4_string 0x64400002 = ''100.64.0.2''"
proof -
  have "\<not> isl (GenerateLauncherMetadata (dm_grant ''g''))" by code_simp
  then show "\<exists>m. GenerateLauncherMetadata (dm_grant ''g'') = Inr m" by (cases "GenerateLauncherMetadata (dm_grant ''g'')") auto
qed code_simp+

lemma la_present:
  "present_grant la_json (Ed25519Verifier dm_crypto dm_key) dm_tenant dm_verified la_netmap ''100.64.0.1'' (dm_signed [1] ''g'') =
   Some (\<lparr> rk_nodeID = ''t'', rk_meshIP = ''100.64.0.2'', rk_platform = ''linux'' \<rparr>, \<lparr> as_service = dm_service, as_expiresAt = 900 \<rparr>)"
proof -
  obtain m where m: "GenerateLauncherMetadata (dm_grant ''g'') = Inr m" using la_steps(4) by blast
  have sel: "sg_Grant (dm_signed [1] ''g'') = dm_grant ''g''" "gr_GranteeID (dm_grant ''g'') = ''s''" "gr_Service (dm_grant ''g'') = dm_service"
    "gr_PolicyVersion (dm_grant ''g'') = 3" "gr_ExpiresAt (dm_grant ''g'') = 900" "vp_Version dm_verified = 3" "vp_ObservedAt dm_verified = 5"
    "sa_TargetNodeID dm_service = ''t''" "sa_TargetMeshIP dm_service = ''100.64.0.2''" "sa_Platform dm_service = ''linux''"
    "sa_Kind dm_service = ''ssh''" "sa_Port dm_service = 22"
    by (simp_all add: dm_signed_def dm_grant_def dm_service_def dm_verified_def dm_policy_def)
  have peer: "exactRemoteAccessPeer [la_peer] ''t'' ''100.64.0.2'' ''linux'' = Some la_peer"
    by (simp add: exactRemoteAccessPeer_def exact_peer_def la_node_sel la_steps(6))
  have ctx: "presented_context dm_tenant ''s'' ''100.64.0.1'' dm_verified la_peer dm_service =
     \<lparr> vc_Now = 5, vc_TenantID = dm_tenant, vc_GranteeID = ''s'', vc_ExpectedGranteeMeshIP = ''100.64.0.1'', vc_MinPolicyVersion = 3,
       vc_TargetNodeID = ''t'', vc_ExpectedKind = ''ssh'', vc_ExpectedPort = 22, vc_ExpectedPlatform = ''linux'',
       vc_ExpectedMeshIP = ''100.64.0.2'' \<rparr>"
    by (simp add: presented_context_def sel la_node_sel)
  show ?thesis
    by (simp add: present_grant_def Let_def sel la_netmap_sel la_node_sel peer ctx la_steps(3) m)
qed

lemma la_authenticated:
  "authenticateRemoteAccessNetmap dm_crypto la_json id file_load (file_advance (\<lambda>_. Some 100)) dm_daemon la_netmap 5 sample_store = (la_view, dm_stored)"
proof -
  have st: "file_advance (\<lambda>_. Some 100) dm_verified sample_store = (None, dm_stored)"
    unfolding dm_stored_def by (rule prod_eqI) (simp_all add: dm_policy_steps(5))
  have dsel: "dm_VerifyKey dm_daemon = dm_key" "dm_HasStore dm_daemon" "dm_FirewallCapable dm_daemon" "dm_key \<noteq> []"
    by (simp_all add: dm_daemon_def dm_key_def)
  have vs: "vp_Version dm_verified = 3" "vp_Enabled dm_verified" "vp_ObservedAt dm_verified = 5"
    "ts_Enabled (dm_target\<lparr>ts_TargetNodeID := ''s''\<rparr>)" "ObservePolicyAt dm_verified None 5 = Inr dm_verified"
    by (simp_all add: dm_verified_def dm_policy_def dm_target_def ObservePolicyAt_def is_zero_time_def zero_time_def)
  show ?thesis
    by (simp add: authenticateRemoteAccessNetmap_def dsel la_netmap_sel la_node_sel dm_policy_steps(1,2,4) la_steps vs st la_present
        empty_view_def la_view_def map_get_def Let_def)
qed

theorem launchers_are_backed_witness:
  "servicesFor la_view la_peer 6 = [dm_service] \<and>
   (\<exists>sg g p. sg \<in> set (nm_RemoteAccessGrants la_netmap) \<and> grant_authentic la_json (Ed25519Verifier dm_crypto dm_key) sg g \<and>
     file_floors dm_stored (gr_TenantID g) = Some p \<and> vp_Enabled p \<and> same_service dm_service (gr_Service g))"
proof
  show s: "servicesFor la_view la_peer 6 = [dm_service]"
    by (simp add: servicesFor_def la_view_def la_node_sel la_steps map_get_def)
  have k: "dm_VerifyKey dm_daemon = dm_key" by (simp add: dm_daemon_def)
  from launchers_are_backed[OF la_authenticated, of dm_service la_peer 6, unfolded k] s
  show "\<exists>sg g p. sg \<in> set (nm_RemoteAccessGrants la_netmap) \<and> grant_authentic la_json (Ed25519Verifier dm_crypto dm_key) sg g \<and>
     file_floors dm_stored (gr_TenantID g) = Some p \<and> vp_Enabled p \<and> same_service dm_service (gr_Service g)"
    by auto
qed

text \<open>
  A version in the netmap that differs from the signed one leaves the floors of the store as they were here,
  while \<open>deriveRemoteTargetPolicy\<close> advances the floor before it compares.
\<close>

lemma mismatch_keeps_floor:
  assumes "VerifyPolicyState C J (nm_RemoteAccessPolicyState nm) (Some (Ed25519Verifier C (dm_VerifyKey d)))
      (remoteAccessTenantID C lower (nd_User (nm_Self nm))) n = Inr w"
    and "vp_Version w \<noteq> nm_RemoteAccessPolicyVersion nm"
    and "PolicyTimeFloor file_load (remoteAccessTenantID C lower (nd_User (nm_Self nm))) now s = (Inr n, s1)"
    and run: "authenticateRemoteAccessNetmap C J lower file_load (file_advance json_size) d nm now s = (v, s')"
  shows "file_floors s' = file_floors s"
proof -
  let ?ten = "remoteAccessTenantID C lower (nd_User (nm_Self nm))"
  have k: "file_floors s1 = file_floors s" using file_store.time_floor[OF assms(3)] by blast
  have l: "file_floors (snd (file_load ?ten s1)) = file_floors s1" using file_store.load_keeps by (metis surjective_pairing)
  have v: "vp_Version q = vp_Version w" if "ObservePolicyAt w c now = Inr q" for q c
    using that by (auto simp: ObservePolicyAt_def split: if_splits option.splits)
  show ?thesis
    using run assms(1-3) k l unfolding authenticateRemoteAccessNetmap_def
    by (auto simp: Let_def dest: v split: if_splits prod.splits sum.splits)
qed

end
