(* ===== verification/Spec2Isabelle.thy ===== *)
theory Spec2Isabelle
  imports FT_Open FT_Collect RS_Locks NG_Darwin RL_Frames RT_Routing MS_Stun DN_Zone DM_Launchers
begin

text \<open>
  Verification development for RatelMesh (Go), a mesh VPN built on WireGuard: a daemon on every device,
  a coordinator that hands out netmaps and signed credentials, relays, and clients that transfer files
  and open remote-access sessions between devices. The development models the parts of the daemon that
  decide something - what is accepted, launched, forwarded, blocked, kept or deleted - and leaves the
  operating system, the network and the user as answers the model ranges over.

  \<^bold>\<open>How the parts hang together.\<close> The coordinator's key authority signs nodes (\<open>sign\<close>) and, per tenant, a
  remote-access policy, grants and target states (\<open>remoteaccess\<close>). A source device turns a grant into a
  launch (\<open>AuthorizeSource\<close>), a target device turns the grants of its netmap into firewall rules
  (\<open>ReconcileTarget\<close>), both against a policy floor that must never roll back; the rules become a
  \<open>netguard.Policy\<close>, which also carries the kill switch, and are rendered for nftables or pf. Starting the
  service a grant points to is a confirmed, exclusive transaction (\<open>remoteservice\<close>). Files are offered,
  encrypted per chunk, admitted under quotas, received, resumed, published and collected (\<open>filetransfer\<close>).
  Traffic finds its peer through STUN and candidate paths (\<open>magicsock\<close>) or a relay (\<open>relay\<close>), leaves by
  the split-tunnel rules (\<open>routing\<close>) and is named by MagicDNS (\<open>dns\<close>).

  \<^bold>\<open>Conventions.\<close> Definitions carry the source's names. Structs are records, enums datatypes or their
  string constants, machine integers words where overflow can matter (\<open>int64\<close> counters, wire fields) and
  \<open>int\<close> or \<open>nat\<close> elsewhere. A Go string is a list of bytes written as \<open>string\<close>; time is \<open>int\<close> nanoseconds
  and \<open>Sub\<close> saturates. A Go map is an association list with distinct keys whose order is the iteration
  order, so a statement about all lists holds for every order Go may choose. Errors are values: \<open>'e + 'a\<close>
  for calls with a result, \<open>'e option\<close> for calls that return only an error, an outcome of its own for
  a slice out of range. A joined error keeps its first part. Calls to the outside are answered by lists or functions in the state:
  every file operation consumes a failure flag and may fail, random bytes come from a stream, clocks,
  contexts and prompts are choices of steps.

  \<^bold>\<open>Library.\<close> \<open>Prelude\<close>: collections of simplification rules (\<open>branch_simps\<close>, \<open>codec_simps\<close>), result
  combinators, bytes and characters, big-endian integers, arrays, maps, counting. \<open>GoStrings\<close>, \<open>Netip\<close>,
  \<open>Go_Sort\<close>: what the modelled files use of \<open>strings\<close>, \<open>unicode/utf8\<close>, \<open>strconv\<close>, \<open>hex\<close>, \<open>path\<close>, \<open>time\<close>,
  \<open>net/netip\<close> and \<open>sort\<close>. \<open>Crypto\<close>: the primitives as a record of functions with named laws (sizes,
  verification of signatures, key agreement, opening what was sealed) and an instance for witnesses.

  \<^bold>\<open>File transfer\<close> (\<open>internal/filetransfer\<close>). \<open>FT_Types\<close> (\<open>types.go\<close>): limits, filename policy, manifests;
  chunks of a validated manifest cover the file. \<open>FT_Encoding\<close> (\<open>encoding.go\<close>): the decoder and the manifest
  format; the locale \<open>codec\<close> states what every wire format promises and is interpreted for manifests,
  reservations, resume tokens, offers and chunks. \<open>FT_Resume\<close> (\<open>resume.go\<close>), \<open>FT_Offer\<close> (\<open>binding.go\<close>,
  \<open>offer.go\<close>), \<open>FT_Sender\<close> (\<open>sender.go\<close>): tokens, device bindings, offers and the sender; offers open for
  their recipient and only for it. \<open>FT_Admission\<close> (\<open>admission.go\<close>, \<open>state.go\<close>): the quota manager as a
  transition system with exact counters. \<open>FT_Files\<close>, \<open>FT_State\<close>, \<open>FT_Lease\<close> (\<open>state.go\<close>, \<open>durability.go\<close>,
  \<open>lease*.go\<close>): the state directory over failing file operations. \<open>FT_Receiver\<close>, \<open>FT_Resumption\<close>, \<open>FT_Open\<close>,
  \<open>FT_Publish\<close>, \<open>FT_Cancel\<close> (\<open>receiver.go\<close>, \<open>tombstone.go\<close>): opening, receiving, resuming, finalizing and
  giving up a transfer. \<open>FT_Collect\<close> (\<open>gc.go\<close>): garbage collection, which spares live transfers.

  \<^bold>\<open>Remote access\<close> (\<open>internal/remoteaccess\<close>). \<open>RA_Models\<close> (\<open>models.go\<close>, \<open>launcher.go\<close>,
  \<open>enforcement_errors.go\<close>); \<open>RA_Policy\<close> (\<open>policy.go\<close>): the locale \<open>policy_floor_store\<close> is the store's
  contract, interpreted by the memory store and, for every pattern of failing calls, by the file store;
  what is proved inside it (floors only move forward, \<open>AuthorizeSource\<close>, \<open>ReconcileTarget\<close>) holds for both.
  \<open>RA_Authorize\<close> (\<open>crypto.go\<close>, \<open>target_state.go\<close>, \<open>authorization.go\<close>); \<open>RA_Reconcile\<close> (\<open>reconcile.go\<close>).

  \<^bold>\<open>Remote service\<close> (\<open>internal/remoteservice\<close>). \<open>RS_Transaction\<close> (\<open>types.go\<close> and the part of
  \<open>EnsureRunning\<close> under the target's lock): outcomes for every behaviour of the OS backend. \<open>RS_Manager\<close>
  (\<open>confirmation.go\<close>, \<open>manager.go\<close>): \<open>confirm_step\<close> and \<open>tx_step\<close> are inductive step relations of many
  concurrent calls, one step per critical section; \<open>RS_Locks\<close>: exclusion, exact counting, no deadlock.

  \<^bold>\<open>Networking\<close>. \<open>NG_Firewall\<close> (\<open>internal/netguard\<close>: \<open>netguard.go\<close>, \<open>enforcer.go\<close>): validation, both renderings and
  the verdict of the rendered rules on packets. \<open>RL_Frames\<close> (\<open>internal/relay\<close>): frames over a writer that may
  cut writes, the bind handshake, \<open>Send\<close> and \<open>Receive\<close>. \<open>RT_Routing\<close> (\<open>internal/routing\<close>): the split-tunnel engine
  against a most-specific-rule reference. \<open>MS_Stun\<close> (\<open>internal/magicsock\<close>: \<open>stun.go\<close>, \<open>stun_server.go\<close>,
  \<open>path.go\<close>): STUN messages, the rate limit, peer paths. \<open>SG_Sign\<close> (\<open>internal/sign/sign.go\<close>, \<open>types.Node\<close>): what a
  signed transcript determines. \<open>DN_Zone\<close> (\<open>internal/dns/zone.go\<close>): labels and the zone of a netmap.

  \<^bold>\<open>Bounds and fuel.\<close> The only fuel is in the IPv6 parser: 8, the number of groups an address can have.
  Every other loop is structural or has a termination proof (\<open>writeAll\<close>, \<open>Receive_from\<close> and \<open>parse_attrs\<close> on the bytes
  left, UTF-8 segments on the string).

  \<^bold>\<open>Not modelled.\<close> Crash durability (the effect of \<open>fsync\<close>), file permissions and ownership, races with
  other processes between two file calls beyond the leases, the \<open>SameFile\<close> identity checks, the retry of
  a transient \<open>ENOENT\<close> on the trusted-time lock; nil receivers; the JSON codec (a parameter) and the text
  of error messages; the OS service backends, the real firewall enforcer and its command lines; key files
  of the authority. The daemon (\<open>internal/daemon\<close>), the WireGuard engines (\<open>internal/wgengine\<close>), the
  diagnosis packages (\<open>internal/diagnose\<close>, \<open>internal/doctorplatform\<close>), the control-plane client, transports and
  the DNS server are orchestration over sockets, processes and clocks and are left out.
\<close>

end
